(* ===== verification/Prelude.thy ===== *)
theory Prelude
  imports Main "HOL-Library.Word"
begin

unbundle bit_operations_syntax

text \<open>
  What every component of the development shares: the machine types of the C code, the
  outcome type of an operation that may abort the process, the sequencing of such
  operations, and generic lemmas on words and alignment.

  An operation of the virtual machine either returns (\<open>Inr\<close>) or stops the process
  (\<open>Inl\<close>). \<open>Fatal\<close> is the code's own \<^verbatim>\<open>FATAL\<close> macro (\<^verbatim>\<open>vm/cutil.h\<close>: log and
  \<^verbatim>\<open>abort\<close>); \<open>Undefined\<close> marks an access that the C standard leaves undefined (a wild
  pointer, a type confusion, a read of uninitialised memory); \<open>Fuel\<close> is the model's own
  marker for a loop that used up its bound, or for one that does not return.
\<close>

section \<open>Machine types and outcomes\<close>

type_synonym u8 = "8 word"
type_synonym u16 = "16 word"
type_synonym u32 = "32 word"
type_synonym u64 = "64 word"

text \<open>Addresses and byte counts that are already known to lie in the address space.\<close>

type_synonym addr = nat

datatype vm_error = Fatal string | Undefined string | Fuel

type_synonym 'a outcome = "vm_error + 'a"

definition bindE :: "'a outcome \<Rightarrow> ('a \<Rightarrow> 'b outcome) \<Rightarrow> 'b outcome" where
  "bindE m f = (case m of Inl e \<Rightarrow> Inl e | Inr x \<Rightarrow> f x)"

text \<open>The \<^verbatim>\<open>ASSERT\<close> macro: abort unless the condition holds.\<close>

definition ASSERT :: "bool \<Rightarrow> string \<Rightarrow> 'a outcome \<Rightarrow> 'a outcome" where
  "ASSERT c msg k = (if c then k else Inl (Fatal (''Assertion failed '' @ msg)))"

text \<open>An optional read: the C code dereferences, the model reports a wild access.\<close>

definition deref :: "'a option \<Rightarrow> string \<Rightarrow> 'a outcome" where
  "deref x msg = (case x of None \<Rightarrow> Inl (Undefined msg) | Some y \<Rightarrow> Inr y)"

named_theorems outcome_simps \<open>facts that evaluate sequenced outcomes\<close>
named_theorems obj_simps \<open>tag and payload of the object words\<close>

lemma bindE_simps [simp]:
  "bindE (Inl e) f = Inl e"
  "bindE (Inr x) f = f x"
  by (simp_all add: bindE_def)

lemma bindE_cong [fundef_cong]:
  "\<lbrakk>m = m'; \<And>x. m' = Inr x \<Longrightarrow> f x = f' x\<rbrakk> \<Longrightarrow> bindE m f = bindE m' f'"
  by (auto simp: bindE_def split: sum.splits)

lemma bindE_Inr_iff: "bindE m f = Inr y \<longleftrightarrow> (\<exists>x. m = Inr x \<and> f x = Inr y)"
  by (auto simp: bindE_def split: sum.splits)

lemma bindE_InrE:
  assumes "bindE m f = Inr y"
  obtains x where "m = Inr x" and "f x = Inr y"
  using assms by (auto simp: bindE_Inr_iff)

lemma bindE_assoc: "bindE (bindE m f) g = bindE m (\<lambda>x. bindE (f x) g)"
  by (cases m) auto

lemma ASSERT_Inr_iff [simp]: "ASSERT c msg k = Inr x \<longleftrightarrow> c \<and> k = Inr x"
  by (simp add: ASSERT_def)

lemma ASSERT_True [simp]: "ASSERT True msg k = k"
  by (simp add: ASSERT_def)

lemma deref_simps [simp]:
  "deref None msg = Inl (Undefined msg)"
  "deref (Some y) msg = Inr y"
  "deref x msg = Inr y \<longleftrightarrow> x = Some y"
  by (auto simp: deref_def split: option.splits)

section \<open>Words\<close>

lemma mask_3_eq: "mask 3 = (7 :: u64)"
  by (simp add: mask_eq_exp_minus_1)

text \<open>Clearing the low three bits rounds down to a multiple of eight.\<close>

lemma and_not_mask_word: "w AND NOT (mask n) = push_bit n (drop_bit n w)" for w :: "'a::len word"
  by (rule bit_word_eqI) (auto simp: bit_simps)

lemma unat_less_64: "unat w < 18446744073709551616" for w :: u64
  using unsigned_less [of w, where ?'a = nat] by simp

lemma take_bit_64_unat [simp]: "take_bit 64 (unat w) = unat w" for w :: u64
  using unat_less_64 [of w] by (simp add: take_bit_nat_eq_self_iff)

lemma unat_push_drop_3: "unat (push_bit 3 (drop_bit 3 w)) = unat w div 8 * 8" for w :: u64
proof -
  have "unat w div 8 * 8 < 2 ^ 64"
    by (rule order_le_less_trans [OF div_times_less_eq_dividend]) (use unat_less_64 [of w] in simp)
  then have "take_bit 64 (unat w div 8 * 8) = unat w div 8 * 8"
    by (simp add: take_bit_nat_eq_self_iff)
  then show ?thesis
    by (simp only: unsigned_push_bit_eq unsigned_drop_bit_eq)
      (simp add: push_bit_eq_mult drop_bit_eq_div)
qed

lemma unat_and_m8: "unat (w AND - 8) = unat w div 8 * 8" for w :: u64
  using and_not_mask_word [of w 3] unat_push_drop_3 [of w] by (simp add: mask_3_eq)

lemma dvd_8_div_mult [simp]: "8 dvd a \<Longrightarrow> a div 8 * 8 = (a :: nat)"
  by (rule dvd_div_mult_self)

lemma dvd_8_add: "8 dvd a \<Longrightarrow> 8 dvd b \<Longrightarrow> 8 dvd (a + b :: nat)"
  by (rule dvd_add)

end
