(* ===== verification/Objects.thy ===== *)
theory Objects
  imports Prelude
begin

unbundle bit_operations_syntax

text \<open>
  The object words of \<^verbatim>\<open>vm/types.h\<close>: an \<^verbatim>\<open>obj_t\<close> is a 64-bit word whose low three
  bits are a tag. Fixnums, characters and constants are shifted above the tag; pointers are
  8-byte aligned addresses with the tag in their low bits. \<^verbatim>\<open>long\<close> values are 64-bit words
  read as two's complement.
\<close>

section \<open>Tags\<close>

type_synonym obj = u64

definition TAG_SIZE :: nat where "TAG_SIZE = 3"
definition TAG_MASK :: u64 where "TAG_MASK = 7"
definition TAG_UNMASK :: u64 where "TAG_UNMASK = -1 - TAG_MASK"

definition TAG_FIXNUM :: u64 where "TAG_FIXNUM = 0"
definition TAG_PTR :: u64 where "TAG_PTR = 1"
definition TAG_CONST_PTR :: u64 where "TAG_CONST_PTR = 2"
definition TAG_CHAR :: u64 where "TAG_CHAR = 3"
definition TAG_FUNC :: u64 where "TAG_FUNC = 4"
definition TAG_CONST :: u64 where "TAG_CONST = 5"

definition ADD_TAG :: "u64 \<Rightarrow> u64 \<Rightarrow> obj" where
  "ADD_TAG v tag = (push_bit TAG_SIZE v) OR tag"

text \<open>\<^verbatim>\<open>UNTAG\<close> shifts right: logically on an unsigned word, arithmetically on a \<^verbatim>\<open>long\<close>.\<close>

definition UNTAG :: "obj \<Rightarrow> u64" where "UNTAG x = drop_bit TAG_SIZE x"
definition UNTAG_long :: "obj \<Rightarrow> u64" where "UNTAG_long x = signed_drop_bit TAG_SIZE x"

definition SET_TAG :: "u64 \<Rightarrow> u64 \<Rightarrow> obj" where "SET_TAG x tag = x OR tag"
definition UNSET_TAG :: "obj \<Rightarrow> u64" where "UNSET_TAG x = x AND TAG_UNMASK"
definition GET_TAG :: "obj \<Rightarrow> u64" where "GET_TAG x = x AND TAG_MASK"
definition TEST_TAG :: "obj \<Rightarrow> u64 \<Rightarrow> bool" where "TEST_TAG x tag \<longleftrightarrow> GET_TAG x = tag"

section \<open>Fixnums, characters, constants, pointers\<close>

definition MAKE_FIXNUM :: "u64 \<Rightarrow> obj" where "MAKE_FIXNUM v = ADD_TAG v TAG_FIXNUM"
definition FIXNUM :: "obj \<Rightarrow> u64" where "FIXNUM x = UNTAG_long x"
definition IS_FIXNUM :: "obj \<Rightarrow> bool" where "IS_FIXNUM x \<longleftrightarrow> TEST_TAG x TAG_FIXNUM"

text \<open>A C pointer is an address below \<open>2 ^ 64\<close>; \<^verbatim>\<open>NULL\<close> is 0.\<close>

definition PTR :: "obj \<Rightarrow> addr" where "PTR x = unat (UNSET_TAG x)"

definition MAKE_TAGGED_PTR :: "addr \<Rightarrow> u64 \<Rightarrow> obj" where
  "MAKE_TAGGED_PTR a tag = SET_TAG (UNSET_TAG (of_nat a)) tag"

definition MAKE_HEAP_PTR :: "addr \<Rightarrow> obj" where "MAKE_HEAP_PTR a = MAKE_TAGGED_PTR a TAG_PTR"
definition MAKE_CONST_PTR :: "addr \<Rightarrow> obj" where
  "MAKE_CONST_PTR a = MAKE_TAGGED_PTR a TAG_CONST_PTR"
definition MAKE_FUNC :: "addr \<Rightarrow> obj" where "MAKE_FUNC a = MAKE_TAGGED_PTR a TAG_FUNC"
definition IS_HEAP_PTR :: "obj \<Rightarrow> bool" where "IS_HEAP_PTR x \<longleftrightarrow> TEST_TAG x TAG_PTR"
definition IS_CONST_PTR :: "obj \<Rightarrow> bool" where "IS_CONST_PTR x \<longleftrightarrow> TEST_TAG x TAG_CONST_PTR"

text \<open>\<^verbatim>\<open>CHAR\<close> casts to \<^verbatim>\<open>short\<close>: sixteen bits, read as two's complement when widened.\<close>

definition CHAR_OF :: "obj \<Rightarrow> 16 word" where "CHAR_OF x = ucast (UNTAG x)"
definition MAKE_CHAR :: "u64 \<Rightarrow> obj" where "MAKE_CHAR v = ADD_TAG v TAG_CHAR"
definition IS_CHAR :: "obj \<Rightarrow> bool" where "IS_CHAR x \<longleftrightarrow> TEST_TAG x TAG_CHAR"

definition IS_CONST :: "obj \<Rightarrow> bool" where "IS_CONST x \<longleftrightarrow> TEST_TAG x TAG_CONST"
definition cnull :: obj where "cnull = ADD_TAG 0 TAG_CONST"
definition ctrue :: obj where "ctrue = ADD_TAG 1 TAG_CONST"
definition cfalse :: obj where "cfalse = ADD_TAG 2 TAG_CONST"
definition cvoid :: obj where "cvoid = ADD_TAG 3 TAG_CONST"
definition ceof :: obj where "ceof = ADD_TAG 4 TAG_CONST"

definition IS_NULL :: "obj \<Rightarrow> bool" where "IS_NULL x \<longleftrightarrow> x = cnull"
definition IS_TRUE :: "obj \<Rightarrow> bool" where "IS_TRUE x \<longleftrightarrow> x = ctrue"
definition IS_FALSE :: "obj \<Rightarrow> bool" where "IS_FALSE x \<longleftrightarrow> x = cfalse"
definition IS_BOOL :: "obj \<Rightarrow> bool" where "IS_BOOL x \<longleftrightarrow> IS_TRUE x \<or> IS_FALSE x"
definition IS_VOID :: "obj \<Rightarrow> bool" where "IS_VOID x \<longleftrightarrow> x = cvoid"
definition IS_EOF :: "obj \<Rightarrow> bool" where "IS_EOF x \<longleftrightarrow> x = ceof"
definition CIF :: "bool \<Rightarrow> obj" where "CIF b = (if b then ctrue else cfalse)"

lemmas tag_defs = TAG_FIXNUM_def TAG_PTR_def TAG_CONST_PTR_def TAG_CHAR_def TAG_FUNC_def
  TAG_CONST_def

lemmas const_defs = cnull_def ctrue_def cfalse_def cvoid_def ceof_def

lemma TAG_UNMASK_eq: "TAG_UNMASK = - 8"
  by (simp add: TAG_UNMASK_def TAG_MASK_def)

section \<open>Facts about tags\<close>

text \<open>The tag of a shifted value and of an aligned pointer.\<close>

lemma push_3_and_7: "push_bit 3 v AND 7 = (0 :: u64)"
  unfolding mask_3_eq [symmetric] by (rule bit_word_eqI) (auto simp: bit_simps)

lemma not_7_and_7: "(v AND - 8) AND 7 = (0 :: u64)"
proof -
  have "(v AND NOT 7) AND 7 = (0 :: u64)"
    by (rule bit_word_eqI) (auto simp: bit_simps simp del: bit_numeral_rec)
  then show ?thesis by simp
qed

lemma GET_TAG_ADD_TAG [obj_simps]: "tag AND 7 = tag \<Longrightarrow> GET_TAG (ADD_TAG v tag) = tag"
  by (simp add: GET_TAG_def ADD_TAG_def TAG_MASK_def TAG_SIZE_def push_3_and_7 bit.conj_disj_distrib2)

lemma GET_TAG_TAGGED_PTR [obj_simps]: "tag AND 7 = tag \<Longrightarrow> GET_TAG (MAKE_TAGGED_PTR a tag) = tag"
  by (simp add: GET_TAG_def MAKE_TAGGED_PTR_def SET_TAG_def UNSET_TAG_def TAG_MASK_def TAG_UNMASK_eq
      not_7_and_7 bit.conj_disj_distrib2)

lemma GET_TAG_simps [simp]:
  "GET_TAG (MAKE_FIXNUM v) = TAG_FIXNUM"
  "GET_TAG (MAKE_CHAR v) = TAG_CHAR"
  "GET_TAG (MAKE_HEAP_PTR a) = TAG_PTR"
  "GET_TAG (MAKE_CONST_PTR a) = TAG_CONST_PTR"
  "GET_TAG (MAKE_FUNC a) = TAG_FUNC"
  "GET_TAG cnull = TAG_CONST" "GET_TAG ctrue = TAG_CONST" "GET_TAG cfalse = TAG_CONST"
  "GET_TAG cvoid = TAG_CONST" "GET_TAG ceof = TAG_CONST"
  by (simp_all add: MAKE_FIXNUM_def MAKE_CHAR_def MAKE_HEAP_PTR_def MAKE_CONST_PTR_def
      MAKE_FUNC_def const_defs obj_simps tag_defs)

lemma TAG_distinct [simp]:
  "TAG_FIXNUM \<noteq> TAG_PTR" "TAG_FIXNUM \<noteq> TAG_CONST_PTR" "TAG_FIXNUM \<noteq> TAG_CHAR"
  "TAG_FIXNUM \<noteq> TAG_FUNC" "TAG_FIXNUM \<noteq> TAG_CONST" "TAG_PTR \<noteq> TAG_CONST_PTR"
  "TAG_PTR \<noteq> TAG_CHAR" "TAG_PTR \<noteq> TAG_FUNC" "TAG_PTR \<noteq> TAG_CONST"
  "TAG_CONST_PTR \<noteq> TAG_CHAR" "TAG_CONST_PTR \<noteq> TAG_FUNC" "TAG_CONST_PTR \<noteq> TAG_CONST"
  "TAG_CHAR \<noteq> TAG_FUNC" "TAG_CHAR \<noteq> TAG_CONST" "TAG_FUNC \<noteq> TAG_CONST"
  by (simp_all add: tag_defs)

lemmas is_tag_defs = IS_FIXNUM_def IS_HEAP_PTR_def IS_CONST_PTR_def IS_CHAR_def IS_CONST_def
  TEST_TAG_def

lemma PTR_MAKE_TAGGED_PTR [simp]:
  assumes "8 dvd a" and "a < 2 ^ 64" and "tag AND 7 = tag"
  shows "PTR (MAKE_TAGGED_PTR a tag) = a"
proof -
  have "((w AND NOT 7) OR tag) AND NOT 7 = w AND NOT 7" for w :: u64
    by (subst assms(3) [symmetric]) (rule bit_word_eqI, auto simp: bit_simps)
  then have "PTR (MAKE_TAGGED_PTR a tag) = unat ((of_nat a :: u64) AND - 8)"
    by (simp add: PTR_def MAKE_TAGGED_PTR_def SET_TAG_def UNSET_TAG_def TAG_UNMASK_eq)
  also have "\<dots> = unat (of_nat a :: u64) div 8 * 8"
    by (rule unat_and_m8)
  also have "unat (of_nat a :: u64) = a"
    using assms(2) by (simp add: unsigned_of_nat take_bit_nat_eq_self_iff)
  finally show ?thesis
    using assms(1) by simp
qed

lemma PTR_MAKE_simps [simp]:
  assumes "8 dvd a" and "a < 2 ^ 64"
  shows "PTR (MAKE_HEAP_PTR a) = a" "PTR (MAKE_CONST_PTR a) = a" "PTR (MAKE_FUNC a) = a"
  using assms by (simp_all add: MAKE_HEAP_PTR_def MAKE_CONST_PTR_def MAKE_FUNC_def tag_defs)

lemma PTR_aligned: "8 dvd PTR x"
  by (simp add: PTR_def UNSET_TAG_def TAG_UNMASK_eq unat_and_m8)

lemma PTR_bound: "PTR x < 2 ^ 64"
  using unat_less_64 [of "UNSET_TAG x"] by (simp add: PTR_def)

section \<open>Values that survive tagging\<close>

text \<open>A fixnum keeps the low 61 bits of a \<^verbatim>\<open>long\<close>, sign-extended.\<close>

lemma bit_60_cases: "60 \<le> n \<Longrightarrow> \<not> 61 \<le> n \<Longrightarrow> n = (60 :: nat)"
  by simp

lemma FIXNUM_MAKE_FIXNUM: "FIXNUM (MAKE_FIXNUM v) = signed_take_bit 60 v"
  by (rule bit_word_eqI)
    (auto dest: bit_60_cases simp: FIXNUM_def MAKE_FIXNUM_def UNTAG_long_def ADD_TAG_def TAG_SIZE_def TAG_FIXNUM_def
      bit_simps min_def not_less)

lemma sint_signed_take_bit_60: "sint (signed_take_bit 60 v) = signed_take_bit 60 (sint v)"
  for v :: u64
  by (rule bit_eqI) (auto simp: bit_simps min_def not_less)

lemma sint_FIXNUM_MAKE: "sint (FIXNUM (MAKE_FIXNUM v)) = signed_take_bit 60 (sint v)"
  by (simp add: FIXNUM_MAKE_FIXNUM sint_signed_take_bit_60)

lemma FIXNUM_range: "- (2 ^ 60) \<le> sint (FIXNUM x) \<and> sint (FIXNUM x) < 2 ^ 60"
proof -
  have "FIXNUM x = signed_take_bit 60 (FIXNUM x)"
    by (rule bit_word_eqI)
      (auto dest: bit_60_cases simp: FIXNUM_def UNTAG_long_def TAG_SIZE_def bit_simps min_def not_less)
  then have "sint (FIXNUM x) = signed_take_bit 60 (sint (FIXNUM x))"
    by (metis sint_signed_take_bit_60)
  then show ?thesis
    using signed_take_bit_int_greater_eq_minus_exp [of 60 "sint (FIXNUM x)"]
      signed_take_bit_int_less_exp [of 60 "sint (FIXNUM x)"] by simp
qed

lemma MAKE_FIXNUM_FIXNUM: "IS_FIXNUM x \<Longrightarrow> MAKE_FIXNUM (FIXNUM x) = x"
proof -
  assume "IS_FIXNUM x"
  then have low: "\<not> bit x n" if "n < 3" for n
  proof -
    have "x AND mask 3 = 0"
      using \<open>IS_FIXNUM x\<close>
      by (simp add: is_tag_defs GET_TAG_def TAG_MASK_def TAG_FIXNUM_def mask_3_eq)
    then have "\<not> bit (x AND mask 3) n" by simp
    with that show ?thesis by (simp add: bit_simps)
  qed
  have "bit (MAKE_FIXNUM (FIXNUM x)) n = bit x n" if "n < 64" for n
    using low [of n] that
    by (cases "n < 3") (auto simp: FIXNUM_def MAKE_FIXNUM_def UNTAG_long_def ADD_TAG_def
        TAG_SIZE_def TAG_FIXNUM_def bit_simps)
  then show ?thesis
    by (intro bit_word_eqI) simp
qed

lemma CHAR_MAKE_CHAR: "CHAR_OF (MAKE_CHAR v) = ucast v"
proof -
  have three: "(3 :: u64) = mask 2"
    by (simp add: mask_eq_exp_minus_1)
  show ?thesis
    unfolding CHAR_OF_def MAKE_CHAR_def ADD_TAG_def UNTAG_def TAG_SIZE_def TAG_CHAR_def three
    by (rule bit_word_eqI) (auto simp: bit_simps)
qed

section \<open>Properties\<close>

text \<open>
  C27: Tagging a number as a fixnum keeps its low 61 bits with their sign: every number from
  \<open>- 2 ^ 60\<close> below \<open>2 ^ 60\<close> survives \<^verbatim>\<open>MAKE_FIXNUM\<close> and \<^verbatim>\<open>FIXNUM\<close>, and every fixnum
  object is the tagging of the number it reads as.
\<close>

theorem fixnum_roundtrip:
  "IS_FIXNUM (MAKE_FIXNUM v) \<and> sint (FIXNUM (MAKE_FIXNUM v)) = signed_take_bit 60 (sint v)
   \<and> (- (2 ^ 60) \<le> sint v \<and> sint v < 2 ^ 60 \<longrightarrow> FIXNUM (MAKE_FIXNUM v) = v)
   \<and> (IS_FIXNUM x \<longrightarrow> MAKE_FIXNUM (FIXNUM x) = x)"
proof -
  have "FIXNUM (MAKE_FIXNUM v) = v" if "- (2 ^ 60) \<le> sint v \<and> sint v < 2 ^ 60"
  proof -
    have "sint (FIXNUM (MAKE_FIXNUM v)) = sint v"
      using that by (simp add: sint_FIXNUM_MAKE signed_take_bit_int_eq_self)
    then show ?thesis by (simp add: signed_word_eqI)
  qed
  then show ?thesis
    by (auto simp: is_tag_defs sint_FIXNUM_MAKE MAKE_FIXNUM_FIXNUM)
qed

theorem fixnum_roundtrip_witness:
  "FIXNUM (MAKE_FIXNUM (- 5)) = - 5 \<and> MAKE_FIXNUM (FIXNUM 24) = 24"
proof -
  have "IS_FIXNUM 24" by (simp add: is_tag_defs GET_TAG_def TAG_MASK_def TAG_FIXNUM_def)
  moreover have "sint (- 5 :: u64) = - 5" by simp
  ultimately show ?thesis
    using fixnum_roundtrip [of "- 5" 24] by simp
qed

text \<open>The six tests of a tag, in the order of their numbers; \<^verbatim>\<open>TEST_TAG(o, TAG_FUNC)\<close> is the first half of \<^verbatim>\<open>IS_FUNC\<close>.\<close>

definition tag_tests :: "obj \<Rightarrow> bool list" where
  "tag_tests x = [IS_FIXNUM x, IS_HEAP_PTR x, IS_CONST_PTR x, IS_CHAR x, TEST_TAG x TAG_FUNC, IS_CONST x]"

text \<open>
  C28: Tagging an 8-byte aligned address keeps the address, whether as a heap pointer, as a pointer to a constant or as
  a function. The six tags are told apart: every object made as a fixnum, heap pointer, constant pointer, character or
  function, and each of the five constants, passes the test of its own tag and none of the other five. The
  five constants differ from each other.
\<close>

theorem pointer_roundtrip:
  assumes "8 dvd a" and "a < 2 ^ 64"
  shows "PTR (MAKE_HEAP_PTR a) = a \<and> PTR (MAKE_CONST_PTR a) = a \<and> PTR (MAKE_FUNC a) = a
    \<and> tag_tests (MAKE_FIXNUM v) = [True, False, False, False, False, False]
    \<and> tag_tests (MAKE_HEAP_PTR a) = [False, True, False, False, False, False]
    \<and> tag_tests (MAKE_CONST_PTR a) = [False, False, True, False, False, False]
    \<and> tag_tests (MAKE_CHAR v) = [False, False, False, True, False, False]
    \<and> tag_tests (MAKE_FUNC a) = [False, False, False, False, True, False]
    \<and> map tag_tests [cnull, ctrue, cfalse, cvoid, ceof] = replicate 5 [False, False, False, False, False, True]
    \<and> distinct [cnull, ctrue, cfalse, cvoid, ceof]"
proof -
  have "distinct [cnull, ctrue, cfalse, cvoid, ceof]" by (simp add: const_defs ADD_TAG_def TAG_SIZE_def TAG_CONST_def)
  moreover have "replicate 5 z = [z, z, z, z, z]" for z :: "bool list" by (simp add: numeral_eq_Suc)
  moreover have "TAG_FIXNUM \<noteq> t" if "t \<in> {TAG_PTR, TAG_CONST_PTR, TAG_CHAR, TAG_FUNC, TAG_CONST}" for t using that by auto
  ultimately show ?thesis using assms TAG_distinct [THEN not_sym] by (simp add: tag_tests_def is_tag_defs)
qed

theorem pointer_roundtrip_witness:
  "PTR (MAKE_FUNC 65544) = 65544 \<and> tag_tests (MAKE_FUNC 65544) = [False, False, False, False, True, False]"
  using pointer_roundtrip [of 65544] by simp

end
