(* ===== verification/Memory.thy ===== *)
theory Memory
  imports Objects
begin

unbundle bit_operations_syntax

text \<open>
  The memory of the process at the granularity of heap blocks. A block is a \<^verbatim>\<open>block_hdr_t\<close>
  (\<^verbatim>\<open>vm/types.h\<close>) followed by its payload; the store maps the address of a header to the
  block. Payloads are the C structures of the object types, one record each, with the memory that
  trails the structure (environment slots, structure fields, characters, bytes) as a list. Interior
  pointers (\<^verbatim>\<open>env->objects\<close>, \<^verbatim>\<open>st->fields\<close>, \<^verbatim>\<open>string->str\<close>, \<^verbatim>\<open>bv->data\<close>) are kept as
  addresses, so that a stale one can be told from a current one. Writing a block destroys every
  block it overlaps. Sizes are those of the LP64 model the code is built for.
\<close>

section \<open>Headers and payloads\<close>

record block_hdr =
  type_id :: u16
  forward :: bool
  generation :: nat
  remembered :: bool
  hsize :: nat

definition BHDR_SIZE :: nat where "BHDR_SIZE = 8"

text \<open>Sizes of the structures below.\<close>

definition sizeof_obj :: nat where "sizeof_obj = 8"
definition sizeof_env :: nat where "sizeof_env = 24"
definition sizeof_closure :: nat where "sizeof_closure = 16"
definition sizeof_pair :: nat where "sizeof_pair = 24"
definition sizeof_continuation :: nat where "sizeof_continuation = 8"
definition sizeof_string :: nat where "sizeof_string = 16"
definition sizeof_struct :: nat where "sizeof_struct = 24"
definition sizeof_bytevector :: nat where "sizeof_bytevector = 16"

record env_t =
  prev :: addr
  env_size :: int
  depth :: int
  objects :: addr
  env_slots :: "obj list"

record closure_t =
  clo_env :: addr
  clo_func :: addr

record pair_t =
  car :: obj
  cdr :: obj
  pair_list :: "bool option"
  pair_length :: "31 word option"

record continuation_t =
  cont_func :: obj

record string_t =
  str :: addr
  str_size :: int
  allocated :: bool
  chars :: "u8 list"

record struct_t =
  type_name :: obj
  struct_size :: int
  struct_fields :: addr
  field_slots :: "obj list"

record bytevector_t =
  data :: addr
  bv_size :: int
  bytes :: "u8 list"

text \<open>
  The two bit fields of a pair are \<open>None\<close> while indeterminate: \<^verbatim>\<open>_cons\<close> does not write them on
  every path, and memory from \<^verbatim>\<open>malloc\<close> is not cleared. \<open>P_Zero\<close> is memory that was cleared and
  not yet written, \<open>P_Uninit\<close> memory that was neither; \<open>P_Forward\<close> is a payload whose first
  word was overwritten with the new address of a moved object.
\<close>

datatype payload =
    P_Zero
  | P_Uninit
  | P_Env env_t
  | P_Closure closure_t
  | P_Pair pair_t
  | P_Cont continuation_t
  | P_String string_t
  | P_Symbol "u8 list"
  | P_Struct struct_t
  | P_Bytevector bytevector_t
  | P_Forward addr

record block =
  hdr :: block_hdr
  payload :: payload

type_synonym memory = "addr \<Rightarrow> block option"

section \<open>Extents\<close>

text \<open>The bytes a block occupies, header included.\<close>

definition blen :: "block \<Rightarrow> nat" where "blen b = BHDR_SIZE + hsize (hdr b)"

definition overlap :: "addr \<Rightarrow> nat \<Rightarrow> addr \<Rightarrow> nat \<Rightarrow> bool" where
  "overlap a la x lx \<longleftrightarrow> x < a + la \<and> a < x + lx"

definition clear_range :: "memory \<Rightarrow> addr \<Rightarrow> nat \<Rightarrow> memory" where
  "clear_range m a n =
     (\<lambda>x. case m x of None \<Rightarrow> None | Some c \<Rightarrow> if overlap a n x (blen c) then None else Some c)"

definition put_block :: "memory \<Rightarrow> addr \<Rightarrow> block \<Rightarrow> memory" where
  "put_block m a b = (clear_range m a (blen b))(a \<mapsto> b)"

text \<open>Writes inside a block that keep its extent: header bits and payload fields.\<close>

definition set_hdr :: "memory \<Rightarrow> addr \<Rightarrow> (block_hdr \<Rightarrow> block_hdr) \<Rightarrow> memory" where
  "set_hdr m a f = (case m a of None \<Rightarrow> m | Some b \<Rightarrow> m(a \<mapsto> b\<lparr>hdr := f (hdr b)\<rparr>))"

definition set_payload :: "memory \<Rightarrow> addr \<Rightarrow> payload \<Rightarrow> memory" where
  "set_payload m a p = (case m a of None \<Rightarrow> m | Some b \<Rightarrow> m(a \<mapsto> b\<lparr>payload := p\<rparr>))"

text \<open>No two blocks of the store overlap.\<close>

definition disjoint_blocks :: "memory \<Rightarrow> bool" where
  "disjoint_blocks m \<longleftrightarrow> (\<forall>x y bx by. m x = Some bx \<longrightarrow> m y = Some by \<longrightarrow> x \<noteq> y \<longrightarrow>
     \<not> overlap x (blen bx) y (blen by))"

lemma overlap_sym: "overlap a la x lx = overlap x lx a la"
  by (auto simp: overlap_def)

lemma blen_pos [simp]: "0 < blen b"
  by (simp add: blen_def BHDR_SIZE_def)

lemma blen_payload [simp]: "blen (b\<lparr>payload := p\<rparr>) = blen b"
  by (simp add: blen_def)

lemma clear_range_Some:
  "clear_range m a n x = Some c \<longleftrightarrow> m x = Some c \<and> \<not> overlap a n x (blen c)"
  by (auto simp: clear_range_def split: option.splits if_splits)

lemma put_block_same [simp]: "put_block m a b a = Some b"
  by (simp add: put_block_def)

lemma put_block_Some:
  "put_block m a b x = Some c \<longleftrightarrow>
    (if x = a then c = b else m x = Some c \<and> \<not> overlap a (blen b) x (blen c))"
  by (auto simp: put_block_def clear_range_Some)

lemma put_block_other:
  "m x = Some c \<Longrightarrow> x \<noteq> a \<Longrightarrow> \<not> overlap a (blen b) x (blen c) \<Longrightarrow> put_block m a b x = Some c"
  by (simp add: put_block_Some)

lemma put_block_free:
  assumes "\<And>x c. m x = Some c \<Longrightarrow> \<not> overlap a (blen b) x (blen c)"
  shows "put_block m a b = m(a \<mapsto> b)"
proof -
  have "clear_range m a (blen b) = m"
    using assms by (auto simp: clear_range_def fun_eq_iff split: option.splits)
  then show ?thesis by (simp add: put_block_def)
qed

lemma disjoint_blocks_put_block: "disjoint_blocks m \<Longrightarrow> disjoint_blocks (put_block m a b)"
  unfolding disjoint_blocks_def put_block_Some
  by (auto simp: overlap_sym split: if_splits)

lemma disjoint_blocks_clear: "disjoint_blocks m \<Longrightarrow> disjoint_blocks (clear_range m a n)"
  by (auto simp: disjoint_blocks_def clear_range_Some)

lemma disjoint_blocks_upd:
  assumes "disjoint_blocks m" "m a = Some b" "blen b' = blen b"
  shows "disjoint_blocks (m(a \<mapsto> b'))"
  using assms unfolding disjoint_blocks_def by (auto split: if_splits)

text \<open>
  How many of \<open>n\<close> elements of \<open>w\<close> bytes fit behind a structure of \<open>hs\<close> bytes in a block: an
  element beyond is outside the block, and an access to it is undefined.
\<close>

definition room :: "block \<Rightarrow> nat \<Rightarrow> nat \<Rightarrow> nat \<Rightarrow> nat" where
  "room b hs w n = min n ((hsize (hdr b) - hs) div w)"

section \<open>Types of heap objects\<close>

text \<open>
  The type identifiers in the order in which \<^verbatim>\<open>vm_init\<close> and the modules' \<^verbatim>\<open>init\<close>
  functions register the types.
\<close>

definition t_env :: u16 where "t_env = 0"
definition t_closure :: u16 where "t_closure = 1"
definition t_pair :: u16 where "t_pair = 2"
definition t_cont :: u16 where "t_cont = 3"
definition t_string :: u16 where "t_string = 4"
definition t_symbol :: u16 where "t_symbol = 5"
definition t_struct :: u16 where "t_struct = 6"
definition t_bytevector :: u16 where "t_bytevector = 7"

lemmas type_id_defs = t_env_def t_closure_def t_pair_def t_cont_def t_string_def t_symbol_def
  t_struct_def t_bytevector_def

text \<open>\<^verbatim>\<open>HTYPE_TAG\<close> reads the header in front of a payload address.\<close>

definition HTYPE :: "memory \<Rightarrow> addr \<Rightarrow> block option" where
  "HTYPE m p = (if p < BHDR_SIZE then None else m (p - BHDR_SIZE))"

definition IS_TYPE :: "memory \<Rightarrow> obj \<Rightarrow> u16 \<Rightarrow> bool outcome" where
  "IS_TYPE m x tid =
     (if IS_HEAP_PTR x \<or> IS_CONST_PTR x
      then bindE (deref (HTYPE m (PTR x)) ''header read'') (\<lambda>b. Inr (type_id (hdr b) = tid))
      else Inr False)"

definition IS_FUNC :: "memory \<Rightarrow> obj \<Rightarrow> bool outcome" where
  "IS_FUNC m x =
     (if TEST_TAG x TAG_FUNC then Inr True
      else if IS_HEAP_PTR x
      then bindE (IS_TYPE m x t_closure) (\<lambda>c. if c then Inr True else IS_TYPE m x t_cont)
      else Inr False)"

end
