(* ===== verification/Space.thy ===== *)
theory Space
  imports Memory
begin

unbundle bit_operations_syntax

text \<open>
  The allocation spaces of \<^verbatim>\<open>vm/heap.c\<close>: a region filled from its start with consecutive
  blocks. \<^verbatim>\<open>size_t\<close> arithmetic on requested sizes is done in 64-bit words, where the code can
  wrap; the fields of a space, which describe memory that exists, are naturals. \<open>sp_clear\<close> is no field of
  \<^verbatim>\<open>space_t\<close>: it says what the bytes of the space hold from \<^verbatim>\<open>pos\<close> on, zeros or anything.
\<close>

section \<open>Spaces and their operations\<close>

record space =
  sp_mem :: addr
  sp_pos :: addr
  sp_size :: nat
  free_mem :: nat
  blocks :: nat
  sp_clear :: bool

definition align_up :: "u64 \<Rightarrow> u64 \<Rightarrow> u64" where
  "align_up s a = (s + (a - 1)) AND NOT (a - 1)"

definition FRESH_SIZE :: nat where "FRESH_SIZE = 1024 * 128"
definition SURVIVED_SIZE :: nat where "SURVIVED_SIZE = 1024 * 128"
definition OLD_SIZE :: nat where "OLD_SIZE = SURVIVED_SIZE * 5"

text \<open>\<^verbatim>\<open>NEXT_HDR\<close>: the address after a block.\<close>

definition NEXT_HDR :: "addr \<Rightarrow> block \<Rightarrow> addr" where
  "NEXT_HDR a b = BHDR_SIZE + hsize (hdr b) + a"

text \<open>
  \<^verbatim>\<open>space_reset\<close> leaves the memory as it is; the \<^verbatim>\<open>memset\<close> of \<^verbatim>\<open>space_reset0\<close> clears it. Both
  keep what is known of it until the next reset: allocating and copying only write in front of the new \<^verbatim>\<open>pos\<close>.
\<close>

definition space_reset :: "space \<Rightarrow> space" where
  "space_reset sp = sp\<lparr>sp_pos := sp_mem sp, free_mem := sp_size sp, blocks := 0, sp_clear := False\<rparr>"

definition space_reset0 :: "memory \<Rightarrow> space \<Rightarrow> memory \<times> space" where
  "space_reset0 m sp =
     (clear_range m (sp_mem sp) (sp_size sp), (space_reset sp)\<lparr>sp_clear := True\<rparr>)"

definition space_init :: "memory \<Rightarrow> space \<Rightarrow> addr \<Rightarrow> nat \<Rightarrow> memory \<times> space" where
  "space_init m sp mem sz = space_reset0 m (sp\<lparr>sp_size := sz, sp_mem := mem\<rparr>)"

definition new_hdr :: "u64 \<Rightarrow> u16 \<Rightarrow> block_hdr" where
  "new_hdr sz tid = \<lparr>type_id = tid, forward = False, generation = 0, remembered = False,
     hsize = unat (ucast sz :: u32)\<rparr>"

text \<open>
  \<^verbatim>\<open>space_alloc\<close> returns the payload address, or \<^verbatim>\<open>NULL\<close>. \<open>need\<close> is computed in
  \<^verbatim>\<open>size_t\<close>; the header keeps the low 32 bits of the size, and \<^verbatim>\<open>pos\<close> advances by what the
  header keeps. Only the header is written: the new block holds what the memory held.
\<close>

definition space_alloc :: "memory \<Rightarrow> space \<Rightarrow> u64 \<Rightarrow> u16 \<Rightarrow> (memory \<times> space \<times> addr) option" where
  "space_alloc m sp size0 tid =
     (let sz = align_up size0 8;
          need = sz + of_nat BHDR_SIZE
      in if unat need > free_mem sp then None
         else let b = \<lparr>hdr = new_hdr sz tid, payload = (if sp_clear sp then P_Zero else P_Uninit)\<rparr>;
                  res = sp_pos sp + BHDR_SIZE
              in Some (put_block m (sp_pos sp) b,
                       sp\<lparr>sp_pos := res + hsize (hdr b), free_mem := free_mem sp - unat need,
                          blocks := Suc (blocks sp)\<rparr>,
                       res))"

text \<open>
  \<^verbatim>\<open>space_put\<close> with \<^verbatim>\<open>memcpy\<close> or \<^verbatim>\<open>memmove\<close>: \<open>sz\<close> bytes from \<open>p\<close>, a block
  and its header, to the end of the space. \<^verbatim>\<open>memcpy\<close> between overlapping regions is undefined.
\<close>

definition space_put ::
  "bool \<Rightarrow> memory \<Rightarrow> space \<Rightarrow> addr \<Rightarrow> nat \<Rightarrow> (memory \<times> space \<times> addr) outcome" where
  "space_put may_overlap m sp p sz =
     (if sz > free_mem sp then Inl (Fatal ''out of memory'')
      else let res = sp_pos sp in
        bindE (deref (m p) ''copy source'') (\<lambda>b.
          if \<not> may_overlap \<and> overlap res sz p sz
          then Inl (Undefined ''memcpy overlap'')
          else Inr (put_block m res b,
                    sp\<lparr>sp_pos := sp_pos sp + sz, free_mem := free_mem sp - sz,
                       blocks := Suc (blocks sp)\<rparr>,
                    res)))"

definition space_copy :: "memory \<Rightarrow> space \<Rightarrow> addr \<Rightarrow> nat \<Rightarrow> (memory \<times> space \<times> addr) outcome" where
  "space_copy m sp p sz = space_put False m sp p sz"

definition space_move :: "memory \<Rightarrow> space \<Rightarrow> addr \<Rightarrow> nat \<Rightarrow> (memory \<times> space \<times> addr) outcome" where
  "space_move m sp p sz = space_put True m sp p sz"

definition space_enough :: "space \<Rightarrow> u64 \<Rightarrow> bool" where
  "space_enough sp sz \<longleftrightarrow> free_mem sp > unat (sz + of_nat BHDR_SIZE)"

definition in_space :: "space \<Rightarrow> addr \<Rightarrow> bool" where
  "in_space sp p \<longleftrightarrow> p \<ge> sp_mem sp \<and> p < sp_mem sp + sp_size sp"

section \<open>The layout invariant\<close>

text \<open>\<open>run m a n e\<close>: \<open>n\<close> consecutive blocks from \<open>a\<close> to \<open>e\<close>, sizes in whole words.\<close>

fun run :: "memory \<Rightarrow> addr \<Rightarrow> nat \<Rightarrow> addr \<Rightarrow> bool" where
  "run m a 0 e \<longleftrightarrow> a = e"
| "run m a (Suc n) e \<longleftrightarrow>
     (case m a of None \<Rightarrow> False
      | Some b \<Rightarrow> 8 dvd hsize (hdr b) \<and> run m (NEXT_HDR a b) n e)"

fun run_addrs :: "memory \<Rightarrow> addr \<Rightarrow> nat \<Rightarrow> addr list" where
  "run_addrs m a 0 = []"
| "run_addrs m a (Suc n) =
     a # (case m a of None \<Rightarrow> [] | Some b \<Rightarrow> run_addrs m (NEXT_HDR a b) n)"

text \<open>
  A space is laid out: its blocks run from its start to \<^verbatim>\<open>pos\<close>, the rest up to its size is free,
  and nothing else lies in the region.
\<close>

definition space_ok :: "memory \<Rightarrow> space \<Rightarrow> bool" where
  "space_ok m sp \<longleftrightarrow> 8 dvd sp_mem sp \<and> sp_pos sp + free_mem sp = sp_mem sp + sp_size sp
     \<and> run m (sp_mem sp) (blocks sp) (sp_pos sp)
     \<and> (\<forall>x b. m x = Some b \<longrightarrow> overlap (sp_mem sp) (sp_size sp) x (blen b)
          \<longrightarrow> x \<in> set (run_addrs m (sp_mem sp) (blocks sp)))"

section \<open>Facts about runs of blocks\<close>

lemma NEXT_HDR_blen: "NEXT_HDR a b = a + blen b"
  by (simp add: NEXT_HDR_def blen_def)

lemma run_SucE:
  assumes "run m a (Suc n) e"
  obtains b where "m a = Some b" "8 dvd hsize (hdr b)" "run m (NEXT_HDR a b) n e"
  using assms by (auto split: option.splits)

lemma run_Suc_iff: "m a = Some b \<Longrightarrow> run m a (Suc n) e \<longleftrightarrow> 8 dvd hsize (hdr b) \<and> run m (NEXT_HDR a b) n e"
  by simp

lemma run_addrs_Suc: "m a = Some b \<Longrightarrow> run_addrs m a (Suc n) = a # run_addrs m (NEXT_HDR a b) n"
  by simp

declare run.simps(2) [simp del] run_addrs.simps(2) [simp del]

lemma run_snoc:
  assumes "run m a n e" "m e = Some b" "8 dvd hsize (hdr b)"
  shows "run m a (Suc n) (NEXT_HDR e b) \<and> run_addrs m a (Suc n) = run_addrs m a n @ [e]"
  using assms
proof (induction n arbitrary: a)
  case 0
  then show ?case by (simp add: run_Suc_iff run_addrs_Suc)
next
  case (Suc n)
  then show ?case by (auto elim!: run_SucE simp: run_Suc_iff run_addrs_Suc)
qed

lemma run_length: "run m a n e \<Longrightarrow> length (run_addrs m a n) = n"
  by (induction n arbitrary: a) (auto elim!: run_SucE simp: run_addrs_Suc)

lemma run_bounds:
  "run m a n e \<Longrightarrow> a + 8 * n \<le> e"
  by (induction n arbitrary: a) (fastforce simp: NEXT_HDR_def BHDR_SIZE_def elim!: run_SucE)+

lemma run_aligned: "run m a n e \<Longrightarrow> 8 dvd a \<Longrightarrow> 8 dvd e"
  by (induction n arbitrary: a)
    (auto simp: NEXT_HDR_def BHDR_SIZE_def elim!: run_SucE)

text \<open>Every block of a run is present, aligned and inside.\<close>

lemma run_mem:
  assumes "run m a n e" and "x \<in> set (run_addrs m a n)"
  shows "\<exists>b. m x = Some b \<and> a \<le> x \<and> x + blen b \<le> e \<and> 8 dvd hsize (hdr b) \<and> (8 dvd a \<longrightarrow> 8 dvd x)"
  using assms
proof (induction n arbitrary: a)
  case 0
  then show ?case by simp
next
  case (Suc n)
  then obtain b where b: "m a = Some b" "8 dvd hsize (hdr b)" "run m (NEXT_HDR a b) n e"
    by (auto elim: run_SucE)
  show ?case
  proof (cases "x = a")
    case True
    then show ?thesis
      using b run_bounds [OF b(3)] by (simp add: NEXT_HDR_blen)
  next
    case False
    with Suc.prems b have "x \<in> set (run_addrs m (NEXT_HDR a b) n)" by (simp add: run_addrs_Suc)
    from Suc.IH [OF b(3) this] b(2) show ?thesis
      by (auto simp: NEXT_HDR_def BHDR_SIZE_def)
  qed
qed

text \<open>The addresses of a run are strictly ascending.\<close>

lemma run_sorted: "run m a n e \<Longrightarrow> sorted_wrt (<) (run_addrs m a n)"
proof (induction n arbitrary: a)
  case (Suc n)
  then obtain b where b: "m a = Some b" "run m (NEXT_HDR a b) n e"
    by (auto elim: run_SucE)
  have "\<forall>x \<in> set (run_addrs m (NEXT_HDR a b) n). a < x"
    using run_mem [OF b(2)] by (fastforce simp: NEXT_HDR_def BHDR_SIZE_def)
  with Suc.IH [OF b(2)] b(1) show ?case by (simp add: run_addrs_Suc)
qed simp

text \<open>A run depends only on the presence and the sizes of its blocks.\<close>

lemma run_cong:
  assumes "run m a n e"
    and "\<And>x b. x \<in> set (run_addrs m a n) \<Longrightarrow> m x = Some b \<Longrightarrow>
      \<exists>b'. m' x = Some b' \<and> hsize (hdr b') = hsize (hdr b)"
  shows "run m' a n e \<and> run_addrs m' a n = run_addrs m a n"
  using assms
proof (induction n arbitrary: a)
  case (Suc n)
  then obtain b where b: "m a = Some b" "8 dvd hsize (hdr b)" "run m (NEXT_HDR a b) n e"
    by (auto elim: run_SucE)
  from Suc.prems(2) [of a b] b(1) obtain b' where b': "m' a = Some b'" "hsize (hdr b') = hsize (hdr b)"
    by (auto simp: run_addrs_Suc)
  have "run m' (NEXT_HDR a b) n e \<and> run_addrs m' (NEXT_HDR a b) n = run_addrs m (NEXT_HDR a b) n"
    using Suc.prems(2) b(1) by (intro Suc.IH [OF b(3)]) (simp add: run_addrs_Suc)
  with b b' show ?case by (simp add: NEXT_HDR_def run_Suc_iff run_addrs_Suc)
qed simp

section \<open>Allocation\<close>

lemma unat_align_up_8:
  assumes "unat s < 2 ^ 64 - 7"
  shows "unat (align_up s 8) = (unat s + 7) div 8 * 8"
proof -
  have "unat (s + 7) = unat s + 7"
    using assms by (simp add: unat_word_ariths unsigned_of_nat)
  then show ?thesis
    by (simp add: align_up_def unat_and_m8)
qed

lemma align_up_8_dvd: "8 dvd unat (align_up s 8)"
  by (simp add: align_up_def unat_and_m8)

text \<open>
  What an allocation does, for every request whose rounded size does not wrap in
  \<^verbatim>\<open>size_t\<close>: it fails exactly when the block does not fit, and otherwise the block is put at the
  end of the space.
\<close>

lemma space_alloc_cases:
  assumes "unat size0 < 2 ^ 64 - 15" and "sp_size sp \<le> 2 ^ 32" and "free_mem sp \<le> sp_size sp"
  defines "sz \<equiv> (unat size0 + 7) div 8 * 8"
  shows "space_alloc m sp size0 tid =
    (if free_mem sp < sz + 8 then None
     else Some (put_block m (sp_pos sp)
                  \<lparr>hdr = \<lparr>type_id = tid, forward = False, generation = 0, remembered = False,
                          hsize = sz\<rparr>, payload = (if sp_clear sp then P_Zero else P_Uninit)\<rparr>,
                sp\<lparr>sp_pos := sp_pos sp + 8 + sz, free_mem := free_mem sp - (sz + 8),
                   blocks := Suc (blocks sp)\<rparr>,
                sp_pos sp + 8))"
proof -
  have al: "unat (align_up size0 8) = sz"
    using assms(1) unat_align_up_8 [of size0] by (simp add: sz_def)
  have "sz + 8 < 2 ^ 64"
    using assms(1) unfolding sz_def by simp
  then have need: "unat (align_up size0 8 + 8) = sz + 8"
    using al by (simp add: unat_word_ariths)
  have low: "unat (ucast (align_up size0 8) :: u32) = sz" if "sz < 2 ^ 32"
  proof -
    have "unat (ucast (align_up size0 8) :: u32) = take_bit 32 (unat (align_up size0 8))"
      by (simp add: unsigned_ucast_eq)
    with that al show ?thesis by (simp add: take_bit_nat_eq_self_iff)
  qed
  show ?thesis
  proof (cases "free_mem sp < sz + 8")
    case True
    then show ?thesis by (simp add: space_alloc_def Let_def BHDR_SIZE_def need)
  next
    case False
    then have "sz < 2 ^ 32" using assms(2,3) by simp
    with False low show ?thesis
      by (simp add: space_alloc_def Let_def BHDR_SIZE_def need new_hdr_def)
  qed
qed

text \<open>Appending a block to a laid-out space.\<close>

lemma space_ok_append:
  assumes ok: "space_ok m sp" and dvd: "8 dvd hsize (hdr b)" and fits: "blen b \<le> free_mem sp"
  shows "put_block m (sp_pos sp) b = m(sp_pos sp \<mapsto> b)"
    and "space_ok (m(sp_pos sp \<mapsto> b))
      (sp\<lparr>sp_pos := sp_pos sp + blen b, free_mem := free_mem sp - blen b, blocks := Suc (blocks sp)\<rparr>)"
    and "m (sp_pos sp) = None"
proof -
  let ?p = "sp_pos sp" and ?as = "run_addrs m (sp_mem sp) (blocks sp)"
  have run: "run m (sp_mem sp) (blocks sp) ?p"
    and lay: "?p + free_mem sp = sp_mem sp + sp_size sp"
    and tight: "\<And>x c. m x = Some c \<Longrightarrow> overlap (sp_mem sp) (sp_size sp) x (blen c) \<Longrightarrow> x \<in> set ?as"
    using ok by (auto simp: space_ok_def)
  have below: "x + blen c \<le> ?p" if "x \<in> set ?as" "m x = Some c" for x c
    using run_mem [OF run that(1)] that(2) by auto
  have start: "sp_mem sp \<le> ?p" using run_bounds [OF run] by simp
  have free: "\<not> overlap ?p (blen b) x (blen c)" if "m x = Some c" for x c
  proof
    assume ov: "overlap ?p (blen b) x (blen c)"
    then have "overlap (sp_mem sp) (sp_size sp) x (blen c)"
      using start lay fits by (auto simp: overlap_def)
    with tight that below have "x + blen c \<le> ?p" by blast
    with ov show False by (simp add: overlap_def)
  qed
  show pb: "put_block m ?p b = m(?p \<mapsto> b)"
    using free by (rule put_block_free)
  show none: "m ?p = None"
  proof (rule ccontr)
    assume "m ?p \<noteq> None"
    then obtain c where "m ?p = Some c" by blast
    from free [OF this] show False
      using blen_pos [of b] blen_pos [of c] by (simp add: overlap_def)
  qed
  let ?m' = "m(?p \<mapsto> b)"
  have ne: "x \<noteq> ?p" if "x \<in> set ?as" for x
    using run_mem [OF run that] none by auto
  have run': "run ?m' (sp_mem sp) (blocks sp) ?p \<and> run_addrs ?m' (sp_mem sp) (blocks sp) = ?as"
    by (rule run_cong [OF run]) (use ne in auto)
  have "run ?m' (sp_mem sp) (Suc (blocks sp)) (NEXT_HDR ?p b)"
    using run' dvd run_snoc [of ?m' "sp_mem sp" "blocks sp" ?p b] by simp
  moreover have "run_addrs ?m' (sp_mem sp) (Suc (blocks sp)) = ?as @ [?p]"
    using run' dvd run_snoc [of ?m' "sp_mem sp" "blocks sp" ?p b] by simp
  ultimately show "space_ok ?m'
      (sp\<lparr>sp_pos := ?p + blen b, free_mem := free_mem sp - blen b, blocks := Suc (blocks sp)\<rparr>)"
    using ok fits lay tight unfolding space_ok_def
    by (simp add: NEXT_HDR_blen)
qed

text \<open>A block written outside the region of a space does not disturb it.\<close>

lemma space_ok_frame:
  assumes ok: "space_ok m sp" and out: "\<not> overlap (sp_mem sp) (sp_size sp) a (blen b)"
    and old: "\<And>c. m a = Some c \<Longrightarrow> blen c = blen b"
  shows "space_ok (m(a \<mapsto> b)) sp"
proof -
  let ?as = "run_addrs m (sp_mem sp) (blocks sp)"
  have run: "run m (sp_mem sp) (blocks sp) (sp_pos sp)"
    and lay: "sp_pos sp + free_mem sp = sp_mem sp + sp_size sp"
    using ok by (auto simp: space_ok_def)
  have ne: "a \<notin> set ?as"
  proof
    assume "a \<in> set ?as"
    with run_mem [OF run] obtain c where c: "m a = Some c" "sp_mem sp \<le> a" "a + blen c \<le> sp_pos sp"
      by blast
    with out lay blen_pos [of b] blen_pos [of c] show False by (simp add: overlap_def)
  qed
  have run': "run (m(a \<mapsto> b)) (sp_mem sp) (blocks sp) (sp_pos sp)
      \<and> run_addrs (m(a \<mapsto> b)) (sp_mem sp) (blocks sp) = ?as"
    by (rule run_cong [OF run]) (use ne in auto)
  then show ?thesis
    using ok out by (auto simp: space_ok_def split: if_splits)
qed

text \<open>Rewriting a block in place, same size, keeps every layout.\<close>

lemma space_ok_update:
  assumes ok: "space_ok m sp" and c: "m a = Some c" and sz: "hsize (hdr b) = hsize (hdr c)"
  shows "space_ok (m(a \<mapsto> b)) sp"
proof -
  have run: "run m (sp_mem sp) (blocks sp) (sp_pos sp)"
    using ok by (simp add: space_ok_def)
  have run': "run (m(a \<mapsto> b)) (sp_mem sp) (blocks sp) (sp_pos sp)
      \<and> run_addrs (m(a \<mapsto> b)) (sp_mem sp) (blocks sp) = run_addrs m (sp_mem sp) (blocks sp)"
    by (rule run_cong [OF run]) (use c sz in auto)
  moreover have "blen b = blen c" by (simp add: blen_def sz)
  ultimately show ?thesis
    using ok c by (auto simp: space_ok_def split: if_splits)
qed

text \<open>A cleared space is laid out and empty.\<close>

lemma space_ok_reset0:
  assumes "8 dvd sp_mem sp" and "space_reset0 m sp = (m', sp')"
  shows "space_ok m' sp'"
  using assms by (auto simp: space_reset0_def space_reset_def space_ok_def clear_range_Some)

section \<open>Properties\<close>

text \<open>
  C17: Allocation in a laid-out space of at most four gigabytes, for every request that does not wrap in
  \<^verbatim>\<open>size_t\<close>: it fails exactly when the rounded block with its header does not fit; otherwise it puts a
  block of at least the requested size at an aligned address inside the region where no block was, leaves every other
  block alone, and keeps the space laid out. The contents of the block are not written: they are zeros in a space that
  \<^verbatim>\<open>space_reset0\<close> has cleared, also after further allocations, and unknown in one that only
  \<^verbatim>\<open>space_reset\<close> has emptied.
\<close>

theorem space_alloc_correct:
  assumes ok: "space_ok m sp" and lim: "sp_size sp \<le> 2 ^ 32" and req: "unat size0 < 2 ^ 64 - 15"
  shows "(case space_alloc m sp size0 tid of
      None \<Rightarrow> free_mem sp < (unat size0 + 7) div 8 * 8 + 8
    | Some (m', sp', p) \<Rightarrow>
        \<exists>b. m' = m(p - 8 \<mapsto> b) \<and> m (p - 8) = None \<and> 8 \<le> p \<and> 8 dvd p
          \<and> type_id (hdr b) = tid \<and> payload b = (if sp_clear sp then P_Zero else P_Uninit) \<and> \<not> forward (hdr b)
          \<and> unat size0 \<le> hsize (hdr b) \<and> hsize (hdr b) < unat size0 + 8
          \<and> sp_mem sp \<le> p - 8 \<and> p + hsize (hdr b) \<le> sp_mem sp + sp_size sp
          \<and> space_ok m' sp' \<and> blocks sp' = Suc (blocks sp) \<and> free_mem sp' + blen b = free_mem sp
          \<and> sp_clear sp' = sp_clear sp)
    \<and> sp_clear (snd (space_reset0 m sp)) \<and> \<not> sp_clear (space_reset sp)"
proof -
  define sz where "sz = (unat size0 + 7) div 8 * 8"
  define b :: block where "b = \<lparr>hdr = \<lparr>type_id = tid, forward = False, generation = 0, remembered = False,
    hsize = sz\<rparr>, payload = (if sp_clear sp then P_Zero else P_Uninit)\<rparr>"
  have run: "run m (sp_mem sp) (blocks sp) (sp_pos sp)" and al: "8 dvd sp_mem sp"
    and lay: "sp_pos sp + free_mem sp = sp_mem sp + sp_size sp"
    using ok by (auto simp: space_ok_def)
  have start: "sp_mem sp \<le> sp_pos sp" and al': "8 dvd sp_pos sp"
    using run_bounds [OF run] run_aligned [OF run al] by auto
  have fr: "free_mem sp \<le> sp_size sp" using start lay by linarith
  have b: "hsize (hdr b) = sz" "blen b = sz + 8" "8 dvd sz" by (simp_all add: b_def blen_def BHDR_SIZE_def sz_def)
  have up: "unat size0 \<le> sz" "sz < unat size0 + 8" unfolding sz_def by linarith+
  note al_cases = space_alloc_cases [OF req lim fr, of m tid, folded sz_def, folded b_def]
  have rs: "sp_clear (snd (space_reset0 m sp))" "\<not> sp_clear (space_reset sp)" by (simp_all add: space_reset0_def space_reset_def)
  show ?thesis
  proof (cases "free_mem sp < sz + 8")
    case True
    then show ?thesis using al_cases rs by (simp add: sz_def)
  next
    case False
    note app = space_ok_append [OF ok, of b, unfolded b]
    have "space_alloc m sp size0 tid = Some (m(sp_pos sp \<mapsto> b),
        sp\<lparr>sp_pos := sp_pos sp + 8 + sz, free_mem := free_mem sp - (sz + 8), blocks := Suc (blocks sp)\<rparr>,
        sp_pos sp + 8)"
      using False al_cases app(1) b(3) by simp
    moreover have "sp_pos sp + (sz + 8) = sp_pos sp + 8 + sz" by simp
    moreover have "type_id (hdr b) = tid \<and> payload b = (if sp_clear sp then P_Zero else P_Uninit) \<and> \<not> forward (hdr b)" by (simp add: b_def)
    ultimately show ?thesis
      using app(2,3) b False up start lay al' rs by (auto intro!: exI [of _ b] simp: algebra_simps)
  qed
qed

theorem space_alloc_correct_witness:
  "\<exists>m' sp' p b. space_alloc (\<lambda>_. None) \<lparr>sp_mem = 64, sp_pos = 64, sp_size = 64, free_mem = 64, blocks = 0, sp_clear = True\<rparr> 24 2
     = Some (m', sp', p) \<and> space_ok m' sp' \<and> free_mem sp' = 32 \<and> m' (p - 8) = Some b \<and> payload b = P_Zero"
proof -
  let ?sp = "\<lparr>sp_mem = 64, sp_pos = 64, sp_size = 64, free_mem = 64, blocks = 0, sp_clear = True\<rparr>"
  have ok: "space_ok (\<lambda>_. None) ?sp" by (simp add: space_ok_def)
  have "space_alloc (\<lambda>_. None) ?sp 24 2 \<noteq> None"
    by (simp add: space_alloc_def align_up_def BHDR_SIZE_def new_hdr_def)
  moreover have "blen b = 32" if "24 \<le> hsize (hdr b)" "hsize (hdr b) < 32" "8 dvd hsize (hdr b)" for b
    using that by (auto simp: blen_def BHDR_SIZE_def)
  ultimately show ?thesis
    using space_alloc_correct [OF ok, of 24 2]
    by (auto simp: space_alloc_def align_up_def BHDR_SIZE_def new_hdr_def blen_def split: option.splits)
qed

text \<open>
  C30: A request of \<open>2 ^ 64 - 15\<close> to \<open>2 ^ 64 - 8\<close> bytes (a small negative \<^verbatim>\<open>int\<close> widened to
  \<^verbatim>\<open>size_t\<close>) wraps: \<open>need\<close> is 0, so the allocation succeeds even in a full space, takes nothing
  from the free memory, and moves \<^verbatim>\<open>pos\<close> four gigabytes ahead.
\<close>

theorem space_alloc_wraps:
  assumes "2 ^ 64 - 15 \<le> unat size0" and "unat size0 \<le> 2 ^ 64 - 8"
  shows "\<exists>m'. space_alloc m sp size0 tid =
    Some (m', sp\<lparr>sp_pos := sp_pos sp + 2 ^ 32, blocks := Suc (blocks sp)\<rparr>, sp_pos sp + 8)"
proof -
  have "unat (size0 + 7) = unat size0 + 7" using assms by (simp add: unat_word_ariths)
  then have al: "unat (align_up size0 8) = (unat size0 + 7) div 8 * 8"
    by (simp add: align_up_def unat_and_m8)
  have "(unat size0 + 7) div 8 = 2 ^ 61 - 1"
    by (rule div_nat_eqI) (use assms in simp_all)
  with al have "unat (align_up size0 8) = unat (- 8 :: u64)" by simp
  then have e: "align_up size0 8 = - 8" by (rule word_unat_eq_iff [THEN iffD2])
  show ?thesis by (simp add: space_alloc_def Let_def e BHDR_SIZE_def new_hdr_def)
qed

theorem space_alloc_wraps_witness:
  "\<exists>m'. space_alloc (\<lambda>_. None) \<lparr>sp_mem = 64, sp_pos = 128, sp_size = 64, free_mem = 0, blocks = 1, sp_clear = True\<rparr> (- 8) 4
     = Some (m', \<lparr>sp_mem = 64, sp_pos = 128 + 2 ^ 32, sp_size = 64, free_mem = 0, blocks = Suc (Suc 0), sp_clear = True\<rparr>, 136)"
  using space_alloc_wraps [of "- 8" "\<lambda>_. None"
      "\<lparr>sp_mem = 64, sp_pos = 128, sp_size = 64, free_mem = 0, blocks = 1, sp_clear = True\<rparr>" 4] by simp

end
