(* ===== verification/Types_Table.thy ===== *)
theory Types_Table
  imports Memory
begin

text \<open>
  The registry of heap types of \<^verbatim>\<open>vm/types.c\<close>. The \<^verbatim>\<open>repr\<close> and \<^verbatim>\<open>visit\<close> function
  pointers of a type are names of the functions the program registers; \<^verbatim>\<open>NULL\<close> is \<open>None\<close>.
\<close>

section \<open>Registration\<close>

definition VM_MAX_TYPES :: nat where "VM_MAX_TYPES = 16"

datatype visitor_fun =
  env_visit_fp | closure_visit_fp | pair_visit_fp | continuation_visit_fp | string_visit_fp
  | struct_visit_fp | bv_visit_fp

datatype repr_fun = pair_repr_fp | string_repr_fp | symbol_repr_fp | struct_repr_fp | bv_repr_fp

record type_t =
  ty_name :: string
  repr :: "repr_fun option"
  visit :: "visitor_fun option"

definition null_type :: type_t where
  "null_type = \<lparr>ty_name = [], repr = None, visit = None\<rparr>"

record registry =
  types_count :: nat
  type_table :: "type_t list"

definition empty_registry :: registry where
  "empty_registry = \<lparr>types_count = 0, type_table = replicate VM_MAX_TYPES null_type\<rparr>"

definition register_type ::
  "registry \<Rightarrow> string \<Rightarrow> repr_fun option \<Rightarrow> visitor_fun option \<Rightarrow> (registry \<times> nat) outcome" where
  "register_type r nm rp vs =
     (if types_count r = VM_MAX_TYPES - 1
      then Inl (Fatal (''failed to register type '' @ nm))
      else Inr (r\<lparr>type_table := (type_table r)
                    [types_count r := \<lparr>ty_name = nm, repr = rp, visit = vs\<rparr>],
                  types_count := Suc (types_count r)\<rparr>,
                types_count r))"

text \<open>
  The registrations of a start: \<^verbatim>\<open>vm_init\<close>, then \<^verbatim>\<open>primitives_init\<close> and the \<^verbatim>\<open>init\<close>
  functions of the native modules, in this order.
\<close>

definition vm_type_list :: "(string \<times> repr_fun option \<times> visitor_fun option) list" where
  "vm_type_list =
    [(''env'', None, Some env_visit_fp),
     (''closure'', None, Some closure_visit_fp),
     (''pair'', Some pair_repr_fp, Some pair_visit_fp),
     (''cont'', None, Some continuation_visit_fp),
     (''string'', Some string_repr_fp, Some string_visit_fp),
     (''symbol'', Some symbol_repr_fp, None),
     (''struct'', Some struct_repr_fp, Some struct_visit_fp),
     (''bv'', Some bv_repr_fp, Some bv_visit_fp)]"

fun register_all ::
  "registry \<Rightarrow> (string \<times> repr_fun option \<times> visitor_fun option) list \<Rightarrow> (registry \<times> nat list) outcome"
where
  "register_all r [] = Inr (r, [])"
| "register_all r ((nm, rp, vs) # ts) =
     bindE (register_type r nm rp vs) (\<lambda>(r, i).
       bindE (register_all r ts) (\<lambda>(r, is). Inr (r, i # is)))"

definition vm_types :: "type_t list" where
  "vm_types = map (\<lambda>(nm, rp, vs). \<lparr>ty_name = nm, repr = rp, visit = vs\<rparr>) vm_type_list
     @ replicate 8 null_type"

text \<open>The entry that \<^verbatim>\<open>type_table[hdr->type_id]\<close> reads; past the end the read is wild.\<close>

definition type_entry :: "u16 \<Rightarrow> type_t outcome" where
  "type_entry tid =
     (if unat tid < VM_MAX_TYPES then Inr (vm_types ! unat tid)
      else Inl (Undefined ''type_table index''))"

section \<open>The table of the program\<close>

lemma register_all_vm_types:
  "register_all empty_registry vm_type_list =
     Inr (\<lparr>types_count = 8, type_table = vm_types\<rparr>, [0, 1, 2, 3, 4, 5, 6, 7])"
  by (simp add: vm_type_list_def empty_registry_def register_type_def VM_MAX_TYPES_def vm_types_def
      eval_nat_numeral)

text \<open>Registration never writes past the table, and one entry always stays free.\<close>

lemma register_type_bounds:
  assumes "register_type r nm rp vs = Inr (r', i)" and "types_count r < VM_MAX_TYPES"
    and "length (type_table r) = VM_MAX_TYPES"
  shows "i = types_count r \<and> types_count r' = Suc i \<and> types_count r' < VM_MAX_TYPES
    \<and> length (type_table r') = VM_MAX_TYPES
    \<and> type_table r' ! i = \<lparr>ty_name = nm, repr = rp, visit = vs\<rparr>
    \<and> (\<forall>j. j \<noteq> i \<longrightarrow> type_table r' ! j = type_table r ! j)"
  using assms by (auto simp: register_type_def VM_MAX_TYPES_def split: if_splits)

lemma type_entry_simps [simp]:
  "type_entry t_env = Inr \<lparr>ty_name = ''env'', repr = None, visit = Some env_visit_fp\<rparr>"
  "type_entry t_closure = Inr \<lparr>ty_name = ''closure'', repr = None, visit = Some closure_visit_fp\<rparr>"
  "type_entry t_pair = Inr \<lparr>ty_name = ''pair'', repr = Some pair_repr_fp, visit = Some pair_visit_fp\<rparr>"
  "type_entry t_cont = Inr \<lparr>ty_name = ''cont'', repr = None, visit = Some continuation_visit_fp\<rparr>"
  "type_entry t_string = Inr \<lparr>ty_name = ''string'', repr = Some string_repr_fp, visit = Some string_visit_fp\<rparr>"
  "type_entry t_symbol = Inr \<lparr>ty_name = ''symbol'', repr = Some symbol_repr_fp, visit = None\<rparr>"
  "type_entry t_struct = Inr \<lparr>ty_name = ''struct'', repr = Some struct_repr_fp, visit = Some struct_visit_fp\<rparr>"
  "type_entry t_bytevector = Inr \<lparr>ty_name = ''bv'', repr = Some bv_repr_fp, visit = Some bv_visit_fp\<rparr>"
  by (simp_all add: type_entry_def type_id_defs VM_MAX_TYPES_def vm_types_def vm_type_list_def)

section \<open>Properties\<close>

text \<open>
  The registrations of a start give the eight types the identifiers that the model's headers
  use, in the order of the \<^verbatim>\<open>init\<close> functions, and reading the table at such an identifier gives
  the registered description.
\<close>

theorem type_registration:
  "\<exists>r. register_all empty_registry vm_type_list = Inr (r, [0, 1, 2, 3, 4, 5, 6, 7])
     \<and> types_count r < VM_MAX_TYPES \<and> length (type_table r) = VM_MAX_TYPES
     \<and> map unat [t_env, t_closure, t_pair, t_cont, t_string, t_symbol, t_struct, t_bytevector]
         = [0, 1, 2, 3, 4, 5, 6, 7]
     \<and> type_entry tid = (if unat tid < VM_MAX_TYPES then Inr (type_table r ! unat tid)
                         else Inl (Undefined ''type_table index''))"
proof -
  have "length vm_types = VM_MAX_TYPES"
    by (simp add: vm_types_def vm_type_list_def VM_MAX_TYPES_def)
  then show ?thesis
    unfolding register_all_vm_types
    by (simp add: VM_MAX_TYPES_def type_id_defs type_entry_def)
qed

text \<open>
  C29: Registering a type fills the next free entry, leaves the others alone, and never writes
  past the table: the sixteenth registration aborts the process.
\<close>

theorem register_type_correct:
  assumes "types_count r < VM_MAX_TYPES" and "length (type_table r) = VM_MAX_TYPES"
  shows "case register_type r nm rp vs of
      Inl e \<Rightarrow> types_count r = 15 \<and> e = Fatal (''failed to register type '' @ nm)
    | Inr (r', i) \<Rightarrow> i = types_count r \<and> types_count r' = Suc i \<and> types_count r' < VM_MAX_TYPES
        \<and> length (type_table r') = VM_MAX_TYPES
        \<and> type_table r' ! i = \<lparr>ty_name = nm, repr = rp, visit = vs\<rparr>
        \<and> (\<forall>j. j \<noteq> i \<longrightarrow> type_table r' ! j = type_table r ! j)"
proof (cases "register_type r nm rp vs")
  case (Inl e)
  then show ?thesis by (auto simp: register_type_def VM_MAX_TYPES_def split: if_splits)
next
  case (Inr p)
  then obtain r' i where "register_type r nm rp vs = Inr (r', i)" by (cases p) auto
  from register_type_bounds [OF this assms] this show ?thesis by auto
qed

theorem register_type_correct_witness:
  "case register_type empty_registry ''env'' None None of Inl e \<Rightarrow> False
   | Inr (r', i) \<Rightarrow> i = 0 \<and> types_count r' = 1"
  using register_type_correct [of empty_registry "''env''" None None]
  by (simp add: empty_registry_def VM_MAX_TYPES_def register_type_def)

end
