(* ===== verification/Hash_Table.thy ===== *)
theory Hash_Table
  imports Prelude "HOL-Library.Multiset"
begin

unbundle bit_operations_syntax

text \<open>
  The chained hash table of \<^verbatim>\<open>vm/hash.c\<close>. A chain (\<^verbatim>\<open>hash_node_t\<close> linked by
  \<^verbatim>\<open>next\<close>) is a list of nodes in link order, \<^verbatim>\<open>nodes\<close> the list of the chains. Pointers to
  nodes do not escape the table, so a node is identified by its chain and position. The callbacks
  \<^verbatim>\<open>destroy_key\<close> and \<^verbatim>\<open>destroy_val\<close> are recorded as the sequence of the calls they
  receive. \<^verbatim>\<open>int\<close> counters are mathematical: a table would need more than \<open>2 ^ 29\<close> nodes of 32
  bytes to reach their limits.
\<close>

section \<open>The table\<close>

record ('k, 'v) hash_node =
  key :: 'k
  val :: 'v
  key_hash :: u32

record ('k, 'v) hash_table =
  tsize :: nat
  nnodes :: nat
  nodes :: "('k, 'v) hash_node list list"
  hash_func :: "'k \<Rightarrow> u32"
  equal_func :: "('k \<Rightarrow> 'k \<Rightarrow> bool) option"
  has_destroy_key :: bool
  has_destroy_val :: bool

datatype ('k, 'v) destroy_call = DestroyKey 'k | DestroyVal 'v

definition HASH_TABLE_MIN_SIZE :: nat where "HASH_TABLE_MIN_SIZE = 11"
definition HASH_TABLE_MAX_SIZE :: nat where "HASH_TABLE_MAX_SIZE = 13845163"

definition CLAMP :: "nat \<Rightarrow> nat \<Rightarrow> nat \<Rightarrow> nat" where
  "CLAMP x low high = (if x > high then high else if x < low then low else x)"

definition primes :: "nat list" where
  "primes = [11, 19, 37, 73, 109, 163, 251, 367, 557, 823, 1237, 1861, 2777, 4177, 6247, 9371,
    14057, 21089, 31627, 47431, 71143, 106721, 160073, 240101, 360163, 540217, 810343, 1215497,
    1823231, 2734867, 4102283, 6153409, 9230113, 13845163]"

text \<open>The loop of \<^verbatim>\<open>spaced_primes_closest\<close> over the table of primes.\<close>

fun closest_from :: "nat list \<Rightarrow> nat \<Rightarrow> nat" where
  "closest_from [] num = 13845163"
| "closest_from (p # ps) num = (if p > num then p else closest_from ps num)"

definition spaced_primes_closest :: "nat \<Rightarrow> nat" where
  "spaced_primes_closest num = closest_from primes num"

definition hash_table_init ::
  "('k \<Rightarrow> u32) \<Rightarrow> ('k \<Rightarrow> 'k \<Rightarrow> bool) option \<Rightarrow> ('k, 'v) hash_table" where
  "hash_table_init hash equal =
     \<lparr>tsize = HASH_TABLE_MIN_SIZE, nnodes = 0, nodes = replicate HASH_TABLE_MIN_SIZE [],
      hash_func = hash, equal_func = equal, has_destroy_key = False, has_destroy_val = False\<rparr>"

text \<open>\<^verbatim>\<open>hash_table_destroy\<close>: the callbacks it makes, node by node, chain by chain.\<close>

definition destroy_node :: "('k, 'v) hash_table \<Rightarrow> ('k, 'v) hash_node \<Rightarrow> ('k, 'v) destroy_call list"
where
  "destroy_node t nd =
     (if has_destroy_key t then [DestroyKey (key nd)] else []) @
     (if has_destroy_val t then [DestroyVal (val nd)] else [])"

definition hash_table_destroy :: "('k, 'v) hash_table \<Rightarrow> ('k, 'v) destroy_call list" where
  "hash_table_destroy t = concat (map (\<lambda>chain. concat (map (destroy_node t) chain)) (nodes t))"

text \<open>
  \<^verbatim>\<open>hash_table_resize\<close>: every node is unlinked from its chain and pushed on the front of its
  new chain.
\<close>

definition rehash_node ::
  "nat \<Rightarrow> ('k, 'v) hash_node \<Rightarrow> ('k, 'v) hash_node list list \<Rightarrow> ('k, 'v) hash_node list list" where
  "rehash_node new_size nd new_nodes =
     (let hash_val = unat (key_hash nd) mod new_size
      in new_nodes[hash_val := nd # new_nodes ! hash_val])"

definition hash_table_resize :: "('k, 'v) hash_table \<Rightarrow> ('k, 'v) hash_table" where
  "hash_table_resize t =
     (let new_size = CLAMP (spaced_primes_closest (nnodes t)) HASH_TABLE_MIN_SIZE HASH_TABLE_MAX_SIZE;
          new_nodes = fold (\<lambda>chain. fold (rehash_node new_size) chain) (nodes t)
                        (replicate new_size [])
      in t\<lparr>nodes := new_nodes, tsize := new_size\<rparr>)"

definition hash_table_maybe_resize :: "('k, 'v) hash_table \<Rightarrow> ('k, 'v) hash_table" where
  "hash_table_maybe_resize t =
     (if (tsize t \<ge> 3 * nnodes t \<and> tsize t > HASH_TABLE_MIN_SIZE)
         \<or> (3 * tsize t \<le> nnodes t \<and> tsize t < HASH_TABLE_MAX_SIZE)
      then hash_table_resize t else t)"

text \<open>
  \<^verbatim>\<open>hash_table_lookup_node\<close> returns the link to the matching node, or the null link that ends the
  chain: the chain, the position in it, and the key's hash.
\<close>

definition node_matches :: "('k, 'v) hash_table \<Rightarrow> u32 \<Rightarrow> 'k \<Rightarrow> ('k, 'v) hash_node \<Rightarrow> bool" where
  "node_matches t h k nd =
     (case equal_func t of
        Some equal \<Rightarrow> key_hash nd = h \<and> equal (key nd) k
      | None \<Rightarrow> key nd = k)"

fun chain_pos :: "('a \<Rightarrow> bool) \<Rightarrow> 'a list \<Rightarrow> nat" where
  "chain_pos P [] = 0"
| "chain_pos P (x # xs) = (if P x then 0 else Suc (chain_pos P xs))"

definition hash_table_lookup_node :: "('k, 'v) hash_table \<Rightarrow> 'k \<Rightarrow> nat \<times> nat \<times> u32" where
  "hash_table_lookup_node t k =
     (let h = hash_func t k; b = unat h mod tsize t
      in (b, chain_pos (node_matches t h k) (nodes t ! b), h))"

definition hash_table_lookup :: "('k, 'v) hash_table \<Rightarrow> 'k \<Rightarrow> 'v option" where
  "hash_table_lookup t k =
     (case hash_table_lookup_node t k of (b, i, h) \<Rightarrow>
        if i < length (nodes t ! b) then Some (val (nodes t ! b ! i)) else None)"

text \<open>
  \<^verbatim>\<open>hash_table_insert\<close>: overwrite the value of a matching node (the old value is destroyed), or
  link a new node at the end of the chain and perhaps resize.
\<close>

definition hash_table_insert ::
  "('k, 'v) hash_table \<Rightarrow> 'k \<Rightarrow> 'v \<Rightarrow> ('k, 'v) hash_table \<times> ('k, 'v) destroy_call list" where
  "hash_table_insert t k v =
     (case hash_table_lookup_node t k of (b, i, h) \<Rightarrow>
        let chain = nodes t ! b in
        if i < length chain
        then (t\<lparr>nodes := (nodes t)[b := chain[i := (chain ! i)\<lparr>val := v\<rparr>]]\<rparr>,
              if has_destroy_val t then [DestroyVal (val (chain ! i))] else [])
        else (hash_table_maybe_resize
                (t\<lparr>nodes := (nodes t)[b := chain @ [\<lparr>key = k, val = v, key_hash = h\<rparr>]],
                   nnodes := Suc (nnodes t)\<rparr>), []))"

section \<open>The hash and equality functions\<close>

text \<open>
  C strings as byte lists without their terminator. \<^verbatim>\<open>*str\<close> is a (signed) \<^verbatim>\<open>char\<close>, widened
  to \<^verbatim>\<open>int\<close> and added modulo \<open>2 ^ 32\<close>.
\<close>

type_synonym cstring = "u8 list"

fun string_hash_from :: "u32 \<Rightarrow> cstring \<Rightarrow> u32" where
  "string_hash_from h [] = h"
| "string_hash_from h (c # cs) = string_hash_from ((push_bit 5 h - h) + scast c) cs"

definition string_hash :: "cstring \<Rightarrow> u32" where "string_hash s = string_hash_from 0 s"
definition string_equal :: "cstring \<Rightarrow> cstring \<Rightarrow> bool" where "string_equal a b \<longleftrightarrow> a = b"

definition int_hash :: "u32 \<Rightarrow> u32" where "int_hash src = src"
definition int_equal :: "u32 \<Rightarrow> u32 \<Rightarrow> bool" where "int_equal a b \<longleftrightarrow> a = b"

text \<open>A pointer hashes to its low 32 bits.\<close>

definition direct_hash :: "addr \<Rightarrow> u32" where "direct_hash p = of_nat p"
definition direct_equal :: "addr \<Rightarrow> addr \<Rightarrow> bool" where "direct_equal a b \<longleftrightarrow> a = b"

section \<open>Lists of chains\<close>

definition entries :: "('k, 'v) hash_table \<Rightarrow> ('k, 'v) hash_node list" where
  "entries t = concat (nodes t)"

lemma chain_pos_less_iff: "chain_pos P xs < length xs \<longleftrightarrow> (\<exists>x \<in> set xs. P x)"
  by (induction xs) auto

lemma chain_pos_nth: "chain_pos P xs < length xs \<Longrightarrow> P (xs ! chain_pos P xs)"
  by (induction xs) (auto split: if_splits)

lemma mset_concat_update:
  "i < length xss \<Longrightarrow>
   mset (concat (xss[i := ys])) + mset (xss ! i) = mset (concat xss) + mset ys"
proof (induction xss arbitrary: i)
  case (Cons xs xss)
  then show ?case by (cases i) (auto simp: ac_simps)
qed simp

lemma set_concat_update:
  "i < length xss \<Longrightarrow>
   set (concat (xss[i := ys])) = (\<Union>j \<in> {..<length xss} - {i}. set (xss ! j)) \<union> set ys"
  by (fastforce simp: in_set_conv_nth nth_list_update split: if_splits)

text \<open>Pairwise difference of a list is a property of its multiset.\<close>

definition pairwise_ok :: "('a \<Rightarrow> 'a \<Rightarrow> bool) \<Rightarrow> 'a list \<Rightarrow> bool" where
  "pairwise_ok R xs \<longleftrightarrow> (\<forall>x y. {#x, y#} \<subseteq># mset xs \<longrightarrow> R x y)"

lemma pairwise_ok_mset_cong: "mset xs = mset ys \<Longrightarrow> pairwise_ok R xs = pairwise_ok R ys"
  by (simp add: pairwise_ok_def)

lemma pairwise_ok_Nil [simp]: "pairwise_ok R []"
  by (simp add: pairwise_ok_def)

lemma pairwise_ok_Cons:
  assumes "symp R"
  shows "pairwise_ok R (x # xs) \<longleftrightarrow> (\<forall>y \<in> set xs. R x y) \<and> pairwise_ok R xs"
proof
  assume A: "pairwise_ok R (x # xs)"
  have "R x y" if "y \<in> set xs" for y
  proof -
    have "{#x, y#} \<subseteq># mset (x # xs)"
      using that by (simp add: mset_subset_eq_single)
    with A show ?thesis by (simp add: pairwise_ok_def)
  qed
  moreover have "R a b" if "{#a, b#} \<subseteq># mset xs" for a b
  proof -
    have "{#a, b#} \<subseteq># mset (x # xs)"
      using subset_mset.order_trans [OF that, of "mset (x # xs)"] by simp
    with A show ?thesis by (simp add: pairwise_ok_def)
  qed
  then have "pairwise_ok R xs" by (simp add: pairwise_ok_def)
  ultimately show "(\<forall>y \<in> set xs. R x y) \<and> pairwise_ok R xs" by blast
next
  assume A: "(\<forall>y \<in> set xs. R x y) \<and> pairwise_ok R xs"
  show "pairwise_ok R (x # xs)"
    unfolding pairwise_ok_def
  proof (intro allI impI)
    fix a b
    assume sub: "{#a, b#} \<subseteq># mset (x # xs)"
    show "R a b"
    proof (cases "x \<in> {a, b}")
      case False
      then have "{#a, b#} \<subseteq># mset xs"
        using mset_subset_eq_count [OF sub]
        by (intro mset_subset_eqI) (metis False count_add_mset count_empty insertCI mset.simps(2)
            le0 singletonI)
      with A show ?thesis by (simp add: pairwise_ok_def)
    next
      case True
      then have "a = x \<and> b \<in> set xs \<or> b = x \<and> a \<in> set xs"
        using sub by (auto simp: add_mset_commute [of a b] mset_subset_eq_single)
      with A assms show ?thesis by (auto dest: sympD)
    qed
  qed
qed

section \<open>The invariant of a table\<close>

definition key_equal :: "('k, 'v) hash_table \<Rightarrow> 'k \<Rightarrow> 'k \<Rightarrow> bool" where
  "key_equal t = (case equal_func t of Some equal \<Rightarrow> equal | None \<Rightarrow> (=))"

text \<open>Every node sits in the chain of its hash, with the hash of its key; keys differ pairwise.\<close>

definition placed :: "('k, 'v) hash_table \<Rightarrow> bool" where
  "placed t \<longleftrightarrow> (\<forall>i < tsize t. \<forall>nd \<in> set (nodes t ! i).
     key_hash nd = hash_func t (key nd) \<and> unat (key_hash nd) mod tsize t = i)"

definition hash_wf :: "('k, 'v) hash_table \<Rightarrow> bool" where
  "hash_wf t \<longleftrightarrow> 0 < tsize t \<and> length (nodes t) = tsize t \<and> nnodes t = length (entries t)
     \<and> placed t \<and> pairwise_ok (\<lambda>a b. \<not> key_equal t (key a) (key b)) (entries t)"

text \<open>The load bound that the resize policy maintains: fewer than three nodes a chain on average.\<close>

definition load_ok :: "('k, 'v) hash_table \<Rightarrow> bool" where
  "load_ok t \<longleftrightarrow> nnodes t < 3 * tsize t \<or> tsize t = HASH_TABLE_MAX_SIZE"

lemma entries_iff: "length (nodes t) = tsize t \<Longrightarrow>
  nd \<in> set (entries t) \<longleftrightarrow> (\<exists>i < tsize t. nd \<in> set (nodes t ! i))"
  by (auto simp: entries_def in_set_conv_nth) (metis in_set_conv_nth)+

lemma placedD:
  "\<lbrakk>placed t; nd \<in> set (nodes t ! i); i < tsize t\<rbrakk>
    \<Longrightarrow> key_hash nd = hash_func t (key nd) \<and> i = unat (hash_func t (key nd)) mod tsize t"
  by (metis placed_def)

lemma placed_update:
  assumes "placed t" "length (nodes t) = tsize t" "b < tsize t"
    and ys: "\<And>x. x \<in> set ys \<Longrightarrow>
      key_hash x = hash_func t (key x) \<and> unat (hash_func t (key x)) mod tsize t = b"
  shows "placed (t\<lparr>nodes := (nodes t)[b := ys], nnodes := n\<rparr>)"
  unfolding placed_def
proof (intro allI impI ballI)
  let ?t' = "t\<lparr>nodes := (nodes t)[b := ys], nnodes := n\<rparr>"
  fix j x assume j: "j < tsize ?t'" and x: "x \<in> set (nodes ?t' ! j)"
  show "key_hash x = hash_func ?t' (key x) \<and> unat (key_hash x) mod tsize ?t' = j"
  proof (cases "j = b")
    case True
    then have "x \<in> set ys" using x assms(2,3) by simp
    with ys [OF this] True show ?thesis by simp
  next
    case False
    with j x have "x \<in> set (nodes t ! j)" "j < tsize t" by simp_all
    from placedD [OF assms(1) this] show ?thesis by simp
  qed
qed

section \<open>Resizing\<close>

lemma closest_from_gt: "closest_from ps num > num \<or> closest_from ps num = 13845163"
  by (induction ps) auto

lemma closest_from_in: "closest_from ps num \<in> insert 13845163 (set ps)"
  by (induction ps) auto

text \<open>The new size is a prime of the table above the node count, or the largest one.\<close>

definition new_size_of :: "nat \<Rightarrow> nat" where
  "new_size_of n = CLAMP (spaced_primes_closest n) HASH_TABLE_MIN_SIZE HASH_TABLE_MAX_SIZE"

lemma new_size_bounds: "11 \<le> new_size_of n \<and> new_size_of n \<le> 13845163"
  by (simp add: new_size_of_def CLAMP_def HASH_TABLE_MIN_SIZE_def HASH_TABLE_MAX_SIZE_def)

lemma new_size_gt: "n < new_size_of n \<or> new_size_of n = 13845163"
  using closest_from_gt [where ps = primes and num = n]
  by (auto simp: new_size_of_def CLAMP_def HASH_TABLE_MIN_SIZE_def HASH_TABLE_MAX_SIZE_def
      spaced_primes_closest_def)

lemma new_size_prime: "new_size_of n \<in> set primes"
proof -
  have "closest_from primes n \<in> set primes"
    using closest_from_in [where ps = primes and num = n] by (auto simp: primes_def)
  moreover have "\<forall>p \<in> set primes. 11 \<le> p \<and> p \<le> 13845163"
    by (simp add: primes_def)
  ultimately show ?thesis
    by (auto simp: new_size_of_def CLAMP_def HASH_TABLE_MIN_SIZE_def HASH_TABLE_MAX_SIZE_def
        spaced_primes_closest_def)
qed

definition in_place :: "nat \<Rightarrow> ('k, 'v) hash_node list list \<Rightarrow> bool" where
  "in_place n xss \<longleftrightarrow> length xss = n \<and> (\<forall>i < n. \<forall>nd \<in> set (xss ! i). unat (key_hash nd) mod n = i)"

lemma rehash_node_in_place: "0 < n \<Longrightarrow> in_place n xss \<Longrightarrow> in_place n (rehash_node n nd xss)"
  by (auto simp: in_place_def rehash_node_def Let_def nth_list_update split: if_splits)

lemma rehash_node_mset:
  assumes "0 < n" and "in_place n xss"
  shows "mset (concat (rehash_node n nd xss)) = add_mset nd (mset (concat xss))"
proof -
  let ?i = "unat (key_hash nd) mod n"
  have "?i < length xss"
    using assms by (simp add: in_place_def)
  from mset_concat_update [OF this, of "nd # xss ! ?i"] show ?thesis
    by (simp add: rehash_node_def Let_def)
qed

lemma rehash_chain:
  assumes "0 < n" and "in_place n xss"
  shows "in_place n (fold (rehash_node n) chain xss) \<and>
    mset (concat (fold (rehash_node n) chain xss)) = mset chain + mset (concat xss)"
  using assms
  by (induction chain arbitrary: xss)
    (auto simp: rehash_node_in_place rehash_node_mset simp del: mset_concat)

lemma rehash_all:
  assumes "0 < n" and "in_place n xss"
  shows "in_place n (fold (\<lambda>chain. fold (rehash_node n) chain) css xss) \<and>
    mset (concat (fold (\<lambda>chain. fold (rehash_node n) chain) css xss)) =
      mset (concat css) + mset (concat xss)"
  using assms
  by (induction css arbitrary: xss) (auto simp: rehash_chain simp del: mset_concat)

lemma in_place_replicate: "in_place n (replicate n [])"
  by (simp add: in_place_def)

lemma resize_fields [simp]:
  "tsize (hash_table_resize t) = new_size_of (nnodes t)"
  "nnodes (hash_table_resize t) = nnodes t"
  "hash_func (hash_table_resize t) = hash_func t"
  "equal_func (hash_table_resize t) = equal_func t"
  "has_destroy_key (hash_table_resize t) = has_destroy_key t"
  "has_destroy_val (hash_table_resize t) = has_destroy_val t"
  by (simp_all add: hash_table_resize_def Let_def new_size_of_def)

lemma key_equal_resize [simp]: "key_equal (hash_table_resize t) = key_equal t"
  by (simp add: key_equal_def)

lemma resize_in_place: "in_place (new_size_of (nnodes t)) (nodes (hash_table_resize t))"
  and resize_entries: "mset (entries (hash_table_resize t)) = mset (entries t)"
proof -
  let ?n = "new_size_of (nnodes t)"
  have "0 < ?n" using new_size_bounds [of "nnodes t"] by linarith
  from rehash_all [OF this in_place_replicate, of "nodes t"]
  show "in_place ?n (nodes (hash_table_resize t))"
    and "mset (entries (hash_table_resize t)) = mset (entries t)"
    by (simp_all add: hash_table_resize_def Let_def new_size_of_def entries_def del: mset_concat)
qed

lemma hash_wf_resize:
  assumes "hash_wf t"
  shows "hash_wf (hash_table_resize t)"
proof -
  let ?r = "hash_table_resize t"
  have len: "length (nodes ?r) = tsize ?r"
    using resize_in_place [of t] by (simp add: in_place_def)
  have pos: "0 < tsize ?r"
    using new_size_bounds [of "nnodes t"] by simp
  have entries_eq: "set (entries ?r) = set (entries t)"
    using resize_entries [of t] by (rule mset_eq_setD)
  have hashes: "key_hash nd = hash_func t (key nd)" if "nd \<in> set (entries ?r)" for nd
    using that assms unfolding entries_eq hash_wf_def
    by (auto simp: entries_iff dest: placedD)
  have "placed ?r"
    unfolding placed_def
  proof (intro allI impI ballI)
    fix i nd assume i: "i < tsize ?r" and nd: "nd \<in> set (nodes ?r ! i)"
    then have "nd \<in> set (entries ?r)"
      using entries_iff [OF len] by blast
    moreover have "unat (key_hash nd) mod tsize ?r = i"
      using resize_in_place [of t] i nd by (simp add: in_place_def)
    ultimately show "key_hash nd = hash_func ?r (key nd) \<and> unat (key_hash nd) mod tsize ?r = i"
      by (simp add: hashes)
  qed
  then show ?thesis
    using assms len pos resize_entries [of t] pairwise_ok_mset_cong [OF resize_entries [of t]]
    by (auto simp: hash_wf_def dest: mset_eq_length)
qed

lemma hash_wf_maybe_resize: "hash_wf t \<Longrightarrow> hash_wf (hash_table_maybe_resize t)"
  by (simp add: hash_table_maybe_resize_def hash_wf_resize)

lemma maybe_resize_fields [simp]:
  "nnodes (hash_table_maybe_resize t) = nnodes t"
  "hash_func (hash_table_maybe_resize t) = hash_func t"
  "equal_func (hash_table_maybe_resize t) = equal_func t"
  "has_destroy_key (hash_table_maybe_resize t) = has_destroy_key t"
  "has_destroy_val (hash_table_maybe_resize t) = has_destroy_val t"
  "key_equal (hash_table_maybe_resize t) = key_equal t"
  by (simp_all add: hash_table_maybe_resize_def)

lemma maybe_resize_entries: "mset (entries (hash_table_maybe_resize t)) = mset (entries t)"
  by (simp add: hash_table_maybe_resize_def resize_entries)

lemma maybe_resize_load:
  assumes "tsize t \<le> HASH_TABLE_MAX_SIZE"
  shows "load_ok (hash_table_maybe_resize t)"
    and "tsize (hash_table_maybe_resize t) \<le> HASH_TABLE_MAX_SIZE"
  using assms new_size_gt [of "nnodes t"] new_size_bounds [of "nnodes t"]
  by (auto simp: hash_table_maybe_resize_def load_ok_def HASH_TABLE_MAX_SIZE_def)

end
