(* ===== verification/Hash_Correct.thy ===== *)
theory Hash_Correct
  imports Hash_Table
begin

text \<open>
  The hash table of \<^verbatim>\<open>vm/hash.c\<close> is a finite map. The locale \<open>hash_funcs\<close> states what the
  table relies on in its two callbacks; \<open>map_store\<close> is the contract the table's clients rely on
  (the symbol table, the library cache, the builtin table and the forwarding map of the collector).
  Both are interpreted on the code's own functions.
\<close>

section \<open>What the table relies on\<close>

text \<open>A table that was initialised with these callbacks.\<close>

definition table_uses ::
  "('k \<Rightarrow> u32) \<Rightarrow> ('k \<Rightarrow> 'k \<Rightarrow> bool) \<Rightarrow> ('k, 'v) hash_table \<Rightarrow> bool" where
  "table_uses hash equal t \<longleftrightarrow> hash_func t = hash \<and> key_equal t = equal"

lemma table_usesD [dest]:
  "table_uses hash equal t \<Longrightarrow> hash_func t = hash"
  "table_uses hash equal t \<Longrightarrow> key_equal t = equal"
  by (simp_all add: table_uses_def)

locale hash_funcs =
  fixes hash :: "'k \<Rightarrow> u32" and equal :: "'k \<Rightarrow> 'k \<Rightarrow> bool"
  assumes equal_refl: "equal k k"
    and equal_sym: "equal k k' \<Longrightarrow> equal k' k"
    and equal_trans: "equal k k' \<Longrightarrow> equal k' k'' \<Longrightarrow> equal k k''"
    and equal_hash: "equal k k' \<Longrightarrow> hash k = hash k'"
begin

lemma matches_iff:
  assumes "table_uses hash equal t" and "key_hash nd = hash (key nd)"
  shows "node_matches t (hash k) k nd \<longleftrightarrow> equal (key nd) k"
  using assms by (auto simp: node_matches_def table_uses_def key_equal_def split: option.splits
      dest: equal_hash)

lemma symp_differ: "symp (\<lambda>a b. \<not> equal (key a) (key b))"
  by (auto intro!: sympI dest: equal_sym)

text \<open>The node with a key equal to \<open>k\<close>, wherever it is, is in the chain of \<open>k\<close>.\<close>

lemma node_in_chain:
  assumes t: "hash_wf t" "table_uses hash equal t"
  shows "(\<exists>nd \<in> set (nodes t ! (unat (hash k) mod tsize t)). node_matches t (hash k) k nd)
    \<longleftrightarrow> (\<exists>nd \<in> set (entries t). equal (key nd) k)" (is "?L \<longleftrightarrow> ?R")
proof -
  let ?b = "unat (hash k) mod tsize t"
  have b: "?b < tsize t" and len: "length (nodes t) = tsize t" and pl: "placed t"
    using t by (auto simp: hash_wf_def)
  have hk: "key_hash nd = hash (key nd)" if "nd \<in> set (nodes t ! i)" "i < tsize t" for nd i
    using placedD [OF pl that] t(2) by auto
  show ?thesis
  proof
    assume ?L
    then show ?R
      using matches_iff [OF t(2) hk] b entries_iff [OF len] by blast
  next
    assume ?R
    then obtain nd i where nd: "nd \<in> set (nodes t ! i)" "i < tsize t" "equal (key nd) k"
      using entries_iff [OF len] by blast
    then have "i = ?b"
      using placedD [OF pl nd(1,2)] t(2) equal_hash [OF nd(3)] by auto
    then show ?L
      using nd matches_iff [OF t(2) hk] by blast
  qed
qed

text \<open>At most one node has a key equal to \<open>k\<close>.\<close>

lemma node_unique:
  assumes "hash_wf t" "table_uses hash equal t" "mset (entries t) = add_mset nd M" "x \<in># M"
  shows "\<not> equal (key nd) (key x)"
proof -
  obtain xs where xs: "mset xs = M" using ex_mset by blast
  have "pairwise_ok (\<lambda>a b. \<not> equal (key a) (key b)) (nd # xs)"
    using assms xs pairwise_ok_mset_cong [of "entries t" "nd # xs"]
    by (auto simp: hash_wf_def)
  with assms(4) xs show ?thesis
    by (auto simp: pairwise_ok_Cons [OF symp_differ])
qed

lemma lookup_Some_iff:
  assumes t: "hash_wf t" "table_uses hash equal t"
  shows "hash_table_lookup t k = Some v \<longleftrightarrow> (\<exists>nd \<in> set (entries t). equal (key nd) k \<and> val nd = v)"
proof -
  let ?b = "unat (hash k) mod tsize t"
  let ?i = "chain_pos (node_matches t (hash k) k) (nodes t ! ?b)"
  have b: "?b < tsize t" and len: "length (nodes t) = tsize t" and pl: "placed t"
    using t by (auto simp: hash_wf_def)
  have lk: "hash_table_lookup t k =
      (if ?i < length (nodes t ! ?b) then Some (val (nodes t ! ?b ! ?i)) else None)"
    using t by (auto simp: hash_table_lookup_def hash_table_lookup_node_def Let_def)
  show ?thesis
  proof (cases "?i < length (nodes t ! ?b)")
    case False
    then have "\<not> (\<exists>nd \<in> set (entries t). equal (key nd) k)"
      using node_in_chain [OF t] chain_pos_less_iff by metis
    with False lk show ?thesis by auto
  next
    case True
    let ?nd = "nodes t ! ?b ! ?i"
    have nd: "?nd \<in> set (nodes t ! ?b)" using True by simp
    then have in_t: "?nd \<in> set (entries t)" using entries_iff [OF len] b by blast
    have eq: "equal (key ?nd) k"
      using chain_pos_nth [OF True] matches_iff [OF t(2)] placedD [OF pl nd b] t(2) by auto
    have uniq: "val nd = val ?nd" if "nd \<in> set (entries t)" "equal (key nd) k" for nd
    proof (rule ccontr)
      assume ne: "val nd \<noteq> val ?nd"
      obtain M where M: "mset (entries t) = add_mset ?nd M"
        using in_t by (metis mset_add set_mset_mset)
      with that ne have "nd \<in># M"
        by (metis insert_iff set_mset_add_mset_insert set_mset_mset)
      from node_unique [OF t M this] show False
        using eq that(2) by (meson equal_sym equal_trans)
    qed
    have "hash_table_lookup t k = Some (val ?nd)"
      using True lk by simp
    then show ?thesis
      using in_t eq uniq by (metis option.inject)
  qed
qed

lemma lookup_None_iff:
  assumes "hash_wf t" "table_uses hash equal t"
  shows "hash_table_lookup t k = None \<longleftrightarrow> (\<forall>nd \<in> set (entries t). \<not> equal (key nd) k)"
  using lookup_Some_iff [OF assms] by (metis not_None_eq)

text \<open>Two well-formed tables with the same multiset of nodes are the same map.\<close>

lemma lookup_mset_cong:
  assumes "hash_wf t" "table_uses hash equal t" "hash_wf t'" "table_uses hash equal t'" "mset (entries t) = mset (entries t')"
  shows "hash_table_lookup t k = hash_table_lookup t' k"
proof -
  have "set (entries t) = set (entries t')" using assms(5) by (rule mset_eq_setD)
  then have iff: "hash_table_lookup t k = Some v \<longleftrightarrow> hash_table_lookup t' k = Some v" for v
    by (simp add: lookup_Some_iff [OF assms(1,2)] lookup_Some_iff [OF assms(3,4)])
  show ?thesis
  proof (cases "hash_table_lookup t k")
    case None
    then have "hash_table_lookup t' k \<noteq> Some v" for v
      using iff [of v] by simp
    then have "hash_table_lookup t' k = None"
      by (metis not_None_eq)
    with None show ?thesis by simp
  next
    case (Some v)
    with iff [of v] show ?thesis by simp
  qed
qed

section \<open>Insertion\<close>

text \<open>The two ways an insertion changes the nodes of the table.\<close>

lemma insert_cases:
  fixes t :: "('k, 'v) hash_table"
  assumes t: "hash_wf t" "table_uses hash equal t"
  obtains
    (overwrite) nd M where "mset (entries t) = add_mset nd M" "equal (key nd) k"
      "fst (hash_table_insert t k v) = t\<lparr>nodes := nodes (fst (hash_table_insert t k v))\<rparr>"
      "mset (entries (fst (hash_table_insert t k v))) = add_mset (nd\<lparr>val := v\<rparr>) M"
      "snd (hash_table_insert t k v) = (if has_destroy_val t then [DestroyVal (val nd)] else [])"
      "hash_wf (fst (hash_table_insert t k v))"
  | (fresh) t1 where "\<forall>nd \<in> set (entries t). \<not> equal (key nd) k"
      "mset (entries t1) = add_mset \<lparr>key = k, val = v, key_hash = hash k\<rparr> (mset (entries t))"
      "hash_wf t1" "table_uses hash equal t1" "tsize t1 = tsize t" "nnodes t1 = Suc (nnodes t)"
      "fst (hash_table_insert t k v) = hash_table_maybe_resize t1"
      "snd (hash_table_insert t k v) = []"
proof -
  define b where "b = unat (hash k) mod tsize t"
  define chain where "chain = nodes t ! b"
  define i where "i = chain_pos (node_matches t (hash k) k) chain"
  have b: "b < tsize t" and len: "length (nodes t) = tsize t" and pl: "placed t"
    and nn: "nnodes t = length (entries t)" and ts: "0 < tsize t"
    and pw: "pairwise_ok (\<lambda>a b. \<not> equal (key a) (key b)) (entries t)"
    using t by (auto simp: hash_wf_def b_def)
  have node: "hash_table_lookup_node t k = (b, i, hash k)"
    using t by (auto simp: hash_table_lookup_node_def Let_def b_def i_def chain_def)
  have hk: "key_hash nd = hash (key nd) \<and> b = unat (hash (key nd)) mod tsize t"
    if "nd \<in> set chain" for nd
    using placedD [OF pl _ b] that t(2) by (auto simp: chain_def)
  show thesis
  proof (cases "i < length chain")
    case True
    let ?nd = "chain ! i"
    let ?t' = "t\<lparr>nodes := (nodes t)[b := chain[i := ?nd\<lparr>val := v\<rparr>]]\<rparr>"
    have ins: "hash_table_insert t k v = (?t', if has_destroy_val t then [DestroyVal (val ?nd)] else [])"
      using True by (simp add: hash_table_insert_def node Let_def chain_def)
    have nd: "?nd \<in> set chain" using True by simp
    have eq: "equal (key ?nd) k"
      using chain_pos_nth [of "node_matches t (hash k) k" chain] True hk [OF nd]
        matches_iff [OF t(2)] by (simp add: i_def)
    have "?nd \<in># mset (entries t)"
      using nd b entries_iff [OF len] by (auto simp: chain_def)
    then obtain M where M: "mset (entries t) = add_mset ?nd M" by (metis mset_add)
    have "mset (entries ?t') + mset chain = mset (entries t) + mset (chain[i := ?nd\<lparr>val := v\<rparr>])"
      using mset_concat_update [of b "nodes t"] b len
      by (simp add: entries_def chain_def del: mset_concat)
    moreover have "mset (chain[i := ?nd\<lparr>val := v\<rparr>]) + {# ?nd #} = add_mset (?nd\<lparr>val := v\<rparr>) (mset chain)"
      using True by (simp add: mset_update)
    ultimately have "mset (entries ?t') + mset chain + {# ?nd #}
        = add_mset ?nd M + add_mset (?nd\<lparr>val := v\<rparr>) (mset chain)"
      using M by (simp add: add.assoc)
    then have ms: "mset (entries ?t') = add_mset (?nd\<lparr>val := v\<rparr>) M"
      by (simp add: ac_simps)
    obtain xs where xs: "mset xs = M" using ex_mset by blast
    have "pairwise_ok (\<lambda>a b. \<not> equal (key a) (key b)) (?nd # xs)"
      using pw M xs pairwise_ok_mset_cong [of "entries t" "?nd # xs"] by auto
    then have "pairwise_ok (\<lambda>a b. \<not> equal (key a) (key b)) (?nd\<lparr>val := v\<rparr> # xs)"
      by (simp add: pairwise_ok_Cons [OF symp_differ])
    then have pw': "pairwise_ok (\<lambda>a b. \<not> equal (key a) (key b)) (entries ?t')"
      using ms xs pairwise_ok_mset_cong [of "entries ?t'" "?nd\<lparr>val := v\<rparr> # xs"] by auto
    have upd: "key_hash x = hash (key x) \<and> unat (hash (key x)) mod tsize t = b"
      if "x \<in> set (chain[i := ?nd\<lparr>val := v\<rparr>])" for x
      using that hk nd set_update_subset_insert [of chain i "?nd\<lparr>val := v\<rparr>"] by fastforce
    have "placed ?t'"
      using placed_update [OF pl len b, of "chain[i := ?nd\<lparr>val := v\<rparr>]" "nnodes t"] upd t(2)
      by (auto simp: table_uses_def)
    moreover have "length (entries ?t') = length (entries t)"
      using ms M by (metis mset_eq_length size_add_mset size_mset)
    ultimately have "hash_wf ?t'"
      using pw' ts len nn t(2) by (auto simp: hash_wf_def table_uses_def key_equal_def)
    then show thesis
      using ins ms by (intro overwrite [OF M eq]) simp_all
  next
    case False
    let ?new = "\<lparr>key = k, val = v, key_hash = hash k\<rparr>"
    let ?t1 = "t\<lparr>nodes := (nodes t)[b := chain @ [?new]], nnodes := Suc (nnodes t)\<rparr>"
    have ins: "hash_table_insert t k v = (hash_table_maybe_resize ?t1, [])"
      using False by (simp add: hash_table_insert_def node Let_def chain_def)
    have none: "\<forall>nd \<in> set (entries t). \<not> equal (key nd) k"
      using node_in_chain [OF t] False chain_pos_less_iff unfolding i_def chain_def b_def by metis
    have "mset (entries ?t1) + mset chain = mset (entries t) + mset (chain @ [?new])"
      using mset_concat_update [of b "nodes t" "chain @ [?new]"] b len
      by (simp add: entries_def chain_def del: mset_concat)
    then have ms: "mset (entries ?t1) = add_mset ?new (mset (entries t))"
      by (simp add: ac_simps)
    have "pairwise_ok (\<lambda>a b. \<not> equal (key a) (key b)) (?new # entries t)"
      using pw none by (auto simp: pairwise_ok_Cons [OF symp_differ] dest: equal_sym)
    then have pw': "pairwise_ok (\<lambda>a b. \<not> equal (key a) (key b)) (entries ?t1)"
      using ms pairwise_ok_mset_cong [of "entries ?t1" "?new # entries t"] by auto
    have "key_hash x = hash (key x) \<and> unat (hash (key x)) mod tsize t = b"
      if "x \<in> set (chain @ [?new])" for x
    proof (cases "x = ?new")
      case False
      with that have "x \<in> set chain" by simp
      from hk [OF this] show ?thesis by simp
    qed (simp add: b_def)
    then have "placed ?t1"
      using t(2) by (intro placed_update [OF pl len b]) (simp add: table_uses_def)
    moreover have "length (entries ?t1) = Suc (length (entries t))"
      using ms by (metis size_add_mset size_mset)
    ultimately have "hash_wf ?t1"
      using pw' ts len nn t(2) by (auto simp: hash_wf_def table_uses_def key_equal_def)
    moreover have "table_uses hash equal ?t1" using t(2) by (simp add: table_uses_def key_equal_def)
    ultimately show thesis
      using ins by (intro fresh [OF none ms]) simp_all
  qed
qed

text \<open>Insertion keeps the invariant and updates the map at every key equal to \<open>k\<close>.\<close>

lemma hash_wf_insert:
  assumes t: "hash_wf t" "table_uses hash equal t"
  shows "hash_wf (fst (hash_table_insert t k v)) \<and>
    table_uses hash equal (fst (hash_table_insert t k v))"
proof (cases rule: insert_cases [OF t, of k v, case_names overwrite fresh])
  case (overwrite nd M)
  then have "key_equal (fst (hash_table_insert t k v)) = key_equal t"
    and "hash_func (fst (hash_table_insert t k v)) = hash_func t"
    by (metis (no_types, lifting) hash_table.select_convs hash_table.surjective
        hash_table.update_convs(3) key_equal_def)+
  with overwrite t(2) show ?thesis by (simp add: table_uses_def)
next
  case (fresh t1)
  then show ?thesis by (simp add: hash_wf_maybe_resize table_uses_def)
qed

lemma lookup_insert:
  assumes t: "hash_wf t" "table_uses hash equal t"
  shows "hash_table_lookup (fst (hash_table_insert t k v)) k' =
    (if equal k k' then Some v else hash_table_lookup t k')"
proof -
  let ?t' = "fst (hash_table_insert t k v)"
  have t': "hash_wf ?t'" "table_uses hash equal ?t'"
    using hash_wf_insert [OF t] by simp_all
  have "hash_table_lookup ?t' k' = Some w \<longleftrightarrow>
      (if equal k k' then Some v else hash_table_lookup t k') = Some w" for w
  proof (cases rule: insert_cases [OF t, of k v, case_names overwrite fresh])
    case (overwrite nd M)
    have set_t: "set (entries t) = insert nd (set_mset M)"
      using overwrite(1) by (metis set_mset_add_mset_insert set_mset_mset)
    have set_t': "set (entries ?t') = insert (nd\<lparr>val := v\<rparr>) (set_mset M)"
      using overwrite(4) by (metis set_mset_add_mset_insert set_mset_mset)
    have "\<not> equal (key x) k" if "x \<in># M" for x
      using node_unique [OF t overwrite(1) that] overwrite(2) by (meson equal_sym equal_trans)
    then have other: "equal k k' \<Longrightarrow> x \<in># M \<Longrightarrow> \<not> equal (key x) k'" for x
      by (meson equal_sym equal_trans)
    have same: "equal (key nd) k' \<longleftrightarrow> equal k k'"
      using overwrite(2) by (meson equal_sym equal_trans)
    show ?thesis
      unfolding lookup_Some_iff [OF t'] set_t'
      using other same lookup_Some_iff [OF t, of k' w] by (auto simp: set_t)
  next
    case (fresh t1)
    have set_t': "set (entries ?t') = insert \<lparr>key = k, val = v, key_hash = hash k\<rparr> (set (entries t))"
      using fresh(2,7) maybe_resize_entries [of t1]
      by (metis set_mset_add_mset_insert set_mset_mset)
    have "equal k k' \<Longrightarrow> x \<in> set (entries t) \<Longrightarrow> \<not> equal (key x) k'" for x
      using fresh(1) by (meson equal_sym equal_trans)
    then show ?thesis
      unfolding lookup_Some_iff [OF t'] set_t'
      using lookup_Some_iff [OF t, of k' w] by auto
  qed
  then show ?thesis by (metis (full_types) not_None_eq)
qed

lemma load_insert:
  assumes t: "hash_wf t" "table_uses hash equal t"
    and "load_ok t" "tsize t \<le> HASH_TABLE_MAX_SIZE"
  shows "load_ok (fst (hash_table_insert t k v)) \<and>
    tsize (fst (hash_table_insert t k v)) \<le> HASH_TABLE_MAX_SIZE"
proof (cases rule: insert_cases [OF t, of k v, case_names overwrite fresh])
  case (overwrite nd M)
  then have "tsize (fst (hash_table_insert t k v)) = tsize t"
    and "nnodes (fst (hash_table_insert t k v)) = nnodes t"
    by (metis (no_types, lifting) hash_table.select_convs hash_table.surjective
        hash_table.update_convs(3))+
  with assms(3,4) show ?thesis by (simp add: load_ok_def)
next
  case (fresh t1)
  then show ?thesis using assms(4) maybe_resize_load [of t1] by simp
qed

text \<open>Resizing keeps the nodes and with them every value.\<close>

lemma resize_keeps:
  assumes t: "hash_wf t" "table_uses hash equal t"
  shows "hash_wf (hash_table_resize t) \<and> table_uses hash equal (hash_table_resize t)
    \<and> mset (entries (hash_table_resize t)) = mset (entries t)
    \<and> hash_table_lookup (hash_table_resize t) k = hash_table_lookup t k
    \<and> tsize (hash_table_resize t) \<in> set primes
    \<and> (nnodes t < tsize (hash_table_resize t) \<or> tsize (hash_table_resize t) = HASH_TABLE_MAX_SIZE)"
proof -
  have r: "hash_wf (hash_table_resize t)" "table_uses hash equal (hash_table_resize t)"
    using t by (auto simp: hash_wf_resize table_uses_def)
  show ?thesis
    using r lookup_mset_cong [OF r t resize_entries] new_size_prime [of "nnodes t"]
      new_size_gt [of "nnodes t"] resize_entries [of t]
    by (auto simp: HASH_TABLE_MAX_SIZE_def)
qed

end

section \<open>The contract of a finite map\<close>

locale map_store =
  fixes look :: "'m \<Rightarrow> 'k \<Rightarrow> 'v option"
    and ins :: "'m \<Rightarrow> 'k \<Rightarrow> 'v \<Rightarrow> 'm"
    and inv :: "'m \<Rightarrow> bool"
    and eqv :: "'k \<Rightarrow> 'k \<Rightarrow> bool"
  assumes inv_ins: "inv m \<Longrightarrow> inv (ins m k v)"
    and look_ins: "inv m \<Longrightarrow> look (ins m k v) k' = (if eqv k k' then Some v else look m k')"
begin

text \<open>A sequence of insertions (the registration of the builtins): the last one for a key wins.\<close>

lemma inv_fold: "inv m \<Longrightarrow> inv (fold (\<lambda>(k, v) m. ins m k v) kvs m)"
  by (induction kvs arbitrary: m) (auto simp: inv_ins)

lemma look_fold_other:
  "inv m \<Longrightarrow> (\<forall>(k, v) \<in> set kvs. \<not> eqv k k') \<Longrightarrow>
   look (fold (\<lambda>(k, v) m. ins m k v) kvs m) k' = look m k'"
  by (induction kvs arbitrary: m) (auto simp: inv_ins look_ins)

lemma look_fold_last:
  assumes "inv m" and "eqv k k'" and "\<forall>(k, v) \<in> set kvs2. \<not> eqv k k'"
  shows "look (fold (\<lambda>(k, v) m. ins m k v) (kvs1 @ (k, v) # kvs2) m) k' = Some v"
  using assms by (simp add: inv_fold inv_ins look_fold_other look_ins)

text \<open>Look up, and insert only when absent: the shape of \<^verbatim>\<open>make_symbol\<close> and \<^verbatim>\<open>load_library\<close>.\<close>

lemma look_absent_ins: "inv m \<Longrightarrow> look m k = None \<Longrightarrow> eqv k k \<Longrightarrow> look (ins m k v) k = Some v"
  by (simp add: look_ins)

lemma look_keeps: "inv m \<Longrightarrow> look m k' = Some w \<Longrightarrow> \<not> eqv k k' \<Longrightarrow> look (ins m k v) k' = Some w"
  by (simp add: look_ins)

end

section \<open>The tables of the program\<close>

interpretation str: hash_funcs string_hash string_equal
  by unfold_locales (auto simp: string_equal_def)

interpretation direct: hash_funcs direct_hash direct_equal
  by unfold_locales (auto simp: direct_equal_def)

interpretation ints: hash_funcs int_hash int_equal
  by unfold_locales (auto simp: int_equal_def)

text \<open>A well-formed table over byte strings, over addresses, over integers.\<close>

definition str_table :: "(cstring, 'v) hash_table \<Rightarrow> bool" where
  "str_table t \<longleftrightarrow> hash_wf t \<and> table_uses string_hash string_equal t"

definition direct_table :: "(addr, 'v) hash_table \<Rightarrow> bool" where
  "direct_table t \<longleftrightarrow> hash_wf t \<and> table_uses direct_hash direct_equal t"

definition int_table :: "(u32, 'v) hash_table \<Rightarrow> bool" where
  "int_table t \<longleftrightarrow> hash_wf t \<and> table_uses int_hash int_equal t"

text \<open>Insertion as a function of the table alone.\<close>

definition ht_put :: "('k, 'v) hash_table \<Rightarrow> 'k \<Rightarrow> 'v \<Rightarrow> ('k, 'v) hash_table" where
  "ht_put t k v = fst (hash_table_insert t k v)"

interpretation str_map: map_store hash_table_lookup ht_put str_table string_equal
  by unfold_locales (auto simp: str_table_def ht_put_def str.hash_wf_insert str.lookup_insert)

interpretation direct_map: map_store hash_table_lookup ht_put direct_table direct_equal
  by unfold_locales (auto simp: direct_table_def ht_put_def direct.hash_wf_insert direct.lookup_insert)

interpretation int_map: map_store hash_table_lookup ht_put int_table int_equal
  by unfold_locales (auto simp: int_table_def ht_put_def ints.hash_wf_insert ints.lookup_insert)

lemma hash_wf_init: "hash_wf (hash_table_init hash equal)"
proof -
  have "concat (replicate 11 []) = ([] :: ('k, 'v) hash_node list)" by simp
  then show ?thesis
    by (auto simp: hash_wf_def hash_table_init_def HASH_TABLE_MIN_SIZE_def entries_def placed_def)
qed

lemma init_tables [simp]:
  "str_table (hash_table_init string_hash (Some string_equal))"
  "direct_table (hash_table_init direct_hash (Some direct_equal))"
  "int_table (hash_table_init int_hash (Some int_equal))"
  by (simp_all add: str_table_def direct_table_def int_table_def hash_wf_init table_uses_def
      key_equal_def) (simp_all add: hash_table_init_def)

lemma lookup_init [simp]: "hash_table_lookup (hash_table_init hash equal) k = None"
proof -
  have pos: "0 < HASH_TABLE_MIN_SIZE"
    by (simp add: HASH_TABLE_MIN_SIZE_def)
  then show ?thesis
    by (simp add: hash_table_lookup_def hash_table_lookup_node_def hash_table_init_def Let_def)
qed

section \<open>Properties\<close>

text \<open>
  C18: The table is a map: after an insertion the inserted key has the new value and every other
  key the value it had, whatever the collisions, the overwriting and the resizing on the way. Stated
  for the two kinds of tables the machine keeps, over C strings and over addresses.
\<close>

theorem insert_then_lookup:
  assumes "str_table t" and "direct_table d"
  shows "hash_table_lookup (fst (hash_table_insert t s v)) s' =
      (if s' = s then Some v else hash_table_lookup t s')
    \<and> hash_table_lookup (fst (hash_table_insert d p w)) p' =
      (if p' = p then Some w else hash_table_lookup d p')"
  using assms str_map.look_ins [of t s v s'] direct_map.look_ins [of d p w p']
  by (simp add: ht_put_def string_equal_def direct_equal_def eq_commute)

theorem insert_then_lookup_witness:
  "hash_table_lookup (fst (hash_table_insert
     (hash_table_init string_hash (Some string_equal)) [97, 98] (7 :: nat))) [97, 98] = Some 7"
  using insert_then_lookup [of "hash_table_init string_hash (Some string_equal)"
      "hash_table_init direct_hash (Some direct_equal)" "[97, 98]" "7 :: nat" "[97, 98]" 0 "0 :: nat" 0]
  by simp

text \<open>
  C19: Insertion keeps both kinds of tables, those over C strings and those over addresses, well-formed (every node in
  the chain of its hash, the hash of its key, no two equal keys, the node count) and keeps the load bound of the resize
  policy: fewer than three nodes a chain on average, unless the table has its maximal size.
\<close>

theorem insert_invariant:
  assumes "str_table t" and "load_ok t" and "tsize t \<le> HASH_TABLE_MAX_SIZE"
    and "direct_table d" and "load_ok d" and "tsize d \<le> HASH_TABLE_MAX_SIZE"
  shows "(str_table (fst (hash_table_insert t k v)) \<and> load_ok (fst (hash_table_insert t k v))
      \<and> tsize (fst (hash_table_insert t k v)) \<le> HASH_TABLE_MAX_SIZE)
    \<and> direct_table (fst (hash_table_insert d p w)) \<and> load_ok (fst (hash_table_insert d p w))
      \<and> tsize (fst (hash_table_insert d p w)) \<le> HASH_TABLE_MAX_SIZE"
  using assms str.load_insert [of t k v] str_map.inv_ins [of t k v]
    direct.load_insert [of d p w] direct_map.inv_ins [of d p w]
  by (auto simp: str_table_def direct_table_def ht_put_def)

lemma init_load: "load_ok (hash_table_init h e) \<and> tsize (hash_table_init h e) \<le> HASH_TABLE_MAX_SIZE"
  by (simp add: load_ok_def hash_table_init_def HASH_TABLE_MIN_SIZE_def HASH_TABLE_MAX_SIZE_def)

theorem insert_invariant_witness:
  "str_table (fst (hash_table_insert (hash_table_init string_hash (Some string_equal)) [97] (1 :: nat)))
   \<and> direct_table (fst (hash_table_insert (hash_table_init direct_hash (Some direct_equal)) 8 (1 :: nat)))"
  using insert_invariant [of "hash_table_init string_hash (Some string_equal)"
      "hash_table_init direct_hash (Some direct_equal)" "[97]" "1 :: nat" 8 "1 :: nat"]
  by (simp add: init_load)

text \<open>
  C25: Resizing is invisible, for tables over C strings and over addresses: the table stays well-formed, holds the same
  nodes, and looks up the same values; its new size is a prime of the table of primes, larger than the number of nodes
  unless that is the largest prime.
\<close>

theorem resize_equivalent:
  assumes "str_table t" and "direct_table d"
  shows "(str_table (hash_table_resize t) \<and> mset (entries (hash_table_resize t)) = mset (entries t)
      \<and> hash_table_lookup (hash_table_resize t) k = hash_table_lookup t k
      \<and> tsize (hash_table_resize t) \<in> set primes
      \<and> (nnodes t < tsize (hash_table_resize t) \<or> tsize (hash_table_resize t) = HASH_TABLE_MAX_SIZE))
    \<and> direct_table (hash_table_resize d) \<and> mset (entries (hash_table_resize d)) = mset (entries d)
      \<and> hash_table_lookup (hash_table_resize d) p = hash_table_lookup d p
      \<and> tsize (hash_table_resize d) \<in> set primes
      \<and> (nnodes d < tsize (hash_table_resize d) \<or> tsize (hash_table_resize d) = HASH_TABLE_MAX_SIZE)"
  using assms str.resize_keeps [of t k] direct.resize_keeps [of d p] by (simp add: str_table_def direct_table_def)

text \<open>Tables with three entries each, two of the addresses in the same chain.\<close>

theorem resize_equivalent_witness:
  "hash_table_lookup (hash_table_resize (ht_put (ht_put (ht_put (hash_table_init string_hash (Some string_equal))
      [97] 1) [98, 99] 2) [] (3 :: nat))) [98, 99] = Some 2
   \<and> hash_table_lookup (hash_table_resize (ht_put (ht_put (ht_put (hash_table_init direct_hash (Some direct_equal))
      8 1) 19 2) 16 (3 :: nat))) 19 = Some 2"
  (is "hash_table_lookup (hash_table_resize ?t) _ = _ \<and> hash_table_lookup (hash_table_resize ?d) _ = _")
proof -
  have "str_table ?t" by (intro str_map.inv_ins init_tables)
  moreover have "direct_table ?d" by (intro direct_map.inv_ins init_tables)
  moreover have "hash_table_lookup ?t [98, 99] = Some 2"
    by (simp add: str_map.look_ins str_map.inv_ins string_equal_def)
  moreover have "hash_table_lookup ?d 19 = Some 2"
    by (simp add: direct_map.look_ins direct_map.inv_ins direct_equal_def)
  ultimately show ?thesis using resize_equivalent [of ?t ?d "[98, 99]" 19] by simp
qed

text \<open>The destructor calls of \<^verbatim>\<open>hash_table_destroy\<close>, by kind.\<close>

lemma destroy_calls:
  "mset (filter (\<lambda>c. \<exists>v. c = DestroyVal v) (hash_table_destroy t)) =
     (if has_destroy_val t then image_mset (\<lambda>nd. DestroyVal (val nd)) (mset (entries t)) else {#})"
  "mset (filter (\<lambda>c. \<exists>k. c = DestroyKey k) (hash_table_destroy t)) =
     (if has_destroy_key t then image_mset (\<lambda>nd. DestroyKey (key nd)) (mset (entries t)) else {#})"
proof -
  have chain: "mset (filter (\<lambda>c. \<exists>v. c = DestroyVal v) (concat (map (destroy_node t) chain))) =
        (if has_destroy_val t then image_mset (\<lambda>nd. DestroyVal (val nd)) (mset chain) else {#})"
    and chain2: "mset (filter (\<lambda>c. \<exists>k. c = DestroyKey k) (concat (map (destroy_node t) chain))) =
        (if has_destroy_key t then image_mset (\<lambda>nd. DestroyKey (key nd)) (mset chain) else {#})" for chain
    by (induction chain) (auto simp: destroy_node_def)
  have all: "mset (filter (\<lambda>c. \<exists>v. c = DestroyVal v) (concat (map (\<lambda>chain. concat (map (destroy_node t) chain)) css))) =
        (if has_destroy_val t then image_mset (\<lambda>nd. DestroyVal (val nd)) (mset (concat css)) else {#})"
    and all2: "mset (filter (\<lambda>c. \<exists>k. c = DestroyKey k) (concat (map (\<lambda>chain. concat (map (destroy_node t) chain)) css))) =
        (if has_destroy_key t then image_mset (\<lambda>nd. DestroyKey (key nd)) (mset (concat css)) else {#})" for css
    by (induction css) (auto simp: chain chain2 simp del: mset_filter)
  show "mset (filter (\<lambda>c. \<exists>v. c = DestroyVal v) (hash_table_destroy t)) =
     (if has_destroy_val t then image_mset (\<lambda>nd. DestroyVal (val nd)) (mset (entries t)) else {#})"
    and "mset (filter (\<lambda>c. \<exists>k. c = DestroyKey k) (hash_table_destroy t)) =
     (if has_destroy_key t then image_mset (\<lambda>nd. DestroyKey (key nd)) (mset (entries t)) else {#})"
    using all all2 by (simp_all add: hash_table_destroy_def entries_def)
qed

text \<open>
  C26: Destroying a table calls each destructor that it has exactly once for every node, on the node's value or key, and
  none that it has not (the table of libraries has one for its values, the others none). Overwriting a value destroys,
  if the table has a destructor of values, exactly the value that the lookup gave before; other insertions destroy nothing.
\<close>

theorem destroy_once:
  "mset (filter (\<lambda>c. \<exists>v. c = DestroyVal v) (hash_table_destroy t)) =
      (if has_destroy_val t then image_mset (\<lambda>nd. DestroyVal (val nd)) (mset (entries t)) else {#})
    \<and> mset (filter (\<lambda>c. \<exists>k. c = DestroyKey k) (hash_table_destroy t)) =
      (if has_destroy_key t then image_mset (\<lambda>nd. DestroyKey (key nd)) (mset (entries t)) else {#})
    \<and> snd (hash_table_insert t k v) =
      (case hash_table_lookup t k of None \<Rightarrow> [] | Some old \<Rightarrow> if has_destroy_val t then [DestroyVal old] else [])"
  using destroy_calls [of t]
  by (auto simp: hash_table_insert_def hash_table_lookup_def Let_def split: prod.splits)

text \<open>A table of libraries with two entries, one of them loaded a second time.\<close>

theorem destroy_once_witness:
  "snd (hash_table_insert (ht_put (ht_put ((hash_table_init direct_hash (Some direct_equal))\<lparr>has_destroy_val := True\<rparr>)
     8 (3 :: nat)) 19 4) 8 5) = [DestroyVal 3]"
proof -
  let ?t0 = "(hash_table_init direct_hash (Some direct_equal))\<lparr>has_destroy_val := True\<rparr> :: (addr, nat) hash_table"
  let ?t = "ht_put (ht_put ?t0 8 3) 19 4"
  have "hash_table_lookup ?t 8 = Some 3 \<and> has_destroy_val ?t" by code_simp
  then show ?thesis using destroy_once [of ?t 8 5] by simp
qed

end
