(* ===== verification/Heap.thy ===== *)
theory Heap
  imports Space Types_Table Hash_Correct
begin

text \<open>
  The generational heap of \<^verbatim>\<open>vm/heap.h\<close> and \<^verbatim>\<open>vm/heap.c\<close>: its state, the marking
  visitor, and the visitors of the object types, which call it on every slot of an object.
  \<open>store\<close> is the memory of the process; \<open>old_base\<close> is the address that \<^verbatim>\<open>mem_alloc\<close>
  returns when the old space is allocated on demand. The linked list of the remembered set is the
  list of its headers. The heap keeps two survived spaces and swaps which of them is
  \<^verbatim>\<open>survived\<close> and which \<^verbatim>\<open>future_survived\<close>; the model swaps the two fields.
  The clock readings (\<^verbatim>\<open>gc_time\<close>) are not modelled.
\<close>

section \<open>State\<close>

record heap =
  store :: memory
  heap_mem :: addr
  mem_size :: nat
  fresh :: space
  survived :: space
  future_survived :: space
  old :: space
  remembered_set :: "addr list"
  full_gc :: bool
  old_map :: "(addr, addr) hash_table option"
  gc_count :: nat
  old_base :: addr

text \<open>A visitor takes a slot's value and returns the value to store back.\<close>

type_synonym visitor = "heap \<Rightarrow> obj \<Rightarrow> (heap \<times> obj) outcome"

definition no_space :: space where
  "no_space = \<lparr>sp_mem = 0, sp_pos = 0, sp_size = 0, free_mem = 0, blocks = 0, sp_clear = False\<rparr>"

text \<open>
  \<^verbatim>\<open>heap_init\<close> on a cleared \<^verbatim>\<open>heap_t\<close>: one region for the fresh and the two survived
  spaces; \<open>mem\<close> is what \<^verbatim>\<open>mem_alloc\<close> returned for it.
\<close>

definition heap_init :: "memory \<Rightarrow> addr \<Rightarrow> addr \<Rightarrow> heap" where
  "heap_init m mem old_mem =
     (let (m1, fr) = space_init m no_space mem FRESH_SIZE;
          (m2, s0) = space_init m1 no_space (mem + FRESH_SIZE) SURVIVED_SIZE;
          (m3, s1) = space_init m2 no_space (mem + FRESH_SIZE + SURVIVED_SIZE) SURVIVED_SIZE
      in \<lparr>store = m3, heap_mem = mem, mem_size = FRESH_SIZE + SURVIVED_SIZE * 2, fresh = fr,
          survived = s0, future_survived = s1, old = no_space, remembered_set = [],
          full_gc = False, old_map = None, gc_count = 0, old_base = old_mem\<rparr>)"

definition heap_remember :: "heap \<Rightarrow> addr \<Rightarrow> heap" where
  "heap_remember h a = h\<lparr>remembered_set := remembered_set h @ [a]\<rparr>"

definition heap_swap_survived :: "heap \<Rightarrow> heap" where
  "heap_swap_survived h =
     (let (m, s) = space_reset0 (store h) (survived h)
      in h\<lparr>store := m, survived := future_survived h, future_survived := s\<rparr>)"

section \<open>Marking\<close>

text \<open>The three outcomes for an object in the old space.\<close>

definition mark_old :: "heap \<Rightarrow> obj \<Rightarrow> addr \<Rightarrow> (heap \<times> obj) outcome" where
  "mark_old h x p =
     (let a = p - BHDR_SIZE in
      bindE (deref (HTYPE (store h) p) ''old header'') (\<lambda>b.
        if full_gc h \<and> \<not> remembered (hdr b)
        then Inr (heap_remember (h\<lparr>store := set_hdr (store h) a (\<lambda>d. d\<lparr>remembered := True\<rparr>)\<rparr>) a, x)
        else case old_map h of
               None \<Rightarrow> Inr (h, x)
             | Some tbl \<Rightarrow>
                 (case hash_table_lookup tbl a of
                    None \<Rightarrow> Inr (h, x)
                  | Some res \<Rightarrow>
                      if res = 0 then Inr (h, x) else Inr (h, MAKE_HEAP_PTR (res + BHDR_SIZE)))))"

text \<open>
  Leaving a forwarding pointer: the source header is flagged and its payload overwritten, the copy
  is unflagged and one generation older (two bits).
\<close>

definition forward_to :: "memory \<Rightarrow> addr \<Rightarrow> addr \<Rightarrow> memory" where
  "forward_to m a new_pos =
     (let m1 = set_hdr m a (\<lambda>d. d\<lparr>forward := True\<rparr>);
          m2 = set_payload m1 a (P_Forward (new_pos + BHDR_SIZE))
      in set_hdr m2 new_pos (\<lambda>d. d\<lparr>forward := False, generation := (generation d + 1) mod 4\<rparr>))"

text \<open>
  The old space is allocated when it is first needed. \<^verbatim>\<open>mem_alloc\<close> is not checked, so when
  it fails \<^verbatim>\<open>space_init\<close> clears memory at the null pointer.
\<close>

definition old_on_demand :: "heap \<Rightarrow> heap outcome" where
  "old_on_demand h =
     (if sp_mem (old h) = 0
      then if old_base h = 0 then Inl (Undefined ''memset of NULL'')
           else let (m, sp) = space_init (store h) (old h) (old_base h) OLD_SIZE
                in Inr (h\<lparr>store := m, old := sp\<rparr>)
      else Inr h)"

text \<open>Promotion of a generation-3 object to the old space, outside a full collection.\<close>

definition promote :: "heap \<Rightarrow> addr \<Rightarrow> nat \<Rightarrow> (heap \<times> obj) outcome" where
  "promote h0 a ts =
     bindE (old_on_demand h0) (\<lambda>h.
       bindE (space_copy (store h) (old h) a ts) (\<lambda>(m, sp, new_pos).
         let h1 = heap_remember (h\<lparr>store := m, old := sp\<rparr>) new_pos;
             m1 = set_hdr m a (\<lambda>d. d\<lparr>remembered := False\<rparr>)
         in Inr (h1\<lparr>store := forward_to m1 a new_pos\<rparr>, MAKE_HEAP_PTR (new_pos + BHDR_SIZE))))"

definition survive :: "heap \<Rightarrow> addr \<Rightarrow> nat \<Rightarrow> (heap \<times> obj) outcome" where
  "survive h a ts =
     bindE (space_copy (store h) (future_survived h) a ts) (\<lambda>(m, sp, new_pos).
       Inr (h\<lparr>store := forward_to m a new_pos, future_survived := sp\<rparr>,
            MAKE_HEAP_PTR (new_pos + BHDR_SIZE)))"

text \<open>An object in the fresh or the survived space.\<close>

definition mark_young :: "heap \<Rightarrow> obj \<Rightarrow> addr \<Rightarrow> (heap \<times> obj) outcome" where
  "mark_young h x p =
     (let a = p - BHDR_SIZE in
      bindE (deref (HTYPE (store h) p) ''header'') (\<lambda>b.
        if forward (hdr b)
        then (case payload b of
                P_Forward q \<Rightarrow> Inr (h, MAKE_HEAP_PTR q)
              | _ \<Rightarrow> Inl (Undefined ''forward word''))
        else
          let ts = hsize (hdr b) + BHDR_SIZE in
          if generation (hdr b) = 3
          then if full_gc h
               then if \<not> remembered (hdr b)
                    then Inr ((heap_remember h a)
                           \<lparr>store := set_hdr (store h) a (\<lambda>d. d\<lparr>remembered := True\<rparr>)\<rparr>, x)
                    else Inr (h, x)
               else promote h a ts
          else survive h a ts))"

definition heap_mark :: visitor where
  "heap_mark h x =
     (if \<not> IS_HEAP_PTR x then Inr (h, x)
      else let p = PTR x in
        if (p < heap_mem h \<or> p > heap_mem h + mem_size h) \<and> \<not> in_space (old h) p
        then Inl (Fatal ''Trying to mark a pointer which does not belong to this heap'')
        else if in_space (future_survived h) p then Inr (h, x)
        else if in_space (old h) p then mark_old h x p
        else mark_young h x p)"

section \<open>Visitors of the object types\<close>

text \<open>
  A visit of one field of the object whose header is at \<open>a\<close>: read the field, visit the value,
  write the result back to the field. Reading or writing a field that the object does not have is
  undefined.
\<close>

definition put_payload :: "heap \<Rightarrow> addr \<Rightarrow> (payload \<Rightarrow> payload option) \<Rightarrow> heap outcome" where
  "put_payload h a upd =
     bindE (deref (store h a) ''object'') (\<lambda>b.
       bindE (deref (upd (payload b)) ''field write'') (\<lambda>p.
         Inr (h\<lparr>store := (store h)(a \<mapsto> b\<lparr>payload := p\<rparr>)\<rparr>)))"

definition visit_field ::
  "visitor \<Rightarrow> heap \<Rightarrow> addr \<Rightarrow> (payload \<Rightarrow> obj option) \<Rightarrow> (obj \<Rightarrow> payload \<Rightarrow> payload option) \<Rightarrow>
    heap outcome" where
  "visit_field vs h a rd wr =
     bindE (deref (store h a) ''object'') (\<lambda>b.
       bindE (deref (rd (payload b)) ''field read'') (\<lambda>x.
         bindE (vs h x) (\<lambda>(h1, x1). put_payload h1 a (wr x1))))"

fun get_car :: "payload \<Rightarrow> obj option" where
  "get_car (P_Pair p) = Some (car p)" | "get_car _ = None"
fun set_car :: "obj \<Rightarrow> payload \<Rightarrow> payload option" where
  "set_car x (P_Pair p) = Some (P_Pair (p\<lparr>car := x\<rparr>))" | "set_car x _ = None"
fun get_cdr :: "payload \<Rightarrow> obj option" where
  "get_cdr (P_Pair p) = Some (cdr p)" | "get_cdr _ = None"
fun set_cdr :: "obj \<Rightarrow> payload \<Rightarrow> payload option" where
  "set_cdr x (P_Pair p) = Some (P_Pair (p\<lparr>cdr := x\<rparr>))" | "set_cdr x _ = None"
fun get_cont :: "payload \<Rightarrow> obj option" where
  "get_cont (P_Cont c) = Some (cont_func c)" | "get_cont _ = None"
fun set_cont :: "obj \<Rightarrow> payload \<Rightarrow> payload option" where
  "set_cont x (P_Cont c) = Some (P_Cont (c\<lparr>cont_func := x\<rparr>))" | "set_cont x _ = None"

text \<open>The slot \<open>i\<close> of the array that trails an environment or a structure.\<close>

fun get_slot :: "nat \<Rightarrow> payload \<Rightarrow> obj option" where
  "get_slot i (P_Env e) = (if i < length (env_slots e) then Some (env_slots e ! i) else None)"
| "get_slot i (P_Struct s) = (if i < length (field_slots s) then Some (field_slots s ! i) else None)"
| "get_slot i _ = None"

fun set_slot :: "nat \<Rightarrow> obj \<Rightarrow> payload \<Rightarrow> payload option" where
  "set_slot i x (P_Env e) =
     (if i < length (env_slots e) then Some (P_Env (e\<lparr>env_slots := (env_slots e)[i := x]\<rparr>)) else None)"
| "set_slot i x (P_Struct s) =
     (if i < length (field_slots s)
      then Some (P_Struct (s\<lparr>field_slots := (field_slots s)[i := x]\<rparr>)) else None)"
| "set_slot i x _ = None"

text \<open>
  Pointers to environments are untagged: \<^verbatim>\<open>mark_env\<close> tags the pointer, visits it and untags
  the result; a null environment is left alone.
\<close>

fun get_prev :: "payload \<Rightarrow> addr option" where
  "get_prev (P_Env e) = Some (prev e)" | "get_prev _ = None"
fun set_prev :: "addr \<Rightarrow> payload \<Rightarrow> payload option" where
  "set_prev q (P_Env e) = Some (P_Env (e\<lparr>prev := q\<rparr>))" | "set_prev q _ = None"
fun get_clo_env :: "payload \<Rightarrow> addr option" where
  "get_clo_env (P_Closure c) = Some (clo_env c)" | "get_clo_env _ = None"
fun set_clo_env :: "addr \<Rightarrow> payload \<Rightarrow> payload option" where
  "set_clo_env q (P_Closure c) = Some (P_Closure (c\<lparr>clo_env := q\<rparr>))" | "set_clo_env q _ = None"

definition mark_env :: "visitor \<Rightarrow> heap \<Rightarrow> addr \<Rightarrow> (heap \<times> addr) outcome" where
  "mark_env vs h env =
     (if env = 0 then Inr (h, env)
      else bindE (vs h (MAKE_HEAP_PTR env)) (\<lambda>(h1, x). Inr (h1, PTR x)))"

definition visit_env_field ::
  "visitor \<Rightarrow> heap \<Rightarrow> addr \<Rightarrow> (payload \<Rightarrow> addr option) \<Rightarrow> (addr \<Rightarrow> payload \<Rightarrow> payload option) \<Rightarrow>
    heap outcome" where
  "visit_env_field vs h a rd wr =
     bindE (deref (store h a) ''object'') (\<lambda>b.
       bindE (deref (rd (payload b)) ''field read'') (\<lambda>q.
         bindE (mark_env vs h q) (\<lambda>(h1, q1). put_payload h1 a (wr q1))))"

text \<open>The loops over an array: \<open>n\<close> slots from slot \<open>i\<close> on.\<close>

fun visit_slots :: "visitor \<Rightarrow> heap \<Rightarrow> addr \<Rightarrow> nat \<Rightarrow> nat \<Rightarrow> heap outcome" where
  "visit_slots vs h a i 0 = Inr h"
| "visit_slots vs h a i (Suc n) =
     bindE (visit_field vs h a (get_slot i) (set_slot i)) (\<lambda>h1. visit_slots vs h1 a (Suc i) n)"

text \<open>The interior pointers are set to the object's own trailing memory.\<close>

fun fix_env :: "addr \<Rightarrow> payload \<Rightarrow> payload option" where
  "fix_env p (P_Env e) = Some (P_Env (e\<lparr>objects := p + sizeof_env\<rparr>))" | "fix_env p _ = None"
fun fix_struct :: "addr \<Rightarrow> payload \<Rightarrow> payload option" where
  "fix_struct p (P_Struct s) = Some (P_Struct (s\<lparr>struct_fields := p + sizeof_struct\<rparr>))"
| "fix_struct p _ = None"
fun fix_string :: "addr \<Rightarrow> payload \<Rightarrow> payload option" where
  "fix_string p (P_String s) =
     Some (P_String (if allocated s then s\<lparr>str := p + sizeof_string\<rparr> else s))"
| "fix_string p _ = None"
fun fix_bytevector :: "addr \<Rightarrow> payload \<Rightarrow> payload option" where
  "fix_bytevector p (P_Bytevector v) = Some (P_Bytevector (v\<lparr>data := p + sizeof_bytevector\<rparr>))"
| "fix_bytevector p _ = None"

fun env_size_of :: "payload \<Rightarrow> int option" where
  "env_size_of (P_Env e) = Some (env_size e)" | "env_size_of _ = None"
fun struct_size_of :: "payload \<Rightarrow> int option" where
  "struct_size_of (P_Struct s) = Some (struct_size s)" | "struct_size_of _ = None"

definition env_visit :: "visitor \<Rightarrow> heap \<Rightarrow> addr \<Rightarrow> heap outcome" where
  "env_visit vs h a =
     bindE (put_payload h a (fix_env (a + BHDR_SIZE))) (\<lambda>h1.
       bindE (deref (store h1 a) ''env'') (\<lambda>b.
         bindE (deref (env_size_of (payload b)) ''env size'') (\<lambda>n.
           bindE (visit_slots vs h1 a 0 (nat n)) (\<lambda>h2.
             visit_env_field vs h2 a get_prev set_prev))))"

definition closure_visit :: "visitor \<Rightarrow> heap \<Rightarrow> addr \<Rightarrow> heap outcome" where
  "closure_visit vs h a = visit_env_field vs h a get_clo_env set_clo_env"

definition pair_visit :: "visitor \<Rightarrow> heap \<Rightarrow> addr \<Rightarrow> heap outcome" where
  "pair_visit vs h a =
     bindE (visit_field vs h a get_car set_car) (\<lambda>h1. visit_field vs h1 a get_cdr set_cdr)"

definition continuation_visit :: "visitor \<Rightarrow> heap \<Rightarrow> addr \<Rightarrow> heap outcome" where
  "continuation_visit vs h a = visit_field vs h a get_cont set_cont"

definition struct_visit :: "visitor \<Rightarrow> heap \<Rightarrow> addr \<Rightarrow> heap outcome" where
  "struct_visit vs h a =
     bindE (put_payload h a (fix_struct (a + BHDR_SIZE))) (\<lambda>h1.
       bindE (deref (store h1 a) ''struct'') (\<lambda>b.
         bindE (deref (struct_size_of (payload b)) ''struct size'') (\<lambda>n.
           visit_slots vs h1 a 0 (nat n))))"

definition string_visit :: "visitor \<Rightarrow> heap \<Rightarrow> addr \<Rightarrow> heap outcome" where
  "string_visit vs h a = put_payload h a (fix_string (a + BHDR_SIZE))"

definition bv_visit :: "visitor \<Rightarrow> heap \<Rightarrow> addr \<Rightarrow> heap outcome" where
  "bv_visit vs h a = put_payload h a (fix_bytevector (a + BHDR_SIZE))"

fun call_visit :: "visitor_fun \<Rightarrow> visitor \<Rightarrow> heap \<Rightarrow> addr \<Rightarrow> heap outcome" where
  "call_visit env_visit_fp = env_visit"
| "call_visit closure_visit_fp = closure_visit"
| "call_visit pair_visit_fp = pair_visit"
| "call_visit continuation_visit_fp = continuation_visit"
| "call_visit string_visit_fp = string_visit"
| "call_visit struct_visit_fp = struct_visit"
| "call_visit bv_visit_fp = bv_visit"

text \<open>\<^verbatim>\<open>visit_hdr\<close> dispatches on the type table.\<close>

definition visit_hdr :: "visitor \<Rightarrow> heap \<Rightarrow> addr \<Rightarrow> heap outcome" where
  "visit_hdr vs h a =
     bindE (deref (store h a) ''header'') (\<lambda>b.
       bindE (type_entry (type_id (hdr b))) (\<lambda>ty.
         case visit ty of None \<Rightarrow> Inr h | Some fp \<Rightarrow> call_visit fp vs h a))"

section \<open>What a visitor does to the heap, lifted to the objects\<close>

text \<open>
  Any reflexive and transitive relation between heaps that a visitor establishes on a slot and that
  rewriting a payload in place respects is established by every visit of an object.
\<close>

locale visitor_rel =
  fixes vs :: visitor and R :: "heap \<Rightarrow> heap \<Rightarrow> bool"
  assumes vs_rel: "vs h x = Inr (h', x') \<Longrightarrow> R h h'"
    and rel_refl: "R h h"
    and rel_trans: "R h h' \<Longrightarrow> R h' h'' \<Longrightarrow> R h h''"
    and rel_payload: "store h a = Some b \<Longrightarrow> R h (h\<lparr>store := (store h)(a \<mapsto> b\<lparr>payload := p\<rparr>)\<rparr>)"
begin

lemma put_payload_rel: "put_payload h a f = Inr h' \<Longrightarrow> R h h'"
  by (auto simp: put_payload_def bindE_Inr_iff intro: rel_payload)

lemma visit_field_rel: "visit_field vs h a rd wr = Inr h' \<Longrightarrow> R h h'"
  by (auto simp: visit_field_def bindE_Inr_iff intro: rel_trans vs_rel put_payload_rel)

lemma mark_env_rel: "mark_env vs h q = Inr (h', q') \<Longrightarrow> R h h'"
  by (auto simp: mark_env_def bindE_Inr_iff rel_refl split: if_splits intro: vs_rel)

lemma visit_env_field_rel: "visit_env_field vs h a rd wr = Inr h' \<Longrightarrow> R h h'"
  by (auto simp: visit_env_field_def bindE_Inr_iff intro: rel_trans mark_env_rel put_payload_rel)

lemma visit_slots_rel: "visit_slots vs h a i n = Inr h' \<Longrightarrow> R h h'"
  by (induction n arbitrary: h i)
    (auto simp: bindE_Inr_iff rel_refl intro: rel_trans visit_field_rel)

lemmas field_rels = put_payload_rel visit_field_rel visit_env_field_rel visit_slots_rel

lemma env_visit_rel: "env_visit vs h a = Inr h' \<Longrightarrow> R h h'"
  by (auto simp: env_visit_def bindE_Inr_iff dest!: field_rels) (blast intro: rel_trans)

lemma call_visit_rel: "call_visit fp vs h a = Inr h' \<Longrightarrow> R h h'"
  by (cases fp)
    (auto simp: env_visit_rel closure_visit_def pair_visit_def continuation_visit_def
      struct_visit_def string_visit_def bv_visit_def bindE_Inr_iff
      intro: rel_trans field_rels)

lemma visit_hdr_rel: "visit_hdr vs h a = Inr h' \<Longrightarrow> R h h'"
  by (auto simp: visit_hdr_def bindE_Inr_iff rel_refl split: option.splits intro: call_visit_rel)

end

end
