(* ===== verification/Collector.thy ===== *)
theory Collector
  imports Heap
begin

text \<open>
  The loops of the collector in \<^verbatim>\<open>vm/heap.c\<close>. Each scans memory that marking may still be
  appending to, so their termination is an argument about what marking can append: every copy uses
  free memory of its space, every remembered header was unmarked before. The potentials below make
  this precise, on every state of the heap, well-formed or not; the loops are therefore total
  functions without a bound in their arguments.
\<close>

section \<open>Potentials\<close>

text \<open>Blocks that the future survived space, and the old space, hold now or can still take.\<close>

definition fs_pot :: "heap \<Rightarrow> nat" where
  "fs_pot h = blocks (future_survived h) + free_mem (future_survived h) div 8"

definition old_pot :: "heap \<Rightarrow> nat" where
  "old_pot h = (if sp_mem (old h) = 0
     then max (blocks (old h) + free_mem (old h) div 8) (OLD_SIZE div 8)
     else blocks (old h) + free_mem (old h) div 8)"

definition old_free :: "heap \<Rightarrow> nat" where
  "old_free h = (if sp_mem (old h) = 0 then max (free_mem (old h) div 8) (OLD_SIZE div 8)
     else free_mem (old h) div 8)"

text \<open>Headers in the regions of the heap that a full collection has not remembered yet.\<close>

definition unmarked :: "heap \<Rightarrow> addr set" where
  "unmarked h =
     {a \<in> {heap_mem h - 8 .. heap_mem h + mem_size h}
          \<union> {sp_mem (old h) - 8 .. sp_mem (old h) + sp_size (old h)}.
      \<exists>b. store h a = Some b \<and> \<not> remembered (hdr b)}"

text \<open>How many headers can still be added to the remembered set.\<close>

definition rem_pot :: "heap \<Rightarrow> nat" where
  "rem_pot h = (if full_gc h then card (unmarked h) + free_mem (future_survived h) div 8
     else old_free h)"

definition gc_le :: "heap \<Rightarrow> heap \<Rightarrow> bool" where
  "gc_le h h' \<longleftrightarrow> full_gc h' = full_gc h \<and> fs_pot h' \<le> fs_pot h \<and> old_pot h' \<le> old_pot h
     \<and> rem_pot h' + length (remembered_set h') \<le> rem_pot h + length (remembered_set h)
     \<and> length (remembered_set h) \<le> length (remembered_set h')"

lemma gc_le_refl: "gc_le h h"
  by (simp add: gc_le_def)

lemma gc_le_trans: "gc_le h h' \<Longrightarrow> gc_le h' h'' \<Longrightarrow> gc_le h h''"
  by (auto simp: gc_le_def)

lemma finite_unmarked: "finite (unmarked h)"
  by (simp add: unmarked_def)

lemma hdr_writes:
  "set_hdr m a f x = Some b' \<Longrightarrow> \<exists>b. m x = Some b \<and> (b' = b \<or> x = a \<and> b' = b\<lparr>hdr := f (hdr b)\<rparr>)"
  "set_payload m a p x = Some b' \<Longrightarrow> \<exists>b. m x = Some b \<and> hdr b' = hdr b"
  by (auto simp: set_hdr_def set_payload_def split: option.splits if_splits)

lemma forward_to_remembered:
  assumes "forward_to m a q x = Some b'"
  shows "\<exists>b. m x = Some b \<and> remembered (hdr b') = remembered (hdr b)"
proof -
  define m1 where "m1 = set_hdr m a (\<lambda>d. d\<lparr>forward := True\<rparr>)"
  define m2 where "m2 = set_payload m1 a (P_Forward (q + BHDR_SIZE))"
  have "set_hdr m2 q (\<lambda>d. d\<lparr>forward := False, generation := (generation d + 1) mod 4\<rparr>) x = Some b'"
    using assms by (simp add: forward_to_def Let_def m1_def m2_def)
  from hdr_writes(1) [OF this] obtain b2 where b2: "m2 x = Some b2"
    "remembered (hdr b') = remembered (hdr b2)" by force
  from hdr_writes(2) [of m1 a _ x b2] b2(1) obtain b1 where b1: "m1 x = Some b1" "hdr b2 = hdr b1"
    unfolding m2_def by blast
  from hdr_writes(1) [of m a _ x b1] b1(1) obtain b where "m x = Some b"
    "remembered (hdr b1) = remembered (hdr b)" unfolding m1_def by force
  with b1 b2 show ?thesis by auto
qed

text \<open>Remembering an unmarked header in the regions.\<close>

lemma gc_le_remember:
  assumes full: "full_gc h" and b: "store h a = Some b" "\<not> remembered (hdr b)"
    and range: "a \<in> {heap_mem h - 8 .. heap_mem h + mem_size h}
      \<union> {sp_mem (old h) - 8 .. sp_mem (old h) + sp_size (old h)}"
    and store': "store h' = set_hdr (store h) a (\<lambda>d. d\<lparr>remembered := True\<rparr>)"
    and rem': "remembered_set h' = remembered_set h @ [a]"
    and same: "heap_mem h' = heap_mem h" "mem_size h' = mem_size h" "old h' = old h"
      "future_survived h' = future_survived h" "full_gc h' = full_gc h"
  shows "gc_le h h'"
proof -
  have "unmarked h' = unmarked h - {a}"
    using b by (auto simp: unmarked_def store' same set_hdr_def)
  moreover have "a \<in> unmarked h"
    using b range by (auto simp: unmarked_def)
  ultimately have "Suc (card (unmarked h')) = card (unmarked h)"
    using card_Suc_Diff1 [OF finite_unmarked] by metis
  then show ?thesis
    using full by (simp add: gc_le_def rem_pot_def fs_pot_def old_pot_def same rem')
qed

lemma space_put_pot:
  assumes "space_put ov m sp p sz = Inr (m', sp', q)" and "8 \<le> sz"
  shows "blocks sp' + free_mem sp' div 8 \<le> blocks sp + free_mem sp div 8"
    and "Suc (free_mem sp' div 8) \<le> free_mem sp div 8"
    and "sp_mem sp' = sp_mem sp" and "sp_size sp' = sp_size sp" and "q = sp_pos sp"
    and "\<exists>b. m p = Some b \<and> m' = put_block m (sp_pos sp) b"
proof -
  have *: "sz \<le> free_mem sp" and sp': "free_mem sp' = free_mem sp - sz" "blocks sp' = Suc (blocks sp)"
    "sp_mem sp' = sp_mem sp" "sp_size sp' = sp_size sp" "q = sp_pos sp"
    and "\<exists>b. m p = Some b \<and> m' = put_block m (sp_pos sp) b"
    using assms(1) by (auto simp: space_put_def Let_def bindE_Inr_iff split: if_splits)
  have "(free_mem sp - sz) div 8 \<le> (free_mem sp - 8) div 8"
    using assms(2) by (intro div_le_mono) simp
  moreover have "free_mem sp div 8 = Suc ((free_mem sp - 8) div 8)"
    using * assms(2) by (intro le_div_geq) simp_all
  ultimately show "Suc (free_mem sp' div 8) \<le> free_mem sp div 8"
    by (simp add: sp')
  then show "blocks sp' + free_mem sp' div 8 \<le> blocks sp + free_mem sp div 8"
    using sp' by simp
qed (use assms(1) in \<open>auto simp: space_put_def Let_def bindE_Inr_iff split: if_splits\<close>)

lemma survive_gc_le:
  assumes "survive h a (hsize d + BHDR_SIZE) = Inr (h', x')"
  shows "gc_le h h'"
proof -
  from assms obtain m sp q where put: "space_put False (store h) (future_survived h) a
      (hsize d + BHDR_SIZE) = Inr (m, sp, q)"
    and h': "h' = h\<lparr>store := forward_to m a q, future_survived := sp\<rparr>"
    by (auto simp: survive_def space_copy_def bindE_Inr_iff)
  have sz: "8 \<le> hsize d + BHDR_SIZE" by (simp add: BHDR_SIZE_def)
  note pot = space_put_pot [OF put sz]
  from pot(6) obtain b where m: "m = put_block (store h) (sp_pos (future_survived h)) b" by blast
  have "unmarked h' \<subseteq> insert (sp_pos (future_survived h)) (unmarked h)"
    by (auto simp: unmarked_def h' m put_block_Some dest!: forward_to_remembered)
  then have "card (unmarked h') \<le> card (insert (sp_pos (future_survived h)) (unmarked h))"
    by (intro card_mono) (simp_all add: finite_unmarked)
  also have "\<dots> \<le> Suc (card (unmarked h))"
    by (simp add: card_insert_if finite_unmarked)
  finally have "card (unmarked h') \<le> Suc (card (unmarked h))" .
  with pot(1,2) show ?thesis
    by (auto simp: gc_le_def fs_pot_def old_pot_def rem_pot_def old_free_def h')
qed

lemma old_on_demand_gc_le:
  assumes "\<not> full_gc h" and "old_on_demand h = Inr h'"
  shows "gc_le h h' \<and> sp_mem (old h') \<noteq> 0"
  using assms
  by (auto simp: gc_le_def old_on_demand_def space_init_def space_reset0_def space_reset_def Let_def
      fs_pot_def old_pot_def rem_pot_def old_free_def split: if_splits)

lemma promote_gc_le:
  assumes "promote h0 a (hsize d + BHDR_SIZE) = Inr (h', x')" and nf: "\<not> full_gc h0"
  shows "gc_le h0 h'"
proof -
  from assms obtain h m sp q where h: "old_on_demand h0 = Inr h"
    and put: "space_put False (store h) (old h) a (hsize d + BHDR_SIZE) = Inr (m, sp, q)"
    and h': "old h' = sp" "future_survived h' = future_survived h" "full_gc h' = full_gc h"
      "remembered_set h' = remembered_set h @ [q]"
    by (auto simp: promote_def space_copy_def bindE_Inr_iff Let_def heap_remember_def)
  have sz: "8 \<le> hsize d + BHDR_SIZE" by (simp add: BHDR_SIZE_def)
  note pot = space_put_pot [OF put sz]
  from old_on_demand_gc_le [OF nf h] have le: "gc_le h0 h" and "sp_mem (old h) \<noteq> 0" by simp_all
  moreover from le have "\<not> full_gc h" using nf by (simp add: gc_le_def)
  ultimately have "gc_le h h'"
    using pot(1-4) h' by (auto simp: gc_le_def fs_pot_def old_pot_def rem_pot_def old_free_def)
  with le show ?thesis by (rule gc_le_trans)
qed

lemma HTYPE_Some: "HTYPE m p = Some b \<longleftrightarrow> 8 \<le> p \<and> m (p - 8) = Some b"
  by (auto simp: HTYPE_def BHDR_SIZE_def)

lemma heap_mark_gc_le: "heap_mark h x = Inr (h', x') \<Longrightarrow> gc_le h h'"
proof -
  assume mk: "heap_mark h x = Inr (h', x')"
  consider (same) "h' = h" | (oldp) "in_space (old h) (PTR x)" "mark_old h x (PTR x) = Inr (h', x')"
    | (young) "heap_mem h \<le> PTR x" "PTR x \<le> heap_mem h + mem_size h"
      "mark_young h x (PTR x) = Inr (h', x')"
    using mk by (auto simp: heap_mark_def Let_def split: if_splits)
  then show ?thesis
  proof cases
    case oldp
    then consider "h' = h" | b where "full_gc h" "store h (PTR x - 8) = Some b"
        "\<not> remembered (hdr b)" "8 \<le> PTR x"
        "h' = heap_remember (h\<lparr>store := set_hdr (store h) (PTR x - 8) (\<lambda>d. d\<lparr>remembered := True\<rparr>)\<rparr>)
                (PTR x - 8)"
      by (auto simp: mark_old_def bindE_Inr_iff Let_def HTYPE_Some BHDR_SIZE_def
          split: if_splits option.splits)
    then show ?thesis
    proof cases
      case 2
      show ?thesis
        by (rule gc_le_remember [OF 2(1,2,3)])
          (use oldp(1) 2 in \<open>auto simp: in_space_def heap_remember_def\<close>)
    qed (simp add: gc_le_refl)
  next
    case young
    then obtain b where b: "8 \<le> PTR x" "store h (PTR x - 8) = Some b"
      by (auto simp: mark_young_def bindE_Inr_iff Let_def HTYPE_Some)
    show ?thesis
    proof (cases "forward (hdr b)")
      case True
      with young(3) b have "h' = h"
        by (simp add: mark_young_def Let_def HTYPE_def BHDR_SIZE_def split: payload.splits)
      then show ?thesis by (simp add: gc_le_refl)
    next
      case False
      note young' = young(3) [unfolded mark_young_def Let_def HTYPE_def BHDR_SIZE_def]
      show ?thesis
      proof (cases "generation (hdr b) = 3")
        case gen3: True
        show ?thesis
        proof (cases "full_gc h \<and> \<not> remembered (hdr b)")
          case True
          show ?thesis
            by (rule gc_le_remember [of h "PTR x - 8" b])
              (use young(1,2) young' b gen3 False True in \<open>auto simp: heap_remember_def\<close>)
        next
          case other: False
          with young' b gen3 False show ?thesis
            by (cases "full_gc h")
              (auto simp: gc_le_refl BHDR_SIZE_def intro: promote_gc_le [of h _ "hdr b"])
        qed
      next
        case gen: False
        with young' b False have "survive h (PTR x - 8) (hsize (hdr b) + BHDR_SIZE) = Inr (h', x')"
          by (simp add: BHDR_SIZE_def)
        then show ?thesis by (rule survive_gc_le)
      qed
    qed
  qed (simp add: gc_le_refl)
qed

lemma gc_le_payload:
  assumes "store h a = Some b"
  shows "gc_le h (h\<lparr>store := (store h)(a \<mapsto> b\<lparr>payload := p\<rparr>)\<rparr>)"
proof -
  have "unmarked (h\<lparr>store := (store h)(a \<mapsto> b\<lparr>payload := p\<rparr>)\<rparr>) = unmarked h"
    using assms by (auto simp: unmarked_def)
  then show ?thesis
    by (simp add: gc_le_def fs_pot_def old_pot_def rem_pot_def old_free_def)
qed

interpretation mark_pot: visitor_rel heap_mark gc_le
  by unfold_locales (auto intro: heap_mark_gc_le gc_le_refl gc_le_trans gc_le_payload)

lemmas visit_gc_le = mark_pot.visit_hdr_rel

section \<open>Scanning\<close>

text \<open>
  \<^verbatim>\<open>heap_scan_references\<close>: from block \<open>i\<close> at \<open>a\<close> to the last block of the future
  survived space, which grows meanwhile; the continuation is the position reached.
\<close>

function scan_references :: "heap \<Rightarrow> nat \<Rightarrow> addr \<Rightarrow> (heap \<times> nat \<times> addr) outcome" where
  "scan_references h i a =
     (if i < blocks (future_survived h)
      then bindE (visit_hdr heap_mark h a) (\<lambda>h1.
             bindE (deref (store h1 a) ''next header'') (\<lambda>b.
               scan_references h1 (Suc i) (NEXT_HDR a b)))
      else Inr (h, i, a))"
  by pat_completeness auto
termination
proof (relation "measure (\<lambda>(h, i, a). fs_pot h - i)", goal_cases)
  case (2 h i a h1 b)
  then have "fs_pot h1 \<le> fs_pot h" "i < fs_pot h"
    using visit_gc_le [of h a h1] by (auto simp: gc_le_def fs_pot_def)
  then show ?case by auto
qed simp

declare scan_references.simps [simp del]

text \<open>\<^verbatim>\<open>heap_scan_old\<close>: every block of the old space, which promotions extend.\<close>

function scan_old_from :: "heap \<Rightarrow> nat \<Rightarrow> addr \<Rightarrow> heap outcome" where
  "scan_old_from h i a =
     (if i < blocks (old h)
      then bindE (visit_hdr heap_mark h a) (\<lambda>h1.
             bindE (deref (store h1 a) ''next header'') (\<lambda>b.
               scan_old_from h1 (Suc i) (NEXT_HDR a b)))
      else Inr h)"
  by pat_completeness auto
termination
proof (relation "measure (\<lambda>(h, i, a). old_pot h - i)", goal_cases)
  case (2 h i a h1 b)
  then have "old_pot h1 \<le> old_pot h" "i < old_pot h"
    using visit_gc_le [of h a h1] by (auto simp: gc_le_def old_pot_def max_def)
  then show ?case by auto
qed simp

declare scan_old_from.simps [simp del]

definition heap_scan_old :: "heap \<Rightarrow> heap outcome" where
  "heap_scan_old h = scan_old_from h 0 (sp_mem (old h))"

text \<open>
  \<^verbatim>\<open>heap_scan_remebered\<close>: the list is walked while marking appends to its end, then
  forgotten.
\<close>

function scan_remembered_from :: "heap \<Rightarrow> nat \<Rightarrow> heap outcome" where
  "scan_remembered_from h j =
     (if j < length (remembered_set h)
      then bindE (visit_hdr heap_mark h (remembered_set h ! j)) (\<lambda>h1.
             scan_remembered_from h1 (Suc j))
      else Inr h)"
  by pat_completeness auto
termination
proof (relation "measure (\<lambda>(h, j). rem_pot h + length (remembered_set h) - j)", goal_cases)
  case (2 h j h1)
  then have "rem_pot h1 + length (remembered_set h1) \<le> rem_pot h + length (remembered_set h)"
    using visit_gc_le [of h _ h1] by (auto simp: gc_le_def)
  with 2 show ?case by auto
qed simp

declare scan_remembered_from.simps [simp del]

definition forget :: "heap \<Rightarrow> heap" where
  "forget h = h\<lparr>remembered_set := []\<rparr>"

definition heap_scan_remembered :: "heap \<Rightarrow> heap outcome" where
  "heap_scan_remembered h = bindE (scan_remembered_from h 0) (\<lambda>h1. Inr (forget h1))"

lemma scan_references_gc_le: "scan_references h i a = Inr (h', i', a') \<Longrightarrow> gc_le h h'"
proof (induction h i a rule: scan_references.induct)
  case (1 h i a)
  show ?case
  proof (cases "i < blocks (future_survived h)")
    case True
    with 1 show ?thesis
      by (subst (asm) (2) scan_references.simps)
        (auto simp: bindE_Inr_iff intro: gc_le_trans visit_gc_le)
  next
    case False
    with 1(2) show ?thesis by (subst (asm) scan_references.simps) (simp add: gc_le_refl)
  qed
qed

lemma scan_old_gc_le: "scan_old_from h i a = Inr h' \<Longrightarrow> gc_le h h'"
proof (induction h i a rule: scan_old_from.induct)
  case (1 h i a)
  show ?case
  proof (cases "i < blocks (old h)")
    case True
    with 1 show ?thesis
      by (subst (asm) (2) scan_old_from.simps)
        (auto simp: bindE_Inr_iff intro: gc_le_trans visit_gc_le)
  next
    case False
    with 1(2) show ?thesis by (subst (asm) scan_old_from.simps) (simp add: gc_le_refl)
  qed
qed

lemma scan_remembered_gc_le: "scan_remembered_from h j = Inr h' \<Longrightarrow> gc_le h h'"
proof (induction h j rule: scan_remembered_from.induct)
  case (1 h j)
  show ?case
  proof (cases "j < length (remembered_set h)")
    case True
    with 1 show ?thesis
      by (subst (asm) (2) scan_remembered_from.simps)
        (auto simp: bindE_Inr_iff intro: gc_le_trans visit_gc_le)
  next
    case False
    with 1(2) show ?thesis by (subst (asm) scan_remembered_from.simps) (simp add: gc_le_refl)
  qed
qed

text \<open>Scanning a non-empty remembered set uses up potential.\<close>

lemma heap_scan_remembered_less:
  assumes "heap_scan_remembered h = Inr h'" and "remembered_set h \<noteq> []"
  shows "rem_pot h' + length (remembered_set h') < rem_pot h + length (remembered_set h)"
proof -
  from assms(1) obtain h1 where h1: "scan_remembered_from h 0 = Inr h1" "h' = forget h1"
    by (auto simp: heap_scan_remembered_def bindE_Inr_iff)
  from scan_remembered_gc_le [OF h1(1)] assms(2)
  have "rem_pot h1 + length (remembered_set h1) \<le> rem_pot h + length (remembered_set h)"
    and "0 < length (remembered_set h1)"
    by (auto simp: gc_le_def dest: order_less_le_trans)
  moreover have "rem_pot h' = rem_pot h1"
    by (simp add: h1(2) forget_def rem_pot_def unmarked_def old_free_def)
  ultimately show ?thesis
    by (cases "remembered_set h1") (simp_all add: h1(2) forget_def)
qed

text \<open>The \<^verbatim>\<open>while\<close> loop of \<^verbatim>\<open>heap_gc_main\<close>.\<close>

function drain :: "heap \<Rightarrow> nat \<Rightarrow> addr \<Rightarrow> heap outcome" where
  "drain h i a =
     (if remembered_set h \<noteq> []
      then bindE (heap_scan_remembered h) (\<lambda>h1.
             if i < blocks (future_survived h1)
             then bindE (scan_references h1 i a) (\<lambda>(h2, i2, a2). drain h2 i2 a2)
             else drain h1 i a)
      else Inr h)"
  by pat_completeness auto
termination
proof (relation "measure (\<lambda>(h, i, a). rem_pot h + length (remembered_set h))", goal_cases)
  case (2 h i a h1 r h2 ia i2 a2)
  then have "gc_le h1 h2" using scan_references_gc_le by auto
  with heap_scan_remembered_less [of h h1] 2 show ?case
    by (auto simp: gc_le_def)
next
  case (3 h i a h1)
  with heap_scan_remembered_less [of h h1] show ?case by auto
qed simp

declare drain.simps [simp del]

end
