(* ===== verification/Thread.thy ===== *)
theory Thread
  imports Collector
begin

unbundle bit_operations_syntax

text \<open>
  The thread state of \<^verbatim>\<open>vm/vm.h\<close>, its operand stack, its roots (\<^verbatim>\<open>vm/vm.c\<close>), and the
  part of \<^verbatim>\<open>vm/heap.c\<close> that needs the roots: collection and allocation. The heap is a field of
  the thread as in the code. \<^verbatim>\<open>objects\<close> is a pointer to the locals, either into the operand
  stack or to the slots of a heap environment.
\<close>

section \<open>State\<close>

datatype locals_ptr = On_Stack nat | In_Env addr

record vm_thread =
  heap :: heap
  opstack :: "obj list"
  op_stack_idx :: nat
  op_stack_size :: nat
  th_objects :: locals_ptr
  th_env :: addr
  th_bindmap :: "nat option"
  th_func :: addr
  th_closure :: addr
  heap_env :: int
  lib_cache :: obj
  exception_handlers :: obj
  local_roots :: "obj list option"
  tramp_func :: obj
  tramp_argc :: int

text \<open>\<^verbatim>\<open>vm_thread_init\<close>: a cleared structure, a heap, and an operand stack of 4096 bytes.\<close>

definition vm_thread_init :: "memory \<Rightarrow> addr \<Rightarrow> addr \<Rightarrow> obj list \<Rightarrow> vm_thread" where
  "vm_thread_init m mem old_mem stack =
     \<lparr>heap = heap_init m mem old_mem, opstack = stack, op_stack_idx = 0,
      op_stack_size = 4096 div sizeof_obj, th_objects = On_Stack 0, th_env = 0, th_bindmap = None,
      th_func = 0, th_closure = 0, heap_env = 0, lib_cache = cnull, exception_handlers = cnull,
      local_roots = None, tramp_func = 0, tramp_argc = 0\<rparr>"

section \<open>The operand stack\<close>

definition STACK_PUSH :: "vm_thread \<Rightarrow> obj \<Rightarrow> vm_thread outcome" where
  "STACK_PUSH t x =
     (if op_stack_idx t = op_stack_size t - 1 then Inl (Fatal ''stack overflow (push)'')
      else Inr (t\<lparr>opstack := (opstack t)[op_stack_idx t := x], op_stack_idx := Suc (op_stack_idx t)\<rparr>))"

definition STACK_POP :: "vm_thread \<Rightarrow> (vm_thread \<times> obj) outcome" where
  "STACK_POP t =
     (if op_stack_idx t = 0 then Inl (Fatal ''stack overflow (pop)'')
      else Inr (t\<lparr>op_stack_idx := op_stack_idx t - 1\<rparr>, opstack t ! (op_stack_idx t - 1)))"

section \<open>Roots\<close>

text \<open>A visitor over the words of an array, in order.\<close>

fun visit_list :: "visitor \<Rightarrow> heap \<Rightarrow> obj list \<Rightarrow> (heap \<times> obj list) outcome" where
  "visit_list vs h [] = Inr (h, [])"
| "visit_list vs h (x # xs) =
     bindE (vs h x) (\<lambda>(h1, x1). bindE (visit_list vs h1 xs) (\<lambda>(h2, xs2). Inr (h2, x1 # xs2)))"

text \<open>
  \<^verbatim>\<open>thread_get_roots\<close>: the environment, the used part of the operand stack, the closure, the
  two registers and the protected locals, in this order. Each root is read, visited and stored back
  before the next one is read.
\<close>

datatype root = R_Env | R_Stack | R_Closure | R_Lib_Cache | R_Handlers | R_Locals

fun visit_root :: "visitor \<Rightarrow> root \<Rightarrow> vm_thread \<Rightarrow> vm_thread outcome" where
  "visit_root vs R_Env t =
     bindE (mark_env vs (heap t) (th_env t)) (\<lambda>(h, e). Inr (t\<lparr>heap := h, th_env := e\<rparr>))"
| "visit_root vs R_Stack t =
     bindE (visit_list vs (heap t) (take (op_stack_idx t) (opstack t))) (\<lambda>(h, xs).
       Inr (t\<lparr>heap := h, opstack := xs @ drop (op_stack_idx t) (opstack t)\<rparr>))"
| "visit_root vs R_Closure t =
     bindE (mark_env vs (heap t) (th_closure t)) (\<lambda>(h, c). Inr (t\<lparr>heap := h, th_closure := c\<rparr>))"
| "visit_root vs R_Lib_Cache t =
     bindE (vs (heap t) (lib_cache t)) (\<lambda>(h, x). Inr (t\<lparr>heap := h, lib_cache := x\<rparr>))"
| "visit_root vs R_Handlers t =
     bindE (vs (heap t) (exception_handlers t)) (\<lambda>(h, x). Inr (t\<lparr>heap := h, exception_handlers := x\<rparr>))"
| "visit_root vs R_Locals t =
     (case local_roots t of
        None \<Rightarrow> Inr t
      | Some ls \<Rightarrow> bindE (visit_list vs (heap t) ls) (\<lambda>(h, xs). Inr (t\<lparr>heap := h, local_roots := Some xs\<rparr>)))"

fun visit_roots :: "visitor \<Rightarrow> root list \<Rightarrow> vm_thread \<Rightarrow> vm_thread outcome" where
  "visit_roots vs [] t = Inr t"
| "visit_roots vs (r # rs) t = bindE (visit_root vs r t) (visit_roots vs rs)"

definition thread_get_roots :: "visitor \<Rightarrow> vm_thread \<Rightarrow> vm_thread outcome" where
  "thread_get_roots vs t =
     visit_roots vs [R_Env, R_Stack, R_Closure, R_Lib_Cache, R_Handlers, R_Locals] t"

text \<open>\<^verbatim>\<open>thread_after_gc\<close>: the locals pointer follows the environment.\<close>

fun env_objects_of :: "payload \<Rightarrow> addr option" where
  "env_objects_of (P_Env e) = Some (objects e)" | "env_objects_of _ = None"

definition thread_after_gc :: "vm_thread \<Rightarrow> vm_thread outcome" where
  "thread_after_gc t =
     (if heap_env t \<noteq> 0
      then bindE (deref (HTYPE (store (heap t)) (th_env t)) ''env'') (\<lambda>b.
             bindE (deref (env_objects_of (payload b)) ''env->objects'') (\<lambda>p.
               Inr (t\<lparr>th_objects := In_Env p\<rparr>)))
      else Inr t)"

section \<open>Collection\<close>

definition heap_gc_main :: "vm_thread \<Rightarrow> vm_thread outcome" where
  "heap_gc_main t =
     bindE (thread_get_roots heap_mark t) (\<lambda>t1.
     bindE (if full_gc (heap t1) then Inr (heap t1) else heap_scan_old (heap t1)) (\<lambda>h1.
     bindE (scan_references h1 0 (sp_mem (future_survived h1))) (\<lambda>(h2, i, a).
     bindE (drain h2 i a) (\<lambda>h3.
       Inr (t1\<lparr>heap := h3\<rparr>)))))"

text \<open>
  \<^verbatim>\<open>heap_gc_old\<close>: collect the remembered headers of the old space, reset it, and move them to
  its start, recording where each one went.
\<close>

fun live_headers :: "memory \<Rightarrow> addr \<Rightarrow> nat \<Rightarrow> addr list outcome" where
  "live_headers m a 0 = Inr []"
| "live_headers m a (Suc n) =
     bindE (deref (m a) ''old header'') (\<lambda>b.
       bindE (live_headers m (NEXT_HDR a b) n) (\<lambda>as.
         Inr (if remembered (hdr b) then a # as else as)))"

fun compact :: "heap \<Rightarrow> (addr, addr) hash_table \<Rightarrow> addr list \<Rightarrow> (heap \<times> (addr, addr) hash_table) outcome"
where
  "compact h tbl [] = Inr (h, tbl)"
| "compact h tbl (a # as) =
     bindE (deref (store h a) ''live header'') (\<lambda>b.
       let m1 = set_hdr (store h) a (\<lambda>d. d\<lparr>remembered := False\<rparr>) in
       bindE (space_move m1 (old h) a (BHDR_SIZE + hsize (hdr b))) (\<lambda>(m, sp, new_pos).
         compact (heap_remember (h\<lparr>store := m, old := sp\<rparr>) new_pos) (ht_put tbl a new_pos) as))"

definition heap_gc_old :: "heap \<Rightarrow> heap outcome" where
  "heap_gc_old h =
     bindE (live_headers (store h) (sp_mem (old h)) (blocks (old h))) (\<lambda>live.
       let h1 = h\<lparr>old := space_reset (old h)\<rparr>;
           tbl = hash_table_init direct_hash (Some direct_equal)
       in bindE (compact h1 tbl live) (\<lambda>(h2, tbl2). Inr (h2\<lparr>old_map := Some tbl2\<rparr>)))"

definition reset_fresh :: "heap \<Rightarrow> heap" where
  "reset_fresh h = (let (m, sp) = space_reset0 (store h) (fresh h) in h\<lparr>store := m, fresh := sp\<rparr>)"

text \<open>A full collection is scheduled for the next time when the old space may not take a survived space.\<close>

definition schedule_full :: "heap \<Rightarrow> heap" where
  "schedule_full h =
     (if sp_mem (old h) \<noteq> 0 \<and> free_mem (old h) < SURVIVED_SIZE then h\<lparr>full_gc := True\<rparr> else h)"

definition heap_gc :: "vm_thread \<Rightarrow> vm_thread outcome" where
  "heap_gc t =
     bindE (heap_gc_main t) (\<lambda>t1.
     bindE (if full_gc (heap t1)
            then bindE (heap_gc_old (heap t1)) (\<lambda>h.
                   bindE (heap_gc_main (t1\<lparr>heap := h\<lparr>full_gc := False\<rparr>\<rparr>)) (\<lambda>t2.
                     Inr (t2\<lparr>heap := (heap t2)\<lparr>old_map := None\<rparr>\<rparr>)))
            else Inr t1) (\<lambda>t3.
     let h4 = heap_swap_survived (reset_fresh (heap t3)) in
     bindE (thread_after_gc (t3\<lparr>heap := h4\<rparr>)) (\<lambda>t5.
       Inr (t5\<lparr>heap := (schedule_full (heap t5))\<lparr>gc_count := Suc (gc_count (heap t5))\<rparr>\<rparr>))))"

section \<open>Allocation\<close>

definition alloc_fresh :: "vm_thread \<Rightarrow> 32 word \<Rightarrow> u16 \<Rightarrow> (vm_thread \<times> addr) option" where
  "alloc_fresh t sz tid =
     (case space_alloc (store (heap t)) (fresh (heap t)) (scast sz) tid of
        None \<Rightarrow> None
      | Some (m, sp, res) \<Rightarrow> Some (t\<lparr>heap := (heap t)\<lparr>store := m, fresh := sp\<rparr>\<rparr>, res))"

text \<open>\<^verbatim>\<open>heap_alloc\<close>: the request is an \<^verbatim>\<open>int\<close>, widened to \<^verbatim>\<open>size_t\<close> with its sign.\<close>

definition heap_alloc :: "vm_thread \<Rightarrow> 32 word \<Rightarrow> u16 \<Rightarrow> (vm_thread \<times> addr) outcome" where
  "heap_alloc t sz tid =
     (case alloc_fresh t sz tid of
        Some r \<Rightarrow> Inr r
      | None \<Rightarrow>
          bindE (heap_gc t) (\<lambda>t1.
            case alloc_fresh t1 sz tid of
              Some r \<Rightarrow> Inr r
            | None \<Rightarrow> Inl (Fatal ''out of memory'')))"

definition heap_require :: "vm_thread \<Rightarrow> 32 word \<Rightarrow> vm_thread outcome" where
  "heap_require t sz =
     (if \<not> space_enough (fresh (heap t)) (scast sz) then heap_gc t else Inr t)"

text \<open>The sizes of \<^verbatim>\<open>heap_require_blocks\<close> are \<^verbatim>\<open>int\<close> until \<^verbatim>\<open>space_enough\<close> widens them.\<close>

definition heap_require_blocks :: "vm_thread \<Rightarrow> 32 word \<Rightarrow> 32 word \<Rightarrow> vm_thread outcome" where
  "heap_require_blocks t sz0 cnt =
     (let sz = ((sz0 + 7) AND NOT 7) + of_nat BHDR_SIZE
      in if \<not> space_enough (fresh (heap t)) (scast (sz * cnt)) then heap_gc t else Inr t)"

definition heap_alloc0 :: "vm_thread \<Rightarrow> 32 word \<Rightarrow> u16 \<Rightarrow> (vm_thread \<times> addr) outcome" where
  "heap_alloc0 t sz tid =
     bindE (heap_alloc t sz tid) (\<lambda>(t1, p).
       Inr (t1\<lparr>heap := (heap t1)\<lparr>store := set_payload (store (heap t1)) (p - BHDR_SIZE) P_Zero\<rparr>\<rparr>, p))"

text \<open>The allocator interface: \<^verbatim>\<open>size_t\<close> narrowed to the \<^verbatim>\<open>int\<close> of \<^verbatim>\<open>heap_alloc\<close>.\<close>

definition heap_allocator_alloc :: "vm_thread \<Rightarrow> u64 \<Rightarrow> u16 \<Rightarrow> (vm_thread \<times> addr) outcome" where
  "heap_allocator_alloc t sz tid = heap_alloc t (ucast sz) tid"

end
