(* ===== verification/Allocator.thy ===== *)
theory Allocator
  imports Thread
begin

unbundle bit_operations_syntax

text \<open>
  The allocator interface of \<^verbatim>\<open>vm/allocator.h\<close>, the constant allocator
  (\<^verbatim>\<open>vm/const_allocator.c\<close>) and the heap as its two implementations, and the constructors
  that work on either: \<^verbatim>\<open>_cons\<close> (\<^verbatim>\<open>vm/primitives.c\<close>), \<^verbatim>\<open>struct_new\<close>
  (\<^verbatim>\<open>vm/struct.c\<close>) and \<^verbatim>\<open>_string\<close> (\<^verbatim>\<open>vm/strings.c\<close>).
\<close>

section \<open>The interface\<close>

text \<open>
  An \<^verbatim>\<open>allocator_t\<close> is its \<^verbatim>\<open>alloc\<close> function and the tag of the pointers it makes;
  \<open>al_mem\<close> and \<open>al_set\<close> give access to the memory inside the state it works on.
\<close>

record 's allocator =
  al_alloc :: "'s \<Rightarrow> u64 \<Rightarrow> u16 \<Rightarrow> ('s \<times> addr) outcome"
  al_id :: u64
  al_mem :: "'s \<Rightarrow> memory"
  al_set :: "memory \<Rightarrow> 's \<Rightarrow> 's"

definition allocator_alloc :: "'s allocator \<Rightarrow> 's \<Rightarrow> u64 \<Rightarrow> u16 \<Rightarrow> ('s \<times> addr) outcome" where
  "allocator_alloc al s sz tid = al_alloc al s sz tid"

section \<open>The constant allocator\<close>

text \<open>
  The process outside the heap: its memory and the next address of \<^verbatim>\<open>malloc\<close>, which returns
  16-byte aligned memory that was never handed out before and does not fail. \<open>ca_mem k\<close> is the
  linked list of the constant allocator \<open>k\<close>, most recent first; allocator 0 is
  \<^verbatim>\<open>global_const_pool\<close>, every module has its own.
\<close>

record proc =
  pmem :: memory
  brk :: addr
  ca_mem :: "nat \<Rightarrow> addr list"

definition mem_alloc :: "proc \<Rightarrow> nat \<Rightarrow> proc \<times> addr" where
  "mem_alloc s n = (let p = (brk s + 15) div 16 * 16 in (s\<lparr>brk := p + n\<rparr>, p))"

definition sizeof_linked_mem :: nat where "sizeof_linked_mem = 16"

text \<open>
  \<^verbatim>\<open>linked_mem_t\<close> is the link followed by a block header, so the payload follows the header
  as in the heap. The header keeps 32 bits of the size.
\<close>

definition const_allocator_alloc :: "nat \<Rightarrow> proc \<Rightarrow> u64 \<Rightarrow> u16 \<Rightarrow> (proc \<times> addr) outcome" where
  "const_allocator_alloc k s sz tid =
     (let (s1, ptr) = mem_alloc s (unat (of_nat sizeof_linked_mem + sz));
          h = \<lparr>type_id = tid, forward = False, generation = 0, remembered = False,
               hsize = unat (ucast sz :: u32)\<rparr>;
          res = ptr + sizeof_linked_mem
      in Inr (s1\<lparr>pmem := put_block (pmem s1) (res - BHDR_SIZE) \<lparr>hdr = h, payload = P_Uninit\<rparr>,
                 ca_mem := (ca_mem s1)(k := ptr # ca_mem s1 k)\<rparr>, res))"

text \<open>\<^verbatim>\<open>const_allocator_clean\<close>: every chunk of the list is freed, its block with it.\<close>

definition free_chunk :: "addr \<Rightarrow> memory \<Rightarrow> memory" where
  "free_chunk ptr m = m(ptr + sizeof_linked_mem - BHDR_SIZE := None)"

definition const_allocator_clean :: "nat \<Rightarrow> proc \<Rightarrow> proc" where
  "const_allocator_clean k s = s\<lparr>pmem := fold free_chunk (ca_mem s k) (pmem s)\<rparr>"

definition const_allocator_init :: "nat \<Rightarrow> proc \<Rightarrow> proc" where
  "const_allocator_init k s = s\<lparr>ca_mem := (ca_mem s)(k := [])\<rparr>"

definition const_allocator :: "nat \<Rightarrow> proc allocator" where
  "const_allocator k = \<lparr>al_alloc = const_allocator_alloc k, al_id = TAG_CONST_PTR, al_mem = pmem,
     al_set = (\<lambda>m s. s\<lparr>pmem := m\<rparr>)\<rparr>"

text \<open>The heap as an allocator (the fields that \<^verbatim>\<open>heap_init\<close> sets).\<close>

definition set_store :: "memory \<Rightarrow> vm_thread \<Rightarrow> vm_thread" where
  "set_store m t = t\<lparr>heap := (heap t)\<lparr>store := m\<rparr>\<rparr>"

definition heap_allocator :: "vm_thread allocator" where
  "heap_allocator = \<lparr>al_alloc = heap_allocator_alloc, al_id = TAG_PTR,
     al_mem = (\<lambda>t. store (heap t)), al_set = set_store\<rparr>"

section \<open>Constructors\<close>

text \<open>
  \<^verbatim>\<open>_cons\<close>. The arguments are pointers, read after the allocation: they are functions of the
  state that may fail. When \<^verbatim>\<open>*cdr\<close> is a pair that is not a list, the list flag is not written.
\<close>

fun pair_of :: "payload \<Rightarrow> pair_t option" where
  "pair_of (P_Pair q) = Some q" | "pair_of _ = None"

fun initial_flags :: "payload \<Rightarrow> bool option \<times> 31 word option" where
  "initial_flags P_Uninit = (None, None)"
| "initial_flags _ = (Some False, Some 0)"

definition IS_PAIR :: "memory \<Rightarrow> obj \<Rightarrow> bool outcome" where "IS_PAIR m x = IS_TYPE m x t_pair"

definition pair_at :: "memory \<Rightarrow> obj \<Rightarrow> pair_t outcome" where
  "pair_at m x = bindE (deref (HTYPE m (PTR x)) ''pair'') (\<lambda>b. deref (pair_of (payload b)) ''pair fields'')"

definition cons_flags ::
  "memory \<Rightarrow> bool option \<times> 31 word option \<Rightarrow> obj \<Rightarrow> (bool option \<times> 31 word option) outcome" where
  "cons_flags m init d =
     (if IS_NULL d then Inr (Some True, Some 1)
      else bindE (IS_PAIR m d) (\<lambda>is_pair.
        if is_pair then
          bindE (pair_at m d) (\<lambda>q.
          bindE (deref (pair_list q) ''indeterminate list flag'') (\<lambda>l.
            if l then bindE (deref (pair_length q) ''indeterminate length'') (\<lambda>n.
                   Inr (Some True, Some (n + 1)))
            else Inr init))
        else Inr (Some False, snd init)))"

definition cons ::
  "'s allocator \<Rightarrow> 's \<Rightarrow> ('s \<Rightarrow> obj outcome) \<Rightarrow> ('s \<Rightarrow> obj outcome) \<Rightarrow> ('s \<times> obj) outcome" where
  "cons al s car_p cdr_p =
     bindE (allocator_alloc al s (of_nat sizeof_pair) t_pair) (\<lambda>(s1, p).
     bindE (deref (HTYPE (al_mem al s1) p) ''new pair'') (\<lambda>b.
     bindE (car_p s1) (\<lambda>a.
     bindE (cdr_p s1) (\<lambda>d.
     bindE (cons_flags (al_mem al s1) (initial_flags (payload b)) d) (\<lambda>(l, n).
       Inr (al_set al ((al_mem al s1)(p - BHDR_SIZE \<mapsto>
              b\<lparr>payload := P_Pair \<lparr>car = a, cdr = d, pair_list = l, pair_length = n\<rparr>\<rparr>)) s1,
            MAKE_TAGGED_PTR p (al_id al)))))))"

text \<open>
  \<^verbatim>\<open>struct_new\<close>: the fields are left to the caller. \<open>size\<close> is an \<^verbatim>\<open>int\<close>, multiplied in
  \<^verbatim>\<open>size_t\<close>; the heap narrows the product to \<^verbatim>\<open>int\<close>, so the block may have room for fewer fields.
\<close>

definition struct_new ::
  "'s allocator \<Rightarrow> 's \<Rightarrow> ('s \<Rightarrow> obj outcome) \<Rightarrow> 32 word \<Rightarrow> ('s \<times> addr) outcome" where
  "struct_new al s name_p n =
     bindE (allocator_alloc al s (of_nat sizeof_struct + of_nat sizeof_obj * scast n) t_struct) (\<lambda>(s1, p).
     bindE (deref (HTYPE (al_mem al s1) p) ''new struct'') (\<lambda>b.
     bindE (name_p s1) (\<lambda>nm.
       Inr (al_set al ((al_mem al s1)(p - BHDR_SIZE \<mapsto>
              b\<lparr>payload := P_Struct \<lparr>type_name = nm, struct_size = sint n,
                   struct_fields = p + sizeof_struct, field_slots = replicate (room b sizeof_struct sizeof_obj (nat (sint n))) 0\<rparr>\<rparr>)) s1,
            p))))"

text \<open>
  \<^verbatim>\<open>_string\<close>: with \<^verbatim>\<open>copy\<close> the characters and their terminator follow the structure,
  without it the structure points to the given characters.
\<close>

definition string_new :: "'s allocator \<Rightarrow> 's \<Rightarrow> addr \<Rightarrow> cstring \<Rightarrow> bool \<Rightarrow> ('s \<times> obj) outcome" where
  "string_new al s src text copy =
     (let ssize = Suc (length text);
          hs = (if copy then sizeof_string + ssize else sizeof_string)
      in bindE (allocator_alloc al s (of_nat hs) t_string) (\<lambda>(s1, p).
         bindE (deref (HTYPE (al_mem al s1) p) ''new string'') (\<lambda>b.
           let st = (if copy
                     then \<lparr>str = p + sizeof_string, str_size = int ssize, allocated = True,
                           chars = text @ [0]\<rparr>
                     else \<lparr>str = src, str_size = int ssize, allocated = False, chars = []\<rparr>)
           in Inr (al_set al ((al_mem al s1)(p - BHDR_SIZE \<mapsto> b\<lparr>payload := P_String st\<rparr>)) s1,
                   MAKE_TAGGED_PTR p (al_id al)))))"

end
