(* ===== verification/Module_Loader.thy ===== *)
theory Module_Loader
  imports Allocator
begin

unbundle bit_operations_syntax

text \<open>
  The loader of compiled modules, \<^verbatim>\<open>vm/module.c\<close>: the bounds-checked reader \<^verbatim>\<open>code_t\<close>,
  the constants reader (\<^verbatim>\<open>fasl_read_datum\<close>) and the module parser. The mapped file is a list
  of bytes at address \<open>map_addr\<close>; a \<^verbatim>\<open>code_t\<close> points into it by offset. Numbers in a file
  are in the byte order of the machine, here little-endian. Symbols are interned by
  \<^verbatim>\<open>make_symbol\<close> (\<^verbatim>\<open>vm/strings.c\<close>).
\<close>

section \<open>Reading bytes\<close>

record code_t =
  code :: nat
  code_size :: nat

definition file_byte :: "u8 list \<Rightarrow> nat \<Rightarrow> u8 outcome" where
  "file_byte f i = (if i < length f then Inr (f ! i) else Inl (Undefined ''read past the file''))"

fun file_bytes :: "u8 list \<Rightarrow> nat \<Rightarrow> nat \<Rightarrow> u8 list outcome" where
  "file_bytes f i 0 = Inr []"
| "file_bytes f i (Suc n) =
     bindE (file_byte f i) (\<lambda>b. bindE (file_bytes f (Suc i) n) (\<lambda>bs. Inr (b # bs)))"

text \<open>A number in little-endian order.\<close>

definition le_nat :: "u8 list \<Rightarrow> nat" where
  "le_nat bs = foldr (\<lambda>b n. unat b + 256 * n) bs 0"

definition CODE_ASSERT :: "code_t \<Rightarrow> nat \<Rightarrow> 'a outcome \<Rightarrow> 'a outcome" where
  "CODE_ASSERT c sz k = ASSERT (code_size c \<ge> sz) ''code_size'' k"

definition advance :: "code_t \<Rightarrow> nat \<Rightarrow> code_t" where
  "advance c n = c\<lparr>code := code c + n, code_size := code_size c - n\<rparr>"

definition code_read8 :: "u8 list \<Rightarrow> code_t \<Rightarrow> (code_t \<times> u8) outcome" where
  "code_read8 f c =
     CODE_ASSERT c 1 (bindE (file_byte f (code c)) (\<lambda>b. Inr (advance c 1, b)))"

definition code_peek8 :: "u8 list \<Rightarrow> code_t \<Rightarrow> u8 outcome" where
  "code_peek8 f c = CODE_ASSERT c 1 (file_byte f (code c))"

definition code_read64 :: "u8 list \<Rightarrow> code_t \<Rightarrow> (code_t \<times> u64) outcome" where
  "code_read64 f c =
     CODE_ASSERT c 8 (bindE (file_bytes f (code c) 8) (\<lambda>bs. Inr (advance c 8, of_nat (le_nat bs))))"

definition code_read16 :: "u8 list \<Rightarrow> code_t \<Rightarrow> (code_t \<times> u16) outcome" where
  "code_read16 f c =
     CODE_ASSERT c 2 (bindE (file_bytes f (code c) 2) (\<lambda>bs. Inr (advance c 2, of_nat (le_nat bs))))"

text \<open>The two readers that hand out a pointer instead of a value.\<close>

definition code_read_bytes :: "code_t \<Rightarrow> nat \<Rightarrow> (code_t \<times> nat) outcome" where
  "code_read_bytes c sz = CODE_ASSERT c sz (Inr (advance c sz, code c))"

definition code_read_string :: "u8 list \<Rightarrow> code_t \<Rightarrow> (code_t \<times> nat) outcome" where
  "code_read_string f c =
     bindE (code_read8 f c) (\<lambda>(c1, len).
       CODE_ASSERT c1 (unat len) (Inr (advance c1 (unat len), code c1)))"

text \<open>The C string at an offset of the file: \<^verbatim>\<open>strlen\<close> runs to the first null byte.\<close>

fun cstring_of :: "u8 list \<Rightarrow> cstring outcome" where
  "cstring_of [] = Inl (Undefined ''strlen past the file'')"
| "cstring_of (b # bs) = (if b = 0 then Inr [] else bindE (cstring_of bs) (\<lambda>s. Inr (b # s)))"

definition file_cstring :: "u8 list \<Rightarrow> nat \<Rightarrow> cstring outcome" where
  "file_cstring f i = cstring_of (drop i f)"

section \<open>Global tables and symbols\<close>

record globals =
  proc :: proc
  sym_table :: "(cstring, addr) hash_table"
  builtin :: "(cstring, obj) hash_table"

definition alloc_global_const :: "globals \<Rightarrow> nat \<Rightarrow> u16 \<Rightarrow> (globals \<times> addr) outcome" where
  "alloc_global_const g sz tid =
     bindE (allocator_alloc (const_allocator 0) (proc g) (of_nat sz) tid) (\<lambda>(s, p).
       Inr (g\<lparr>proc := s\<rparr>, p))"

text \<open>
  \<^verbatim>\<open>make_symbol\<close>, between locking and unlocking the symbol mutex: the table maps a name to the
  symbol's address; a new symbol gets its own copy of the name.
\<close>

definition make_symbol :: "globals \<Rightarrow> cstring \<Rightarrow> (globals \<times> obj) outcome" where
  "make_symbol g s =
     (case hash_table_lookup (sym_table g) s of
        Some res \<Rightarrow> Inr (g, MAKE_CONST_PTR res)
      | None \<Rightarrow>
          bindE (alloc_global_const g (Suc (length s)) t_symbol) (\<lambda>(g1, res).
            let m = set_payload (pmem (proc g1)) (res - BHDR_SIZE) (P_Symbol s);
                g2 = g1\<lparr>proc := (proc g1)\<lparr>pmem := m\<rparr>\<rparr>
            in Inr (g2\<lparr>sym_table := ht_put (sym_table g2) s res\<rparr>, MAKE_CONST_PTR res)))"

definition lookup_global :: "globals \<Rightarrow> cstring \<Rightarrow> obj option" where
  "lookup_global g s = hash_table_lookup (builtin g) s"

section \<open>Constants\<close>

definition OT_FIXNUM :: u8 where "OT_FIXNUM = 0"
definition OT_CHARACTER :: u8 where "OT_CHARACTER = 1"
definition OT_STRING :: u8 where "OT_STRING = 2"
definition OT_SYMBOL :: u8 where "OT_SYMBOL = 3"
definition OT_STATIC :: u8 where "OT_STATIC = 4"
definition OT_PAIR_BEGIN :: u8 where "OT_PAIR_BEGIN = 5"
definition OT_PAIR_END :: u8 where "OT_PAIR_END = 6"
definition OT_STRUCT :: u8 where "OT_STRUCT = 7"
definition OT_BOOLEAN :: u8 where "OT_BOOLEAN = 8"
definition OT_NULL :: u8 where "OT_NULL = 9"

lemmas OT_defs = OT_FIXNUM_def OT_CHARACTER_def OT_STRING_def OT_SYMBOL_def OT_STATIC_def
  OT_PAIR_BEGIN_def OT_PAIR_END_def OT_STRUCT_def OT_BOOLEAN_def OT_NULL_def

text \<open>\<^verbatim>\<open>_cons\<close> and \<^verbatim>\<open>_string\<close> with the constant allocator \<open>k\<close>, inside the globals.\<close>

definition const_cons :: "nat \<Rightarrow> globals \<Rightarrow> obj \<Rightarrow> obj \<Rightarrow> (globals \<times> obj) outcome" where
  "const_cons k g a d =
     bindE (cons (const_allocator k) (proc g) (\<lambda>_. Inr a) (\<lambda>_. Inr d)) (\<lambda>(s, x). Inr (g\<lparr>proc := s\<rparr>, x))"

definition const_string :: "nat \<Rightarrow> globals \<Rightarrow> addr \<Rightarrow> cstring \<Rightarrow> (globals \<times> obj) outcome" where
  "const_string k g a s =
     bindE (string_new (const_allocator k) (proc g) a s False) (\<lambda>(s, x). Inr (g\<lparr>proc := s\<rparr>, x))"

definition const_struct :: "nat \<Rightarrow> globals \<Rightarrow> obj \<Rightarrow> 32 word \<Rightarrow> (globals \<times> addr) outcome" where
  "const_struct k g nm n =
     bindE (struct_new (const_allocator k) (proc g) (\<lambda>_. Inr nm) n) (\<lambda>(s, p). Inr (g\<lparr>proc := s\<rparr>, p))"

text \<open>\<^verbatim>\<open>st->fields[i] = x\<close> for the structure whose payload is at \<open>p\<close>.\<close>

definition put_field :: "globals \<Rightarrow> addr \<Rightarrow> nat \<Rightarrow> obj \<Rightarrow> globals outcome" where
  "put_field g p i x =
     bindE (deref (HTYPE (pmem (proc g)) p) ''struct'') (\<lambda>b.
     bindE (deref (set_slot i x (payload b)) ''field'') (\<lambda>pl.
       Inr (g\<lparr>proc := (proc g)\<lparr>pmem := (pmem (proc g))(p - BHDR_SIZE \<mapsto> b\<lparr>payload := pl\<rparr>)\<rparr>\<rparr>)))"

text \<open>
  The cases of \<^verbatim>\<open>fasl_read_datum\<close> that read no further datum, after the type byte \<open>ty\<close>.
\<close>

definition fasl_atom ::
  "u8 list \<Rightarrow> addr \<Rightarrow> nat \<Rightarrow> globals \<Rightarrow> code_t \<Rightarrow> u8 \<Rightarrow> (globals \<times> code_t \<times> obj) outcome" where
  "fasl_atom f base k g c ty =
     (if ty = OT_FIXNUM then
        bindE (code_read64 f c) (\<lambda>(c1, v). Inr (g, c1, MAKE_FIXNUM v))
      else if ty = OT_CHARACTER then
        bindE (code_read16 f c) (\<lambda>(c1, v). Inr (g, c1, MAKE_CHAR (ucast v)))
      else if ty = OT_SYMBOL then
        bindE (code_read_string f c) (\<lambda>(c1, p).
        bindE (file_cstring f p) (\<lambda>s.
        bindE (make_symbol g s) (\<lambda>(g1, x). Inr (g1, c1, x))))
      else if ty = OT_STRING then
        bindE (code_read_string f c) (\<lambda>(c1, p).
        bindE (file_cstring f p) (\<lambda>s.
        bindE (const_string k g (base + p) s) (\<lambda>(g1, x). Inr (g1, c1, x))))
      else if ty = OT_STATIC then
        bindE (code_read_string f c) (\<lambda>(c1, p).
        bindE (file_cstring f p) (\<lambda>s.
          case lookup_global g s of
            None \<Rightarrow> Inl (Fatal ''Invalid static'')
          | Some x \<Rightarrow> Inr (g, c1, x)))
      else if ty = OT_NULL then Inr (g, c, cnull)
      else if ty = OT_BOOLEAN then
        bindE (code_read8 f c) (\<lambda>(c1, v). Inr (g, c1, CIF (v \<noteq> 0)))
      else Inl (Fatal ''unhandled const type''))"

text \<open>The header of a structure: its type name, its size, and its allocation.\<close>

definition fasl_struct_head ::
  "u8 list \<Rightarrow> nat \<Rightarrow> globals \<Rightarrow> code_t \<Rightarrow> (globals \<times> code_t \<times> addr \<times> nat) outcome" where
  "fasl_struct_head f k g c =
     bindE (code_read_string f c) (\<lambda>(c1, p).
     bindE (file_cstring f p) (\<lambda>s.
     bindE (make_symbol g s) (\<lambda>(g1, nm).
     bindE (code_read8 f c1) (\<lambda>(c2, sz).
     bindE (const_struct k g1 nm (ucast sz)) (\<lambda>(g2, st). Inr (g2, c2, st, unat sz))))))"

text \<open>
  The two loops of \<^verbatim>\<open>fasl_read_datum\<close> over their recursive call \<open>rd\<close>. The pair loop runs
  until it sees the end byte; every round takes at least one byte, so a bound above the number of
  bytes left is never reached. \<open>res\<close> is \<open>None\<close> while the code's \<^verbatim>\<open>res\<close> is uninitialised
  (\<^verbatim>\<open>fresh\<close>).
\<close>

type_synonym datum_reader = "globals \<Rightarrow> code_t \<Rightarrow> (globals \<times> code_t \<times> obj) outcome"

primrec pairs_loop ::
  "nat \<Rightarrow> datum_reader \<Rightarrow> u8 list \<Rightarrow> nat \<Rightarrow> globals \<Rightarrow> code_t \<Rightarrow> obj option
    \<Rightarrow> (globals \<times> code_t \<times> obj) outcome" where
  "pairs_loop 0 rd f k g c res = Inl Fuel"
| "pairs_loop (Suc n) rd f k g c res =
     bindE (code_peek8 f c) (\<lambda>ty.
       if ty = OT_PAIR_END then
         bindE (code_read8 f c) (\<lambda>(c1, _).
         bindE (deref res ''uninitialised result'') (\<lambda>x. Inr (g, c1, x)))
       else
         bindE (rd g c) (\<lambda>(g1, c1, new).
           case res of
             None \<Rightarrow> pairs_loop n rd f k g1 c1 (Some new)
           | Some x \<Rightarrow> bindE (const_cons k g1 new x) (\<lambda>(g2, y).
                        pairs_loop n rd f k g2 c1 (Some y))))"

text \<open>\<open>n\<close> fields from field \<open>i\<close> on, for the structure at \<open>st\<close>.\<close>

primrec fields_loop ::
  "nat \<Rightarrow> datum_reader \<Rightarrow> addr \<Rightarrow> nat \<Rightarrow> globals \<Rightarrow> code_t \<Rightarrow> (globals \<times> code_t) outcome" where
  "fields_loop 0 rd st i g c = Inr (g, c)"
| "fields_loop (Suc n) rd st i g c =
     bindE (rd g c) (\<lambda>(g1, c1, x).
     bindE (put_field g1 st i x) (\<lambda>g2. fields_loop n rd st (Suc i) g2 c1))"

text \<open>
  \<^verbatim>\<open>fasl_read_datum\<close>: data nest at most as deep as there are bytes, which is the bound of the
  recursion.
\<close>

primrec fasl_datum ::
  "nat \<Rightarrow> u8 list \<Rightarrow> addr \<Rightarrow> nat \<Rightarrow> globals \<Rightarrow> code_t \<Rightarrow> (globals \<times> code_t \<times> obj) outcome" where
  "fasl_datum 0 f base k g c0 = Inl Fuel"
| "fasl_datum (Suc n) f base k g c0 =
     bindE (code_read8 f c0) (\<lambda>(c, ty).
       if ty = OT_PAIR_BEGIN then
         pairs_loop (Suc (code_size c)) (fasl_datum n f base k) f k g c None
       else if ty = OT_STRUCT then
         bindE (fasl_struct_head f k g c) (\<lambda>(g2, c2, st, sz).
         bindE (fields_loop sz (fasl_datum n f base k) st 0 g2 c2) (\<lambda>(g3, c3).
           Inr (g3, c3, MAKE_CONST_PTR st)))
       else fasl_atom f base k g c ty)"

definition fasl_read_datum ::
  "u8 list \<Rightarrow> addr \<Rightarrow> nat \<Rightarrow> globals \<Rightarrow> code_t \<Rightarrow> (globals \<times> code_t \<times> obj) outcome" where
  "fasl_read_datum f base k g c = fasl_datum (Suc (code_size c)) f base k g c"

text \<open>\<^verbatim>\<open>load_consts\<close>: a count byte, then that many constants.\<close>

fun load_consts_loop :: "nat \<Rightarrow> u8 list \<Rightarrow> addr \<Rightarrow> nat \<Rightarrow> globals \<Rightarrow> code_t \<Rightarrow> (globals \<times> code_t \<times> obj list) outcome"
where
  "load_consts_loop 0 f base k g c = Inr (g, c, [])"
| "load_consts_loop (Suc n) f base k g c =
     bindE (fasl_read_datum f base k g c) (\<lambda>(g1, c1, x).
     bindE (load_consts_loop n f base k g1 c1) (\<lambda>(g2, c2, xs). Inr (g2, c2, x # xs)))"

definition load_consts :: "u8 list \<Rightarrow> addr \<Rightarrow> nat \<Rightarrow> globals \<Rightarrow> code_t \<Rightarrow> (globals \<times> code_t \<times> obj list) outcome"
where
  "load_consts f base k g c =
     bindE (code_read8 f c) (\<lambda>(c1, ccount). load_consts_loop (unat ccount) f base k g c1)"

section \<open>Modules\<close>

text \<open>
  \<^verbatim>\<open>func_t\<close> of \<^verbatim>\<open>vm/vm.h\<close>, filled from the packed file header \<^verbatim>\<open>struct func_hdr_s\<close>:
  eight 16-bit fields. \<^verbatim>\<open>swallow\<close> is a one-bit field, \<^verbatim>\<open>env_size\<close> and \<^verbatim>\<open>heap_env\<close> are
  \<^verbatim>\<open>short\<close>, the counts \<^verbatim>\<open>int\<close>. The code and binding arrays, which the C structure points to,
  are kept as lists; \<^verbatim>\<open>func->module\<close> is the index of its module.
\<close>

record bind_t =
  b_up :: int
  b_idx :: int

record func_t =
  f_argc :: nat
  f_swallow :: bool
  env_sz :: int
  op_count :: nat
  f_heap_env :: int
  f_depth :: int
  bcount :: nat
  bmcount :: nat
  f_opcode :: "16 word list"
  f_bindings :: "bind_t list"
  f_bindmap :: "int list"
  f_module :: nat

record module_t =
  mod_functions :: "func_t list"
  func_base :: addr
  entry_point :: nat
  fun_count :: nat
  mod_consts :: "obj list"

definition FUN_HDR_SIZE :: nat where "FUN_HDR_SIZE = 16"
definition MODULE_HDR_OFFSET :: nat where "MODULE_HDR_OFFSET = 8"
definition sizeof_func :: nat where "sizeof_func = 80"

text \<open>The 16-bit words at an offset of the file, and one number of \<open>n\<close> bytes.\<close>

primrec file_u16s :: "u8 list \<Rightarrow> nat \<Rightarrow> nat \<Rightarrow> u16 list outcome" where
  "file_u16s f i 0 = Inr []"
| "file_u16s f i (Suc n) =
     bindE (file_bytes f i 2) (\<lambda>bs. bindE (file_u16s f (i + 2) n) (\<lambda>ws. Inr (of_nat (le_nat bs) # ws)))"

definition file_num :: "u8 list \<Rightarrow> nat \<Rightarrow> nat \<Rightarrow> nat outcome" where
  "file_num f i n = bindE (file_bytes f i n) (\<lambda>bs. Inr (le_nat bs))"

fun pair_up :: "u16 list \<Rightarrow> bind_t list" where
  "pair_up (u # i # ws) = \<lparr>b_up = sint u, b_idx = sint i\<rparr> # pair_up ws"
| "pair_up _ = []"

text \<open>
  The bindings and the bindmap of a function are present when it has bindings; \<^verbatim>\<open>bind_t\<close> and
  the bindmap are copied out of the file.
\<close>

definition parse_bindings :: "u8 list \<Rightarrow> code_t \<Rightarrow> nat \<Rightarrow> nat \<Rightarrow> (code_t \<times> bind_t list \<times> int list) outcome"
where
  "parse_bindings f c bc bmc =
     (if bc \<noteq> 0 then
        bindE (code_read_bytes c (bc * 4)) (\<lambda>(c1, bp).
        bindE (code_read_bytes c1 (bmc * 2)) (\<lambda>(c2, mp).
        bindE (file_u16s f mp bmc) (\<lambda>ms.
        bindE (file_u16s f bp (2 * bc)) (\<lambda>bs.
          Inr (c2, pair_up bs, map uint ms)))))
      else Inr (c, [], []))"

definition parse_func :: "u8 list \<Rightarrow> nat \<Rightarrow> code_t \<Rightarrow> (code_t \<times> func_t) outcome" where
  "parse_func f modno c =
     bindE (code_read_bytes c FUN_HDR_SIZE) (\<lambda>(c1, hp).
     bindE (file_u16s f hp 8) (\<lambda>ws.
     bindE (parse_bindings f c1 (unat (ws ! 6)) (unat (ws ! 7))) (\<lambda>(c2, bs, bm).
     bindE (code_read_bytes c2 (unat (ws ! 3) * 4)) (\<lambda>(c3, op).
     bindE (file_u16s f op (2 * unat (ws ! 3))) (\<lambda>ops.
       Inr (c3, \<lparr>f_argc = unat (ws ! 1), f_swallow = bit (ws ! 2) 0, env_sz = sint (ws ! 0),
                 op_count = unat (ws ! 3), f_heap_env = sint (ws ! 4), f_depth = uint (ws ! 5),
                 bcount = unat (ws ! 6), bmcount = unat (ws ! 7), f_opcode = ops, f_bindings = bs,
                 f_bindmap = bm, f_module = modno\<rparr>))))))"

primrec parse_funcs :: "nat \<Rightarrow> u8 list \<Rightarrow> nat \<Rightarrow> code_t \<Rightarrow> (code_t \<times> func_t list) outcome" where
  "parse_funcs 0 f modno c = Inr (c, [])"
| "parse_funcs (Suc n) f modno c =
     bindE (parse_func f modno c) (\<lambda>(c1, fn).
     bindE (parse_funcs n f modno c1) (\<lambda>(c2, fns). Inr (c2, fn # fns)))"

text \<open>
  \<^verbatim>\<open>module_parse\<close>: the module header, the constants from their own part of the file, then the
  functions. \<open>modno\<close> numbers the module and its constant allocator.
\<close>

definition module_parse :: "u8 list \<Rightarrow> addr \<Rightarrow> nat \<Rightarrow> globals \<Rightarrow> (globals \<times> module_t) outcome" where
  "module_parse f map_addr modno g0 =
     (let c = \<lparr>code = 0, code_size = length f\<rparr>;
          g = g0\<lparr>proc := const_allocator_init modno (proc g0)\<rparr>
      in bindE (code_read_bytes c MODULE_HDR_OFFSET) (\<lambda>(c1, hp).
         bindE (file_num f hp 4) (\<lambda>consts_size.
         bindE (file_num f (hp + 4) 2) (\<lambda>fcount.
         bindE (file_num f (hp + 6) 2) (\<lambda>entry.
         let (s1, fbase) = mem_alloc (proc g) (fcount * sizeof_func) in
         bindE (code_read_bytes c1 consts_size) (\<lambda>(c2, cp).
         bindE (load_consts f map_addr modno (g\<lparr>proc := s1\<rparr>) \<lparr>code = cp, code_size = consts_size\<rparr>)
           (\<lambda>(g2, _, xs).
         bindE (parse_funcs fcount f modno c2) (\<lambda>(c3, fns).
           Inr (g2, \<lparr>mod_functions = fns, func_base = fbase, entry_point = entry, fun_count = fcount,
                     mod_consts = xs\<rparr>)))))))))"

text \<open>\<^verbatim>\<open>MODULE_FUNC\<close>: the address of a function of the module.\<close>

definition MODULE_FUNC :: "module_t \<Rightarrow> nat \<Rightarrow> addr" where
  "MODULE_FUNC m i = func_base m + sizeof_func * i"

section \<open>Debug symbols\<close>

text \<open>The iterator over the null-terminated strings of a buffer, by offset.\<close>

record string_iter_t =
  it_buf :: "u8 list"
  it_cur :: nat
  it_end :: nat

definition string_iter_init :: "u8 list \<Rightarrow> string_iter_t" where
  "string_iter_init buf = \<lparr>it_buf = buf, it_cur = 0, it_end = length buf\<rparr>"

function iter_skip :: "u8 list \<Rightarrow> nat \<Rightarrow> nat \<Rightarrow> nat \<times> bool" where
  "iter_skip buf cur e =
     (if cur \<ge> e then (cur, False)
      else if buf ! cur \<noteq> 0 then iter_skip buf (Suc cur) e
      else (Suc cur, True))"
  by pat_completeness auto
termination
  by (relation "measure (\<lambda>(buf, cur, e). e - cur)") auto

declare iter_skip.simps [simp del]

definition string_iter_next :: "string_iter_t \<Rightarrow> string_iter_t \<times> nat option" where
  "string_iter_next itr =
     (case iter_skip (it_buf itr) (it_cur itr) (it_end itr) of (cur, found) \<Rightarrow>
        (itr\<lparr>it_cur := cur\<rparr>, if found then Some (it_cur itr) else None))"

end
