(* ===== verification/Native.thy ===== *)
theory Native
  imports Module_Loader
begin

unbundle bit_operations_syntax

text \<open>
  What the built-in functions share (\<^verbatim>\<open>vm/native.h\<close>, \<^verbatim>\<open>vm/native.c\<close>): return codes, the
  arguments on the operand stack, the assertions that turn into an error code, the type tests, the
  protected locals, and reading characters behind a \<^verbatim>\<open>char *\<close>. A pointer to an argument
  (\<^verbatim>\<open>obj_t *\<close>) is an index of the operand stack, so that reading it again after a collection
  gives the updated value.
\<close>

section \<open>Return codes and arguments\<close>

datatype rc = RC_OK | RC_ERROR | RC_EXIT

type_synonym native_result = "(vm_thread \<times> rc) outcome"

abbreviation mem_of :: "vm_thread \<Rightarrow> memory" where "mem_of t \<equiv> store (heap t)"

definition stack_at :: "nat \<Rightarrow> vm_thread \<Rightarrow> obj outcome" where
  "stack_at i t =
     deref (if i < length (opstack t) then Some (opstack t ! i) else None) ''operand stack''"

definition RETURN_OBJ :: "vm_thread \<Rightarrow> obj \<Rightarrow> native_result" where
  "RETURN_OBJ t x = bindE (STACK_PUSH t x) (\<lambda>t1. Inr (t1, RC_OK))"

definition RETURN_FIXNUM :: "vm_thread \<Rightarrow> u64 \<Rightarrow> native_result" where
  "RETURN_FIXNUM t n = RETURN_OBJ t (MAKE_FIXNUM n)"

definition RETURN_CHAR :: "vm_thread \<Rightarrow> u64 \<Rightarrow> native_result" where
  "RETURN_CHAR t n = RETURN_OBJ t (MAKE_CHAR n)"

definition RETURN_BOOL :: "vm_thread \<Rightarrow> bool \<Rightarrow> native_result" where
  "RETURN_BOOL t b = RETURN_OBJ t (CIF b)"

text \<open>\<^verbatim>\<open>SAFE_ASSERT\<close>: print and return \<^verbatim>\<open>RC_ERROR\<close> unless the condition holds.\<close>

definition SAFE_ASSERT :: "vm_thread \<Rightarrow> bool outcome \<Rightarrow> native_result \<Rightarrow> native_result" where
  "SAFE_ASSERT t c k = bindE c (\<lambda>b. if b then k else Inr (t, RC_ERROR))"

text \<open>An \<^verbatim>\<open>int\<close> assigned from a fixnum keeps 32 bits.\<close>

definition INT_OF :: "obj \<Rightarrow> 32 word" where "INT_OF x = ucast (FIXNUM x)"

section \<open>Type tests\<close>

definition IS_SYMBOL :: "memory \<Rightarrow> obj \<Rightarrow> bool outcome" where "IS_SYMBOL m x = IS_TYPE m x t_symbol"
definition IS_STRING :: "memory \<Rightarrow> obj \<Rightarrow> bool outcome" where "IS_STRING m x = IS_TYPE m x t_string"
definition IS_STRUCT :: "memory \<Rightarrow> obj \<Rightarrow> bool outcome" where "IS_STRUCT m x = IS_TYPE m x t_struct"
definition IS_BYTEVECTOR :: "memory \<Rightarrow> obj \<Rightarrow> bool outcome" where
  "IS_BYTEVECTOR m x = IS_TYPE m x t_bytevector"

definition IS_LIST :: "memory \<Rightarrow> obj \<Rightarrow> bool outcome" where
  "IS_LIST m x =
     bindE (IS_PAIR m x) (\<lambda>p.
       if p then bindE (pair_at m x) (\<lambda>q.
              bindE (deref (pair_list q) ''indeterminate list flag'') (\<lambda>l.
                Inr (l \<or> IS_NULL x)))
       else Inr (IS_NULL x))"

section \<open>Protected locals\<close>

text \<open>
  \<^verbatim>\<open>PROTECT_LOCAL\<close> and \<^verbatim>\<open>DEFINE_LOCAL\<close>: the registered locals of the running function, in
  order; they start as \<^verbatim>\<open>cvoid\<close>.
\<close>

definition define_locals :: "nat \<Rightarrow> vm_thread \<Rightarrow> vm_thread" where
  "define_locals n t = t\<lparr>local_roots := Some (replicate n cvoid)\<rparr>"

definition clear_locals :: "vm_thread \<Rightarrow> vm_thread" where
  "clear_locals t = t\<lparr>local_roots := None\<rparr>"

definition get_local :: "nat \<Rightarrow> vm_thread \<Rightarrow> obj outcome" where
  "get_local i t =
     deref (case local_roots t of
              None \<Rightarrow> None
            | Some xs \<Rightarrow> if i < length xs then Some (xs ! i) else None) ''local''"

definition set_local :: "nat \<Rightarrow> obj \<Rightarrow> vm_thread \<Rightarrow> vm_thread" where
  "set_local i x t = t\<lparr>local_roots := map_option (\<lambda>xs. xs[i := x]) (local_roots t)\<rparr>"

section \<open>Characters behind a pointer\<close>

text \<open>
  The bytes from an address on: of a symbol, of the characters that trail a string, or of a mapped
  file. \<open>rom\<close> gives the bytes of the mapped files (\<^verbatim>\<open>PROT_READ\<close>) from an address to the end
  of the mapping.
\<close>

type_synonym rom = "addr \<Rightarrow> u8 list option"

fun symbol_bytes :: "payload \<Rightarrow> u8 list option" where
  "symbol_bytes (P_Symbol s) = Some (s @ [0])" | "symbol_bytes _ = None"
fun string_bytes :: "payload \<Rightarrow> u8 list option" where
  "string_bytes (P_String s) = Some (chars s)" | "string_bytes _ = None"

definition block_bytes :: "memory \<Rightarrow> addr \<Rightarrow> u8 list option" where
  "block_bytes m p =
     (case Option.bind (HTYPE m p) (\<lambda>b. symbol_bytes (payload b)) of
        Some bs \<Rightarrow> Some bs
      | None \<Rightarrow>
          if p < sizeof_string then None
          else Option.bind (HTYPE m (p - sizeof_string)) (\<lambda>b. string_bytes (payload b)))"

definition bytes_at :: "rom \<Rightarrow> memory \<Rightarrow> addr \<Rightarrow> u8 list option" where
  "bytes_at rom m p = (case block_bytes m p of Some bs \<Rightarrow> Some bs | None \<Rightarrow> rom p)"

text \<open>\<^verbatim>\<open>memcpy\<close> out of \<open>p + i\<close>, and the C string at \<open>p\<close>.\<close>

definition read_bytes :: "rom \<Rightarrow> memory \<Rightarrow> addr \<Rightarrow> nat \<Rightarrow> nat \<Rightarrow> u8 list outcome" where
  "read_bytes rom m p i n =
     bindE (deref (bytes_at rom m p) ''char pointer'') (\<lambda>bs.
       deref (if i + n \<le> length bs then Some (take n (drop i bs)) else None) ''memcpy'')"

definition read_cstring :: "rom \<Rightarrow> memory \<Rightarrow> addr \<Rightarrow> cstring outcome" where
  "read_cstring rom m p = bindE (deref (bytes_at rom m p) ''char pointer'') cstring_of"

definition string_at :: "memory \<Rightarrow> obj \<Rightarrow> string_t outcome" where
  "string_at m x =
     bindE (deref (HTYPE m (PTR x)) ''string'') (\<lambda>b.
       case payload b of P_String s \<Rightarrow> Inr s | _ \<Rightarrow> Inl (Undefined ''string fields''))"

definition struct_at :: "memory \<Rightarrow> obj \<Rightarrow> struct_t outcome" where
  "struct_at m x =
     bindE (deref (HTYPE m (PTR x)) ''struct'') (\<lambda>b.
       case payload b of P_Struct s \<Rightarrow> Inr s | _ \<Rightarrow> Inl (Undefined ''struct fields''))"

definition bytevector_at :: "memory \<Rightarrow> obj \<Rightarrow> bytevector_t outcome" where
  "bytevector_at m x =
     bindE (deref (HTYPE m (PTR x)) ''bytevector'') (\<lambda>b.
       case payload b of P_Bytevector v \<Rightarrow> Inr v | _ \<Rightarrow> Inl (Undefined ''bytevector fields''))"

text \<open>A write of the payload of the object at \<open>p\<close>, and the fresh payload of an allocation.\<close>

definition set_object :: "vm_thread \<Rightarrow> addr \<Rightarrow> payload \<Rightarrow> vm_thread" where
  "set_object t p pl = set_store (set_payload (mem_of t) (p - BHDR_SIZE) pl) t"

section \<open>Arity wrappers\<close>

definition native_call_variadic ::
  "(vm_thread \<Rightarrow> nat \<Rightarrow> int \<Rightarrow> native_result) \<Rightarrow> vm_thread \<Rightarrow> nat \<Rightarrow> int \<Rightarrow> native_result" where
  "native_call_variadic f t argv argc = f t argv argc"

definition native_call_nullary ::
  "(vm_thread \<Rightarrow> native_result) \<Rightarrow> vm_thread \<Rightarrow> nat \<Rightarrow> int \<Rightarrow> native_result" where
  "native_call_nullary f t argv argc = f t"

definition native_call_unary ::
  "(vm_thread \<Rightarrow> nat \<Rightarrow> native_result) \<Rightarrow> vm_thread \<Rightarrow> nat \<Rightarrow> int \<Rightarrow> native_result" where
  "native_call_unary f t argv argc = f t (argv + 1)"

definition native_call_binary ::
  "(vm_thread \<Rightarrow> nat \<Rightarrow> nat \<Rightarrow> native_result) \<Rightarrow> vm_thread \<Rightarrow> nat \<Rightarrow> int \<Rightarrow> native_result" where
  "native_call_binary f t argv argc = f t (argv + 1) (argv + 2)"

definition native_call_ternary ::
  "(vm_thread \<Rightarrow> nat \<Rightarrow> nat \<Rightarrow> nat \<Rightarrow> native_result) \<Rightarrow> vm_thread \<Rightarrow> nat \<Rightarrow> int \<Rightarrow> native_result" where
  "native_call_ternary f t argv argc = f t (argv + 1) (argv + 2) (argv + 3)"

end
