(* ===== verification/Primitives.thy ===== *)
theory Primitives
  imports Native
begin

text \<open>
  The built-in functions of \<^verbatim>\<open>vm/primitives.c\<close>: lists, control (\<^verbatim>\<open>call/cc\<close>,
  \<^verbatim>\<open>apply\<close>, exception handlers), constants and characters. Each takes the thread, the index of
  its argument vector or arguments on the operand stack, and returns the thread with a return code.
\<close>

section \<open>Lists\<close>

text \<open>
  \<^verbatim>\<open>_list\<close> conses the arguments from the last to the first; \<open>rd i\<close> reads \<^verbatim>\<open>argv[i]\<close> and
  the result so far is the protected local 0.
\<close>

primrec list_loop :: "nat \<Rightarrow> (nat \<Rightarrow> vm_thread \<Rightarrow> obj outcome) \<Rightarrow> vm_thread \<Rightarrow> vm_thread outcome" where
  "list_loop 0 rd t = Inr t"
| "list_loop (Suc i) rd t =
     bindE (cons heap_allocator t (rd i) (get_local 0)) (\<lambda>(t1, x). list_loop i rd (set_local 0 x t1))"

definition list_of_args ::
  "(nat \<Rightarrow> vm_thread \<Rightarrow> obj outcome) \<Rightarrow> int \<Rightarrow> vm_thread \<Rightarrow> (vm_thread \<times> obj) outcome" where
  "list_of_args rd argc t =
     bindE (list_loop (nat argc) rd (set_local 0 cnull (define_locals 1 t))) (\<lambda>t1.
     bindE (get_local 0 t1) (\<lambda>res. Inr (clear_locals t1, res)))"

definition list_native :: "vm_thread \<Rightarrow> nat \<Rightarrow> int \<Rightarrow> native_result" where
  "list_native t argv argc =
     bindE (list_of_args (\<lambda>i. stack_at (argv + 1 + i)) (argc - 1) t) (\<lambda>(t1, x). RETURN_OBJ t1 x)"

definition list_length :: "vm_thread \<Rightarrow> nat \<Rightarrow> native_result" where
  "list_length t ob =
     bindE (stack_at ob t) (\<lambda>x.
       if IS_NULL x then RETURN_FIXNUM t 0
       else bindE (IS_PAIR (mem_of t) x) (\<lambda>p.
         if p then
           bindE (pair_at (mem_of t) x) (\<lambda>q.
           SAFE_ASSERT t (deref (pair_list q) ''indeterminate list flag'')
             (bindE (deref (pair_length q) ''indeterminate length'') (\<lambda>n. RETURN_FIXNUM t (ucast n))))
         else Inr (t, RC_ERROR)))"

text \<open>\<^verbatim>\<open>make_list\<close>: \<open>n\<close> rounds of \<^verbatim>\<open>_cons\<close> with the same first element.\<close>

primrec make_list_loop :: "nat \<Rightarrow> nat \<Rightarrow> vm_thread \<Rightarrow> vm_thread outcome" where
  "make_list_loop 0 fill t = Inr t"
| "make_list_loop (Suc n) fill t =
     bindE (cons heap_allocator t (stack_at fill) (get_local 0)) (\<lambda>(t1, x).
       make_list_loop n fill (set_local 0 x t1))"

definition make_list :: "vm_thread \<Rightarrow> nat \<Rightarrow> nat \<Rightarrow> native_result" where
  "make_list t cnt fill =
     bindE (stack_at cnt t) (\<lambda>c.
     SAFE_ASSERT t (Inr (IS_FIXNUM c))
       (bindE (make_list_loop (nat (sint (INT_OF c))) fill (set_local 0 cnull (define_locals 1 t))) (\<lambda>t1.
        bindE (get_local 0 t1) (\<lambda>res. RETURN_OBJ (clear_locals t1) res))))"

section \<open>Control\<close>

definition vm_exit :: "vm_thread \<Rightarrow> native_result" where
  "vm_exit t = Inr (t, RC_EXIT)"

definition continuation_new :: "vm_thread \<Rightarrow> nat \<Rightarrow> (vm_thread \<times> obj) outcome" where
  "continuation_new t func =
     bindE (heap_alloc t (of_nat sizeof_continuation) t_cont) (\<lambda>(t1, p).
     bindE (stack_at func t1) (\<lambda>f.
       Inr (set_object t1 p (P_Cont \<lparr>cont_func = f\<rparr>), MAKE_HEAP_PTR p)))"

definition call_cc :: "vm_thread \<Rightarrow> nat \<Rightarrow> int \<Rightarrow> native_result" where
  "call_cc t argv argc =
     bindE (stack_at (argv + 1) t) (\<lambda>f.
     SAFE_ASSERT t (IS_FUNC (mem_of t) f)
       (bindE (stack_at argv t) (\<lambda>k.
        bindE (STACK_PUSH t k) (\<lambda>t1.
        bindE (continuation_new t1 argv) (\<lambda>(t2, c).
        bindE (STACK_PUSH t2 c) (\<lambda>t3.
        bindE (stack_at (argv + 1) t3) (\<lambda>f'.
          Inr (t3\<lparr>tramp_argc := 2, tramp_func := f'\<rparr>, RC_OK))))))))"

definition exception_handlers_native :: "vm_thread \<Rightarrow> nat \<Rightarrow> int \<Rightarrow> native_result" where
  "exception_handlers_native t argv argc =
     (if argc = 2 then
        bindE (stack_at (argv + 1) t) (\<lambda>x.
        SAFE_ASSERT t (bindE (IS_PAIR (mem_of t) x) (\<lambda>p. Inr (p \<or> IS_NULL x)))
          (RETURN_OBJ (t\<lparr>exception_handlers := x\<rparr>) cvoid))
      else RETURN_OBJ t (exception_handlers t))"

text \<open>
  The argument loop of \<^verbatim>\<open>apply\<close>: push the elements of the list one by one. Every round
  pushes, so the operand stack bounds the loop: \<open>n\<close> is one more than the stack has slots.
\<close>

primrec apply_loop :: "nat \<Rightarrow> vm_thread \<Rightarrow> obj \<Rightarrow> int \<Rightarrow> (vm_thread \<times> int) outcome" where
  "apply_loop 0 t x cargc = Inl Fuel"
| "apply_loop (Suc n) t x cargc =
     bindE (pair_at (mem_of t) x) (\<lambda>q.
     bindE (STACK_PUSH t (car q)) (\<lambda>t1.
     bindE (IS_TYPE (mem_of t1) (cdr q) t_pair) (\<lambda>more.
       if more then apply_loop n t1 (cdr q) (cargc + 1) else Inr (t1, cargc + 1))))"

definition apply_native :: "vm_thread \<Rightarrow> nat \<Rightarrow> int \<Rightarrow> native_result" where
  "apply_native t argv argc =
     bindE (stack_at (argv + 1) t) (\<lambda>f.
     SAFE_ASSERT t (IS_FUNC (mem_of t) f)
       (bindE (stack_at (argv + 2) t) (\<lambda>l.
        SAFE_ASSERT t (IS_TYPE (mem_of t) l t_pair)
          (bindE (stack_at argv t) (\<lambda>k.
           bindE (STACK_PUSH t k) (\<lambda>t1.
           bindE (apply_loop (Suc (op_stack_size t1)) t1 l 1) (\<lambda>(t2, cargc).
           bindE (stack_at (argv + 1) t2) (\<lambda>f'.
             Inr (t2\<lparr>tramp_func := f', tramp_argc := cargc\<rparr>, RC_OK)))))))))"

section \<open>Constants and characters\<close>

definition get_void :: "vm_thread \<Rightarrow> native_result" where "get_void t = RETURN_OBJ t cvoid"
definition get_eof :: "vm_thread \<Rightarrow> native_result" where "get_eof t = RETURN_OBJ t ceof"

text \<open>\<^verbatim>\<open>CHAR\<close> is a \<^verbatim>\<open>short\<close> that is widened with its sign.\<close>

definition char_to_integer :: "vm_thread \<Rightarrow> nat \<Rightarrow> native_result" where
  "char_to_integer t chr =
     bindE (stack_at chr t) (\<lambda>c.
     SAFE_ASSERT t (Inr (IS_CHAR c)) (RETURN_FIXNUM t (scast (CHAR_OF c))))"

definition integer_to_char :: "vm_thread \<Rightarrow> nat \<Rightarrow> native_result" where
  "integer_to_char t i =
     bindE (stack_at i t) (\<lambda>x.
     SAFE_ASSERT t (Inr (IS_FIXNUM x)) (RETURN_CHAR t (FIXNUM x)))"

end
