(* ===== verification/Structs.thy ===== *)
theory Structs
  imports Native Primitives
begin

unbundle bit_operations_syntax

text \<open>
  The built-in functions of \<^verbatim>\<open>vm/struct.c\<close> on structures (records and vectors): construction,
  field access with its bounds checks, and conversion to a list. A field access goes through the
  interior pointer \<^verbatim>\<open>st->fields\<close>, which has to point behind the structure.
\<close>

text \<open>The structure whose fields are at \<open>p\<close>, and a field through that pointer.\<close>

definition fields_at :: "memory \<Rightarrow> addr \<Rightarrow> struct_t outcome" where
  "fields_at m p =
     (if p < sizeof_struct then Inl (Undefined ''fields pointer'')
      else struct_at m (MAKE_HEAP_PTR (p - sizeof_struct)))"

definition read_field :: "memory \<Rightarrow> addr \<Rightarrow> int \<Rightarrow> obj outcome" where
  "read_field m p i =
     bindE (fields_at m p) (\<lambda>s.
       deref (if 0 \<le> i \<and> nat i < length (field_slots s) then Some (field_slots s ! nat i) else None)
         ''field'')"

definition write_field :: "vm_thread \<Rightarrow> addr \<Rightarrow> int \<Rightarrow> obj \<Rightarrow> vm_thread outcome" where
  "write_field t p i x =
     bindE (fields_at (mem_of t) p) (\<lambda>s.
       if 0 \<le> i \<and> nat i < length (field_slots s)
       then Inr (set_object t (p - sizeof_struct) (P_Struct (s\<lparr>field_slots := (field_slots s)[nat i := x]\<rparr>)))
       else Inl (Undefined ''field''))"

text \<open>The initialisation loops: \<open>n\<close> fields from field \<open>i\<close> on, read by \<open>rd\<close>.\<close>

primrec fill_loop :: "nat \<Rightarrow> (nat \<Rightarrow> vm_thread \<Rightarrow> obj outcome) \<Rightarrow> addr \<Rightarrow> nat \<Rightarrow> vm_thread \<Rightarrow> vm_thread outcome"
where
  "fill_loop 0 rd p i t = Inr t"
| "fill_loop (Suc n) rd p i t =
     bindE (rd i t) (\<lambda>x. bindE (write_field t p (int i) x) (\<lambda>t1. fill_loop n rd p (Suc i) t1))"

definition make_struct :: "vm_thread \<Rightarrow> nat \<Rightarrow> int \<Rightarrow> native_result" where
  "make_struct t argv argc =
     bindE (stack_at (argv + 1) t) (\<lambda>nm.
     SAFE_ASSERT t (IS_SYMBOL (mem_of t) nm)
       (bindE (struct_new heap_allocator t (stack_at (argv + 1)) (of_int (argc - 2))) (\<lambda>(t1, st).
        bindE (fill_loop (nat (argc - 2)) (\<lambda>i. stack_at (argv + i + 2)) (st + sizeof_struct) 0 t1) (\<lambda>t2.
          RETURN_OBJ t2 (MAKE_HEAP_PTR st)))))"

definition alloc_struct :: "vm_thread \<Rightarrow> nat \<Rightarrow> nat \<Rightarrow> nat \<Rightarrow> native_result" where
  "alloc_struct t nm cnt fill =
     bindE (stack_at nm t) (\<lambda>tn.
     SAFE_ASSERT t (IS_SYMBOL (mem_of t) tn)
       (bindE (stack_at cnt t) (\<lambda>c.
        SAFE_ASSERT t (Inr (IS_FIXNUM c))
          (bindE (struct_new heap_allocator t (stack_at nm) (INT_OF c)) (\<lambda>(t1, st).
           bindE (fill_loop (nat (sint (INT_OF c))) (\<lambda>_. stack_at fill) (st + sizeof_struct) 0 t1) (\<lambda>t2.
             RETURN_OBJ t2 (MAKE_HEAP_PTR st)))))))"

definition struct_size_native :: "vm_thread \<Rightarrow> nat \<Rightarrow> native_result" where
  "struct_size_native t ob =
     bindE (stack_at ob t) (\<lambda>x.
     SAFE_ASSERT t (IS_STRUCT (mem_of t) x)
       (bindE (struct_at (mem_of t) x) (\<lambda>s. RETURN_FIXNUM t (of_int (struct_size s)))))"

text \<open>\<^verbatim>\<open>struct_set\<close> converts the position without a test that it is a fixnum.\<close>

definition struct_set :: "vm_thread \<Rightarrow> nat \<Rightarrow> nat \<Rightarrow> nat \<Rightarrow> native_result" where
  "struct_set t ob opos oval =
     bindE (stack_at ob t) (\<lambda>x.
     SAFE_ASSERT t (IS_STRUCT (mem_of t) x)
       (SAFE_ASSERT t (Inr (IS_HEAP_PTR x))
          (bindE (struct_at (mem_of t) x) (\<lambda>s.
           bindE (stack_at opos t) (\<lambda>po.
           let pos = sint (INT_OF po) in
           SAFE_ASSERT t (Inr (pos \<ge> 0 \<and> struct_size s > pos))
             (bindE (stack_at oval t) (\<lambda>v.
              bindE (write_field t (struct_fields s) pos v) (\<lambda>t1. RETURN_OBJ t1 cvoid))))))))"

definition struct_ref :: "vm_thread \<Rightarrow> nat \<Rightarrow> nat \<Rightarrow> native_result" where
  "struct_ref t ob opos =
     bindE (stack_at ob t) (\<lambda>x.
     SAFE_ASSERT t (IS_STRUCT (mem_of t) x)
       (bindE (stack_at opos t) (\<lambda>po.
        SAFE_ASSERT t (Inr (IS_FIXNUM po))
          (bindE (struct_at (mem_of t) x) (\<lambda>s.
           let pos = sint (INT_OF po) in
           SAFE_ASSERT t (Inr (pos \<ge> 0 \<and> struct_size s > pos))
             (bindE (read_field (mem_of t) (struct_fields s) pos) (\<lambda>v. RETURN_OBJ t v)))))))"

definition struct_type :: "vm_thread \<Rightarrow> nat \<Rightarrow> native_result" where
  "struct_type t ob =
     bindE (stack_at ob t) (\<lambda>x.
     SAFE_ASSERT t (IS_STRUCT (mem_of t) x)
       (bindE (struct_at (mem_of t) x) (\<lambda>s. RETURN_OBJ t (type_name s))))"

text \<open>
  \<^verbatim>\<open>struct_to_list\<close> reserves the heap for all pairs, reads the structure again, and then keeps
  the plain pointer \<^verbatim>\<open>st->fields\<close> over the allocations.
\<close>

definition struct_to_list :: "vm_thread \<Rightarrow> nat \<Rightarrow> native_result" where
  "struct_to_list t ob =
     bindE (stack_at ob t) (\<lambda>x.
     SAFE_ASSERT t (IS_STRUCT (mem_of t) x)
       (bindE (struct_at (mem_of t) x) (\<lambda>s0.
        bindE (heap_require_blocks t (of_nat sizeof_pair) (of_int (struct_size s0))) (\<lambda>t1.
        bindE (stack_at ob t1) (\<lambda>x1.
        bindE (struct_at (mem_of t1) x1) (\<lambda>s.
        bindE (list_of_args (\<lambda>i t. read_field (mem_of t) (struct_fields s) (int i)) (struct_size s) t1)
          (\<lambda>(t2, res). RETURN_OBJ t2 res)))))))"

end
