(* ===== verification/Strings.thy ===== *)
theory Strings
  imports Native
begin

unbundle bit_operations_syntax

text \<open>
  The built-in functions of \<^verbatim>\<open>vm/strings.c\<close> on strings and symbols. \<open>chars\<close> of a string block
  are the bytes behind its structure that the functions wrote; the heap hands out cleared memory, so
  the padding up to the block size reads as null bytes.
\<close>

section \<open>Access through the character pointer\<close>

text \<open>The characters of a new string block: \<open>bs\<close> and the cleared rest of the block.\<close>

definition fill_chars :: "block \<Rightarrow> u8 list \<Rightarrow> u8 list outcome" where
  "fill_chars b bs =
     (let cap = hsize (hdr b) - sizeof_string in
      deref (if length bs \<le> cap then Some (bs @ replicate (cap - length bs) 0) else None) ''chars'')"

text \<open>
  A write of bytes at \<open>p + i\<close>: into the characters of a string or the name of a symbol. Mapped
  files are read-only.
\<close>

definition splice :: "nat \<Rightarrow> 'a list \<Rightarrow> 'a list \<Rightarrow> 'a list" where
  "splice i bs xs = take i xs @ bs @ drop (i + length bs) xs"

fun write_payload :: "nat \<Rightarrow> u8 list \<Rightarrow> payload \<Rightarrow> payload option" where
  "write_payload i bs (P_Symbol s) =
     (if i + length bs \<le> length s then Some (P_Symbol (splice i bs s)) else None)"
| "write_payload i bs (P_String s) =
     (if i + length bs \<le> length (chars s)
      then Some (P_String (s\<lparr>chars := splice i bs (chars s)\<rparr>)) else None)"
| "write_payload i bs _ = None"

definition write_bytes :: "vm_thread \<Rightarrow> addr \<Rightarrow> nat \<Rightarrow> u8 list \<Rightarrow> vm_thread outcome" where
  "write_bytes t p i bs =
     (let m = mem_of t;
          q = (if Option.bind (HTYPE m p) (\<lambda>b. symbol_bytes (payload b)) \<noteq> None then p
               else p - sizeof_string)
      in bindE (deref (HTYPE m q) ''char pointer'') (\<lambda>b.
         bindE (deref (write_payload i bs (payload b)) ''write'') (\<lambda>pl.
           Inr (set_object t q pl))))"

section \<open>Construction\<close>

text \<open>
  \<^verbatim>\<open>make_string\<close>: the length is a \<^verbatim>\<open>size_t\<close>, the size passed to \<^verbatim>\<open>heap_alloc\<close> an
  \<^verbatim>\<open>int\<close>. Characters that do not fit the block are written outside of it.
\<close>

definition make_string :: "vm_thread \<Rightarrow> nat \<Rightarrow> nat \<Rightarrow> native_result" where
  "make_string t olen ofill =
     bindE (stack_at olen t) (\<lambda>lo.
     SAFE_ASSERT t (Inr (IS_FIXNUM lo))
       (bindE (stack_at ofill t) (\<lambda>fo.
        SAFE_ASSERT t (Inr (IS_CHAR fo))
          (let len = FIXNUM lo in
           bindE (heap_alloc t (ucast (of_nat sizeof_string + len + 1)) t_string) (\<lambda>(t1, p).
           bindE (deref (HTYPE (mem_of t1) p) ''new string'') (\<lambda>b.
           bindE (stack_at ofill t1) (\<lambda>fo1.
             if hsize (hdr b) < sizeof_string + unat len + 1 then Inl (Undefined ''chars'')
             else bindE (fill_chars b (replicate (unat len) (ucast (CHAR_OF fo1)) @ [0])) (\<lambda>cs.
               RETURN_OBJ
                 (set_object t1 p (P_String \<lparr>str = p + sizeof_string,
                    str_size = sint (ucast (len + 1) :: 32 word), allocated = True, chars = cs\<rparr>))
                 (MAKE_HEAP_PTR p))))))))) "

text \<open>
  \<^verbatim>\<open>string_concat\<close> reads the two strings through plain pointers taken before the allocation, and
  leaves the flag \<^verbatim>\<open>allocated\<close> as the cleared memory has it.
\<close>

definition string_concat :: "rom \<Rightarrow> vm_thread \<Rightarrow> nat \<Rightarrow> nat \<Rightarrow> native_result" where
  "string_concat rom t oa ob =
     bindE (stack_at oa t) (\<lambda>xa.
     SAFE_ASSERT t (IS_STRING (mem_of t) xa)
       (bindE (stack_at ob t) (\<lambda>xb.
        SAFE_ASSERT t (IS_STRING (mem_of t) xb)
          (bindE (string_at (mem_of t) xa) (\<lambda>a0.
           bindE (string_at (mem_of t) xb) (\<lambda>b0.
           let new_size = str_size a0 + str_size b0 - 1 in
           bindE (heap_alloc t (of_int (new_size + int sizeof_string)) t_string) (\<lambda>(t1, p).
           bindE (deref (HTYPE (mem_of t1) p) ''new string'') (\<lambda>blk.
           let t2 = set_object t1 p (P_String \<lparr>str = p + sizeof_string, str_size = new_size,
                      allocated = False, chars = replicate (hsize (hdr blk) - sizeof_string) 0\<rparr>);
               m = mem_of t2
           in bindE (string_at m xa) (\<lambda>a.
              bindE (string_at m xb) (\<lambda>b.
              let sep = str_size a - 1 in
              if sep < 0 \<or> str_size b < 0 then Inl (Undefined ''memcpy'')
              else bindE (read_bytes rom m (str a) 0 (nat sep)) (\<lambda>as.
                   bindE (read_bytes rom m (str b) 0 (nat (str_size b))) (\<lambda>bs.
                   bindE (fill_chars blk (as @ bs)) (\<lambda>cs.
                     RETURN_OBJ
                       (set_object t2 p (P_String \<lparr>str = p + sizeof_string, str_size = new_size,
                          allocated = False, chars = cs\<rparr>))
                       (MAKE_HEAP_PTR p))))))))))))))"

definition string_copy :: "rom \<Rightarrow> vm_thread \<Rightarrow> nat \<Rightarrow> native_result" where
  "string_copy rom t osrc =
     bindE (stack_at osrc t) (\<lambda>x.
     SAFE_ASSERT t (IS_STRING (mem_of t) x)
       (bindE (string_at (mem_of t) x) (\<lambda>s0.
        let sz = str_size s0 in
        bindE (heap_alloc t (of_int (sz + int sizeof_string)) t_string) (\<lambda>(t1, p).
        bindE (deref (HTYPE (mem_of t1) p) ''new string'') (\<lambda>b.
        bindE (stack_at osrc t1) (\<lambda>x1.
        bindE (string_at (mem_of t1) x1) (\<lambda>s.
        if sz < 0 then Inl (Undefined ''memcpy'')
        else bindE (read_bytes rom (mem_of t1) (str s) 0 (nat sz)) (\<lambda>bs.
             bindE (fill_chars b bs) (\<lambda>cs.
               RETURN_OBJ
                 (set_object t1 p (P_String \<lparr>str = p + sizeof_string, str_size = sz,
                    allocated = True, chars = cs\<rparr>))
                 (MAKE_HEAP_PTR p))))))))))"

text \<open>\<^verbatim>\<open>symbol_to_string\<close> shares the characters of the symbol.\<close>

definition symbol_to_string :: "rom \<Rightarrow> vm_thread \<Rightarrow> nat \<Rightarrow> native_result" where
  "symbol_to_string rom t osym =
     bindE (stack_at osym t) (\<lambda>x.
     SAFE_ASSERT t (IS_SYMBOL (mem_of t) x)
       (bindE (read_cstring rom (mem_of t) (PTR x)) (\<lambda>s.
        bindE (string_new heap_allocator t (PTR x) s False) (\<lambda>(t1, y). RETURN_OBJ t1 y))))"

definition substring :: "rom \<Rightarrow> vm_thread \<Rightarrow> nat \<Rightarrow> nat \<Rightarrow> nat \<Rightarrow> native_result" where
  "substring rom t ostr ostart oend =
     bindE (stack_at ostr t) (\<lambda>x.
     SAFE_ASSERT t (IS_STRING (mem_of t) x)
       (bindE (stack_at ostart t) (\<lambda>os.
        SAFE_ASSERT t (Inr (IS_FIXNUM os))
          (bindE (stack_at oend t) (\<lambda>oe.
           SAFE_ASSERT t (Inr (IS_FIXNUM oe))
             (let start = sint (INT_OF os); stop = sint (INT_OF oe) in
              bindE (string_at (mem_of t) x) (\<lambda>s0.
              SAFE_ASSERT t (Inr (start \<ge> 0 \<and> start \<le> stop \<and> stop < str_size s0))
                (let nsize = nat (stop - start) in
                 bindE (heap_alloc t (of_nat (nsize + sizeof_string)) t_string) (\<lambda>(t1, p).
                 bindE (deref (HTYPE (mem_of t1) p) ''new string'') (\<lambda>b.
                 bindE (stack_at ostr t1) (\<lambda>x1.
                 bindE (string_at (mem_of t1) x1) (\<lambda>s.
                 bindE (read_bytes rom (mem_of t1) (str s) (nat start) nsize) (\<lambda>bs.
                 bindE (fill_chars b bs) (\<lambda>cs.
                   RETURN_OBJ
                     (set_object t1 p (P_String \<lparr>str = p + sizeof_string, str_size = int nsize + 1,
                        allocated = True, chars = cs\<rparr>))
                     (MAKE_HEAP_PTR p)))))))))))))))"

section \<open>Access\<close>

definition string_copy_to :: "rom \<Rightarrow> vm_thread \<Rightarrow> nat \<Rightarrow> nat \<Rightarrow> nat \<Rightarrow> native_result" where
  "string_copy_to rom t odest opos osrc =
     bindE (stack_at odest t) (\<lambda>xd.
     SAFE_ASSERT t (IS_STRING (mem_of t) xd)
       (SAFE_ASSERT t (Inr (IS_HEAP_PTR xd))
          (bindE (stack_at osrc t) (\<lambda>xs.
           SAFE_ASSERT t (IS_STRING (mem_of t) xs)
             (bindE (stack_at opos t) (\<lambda>po.
              SAFE_ASSERT t (Inr (IS_FIXNUM po))
                (bindE (string_at (mem_of t) xs) (\<lambda>src.
                 bindE (string_at (mem_of t) xd) (\<lambda>dst.
                 SAFE_ASSERT t (Inr (allocated dst))
                   (let pos = sint (INT_OF po) in
                    SAFE_ASSERT t (Inr (pos \<ge> 0 \<and> pos + str_size src \<le> str_size dst))
                      (if str_size src < 1 then Inl (Undefined ''memcpy'')
                       else bindE (read_bytes rom (mem_of t) (str src) 0 (nat (str_size src - 1))) (\<lambda>bs.
                            bindE (write_bytes t (str dst) (nat pos) bs) (\<lambda>t1.
                              RETURN_OBJ t1 cvoid)))))))))))))"

text \<open>\<^verbatim>\<open>string_ref\<close> has no lower bound on the position; a \<^verbatim>\<open>char\<close> is signed.\<close>

definition string_ref :: "rom \<Rightarrow> vm_thread \<Rightarrow> nat \<Rightarrow> nat \<Rightarrow> native_result" where
  "string_ref rom t ostr opos =
     bindE (stack_at ostr t) (\<lambda>x.
     SAFE_ASSERT t (IS_STRING (mem_of t) x)
       (bindE (stack_at opos t) (\<lambda>po.
        SAFE_ASSERT t (Inr (IS_FIXNUM po))
          (bindE (string_at (mem_of t) x) (\<lambda>s.
           let pos = sint (INT_OF po) in
           SAFE_ASSERT t (Inr (pos < str_size s - 1))
             (if pos < 0 then Inl (Undefined ''before the string'')
              else bindE (read_bytes rom (mem_of t) (str s) (nat pos) 1) (\<lambda>bs.
                RETURN_CHAR t (scast (hd bs)))))))))"

definition string_set :: "vm_thread \<Rightarrow> nat \<Rightarrow> nat \<Rightarrow> nat \<Rightarrow> native_result" where
  "string_set t ostr opos oval =
     bindE (stack_at ostr t) (\<lambda>x.
     SAFE_ASSERT t (IS_STRING (mem_of t) x)
       (bindE (stack_at opos t) (\<lambda>po.
        SAFE_ASSERT t (Inr (IS_FIXNUM po))
          (bindE (stack_at oval t) (\<lambda>vo.
           SAFE_ASSERT t (Inr (IS_CHAR vo))
             (bindE (string_at (mem_of t) x) (\<lambda>s.
              let pos = sint (INT_OF po) in
              SAFE_ASSERT t (Inr (pos \<ge> 0 \<and> pos < str_size s - 1))
                (bindE (write_bytes t (str s) (nat pos) [ucast (CHAR_OF vo)]) (\<lambda>t1.
                   RETURN_OBJ t1 cvoid))))))))) "

definition string_length :: "vm_thread \<Rightarrow> nat \<Rightarrow> native_result" where
  "string_length t ostr =
     bindE (stack_at ostr t) (\<lambda>x.
     SAFE_ASSERT t (IS_STRING (mem_of t) x)
       (bindE (string_at (mem_of t) x) (\<lambda>s. RETURN_FIXNUM t (of_int (str_size s - 1)))))"

definition string_eq :: "rom \<Rightarrow> vm_thread \<Rightarrow> nat \<Rightarrow> nat \<Rightarrow> native_result" where
  "string_eq rom t a b =
     bindE (stack_at a t) (\<lambda>xa.
     SAFE_ASSERT t (IS_STRING (mem_of t) xa)
       (bindE (stack_at b t) (\<lambda>xb.
        SAFE_ASSERT t (IS_STRING (mem_of t) xb)
          (bindE (string_at (mem_of t) xa) (\<lambda>sa.
           bindE (string_at (mem_of t) xb) (\<lambda>sb.
           bindE (read_cstring rom (mem_of t) (str sa)) (\<lambda>ca.
           bindE (read_cstring rom (mem_of t) (str sb)) (\<lambda>cb. RETURN_BOOL t (ca = cb)))))))))"

end
