(* ===== verification/Bytevectors.thy ===== *)
theory Bytevectors
  imports Native
begin

text \<open>
  The built-in functions of \<^verbatim>\<open>vm/bytevector.c\<close>. As for strings, the data pointer has to point
  behind the structure.
\<close>

definition bv_new :: "vm_thread \<Rightarrow> 32 word \<Rightarrow> (vm_thread \<times> addr) outcome" where
  "bv_new t n =
     bindE (heap_alloc t (of_nat sizeof_bytevector + n) t_bytevector) (\<lambda>(t1, p).
     bindE (deref (HTYPE (mem_of t1) p) ''new bytevector'') (\<lambda>b.
       Inr (set_object t1 p (P_Bytevector
              \<lparr>data = p + sizeof_bytevector, bv_size = sint n,
               bytes = replicate (room b sizeof_bytevector 1 (nat (sint n))) 0\<rparr>), p)))"

text \<open>
  \<^verbatim>\<open>memset\<close> takes the size as \<^verbatim>\<open>size_t\<close>: a negative size writes far beyond the object, as does
  any size that the block has no room for.
\<close>

definition make_bytevector :: "vm_thread \<Rightarrow> nat \<Rightarrow> nat \<Rightarrow> native_result" where
  "make_bytevector t cnt fill =
     bindE (stack_at cnt t) (\<lambda>c.
     SAFE_ASSERT t (Inr (IS_FIXNUM c))
       (bindE (stack_at fill t) (\<lambda>fl.
        SAFE_ASSERT t (Inr (IS_FIXNUM fl))
          (bindE (bv_new t (INT_OF c)) (\<lambda>(t1, p).
           bindE (stack_at fill t1) (\<lambda>fl1.
           let n = sint (INT_OF c) in
           bindE (bytevector_at (mem_of t1) (MAKE_HEAP_PTR p)) (\<lambda>v.
             if n < 0 \<or> int (length (bytes v)) < n then Inl (Undefined ''memset'')
             else RETURN_OBJ
                    (set_object t1 p (P_Bytevector (v\<lparr>bytes := replicate (nat n) (ucast (FIXNUM fl1))\<rparr>)))
                    (MAKE_HEAP_PTR p))))))))"

definition bytevector_length :: "vm_thread \<Rightarrow> nat \<Rightarrow> native_result" where
  "bytevector_length t ob =
     bindE (stack_at ob t) (\<lambda>x.
     SAFE_ASSERT t (IS_BYTEVECTOR (mem_of t) x)
       (bindE (bytevector_at (mem_of t) x) (\<lambda>v. RETURN_FIXNUM t (of_int (bv_size v)))))"

definition is_bytevector :: "vm_thread \<Rightarrow> nat \<Rightarrow> native_result" where
  "is_bytevector t ob =
     bindE (stack_at ob t) (\<lambda>x. bindE (IS_BYTEVECTOR (mem_of t) x) (\<lambda>b. RETURN_BOOL t b))"

text \<open>A write of one byte through \<^verbatim>\<open>bv->data\<close>.\<close>

definition write_data :: "vm_thread \<Rightarrow> addr \<Rightarrow> int \<Rightarrow> u8 \<Rightarrow> vm_thread outcome" where
  "write_data t p i x =
     (if p < sizeof_bytevector then Inl (Undefined ''data pointer'')
      else bindE (bytevector_at (mem_of t) (MAKE_HEAP_PTR (p - sizeof_bytevector))) (\<lambda>v.
        if 0 \<le> i \<and> nat i < length (bytes v)
        then Inr (set_object t (p - sizeof_bytevector) (P_Bytevector (v\<lparr>bytes := (bytes v)[nat i := x]\<rparr>)))
        else Inl (Undefined ''byte'')))"

text \<open>\<^verbatim>\<open>bytevector_8_set\<close> tests the position twice and the value not at all for its tag.\<close>

definition bytevector_8_set :: "vm_thread \<Rightarrow> nat \<Rightarrow> nat \<Rightarrow> nat \<Rightarrow> native_result" where
  "bytevector_8_set t obv opos oval =
     bindE (stack_at obv t) (\<lambda>x.
     SAFE_ASSERT t (IS_BYTEVECTOR (mem_of t) x)
       (bindE (stack_at opos t) (\<lambda>po.
        SAFE_ASSERT t (Inr (IS_FIXNUM po))
          (SAFE_ASSERT t (Inr (IS_FIXNUM po))
             (bindE (bytevector_at (mem_of t) x) (\<lambda>v.
              bindE (stack_at oval t) (\<lambda>vo.
              let pos = sint (INT_OF po); val = sint (INT_OF vo) in
              SAFE_ASSERT t (Inr (pos \<ge> 0 \<and> pos < bv_size v))
                (SAFE_ASSERT t (Inr (val > 0 \<and> val < 256))
                   (bindE (write_data t (data v) pos (of_int val)) (\<lambda>t1. RETURN_OBJ t1 cvoid)))))))))) "

end
