(* ===== verification/Functions.thy ===== *)
theory Functions
  imports Structs Strings Bytevectors
begin

text \<open>
  What a function pointer points to: the table of the built-in functions with the names under
  which the \<^verbatim>\<open>init\<close> functions register them, the functions of the loaded modules, and the call
  of a built-in function that works on the thread alone. Native function objects are static data;
  they are laid out at \<open>NATIVE_BASE\<close>, 32 bytes each.
\<close>

section \<open>Built-in functions\<close>

datatype native_fn =
    N_display | N_vm_exit | N_call_cc | N_apply | N_exception_handlers | N_list | N_make_list
  | N_get_void | N_get_eof | N_char_to_integer | N_integer_to_char | N_list_length
  | N_symbol_to_string | N_string_ref | N_string_set | N_string_length | N_string_eq
  | N_string_concat | N_substring | N_string_copy | N_string_copy_to | N_make_string
  | N_make_struct | N_alloc_struct | N_struct_size | N_struct_set | N_struct_ref | N_struct_type
  | N_struct_to_list | N_make_bytevector | N_is_bytevector | N_bytevector_8_set
  | N_load_library | N_library_cache

text \<open>
  In the order of registration: the global name, the function, its name, its \<^verbatim>\<open>fargc\<close> and its
  \<^verbatim>\<open>swallow\<close> (the \<^verbatim>\<open>MAKE_NATIVE\<close> macros).
\<close>

definition natives :: "(string \<times> native_fn \<times> string \<times> nat \<times> bool) list" where
  "natives =
    [(''display'', N_display, ''display'', 1, False),
     (''__exit'', N_vm_exit, ''vm_exit'', 0, False),
     (''call/cc'', N_call_cc, ''call_cc'', 1, False),
     (''apply'', N_apply, ''apply'', 2, False),
     (''exception-handlers'', N_exception_handlers, ''exception_handlers'', 0, True),
     (''list'', N_list, ''list'', 0, True),
     (''$make-list'', N_make_list, ''make_list'', 2, False),
     (''void'', N_get_void, ''get_void'', 0, False),
     (''eof-object'', N_get_eof, ''get_eof'', 0, False),
     (''char->integer'', N_char_to_integer, ''char_to_integer'', 1, False),
     (''integer->char'', N_integer_to_char, ''integer_to_char'', 1, False),
     (''length'', N_list_length, ''list_length'', 1, False),
     (''symbol->string'', N_symbol_to_string, ''symbol_to_string'', 1, False),
     (''string-ref'', N_string_ref, ''string_ref'', 2, False),
     (''string-set!'', N_string_set, ''string_set'', 3, False),
     (''string-length'', N_string_length, ''string_length'', 1, False),
     (''string=?'', N_string_eq, ''string_eq'', 2, False),
     (''string-concat'', N_string_concat, ''string_concat'', 2, False),
     (''substring'', N_substring, ''substring'', 3, False),
     (''string-copy'', N_string_copy, ''string_copy'', 1, False),
     (''string-copy!'', N_string_copy_to, ''string_copy_to'', 3, False),
     (''make-string'', N_make_string, ''make_string'', 2, False),
     (''make-struct'', N_make_struct, ''make_struct'', 0, True),
     (''alloc-struct'', N_alloc_struct, ''alloc_struct'', 3, False),
     (''struct-size'', N_struct_size, ''struct_size'', 1, False),
     (''struct-set!'', N_struct_set, ''struct_set'', 3, False),
     (''struct-ref'', N_struct_ref, ''struct_ref'', 2, False),
     (''struct-type'', N_struct_type, ''struct_type'', 1, False),
     (''struct->list'', N_struct_to_list, ''struct_to_list'', 1, False),
     (''make-bytevector'', N_make_bytevector, ''make_bytevector'', 2, False),
     (''bytevector?'', N_is_bytevector, ''is_bytevector'', 1, False),
     (''bytevector-u8-set!'', N_bytevector_8_set, ''bytevector_8_set'', 3, False),
     (''load-library'', N_load_library, ''load_library'', 1, False),
     (''library-cache'', N_library_cache, ''library_cache'', 0, True)]"

definition NATIVE_BASE :: addr where "NATIVE_BASE = 4096"
definition sizeof_native :: nat where "sizeof_native = 32"

text \<open>The common header \<^verbatim>\<open>func_hdr_t\<close>; \<^verbatim>\<open>argc\<close> counts the continuation.\<close>

record native_func_t =
  nt_fn :: native_fn
  nt_name :: string
  nt_argc :: nat
  nt_swallow :: bool

fun make_native :: "string \<times> native_fn \<times> string \<times> nat \<times> bool \<Rightarrow> native_func_t" where
  "make_native (_, fn, nm, fargc, fswallow) =
     \<lparr>nt_fn = fn, nt_name = nm, nt_argc = fargc + 1, nt_swallow = fswallow\<rparr>"

definition native_addr :: "nat \<Rightarrow> addr" where
  "native_addr i = NATIVE_BASE + sizeof_native * i"

definition native_at :: "addr \<Rightarrow> native_func_t option" where
  "native_at a =
     (if NATIVE_BASE \<le> a \<and> (a - NATIVE_BASE) mod sizeof_native = 0
         \<and> (a - NATIVE_BASE) div sizeof_native < length natives
      then Some (make_native (natives ! ((a - NATIVE_BASE) div sizeof_native))) else None)"

text \<open>\<^verbatim>\<open>ns_install_native\<close>, and the installation of all of them in order.\<close>

definition cstr :: "string \<Rightarrow> cstring" where "cstr s = map of_char s"

definition ns_install_native :: "(cstring, obj) hash_table \<Rightarrow> string \<Rightarrow> addr \<Rightarrow> (cstring, obj) hash_table" where
  "ns_install_native tbl nm nt = ht_put tbl (cstr nm) (MAKE_FUNC nt)"

fun install_all :: "nat \<Rightarrow> string list \<Rightarrow> (cstring, obj) hash_table \<Rightarrow> (cstring, obj) hash_table" where
  "install_all i [] tbl = tbl"
| "install_all i (nm # nms) tbl = install_all (Suc i) nms (ns_install_native tbl nm (native_addr i))"

section \<open>Interpreted functions\<close>

text \<open>The function of a module list whose \<^verbatim>\<open>func_t\<close> is at the address \<open>a\<close>.\<close>

definition module_func_at :: "module_t \<Rightarrow> addr \<Rightarrow> func_t option" where
  "module_func_at md a =
     (if func_base md \<le> a \<and> (a - func_base md) mod sizeof_func = 0
         \<and> (a - func_base md) div sizeof_func < length (mod_functions md)
      then Some (mod_functions md ! ((a - func_base md) div sizeof_func)) else None)"

fun interp_at :: "module_t list \<Rightarrow> addr \<Rightarrow> func_t option" where
  "interp_at [] a = None"
| "interp_at (md # mds) a =
     (case module_func_at md a of Some f \<Rightarrow> Some f | None \<Rightarrow> interp_at mds a)"

datatype fn_ref = Interp func_t | Builtin native_func_t

definition func_at :: "module_t list \<Rightarrow> addr \<Rightarrow> fn_ref option" where
  "func_at mds a =
     (case native_at a of Some nf \<Rightarrow> Some (Builtin nf)
      | None \<Rightarrow> map_option Interp (interp_at mds a))"

fun ref_argc :: "fn_ref \<Rightarrow> nat" where
  "ref_argc (Interp f) = f_argc f" | "ref_argc (Builtin nf) = nt_argc nf"
fun ref_swallow :: "fn_ref \<Rightarrow> bool" where
  "ref_swallow (Interp f) = f_swallow f" | "ref_swallow (Builtin nf) = nt_swallow nf"

section \<open>Calls on the thread\<close>

definition library_cache :: "vm_thread \<Rightarrow> nat \<Rightarrow> int \<Rightarrow> native_result" where
  "library_cache t argv argc =
     (if argc = 2 then
        bindE (stack_at (argv + 1) t) (\<lambda>x.
        SAFE_ASSERT t (IS_PAIR (mem_of t) x) (RETURN_OBJ (t\<lparr>lib_cache := x\<rparr>) cvoid))
      else RETURN_OBJ t (lib_cache t))"

text \<open>
  Every built-in function under its arity wrapper, except \<^verbatim>\<open>display\<close> and \<^verbatim>\<open>load_library\<close>, which
  need more than the thread.
\<close>

fun call_native :: "rom \<Rightarrow> native_fn \<Rightarrow> (vm_thread \<Rightarrow> nat \<Rightarrow> int \<Rightarrow> native_result) option" where
  "call_native rom N_vm_exit = Some (native_call_nullary vm_exit)"
| "call_native rom N_call_cc = Some (native_call_variadic call_cc)"
| "call_native rom N_apply = Some (native_call_variadic apply_native)"
| "call_native rom N_exception_handlers = Some (native_call_variadic exception_handlers_native)"
| "call_native rom N_list = Some (native_call_variadic list_native)"
| "call_native rom N_make_list = Some (native_call_binary make_list)"
| "call_native rom N_get_void = Some (native_call_nullary get_void)"
| "call_native rom N_get_eof = Some (native_call_nullary get_eof)"
| "call_native rom N_char_to_integer = Some (native_call_unary char_to_integer)"
| "call_native rom N_integer_to_char = Some (native_call_unary integer_to_char)"
| "call_native rom N_list_length = Some (native_call_unary list_length)"
| "call_native rom N_symbol_to_string = Some (native_call_unary (symbol_to_string rom))"
| "call_native rom N_string_ref = Some (native_call_binary (string_ref rom))"
| "call_native rom N_string_set = Some (native_call_ternary string_set)"
| "call_native rom N_string_length = Some (native_call_unary string_length)"
| "call_native rom N_string_eq = Some (native_call_binary (string_eq rom))"
| "call_native rom N_string_concat = Some (native_call_binary (string_concat rom))"
| "call_native rom N_substring = Some (native_call_ternary (substring rom))"
| "call_native rom N_string_copy = Some (native_call_unary (string_copy rom))"
| "call_native rom N_string_copy_to = Some (native_call_ternary (string_copy_to rom))"
| "call_native rom N_make_string = Some (native_call_binary make_string)"
| "call_native rom N_make_struct = Some (native_call_variadic make_struct)"
| "call_native rom N_alloc_struct = Some (native_call_ternary alloc_struct)"
| "call_native rom N_struct_size = Some (native_call_unary struct_size_native)"
| "call_native rom N_struct_set = Some (native_call_ternary struct_set)"
| "call_native rom N_struct_ref = Some (native_call_binary struct_ref)"
| "call_native rom N_struct_type = Some (native_call_unary struct_type)"
| "call_native rom N_struct_to_list = Some (native_call_unary struct_to_list)"
| "call_native rom N_make_bytevector = Some (native_call_binary make_bytevector)"
| "call_native rom N_is_bytevector = Some (native_call_unary is_bytevector)"
| "call_native rom N_bytevector_8_set = Some (native_call_ternary bytevector_8_set)"
| "call_native rom N_library_cache = Some (native_call_variadic library_cache)"
| "call_native rom N_display = None"
| "call_native rom N_load_library = None"

end
