(* ===== verification/Printer.thy ===== *)
theory Printer
  imports Functions
begin

unbundle bit_operations_syntax

text \<open>
  \<^verbatim>\<open>print_obj\<close> of \<^verbatim>\<open>vm/native.c\<close> with the \<^verbatim>\<open>repr\<close> functions of the object types. The
  output is a list of tokens: bytes, and wide characters, whose encoding depends on the locale. The
  recursion of the C code is a stack of things still to print; printing a cyclic structure does not
  return, which the result \<open>None\<close> of \<open>print_items\<close> stands for.
\<close>

section \<open>Numbers\<close>

function show_nat :: "nat \<Rightarrow> cstring" where
  "show_nat n = (if n < 10 then [of_nat (48 + n)] else show_nat (n div 10) @ [of_nat (48 + n mod 10)])"
  by auto
termination by (relation "measure id") auto

declare show_nat.simps [simp del]

definition show_int :: "int \<Rightarrow> cstring" where
  "show_int i = (if i < 0 then 45 # show_nat (nat (- i)) else show_nat (nat i))"

section \<open>Items\<close>

datatype out_token = Text cstring | Wide_Char "16 word"

datatype print_item = Emit out_token | Print obj | Disp_Pair pair_t

definition emits :: "string \<Rightarrow> print_item" where "emits s = Emit (Text (cstr s))"

definition const_descr :: "string list" where
  "const_descr = [''()'', ''#t'', ''#f'', ''<void>'', ''<eof>'']"

definition print_const :: "obj \<Rightarrow> print_item list outcome" where
  "print_const x =
     (let i = sint (INT_OF x) in
      if i < 0 \<or> i > 4 then Inl (Fatal ''wrong const id'') else Inr [emits (const_descr ! nat i)])"

text \<open>The elements of an array with a space between them.\<close>

fun spaced :: "print_item list \<Rightarrow> print_item list" where
  "spaced (x # y # xs) = x # emits '' '' # spaced (y # xs)"
| "spaced xs = xs"

definition disp_pair :: "memory \<Rightarrow> pair_t \<Rightarrow> print_item list outcome" where
  "disp_pair m q =
     bindE (IS_TYPE m (cdr q) t_pair) (\<lambda>is_pair.
       if is_pair then bindE (pair_at m (cdr q)) (\<lambda>np. Inr [emits '' '', Print (car np), Disp_Pair np])
       else Inr (if IS_NULL (cdr q) then [] else [emits '' . '', Print (cdr q)]))"

definition pair_repr :: "memory \<Rightarrow> addr \<Rightarrow> print_item list outcome" where
  "pair_repr m p =
     bindE (pair_at m (MAKE_HEAP_PTR p)) (\<lambda>q.
       Inr [emits ''('', Print (car q), Disp_Pair q, emits '')''])"

definition string_repr :: "rom \<Rightarrow> memory \<Rightarrow> addr \<Rightarrow> print_item list outcome" where
  "string_repr rom m p =
     bindE (string_at m (MAKE_HEAP_PTR p)) (\<lambda>s.
     bindE (read_cstring rom m (str s)) (\<lambda>bs. Inr [Emit (Text bs)]))"

definition symbol_repr :: "rom \<Rightarrow> memory \<Rightarrow> addr \<Rightarrow> print_item list outcome" where
  "symbol_repr rom m p = bindE (read_cstring rom m p) (\<lambda>bs. Inr [Emit (Text bs)])"

definition struct_repr :: "rom \<Rightarrow> memory \<Rightarrow> addr \<Rightarrow> print_item list outcome" where
  "struct_repr rom m p =
     bindE (struct_at m (MAKE_HEAP_PTR p)) (\<lambda>s.
     bindE (read_cstring rom m (PTR (type_name s))) (\<lambda>nm.
     bindE (fields_at m (struct_fields s)) (\<lambda>fs.
       if int (length (field_slots fs)) < struct_size s then Inl (Undefined ''field'')
       else Inr ([emits ''#<'', Emit (Text nm), emits '': '']
                 @ spaced (map Print (take (nat (struct_size s)) (field_slots fs))) @ [emits ''>'']))))"

definition bv_repr :: "memory \<Rightarrow> addr \<Rightarrow> print_item list outcome" where
  "bv_repr m p =
     bindE (bytevector_at m (MAKE_HEAP_PTR p)) (\<lambda>v.
       if data v < sizeof_bytevector then Inl (Undefined ''data pointer'')
       else bindE (bytevector_at m (MAKE_HEAP_PTR (data v - sizeof_bytevector))) (\<lambda>w.
         if int (length (bytes w)) < bv_size v then Inl (Undefined ''byte'')
         else Inr ([emits ''#vu8('']
                   @ spaced (map (\<lambda>b. Emit (Text (show_nat (unat b)))) (take (nat (bv_size v)) (bytes w)))
                   @ [emits '')''])))"

fun call_repr :: "repr_fun \<Rightarrow> rom \<Rightarrow> memory \<Rightarrow> addr \<Rightarrow> print_item list outcome" where
  "call_repr pair_repr_fp rom m p = pair_repr m p"
| "call_repr string_repr_fp rom m p = string_repr rom m p"
| "call_repr symbol_repr_fp rom m p = symbol_repr rom m p"
| "call_repr struct_repr_fp rom m p = struct_repr rom m p"
| "call_repr bv_repr_fp rom m p = bv_repr m p"

definition print_ptr :: "rom \<Rightarrow> memory \<Rightarrow> obj \<Rightarrow> print_item list outcome" where
  "print_ptr rom m x =
     bindE (deref (HTYPE m (PTR x)) ''header'') (\<lambda>b.
     bindE (type_entry (type_id (hdr b))) (\<lambda>ty.
       case repr ty of
         Some fp \<Rightarrow> call_repr fp rom m (PTR x)
       | None \<Rightarrow> Inr [emits ''<ptr:'', emits (ty_name ty), emits ''>'']))"

definition print_func :: "module_t list \<Rightarrow> obj \<Rightarrow> print_item list outcome" where
  "print_func mds x =
     bindE (deref (func_at mds (PTR x)) ''function'') (\<lambda>r.
       case r of
         Interp f \<Rightarrow> Inr [emits ''<lambda/'', Emit (Text (show_int (int (f_argc f) - 1))), emits ''>'']
       | Builtin nf \<Rightarrow> Inr [emits ''<native '', emits (nt_name nf), emits ''/'',
                            Emit (Text (show_int (int (nt_argc nf) - 1))), emits ''>''])"

text \<open>One call of \<^verbatim>\<open>print_obj\<close> down to what it prints and the calls it makes.\<close>

definition print_obj :: "module_t list \<Rightarrow> rom \<Rightarrow> memory \<Rightarrow> obj \<Rightarrow> print_item list outcome" where
  "print_obj mds rom m x =
     (let tag = GET_TAG x in
      if tag = TAG_CONST_PTR \<or> tag = TAG_PTR then print_ptr rom m x
      else if tag = TAG_FIXNUM then Inr [Emit (Text (show_int (sint (FIXNUM x))))]
      else if tag = TAG_CHAR then Inr [emits [CHR ''#'', CHR 0x5C], Emit (Wide_Char (CHAR_OF x))]
      else if tag = TAG_FUNC then print_func mds x
      else if tag = TAG_CONST then print_const x
      else Inr [emits ''unknown obj''])"

partial_function (option) print_items ::
  "module_t list \<Rightarrow> rom \<Rightarrow> memory \<Rightarrow> print_item list \<Rightarrow> out_token list \<Rightarrow> out_token list outcome option"
where
  "print_items mds rom m items acc =
     (case items of
        [] \<Rightarrow> Some (Inr acc)
      | Emit tok # rest \<Rightarrow> print_items mds rom m rest (acc @ [tok])
      | Print x # rest \<Rightarrow>
          (case print_obj mds rom m x of
             Inl e \<Rightarrow> Some (Inl e)
           | Inr new \<Rightarrow> print_items mds rom m (new @ rest) acc)
      | Disp_Pair q # rest \<Rightarrow>
          (case disp_pair m q of
             Inl e \<Rightarrow> Some (Inl e)
           | Inr new \<Rightarrow> print_items mds rom m (new @ rest) acc))"

text \<open>\<^verbatim>\<open>display\<close>, with the tokens it prints.\<close>

definition display ::
  "module_t list \<Rightarrow> rom \<Rightarrow> vm_thread \<Rightarrow> nat \<Rightarrow> ((vm_thread \<times> rc) \<times> out_token list) outcome" where
  "display mds rom t ob =
     bindE (stack_at ob t) (\<lambda>x.
       case print_items mds rom (mem_of t) [Print x] [] of
         None \<Rightarrow> Inl Fuel
       | Some r \<Rightarrow> bindE r (\<lambda>toks. bindE (RETURN_OBJ t cvoid) (\<lambda>res. Inr (res, toks))))"

end
