(* ===== verification/Vm.thy ===== *)
theory Vm
  imports Printer "HOL-Library.Signed_Division"
begin

unbundle bit_operations_syntax

text \<open>
  The virtual machine of \<^verbatim>\<open>vm/vm.c\<close>: environments, closures, entering a function, raising an
  exception, and the interpreter \<^verbatim>\<open>eval_thread\<close> as a step function. A step executes one opcode, or
  one turn of the \<^verbatim>\<open>dispatch_func\<close> loop, whose function value and argument count are then the
  control state. Jump targets and the program counter count 16-bit words.
\<close>

section \<open>State\<close>

datatype control = Run | Dispatch obj int | Halted

record vm =
  thread :: vm_thread
  globs :: globals
  modules :: "module_t list"
  libraries :: "(addr, nat) hash_table"
  maps :: "(addr \<times> u8 list) list"
  out :: "out_token list"
  pc :: nat
  ctl :: control

text \<open>What the process takes from outside: the compiled files with the address of their mapping.\<close>

record host =
  host_file :: "cstring \<Rightarrow> (addr \<times> u8 list) option"
  cache_path :: cstring

fun rom_of :: "(addr \<times> u8 list) list \<Rightarrow> rom" where
  "rom_of [] p = None"
| "rom_of ((base, bs) # ms) p =
     (if base \<le> p \<and> p < base + length bs then Some (drop (p - base) bs) else rom_of ms p)"

definition with_thread :: "vm \<Rightarrow> (vm_thread \<Rightarrow> vm_thread outcome) \<Rightarrow> vm outcome" where
  "with_thread v f = bindE (f (thread v)) (\<lambda>t. Inr (v\<lparr>thread := t\<rparr>))"

text \<open>
  There is one memory. An operation on the globals works on it under the name \<open>pmem\<close>, the heap under
  the name \<open>store\<close>.
\<close>

definition with_globals :: "vm \<Rightarrow> (globals \<Rightarrow> (globals \<times> 'a) outcome) \<Rightarrow> (vm \<times> 'a) outcome" where
  "with_globals v f =
     bindE (f ((globs v)\<lparr>proc := (proc (globs v))\<lparr>pmem := mem_of (thread v)\<rparr>\<rparr>)) (\<lambda>(g, x).
       Inr (v\<lparr>globs := g, thread := set_store (pmem (proc g)) (thread v)\<rparr>, x))"

section \<open>Environments and closures\<close>

fun env_of :: "payload \<Rightarrow> env_t option" where
  "env_of (P_Env e) = Some e" | "env_of _ = None"

definition env_at :: "memory \<Rightarrow> addr \<Rightarrow> env_t outcome" where
  "env_at m p = bindE (deref (HTYPE m p) ''env'') (\<lambda>b. deref (env_of (payload b)) ''env fields'')"

text \<open>\<^verbatim>\<open>env_new\<close>: \<open>parent\<close> reads \<^verbatim>\<open>*prev\<close> after the allocation; the slots are cleared.\<close>

definition env_new ::
  "vm_thread \<Rightarrow> (vm_thread \<Rightarrow> addr) \<Rightarrow> int \<Rightarrow> int \<Rightarrow> (vm_thread \<times> addr) outcome" where
  "env_new t parent sz dep =
     bindE (heap_alloc0 t (of_nat sizeof_env + of_nat sizeof_obj * of_int sz) t_env) (\<lambda>(t1, p).
     bindE (deref (HTYPE (mem_of t1) p) ''new env'') (\<lambda>b.
       Inr (set_object t1 p (P_Env \<lparr>prev = parent t1, env_size = sz, depth = dep,
              objects = p + sizeof_env,
              env_slots = replicate (room b sizeof_env sizeof_obj (nat sz)) 0\<rparr>), p)))"

text \<open>
  \<^verbatim>\<open>env_display\<close>: up the chain of environments to the one with the depth mark. It does not
  return on a cyclic chain without that depth.
\<close>

partial_function (option) env_display :: "memory \<Rightarrow> addr \<Rightarrow> int \<Rightarrow> addr outcome option" where
  "env_display m p i =
     (case env_at m p of
        Inl e \<Rightarrow> Some (Inl e)
      | Inr e \<Rightarrow>
          if i = depth e then Some (Inr p)
          else if prev e = 0 then Some (Inl (Fatal ''null env''))
          else env_display m (prev e) i)"

definition display_env :: "memory \<Rightarrow> addr \<Rightarrow> int \<Rightarrow> addr outcome" where
  "display_env m p i = (case env_display m p i of None \<Rightarrow> Inl Fuel | Some r \<Rightarrow> r)"

definition write_stack :: "vm_thread \<Rightarrow> nat \<Rightarrow> obj \<Rightarrow> vm_thread outcome" where
  "write_stack t i x =
     (if i < length (opstack t) then Inr (t\<lparr>opstack := (opstack t)[i := x]\<rparr>)
      else Inl (Undefined ''operand stack''))"

fun bindmap_loop :: "int list \<Rightarrow> nat \<Rightarrow> vm_thread \<Rightarrow> vm_thread outcome" where
  "bindmap_loop [] i t = Inr t"
| "bindmap_loop (d # ds) i t =
     bindE (display_env (mem_of t) (th_env t) d) (\<lambda>env.
     bindE (write_stack t i (MAKE_HEAP_PTR env)) (\<lambda>t1. bindmap_loop ds (Suc i) t1))"

definition bindmap_init :: "vm_thread \<Rightarrow> nat \<Rightarrow> func_t \<Rightarrow> vm_thread outcome" where
  "bindmap_init t bm func =
     (if length (f_bindmap func) < bmcount func then Inl (Undefined ''func->bindmap'')
      else bindmap_loop (take (bmcount func) (f_bindmap func)) bm t)"

definition closure_new :: "vm_thread \<Rightarrow> addr \<Rightarrow> nat \<Rightarrow> (vm_thread \<times> obj) outcome" where
  "closure_new t func bmc =
     bindE (heap_alloc t (of_nat (sizeof_closure + bmc * sizeof_obj)) t_closure) (\<lambda>(t1, p).
       Inr (set_object t1 p (P_Closure \<lparr>clo_env = th_env t1, clo_func = func\<rparr>), MAKE_HEAP_PTR p))"

text \<open>An environment slot through the pointer \<^verbatim>\<open>env->objects\<close>.\<close>

definition slots_at :: "memory \<Rightarrow> addr \<Rightarrow> env_t outcome" where
  "slots_at m p = (if p < sizeof_env then Inl (Undefined ''objects pointer'') else env_at m (p - sizeof_env))"

definition read_slot :: "memory \<Rightarrow> addr \<Rightarrow> int \<Rightarrow> obj outcome" where
  "read_slot m p i =
     bindE (slots_at m p) (\<lambda>e.
       deref (if 0 \<le> i \<and> nat i < length (env_slots e) then Some (env_slots e ! nat i) else None) ''slot'')"

definition write_slots :: "vm_thread \<Rightarrow> addr \<Rightarrow> int \<Rightarrow> obj list \<Rightarrow> vm_thread outcome" where
  "write_slots t p i xs =
     bindE (slots_at (mem_of t) p) (\<lambda>e.
       if 0 \<le> i \<and> nat i + length xs \<le> length (env_slots e)
       then Inr (set_object t (p - sizeof_env) (P_Env (e\<lparr>env_slots := splice (nat i) xs (env_slots e)\<rparr>)))
       else Inl (Undefined ''slot''))"

text \<open>The locals, on the operand stack or in an environment.\<close>

definition load_local :: "vm_thread \<Rightarrow> int \<Rightarrow> obj outcome" where
  "load_local t i =
     (case th_objects t of
        On_Stack n \<Rightarrow> if int n + i < 0 then Inl (Undefined ''operand stack'') else stack_at (nat (int n + i)) t
      | In_Env p \<Rightarrow> read_slot (mem_of t) p i)"

definition set_local_slot :: "vm_thread \<Rightarrow> int \<Rightarrow> obj \<Rightarrow> vm_thread outcome" where
  "set_local_slot t i x =
     (case th_objects t of
        On_Stack n \<Rightarrow>
          if int n + i < 0 then Inl (Undefined ''operand stack'') else write_stack t (nat (int n + i)) x
      | In_Env p \<Rightarrow> write_slots t p i [x])"

section \<open>Entering a function\<close>

text \<open>\<open>n\<close> values below the top of the operand stack: the index of the first.\<close>

definition args_base :: "vm_thread \<Rightarrow> int \<Rightarrow> nat outcome" where
  "args_base t n =
     (let i = int (op_stack_idx t) - n in if i < 0 then Inl (Undefined ''below the stack'') else Inr (nat i))"

definition read_stack :: "vm_thread \<Rightarrow> nat \<Rightarrow> nat \<Rightarrow> obj list outcome" where
  "read_stack t i n =
     deref (if i + n \<le> length (opstack t) then Some (take n (drop i (opstack t))) else None) ''operand stack''"

text \<open>
  The surplus arguments of a function with a rest parameter become a list. They are off the operand
  stack (\<^verbatim>\<open>op_stack_idx\<close> is lowered first) while the list is built.
\<close>

definition swallow_args :: "vm_thread \<Rightarrow> func_t \<Rightarrow> int \<Rightarrow> (vm_thread \<times> int) outcome" where
  "swallow_args t func op_arg =
     (if f_swallow func then
        let i = op_arg - int (f_argc func) in
        if i \<noteq> 0 then
          bindE (args_base t i) (\<lambda>args.
          bindE (list_of_args (\<lambda>j. stack_at (args + j)) i (t\<lparr>op_stack_idx := args\<rparr>)) (\<lambda>(t1, l).
          bindE (STACK_PUSH t1 l) (\<lambda>t2. Inr (t2, op_arg - (i - 1)))))
        else bindE (STACK_PUSH t cnull) (\<lambda>t1. Inr (t1, op_arg + 1))
      else Inr (t, op_arg))"

text \<open>The arguments move to a new environment or to the bottom of the operand stack.\<close>

definition place_args :: "vm_thread \<Rightarrow> func_t \<Rightarrow> int \<Rightarrow> vm_thread outcome" where
  "place_args t func op_arg =
     bindE (args_base t op_arg) (\<lambda>args.
       if f_heap_env func \<noteq> 0 then
         bindE (env_new t th_env (env_sz func) (f_depth func)) (\<lambda>(t1, p).
         let t2 = t1\<lparr>th_env := p, th_objects := In_Env (p + sizeof_env)\<rparr> in
         if op_arg \<noteq> 0 then
           bindE (read_stack t2 args (nat op_arg)) (\<lambda>xs.
             write_slots (t2\<lparr>op_stack_idx := 0\<rparr>) (p + sizeof_env) 0 xs)
         else Inr t2)
       else if int (op_stack_idx t) > op_arg * 2 then
         bindE (read_stack t args (nat op_arg)) (\<lambda>xs.
           Inr (t\<lparr>opstack := splice 0 xs (opstack t), th_objects := On_Stack 0,
                  op_stack_idx := nat op_arg\<rparr>))
       else Inr (t\<lparr>th_objects := On_Stack args\<rparr>))"

definition enter_bindmap :: "vm_thread \<Rightarrow> func_t \<Rightarrow> vm_thread outcome" where
  "enter_bindmap t func =
     (if bcount func \<noteq> 0 \<and> th_bindmap t = None
      then let bm = op_stack_idx t in
        bindmap_init (t\<lparr>th_bindmap := Some bm, op_stack_idx := bm + bmcount func\<rparr>) bm func
      else Inr t)"

definition enter_interp :: "vm_thread \<Rightarrow> addr \<Rightarrow> func_t \<Rightarrow> int \<Rightarrow> vm_thread outcome" where
  "enter_interp t fp func op_arg =
     bindE (swallow_args (t\<lparr>th_func := fp\<rparr>) func op_arg) (\<lambda>(t1, op_arg1).
     bindE (place_args t1 func op_arg1) (\<lambda>t2.
       enter_bindmap (t2\<lparr>heap_env := f_heap_env func\<rparr>) func))"

section \<open>Exceptions\<close>

text \<open>The address of \<^verbatim>\<open>vm_exit_nt\<close>: it is installed second.\<close>

definition vm_exit_nt :: addr where "vm_exit_nt = native_addr 1"

text \<open>
  \<^verbatim>\<open>push_exception_handler\<close>: the pair of the handler list is read through a plain pointer taken
  before the message is allocated.
\<close>

definition push_exception_handler :: "vm_thread \<Rightarrow> cstring \<Rightarrow> (vm_thread \<times> int) outcome" where
  "push_exception_handler t msg =
     (let buf = take 255 msg; eh = exception_handlers t in
      bindE (IS_PAIR (mem_of t) eh) (\<lambda>is_pair.
        if \<not> is_pair then Inr (t, 0)
        else bindE (pair_at (mem_of t) eh) (\<lambda>q0.
          bindE (IS_FUNC (mem_of t) (car q0)) (\<lambda>is_func.
            if \<not> is_func then Inr (t, 0)
            else
              bindE (string_new heap_allocator t 0 buf True) (\<lambda>(t1, ob).
              bindE (STACK_PUSH t1 (MAKE_FUNC vm_exit_nt)) (\<lambda>t2.
              bindE (STACK_PUSH t2 ob) (\<lambda>t3.
              bindE (pair_at (mem_of t3) eh) (\<lambda>q.
              bindE (STACK_PUSH t3 (car q)) (\<lambda>t4.
                Inr (t4\<lparr>exception_handlers := cdr q\<rparr>, 2))))))))))"

text \<open>\<^verbatim>\<open>RAISE\<close>: without a handler the thread ends, otherwise the handler is called.\<close>

definition raise :: "vm \<Rightarrow> cstring \<Rightarrow> vm outcome" where
  "raise v msg =
     bindE (push_exception_handler (thread v) msg) (\<lambda>(t, op_arg).
       if op_arg = 0 then Inr (v\<lparr>thread := t, ctl := Halted\<rparr>)
       else bindE (STACK_POP t) (\<lambda>(t1, fp). Inr (v\<lparr>thread := t1, ctl := Dispatch fp op_arg\<rparr>)))"

end
