(* ===== verification/Interp.thy ===== *)
theory Interp
  imports Vm
begin

unbundle bit_operations_syntax

text \<open>
  The interpreter loop \<^verbatim>\<open>eval_thread\<close> (\<^verbatim>\<open>vm/vm.c\<close>): the opcodes, the call protocol, the loading
  of libraries, the start of the machine, and its runs as a step relation.
\<close>

section \<open>Opcodes\<close>

datatype opcode =
    LOAD_FUNC | LOAD_CLOSURE | LOAD_LOCAL | LOAD_BIND | LOAD_CONST | PUSH_BOOL | PUSH_NULL
  | JUMP_IF_FALSE | JUMP_FORWARD | FUNC_CALL | SET_LOCAL | SET_BIND | OP_CONS | OP_CAR | OP_CDR
  | OP_SUB | OP_ADD | OP_MUL | OP_DIV | OP_MOD | OP_BIT_AND | OP_BIT_IOR | OP_BIT_XOR | OP_BIT_NOT
  | OP_LT | OP_GT | OP_EQ | OP_EQ_PTR | OP_NOT | OP_TYPE_TEST

text \<open>The numbering of \<^verbatim>\<open>opcodes.h\<close>.\<close>

definition opcode_list :: "opcode list" where
  "opcode_list =
    [LOAD_FUNC, LOAD_CLOSURE, LOAD_LOCAL, LOAD_BIND, LOAD_CONST, PUSH_BOOL, PUSH_NULL,
     JUMP_IF_FALSE, JUMP_FORWARD, FUNC_CALL, SET_LOCAL, SET_BIND, OP_CONS, OP_CAR, OP_CDR,
     OP_SUB, OP_ADD, OP_MUL, OP_DIV, OP_MOD, OP_BIT_AND, OP_BIT_IOR, OP_BIT_XOR, OP_BIT_NOT,
     OP_LT, OP_GT, OP_EQ, OP_EQ_PTR, OP_NOT, OP_TYPE_TEST]"

definition decode_op :: "16 word \<Rightarrow> opcode option" where
  "decode_op w = (if unat w < length opcode_list then Some (opcode_list ! unat w) else None)"

section \<open>Arithmetic\<close>

text \<open>
  The binary operations on two fixnums \<open>a\<close> and \<open>b\<close> as \<^verbatim>\<open>long\<close>. A product that overflows and a
  division by zero are undefined.
\<close>

definition long_mul :: "u64 \<Rightarrow> u64 \<Rightarrow> u64 outcome" where
  "long_mul a b =
     (let p = sint a * sint b in
      if - (2 ^ 63) \<le> p \<and> p < 2 ^ 63 then Inr (of_int p) else Inl (Undefined ''signed overflow''))"

fun arith :: "opcode \<Rightarrow> u64 \<Rightarrow> u64 \<Rightarrow> u64 outcome" where
  "arith OP_ADD a b = Inr (a + b)"
| "arith OP_SUB a b = Inr (a - b)"
| "arith OP_MUL a b = long_mul a b"
| "arith OP_DIV a b =
     (if b = 0 then Inl (Undefined ''division by zero'') else Inr (of_int (sint a sdiv sint b)))"
| "arith OP_MOD a b =
     (if b = 0 then Inl (Undefined ''division by zero'') else Inr (of_int (sint a smod sint b)))"
| "arith OP_BIT_AND a b = Inr (a AND b)"
| "arith OP_BIT_IOR a b = Inr (a OR b)"
| "arith OP_BIT_XOR a b = Inr (a XOR b)"
| "arith _ a b = Inl (Undefined ''not arithmetic'')"

fun compare_longs :: "opcode \<Rightarrow> u64 \<Rightarrow> u64 \<Rightarrow> bool" where
  "compare_longs OP_EQ a b = (a = b)"
| "compare_longs OP_GT a b = (sint a > sint b)"
| "compare_longs OP_LT a b = (sint a < sint b)"
| "compare_longs _ a b = False"

definition FETCH_AB :: "vm_thread \<Rightarrow> (vm_thread \<times> obj \<times> obj) outcome" where
  "FETCH_AB t = bindE (STACK_POP t) (\<lambda>(t1, b). bindE (STACK_POP t1) (\<lambda>(t2, a). Inr (t2, a, b)))"

definition arith_target :: "opcode \<Rightarrow> vm_thread \<Rightarrow> vm_thread outcome" where
  "arith_target op t =
     bindE (FETCH_AB t) (\<lambda>(t1, a, b).
     bindE (arith op (FIXNUM a) (FIXNUM b)) (\<lambda>c. STACK_PUSH t1 (MAKE_FIXNUM c)))"

definition compare_target :: "opcode \<Rightarrow> vm_thread \<Rightarrow> vm_thread outcome" where
  "compare_target op t =
     bindE (FETCH_AB t) (\<lambda>(t1, a, b). STACK_PUSH t1 (CIF (compare_longs op (FIXNUM a) (FIXNUM b))))"

definition eq_ptr_target :: "vm_thread \<Rightarrow> vm_thread outcome" where
  "eq_ptr_target t = bindE (FETCH_AB t) (\<lambda>(t1, a, b). STACK_PUSH t1 (CIF (a = b)))"

definition not_target :: "vm_thread \<Rightarrow> vm_thread outcome" where
  "not_target t = bindE (STACK_POP t) (\<lambda>(t1, a). STACK_PUSH t1 (CIF (IS_FALSE a)))"

text \<open>\<^verbatim>\<open>OP_BIT_NOT\<close> pushes the untagged complement.\<close>

definition bit_not_target :: "vm_thread \<Rightarrow> vm_thread outcome" where
  "bit_not_target t = bindE (STACK_POP t) (\<lambda>(t1, a). STACK_PUSH t1 (NOT (FIXNUM a)))"

section \<open>Pairs and type tests\<close>

text \<open>\<^verbatim>\<open>OP_CONS\<close>: \<open>a\<close> and \<open>b\<close> are the protected locals 0 and 1.\<close>

definition cons_target :: "vm_thread \<Rightarrow> vm_thread outcome" where
  "cons_target t =
     bindE (STACK_POP (define_locals 2 t)) (\<lambda>(t1, b).
     bindE (STACK_POP (set_local 1 b t1)) (\<lambda>(t2, a).
     bindE (cons heap_allocator (set_local 0 a t2) (get_local 0) (get_local 1)) (\<lambda>(t3, x).
     bindE (STACK_PUSH t3 x) (\<lambda>t4. Inr (clear_locals t4)))))"

text \<open>\<^verbatim>\<open>OP_CAR\<close> and \<^verbatim>\<open>OP_CDR\<close> with the field they select.\<close>

definition field_target :: "(pair_t \<Rightarrow> obj) \<Rightarrow> string \<Rightarrow> vm \<Rightarrow> vm outcome" where
  "field_target sel who v =
     bindE (STACK_POP (thread v)) (\<lambda>(t1, a).
     bindE (IS_PAIR (mem_of t1) a) (\<lambda>p.
       if \<not> p then raise (v\<lparr>thread := t1\<rparr>) (cstr (who @ '': expected pair''))
       else bindE (pair_at (mem_of t1) a) (\<lambda>q.
            bindE (STACK_PUSH t1 (sel q)) (\<lambda>t2. Inr (v\<lparr>thread := t2\<rparr>)))))"

definition type_test :: "memory \<Rightarrow> int \<Rightarrow> obj \<Rightarrow> bool outcome" where
  "type_test m n x =
     (if n = 0 then Inr (IS_FIXNUM x) else if n = 1 then Inr (IS_NULL x)
      else if n = 2 then IS_LIST m x else if n = 3 then IS_PAIR m x
      else if n = 4 then IS_FUNC m x else if n = 5 then Inr (IS_BOOL x)
      else if n = 6 then Inr (IS_CHAR x) else if n = 7 then IS_SYMBOL m x
      else if n = 8 then IS_STRUCT m x else if n = 9 then IS_STRING m x
      else if n = 10 then IS_BYTEVECTOR m x else if n = 11 then Inr (IS_EOF x)
      else Inl (Fatal ''invalid test''))"

definition type_test_target :: "int \<Rightarrow> vm_thread \<Rightarrow> vm_thread outcome" where
  "type_test_target op_arg t =
     bindE (STACK_POP t) (\<lambda>(t1, a).
     bindE (type_test (mem_of t1) op_arg a) (\<lambda>b. STACK_PUSH t1 (CIF b)))"

section \<open>Bindings and calls\<close>

definition cur_func :: "vm \<Rightarrow> func_t outcome" where
  "cur_func v = deref (interp_at (modules v) (th_func (thread v))) ''func''"

text \<open>\<^verbatim>\<open>func->module\<close>: modules are numbered from 1.\<close>

definition module_of :: "vm \<Rightarrow> func_t \<Rightarrow> module_t outcome" where
  "module_of v func =
     deref (if 0 < f_module func \<and> f_module func \<le> length (modules v)
            then Some (modules v ! (f_module func - 1)) else None) ''module''"

text \<open>\<^verbatim>\<open>MODULE_FUNC(func->module, op_arg)\<close>.\<close>

definition module_func :: "vm \<Rightarrow> func_t \<Rightarrow> int \<Rightarrow> addr outcome" where
  "module_func v func i =
     bindE (module_of v func) (\<lambda>md.
       if i < 0 \<or> nat i \<ge> length (mod_functions md) then Inl (Undefined ''functions'')
       else Inr (MODULE_FUNC md (nat i)))"

definition load_const :: "vm \<Rightarrow> func_t \<Rightarrow> int \<Rightarrow> obj outcome" where
  "load_const v func i =
     bindE (module_of v func) (\<lambda>md.
       if i < 0 \<or> nat i \<ge> length (mod_consts md) then Inl (Undefined ''consts'')
       else Inr (mod_consts md ! nat i))"

text \<open>The environment and the slot of a binding: through \<^verbatim>\<open>func->bindings\<close> and the bindmap.\<close>

definition bind_env :: "vm_thread \<Rightarrow> func_t \<Rightarrow> int \<Rightarrow> (env_t \<times> int) outcome" where
  "bind_env t func i =
     (if i < 0 \<or> nat i \<ge> length (f_bindings func) then Inl (Undefined ''bindings'')
      else let b = f_bindings func ! nat i in
        bindE (deref (th_bindmap t) ''bindmap'') (\<lambda>bm.
          if int bm + b_up b < 0 then Inl (Undefined ''bindmap'')
          else bindE (stack_at (nat (int bm + b_up b)) t) (\<lambda>x.
               bindE (env_at (mem_of t) (PTR x)) (\<lambda>e. Inr (e, b_idx b)))))"

definition load_bind :: "func_t \<Rightarrow> int \<Rightarrow> vm_thread \<Rightarrow> vm_thread outcome" where
  "load_bind func i t =
     bindE (bind_env t func i) (\<lambda>(e, j).
     bindE (read_slot (mem_of t) (objects e) j) (\<lambda>x. STACK_PUSH t x))"

definition set_bind :: "func_t \<Rightarrow> int \<Rightarrow> vm_thread \<Rightarrow> vm_thread outcome" where
  "set_bind func i t =
     bindE (bind_env t func i) (\<lambda>(e, j).
     bindE (STACK_POP t) (\<lambda>(t1, x). write_slots t1 (objects e) j [x]))"

text \<open>One opcode that stays in the function and raises nothing, on the thread.\<close>

definition simple_target :: "vm \<Rightarrow> func_t \<Rightarrow> opcode \<Rightarrow> int \<Rightarrow> vm_thread \<Rightarrow> vm_thread outcome" where
  "simple_target v func op op_arg t =
     (case op of
        LOAD_LOCAL \<Rightarrow> bindE (load_local t op_arg) (STACK_PUSH t)
      | LOAD_CONST \<Rightarrow> bindE (load_const v func op_arg) (STACK_PUSH t)
      | LOAD_FUNC \<Rightarrow> bindE (module_func v func op_arg) (\<lambda>p. STACK_PUSH t (MAKE_FUNC p))
      | LOAD_CLOSURE \<Rightarrow>
          bindE (module_func v func op_arg) (\<lambda>p.
          bindE (deref (interp_at (modules v) p) ''func'') (\<lambda>nf.
          bindE (closure_new t p (bmcount nf)) (\<lambda>(t1, x). STACK_PUSH t1 x)))
      | SET_LOCAL \<Rightarrow> bindE (STACK_POP t) (\<lambda>(t1, x). set_local_slot t1 op_arg x)
      | SET_BIND \<Rightarrow> set_bind func op_arg t
      | LOAD_BIND \<Rightarrow> load_bind func op_arg t
      | PUSH_BOOL \<Rightarrow> STACK_PUSH t (CIF (op_arg \<noteq> 0))
      | PUSH_NULL \<Rightarrow> STACK_PUSH t cnull
      | OP_NOT \<Rightarrow> not_target t
      | OP_BIT_NOT \<Rightarrow> bit_not_target t
      | OP_EQ_PTR \<Rightarrow> eq_ptr_target t
      | OP_EQ \<Rightarrow> compare_target op t
      | OP_GT \<Rightarrow> compare_target op t
      | OP_LT \<Rightarrow> compare_target op t
      | OP_CONS \<Rightarrow> cons_target t
      | OP_TYPE_TEST \<Rightarrow> type_test_target op_arg t
      | _ \<Rightarrow> arith_target op t)"

text \<open>A jump moves the program counter by opcodes of two words.\<close>

definition jump :: "vm \<Rightarrow> int \<Rightarrow> vm outcome" where
  "jump v op_arg =
     (let p = int (pc v) + op_arg * 2 in
      if p < 0 then Inl (Undefined ''opcode'') else Inr (v\<lparr>pc := nat p\<rparr>))"

text \<open>Fetch, advance, and execute one opcode.\<close>

definition exec_opcode :: "vm \<Rightarrow> func_t \<Rightarrow> opcode \<Rightarrow> int \<Rightarrow> vm outcome" where
  "exec_opcode v func op op_arg =
     (case op of
        JUMP_IF_FALSE \<Rightarrow>
          bindE (STACK_POP (thread v)) (\<lambda>(t, x).
            if IS_FALSE x then jump (v\<lparr>thread := t\<rparr>) op_arg else Inr (v\<lparr>thread := t\<rparr>))
      | JUMP_FORWARD \<Rightarrow> jump v op_arg
      | FUNC_CALL \<Rightarrow>
          bindE (STACK_POP (thread v)) (\<lambda>(t, fp). Inr (v\<lparr>thread := t, ctl := Dispatch fp op_arg\<rparr>))
      | OP_CAR \<Rightarrow> field_target car ''car'' v
      | OP_CDR \<Rightarrow> field_target cdr ''cdr'' v
      | _ \<Rightarrow> with_thread v (simple_target v func op op_arg))"

definition run_step :: "vm \<Rightarrow> vm outcome" where
  "run_step v =
     bindE (cur_func v) (\<lambda>func.
       if pc v + 1 < length (f_opcode func) then
         bindE (deref (decode_op (f_opcode func ! pc v)) ''opcode'') (\<lambda>op.
           exec_opcode (v\<lparr>pc := pc v + 2\<rparr>) func op (sint (f_opcode func ! (pc v + 1))))
       else Inl (Undefined ''opcode''))"

section \<open>Libraries\<close>

definition module_load :: "host \<Rightarrow> vm \<Rightarrow> cstring \<Rightarrow> (vm \<times> module_t) outcome" where
  "module_load hs v path =
     (case host_file hs path of
        None \<Rightarrow> Inl (Fatal ''Failed to read module'')
      | Some (base, f) \<Rightarrow>
          bindE (with_globals v (module_parse f base (Suc (length (modules v))))) (\<lambda>(v1, md).
            Inr (v1\<lparr>modules := modules v1 @ [md], maps := (base, f) # maps v1\<rparr>, md)))"

definition lib_path :: "host \<Rightarrow> cstring \<Rightarrow> cstring" where
  "lib_path hs nm = take 255 (cache_path hs @ cstr ''/'' @ nm @ cstr ''.scm.o'')"

text \<open>
  \<^verbatim>\<open>load_library\<close>: the table is keyed by the address of the symbol. Module \<open>i\<close> of the machine has
  number \<open>i\<close> in the table.
\<close>

definition find_module :: "host \<Rightarrow> vm \<Rightarrow> addr \<Rightarrow> (vm \<times> module_t) outcome" where
  "find_module hs v libname =
     (case hash_table_lookup (libraries v) libname of
        Some i \<Rightarrow>
          bindE (deref (if i < length (modules v) then Some (modules v ! i) else None) ''module'') (\<lambda>md.
            Inr (v, md))
      | None \<Rightarrow>
          bindE (read_cstring (rom_of (maps v)) (mem_of (thread v)) libname) (\<lambda>nm.
          bindE (module_load hs v (lib_path hs nm)) (\<lambda>(v1, md).
            Inr (v1\<lparr>libraries := ht_put (libraries v1) libname (length (modules v))\<rparr>, md))))"

definition load_library :: "host \<Rightarrow> vm \<Rightarrow> nat \<Rightarrow> (vm \<times> rc) outcome" where
  "load_library hs v argv =
     bindE (stack_at (argv + 1) (thread v)) (\<lambda>x.
     bindE (IS_SYMBOL (mem_of (thread v)) x) (\<lambda>sy.
       if \<not> sy then Inr (v, RC_ERROR)
       else bindE (find_module hs v (PTR x)) (\<lambda>(v1, md).
            bindE (stack_at argv (thread v1)) (\<lambda>k.
            bindE (STACK_PUSH (thread v1) k) (\<lambda>t.
              Inr (v1\<lparr>thread := t\<lparr>tramp_argc := 1,
                        tramp_func := MAKE_FUNC (MODULE_FUNC md (entry_point md))\<rparr>\<rparr>, RC_OK))))))"

section \<open>The call protocol\<close>

definition run_native :: "host \<Rightarrow> vm \<Rightarrow> native_fn \<Rightarrow> nat \<Rightarrow> int \<Rightarrow> (vm \<times> rc) outcome" where
  "run_native hs v fn argv argc =
     (case call_native (rom_of (maps v)) fn of
        Some f \<Rightarrow> bindE (f (thread v) argv argc) (\<lambda>(t, r). Inr (v\<lparr>thread := t\<rparr>, r))
      | None \<Rightarrow>
          if fn = N_load_library then load_library hs v argv
          else bindE (display (modules v) (rom_of (maps v)) (thread v) (argv + 1)) (\<lambda>((t, r), toks).
                 Inr (v\<lparr>thread := t, out := out v @ toks\<rparr>, r)))"

text \<open>The result of \<^verbatim>\<open>call\<close>: exit, raise, or dispatch on the trampoline or on the continuation.\<close>

definition native_step :: "host \<Rightarrow> vm \<Rightarrow> native_func_t \<Rightarrow> int \<Rightarrow> vm outcome" where
  "native_step hs v nf op_arg =
     bindE (args_base (thread v) op_arg) (\<lambda>argv.
     let v0 = v\<lparr>thread := (thread v)\<lparr>tramp_argc := 1, tramp_func := 0\<rparr>\<rparr> in
     bindE (run_native hs v0 (nt_fn nf) argv op_arg) (\<lambda>(v1, r).
       case r of
         RC_EXIT \<Rightarrow> Inr (v1\<lparr>ctl := Halted\<rparr>)
       | RC_ERROR \<Rightarrow> raise v1 (cstr (''call: '' @ nt_name nf @ '' failed''))
       | RC_OK \<Rightarrow>
           bindE (if tramp_func (thread v1) \<noteq> 0 then Inr (tramp_func (thread v1))
                  else stack_at argv (thread v1)) (\<lambda>fp.
             Inr (v1\<lparr>ctl := Dispatch fp (tramp_argc (thread v1))\<rparr>))))"

definition arity_ok :: "fn_ref \<Rightarrow> int \<Rightarrow> bool" where
  "arity_ok r op_arg =
     (if ref_swallow r then \<not> op_arg < int (ref_argc r) else op_arg = int (ref_argc r))"

definition arity_msg :: "fn_ref \<Rightarrow> int \<Rightarrow> cstring" where
  "arity_msg r op_arg =
     cstr ''call: try to pass '' @ show_int (op_arg - 1)
     @ cstr (if ref_swallow r then '' args when at least '' else '' args when '')
     @ show_int (int (ref_argc r) - 1) @ cstr '' requred''"

text \<open>The call of the function object at \<open>p\<close>.\<close>

definition call_ptr :: "host \<Rightarrow> vm \<Rightarrow> addr \<Rightarrow> int \<Rightarrow> vm outcome" where
  "call_ptr hs v p op_arg =
     bindE (deref (func_at (modules v) p) ''function'') (\<lambda>r.
       if \<not> arity_ok r op_arg then raise v (arity_msg r op_arg)
       else case r of
         Interp func \<Rightarrow>
           bindE (enter_interp (thread v) p func op_arg) (\<lambda>t. Inr (v\<lparr>thread := t, pc := 0, ctl := Run\<rparr>))
       | Builtin nf \<Rightarrow> native_step hs v nf op_arg)"

fun closure_of :: "payload \<Rightarrow> closure_t option" where
  "closure_of (P_Closure c) = Some c" | "closure_of _ = None"
fun cont_of :: "payload \<Rightarrow> continuation_t option" where
  "cont_of (P_Cont c) = Some c" | "cont_of _ = None"

text \<open>
  One turn of \<^verbatim>\<open>dispatch_func\<close>: a closure brings its environment, a continuation is unpacked and
  drops an argument, a plain function has no closure.
\<close>

definition dispatch_step :: "host \<Rightarrow> vm \<Rightarrow> obj \<Rightarrow> int \<Rightarrow> vm outcome" where
  "dispatch_step hs v fp op_arg =
     (let t = thread v; m = mem_of t in
      if GET_TAG fp = TAG_PTR then
        bindE (deref (HTYPE m (PTR fp)) ''header'') (\<lambda>b.
          if type_id (hdr b) = t_closure then
            bindE (deref (closure_of (payload b)) ''closure'') (\<lambda>c.
              call_ptr hs
                (v\<lparr>thread := t\<lparr>th_env := clo_env c, th_bindmap := None, th_closure := PTR fp\<rparr>\<rparr>)
                (clo_func c) op_arg)
          else if type_id (hdr b) = t_cont then
            bindE (deref (cont_of (payload b)) ''continuation'') (\<lambda>c.
              Inr (v\<lparr>ctl := Dispatch (cont_func c) (op_arg - 1)\<rparr>))
          else Inl (Fatal ''got pointer but it isn't a closure or a continuation''))
      else if GET_TAG fp = TAG_FUNC then
        call_ptr hs (v\<lparr>thread := t\<lparr>th_bindmap := None, th_closure := 0\<rparr>\<rparr>) (PTR fp) op_arg
      else raise v (cstr ''call: expected function or closure but got tag ''
                    @ show_int (sint (GET_TAG fp)) @ [10]))"

definition vm_step :: "host \<Rightarrow> vm \<Rightarrow> vm outcome" where
  "vm_step hs v =
     (case ctl v of
        Run \<Rightarrow> run_step v
      | Dispatch fp op_arg \<Rightarrow> dispatch_step hs v fp op_arg
      | Halted \<Rightarrow> Inr v)"

inductive vm_red :: "host \<Rightarrow> vm \<Rightarrow> vm \<Rightarrow> bool" for hs where
  red_step: "ctl v \<noteq> Halted \<Longrightarrow> vm_step hs v = Inr v' \<Longrightarrow> vm_red hs v v'"

inductive vm_reach :: "host \<Rightarrow> vm \<Rightarrow> vm \<Rightarrow> bool" for hs where
  reach_refl: "vm_reach hs v v"
| reach_step: "vm_reach hs v v' \<Longrightarrow> vm_red hs v' v'' \<Longrightarrow> vm_reach hs v v''"

inductive_cases vm_redE: "vm_red hs v v'"

section \<open>Start\<close>

text \<open>
  \<^verbatim>\<open>vm_init\<close>: the tables, the built-in functions and the global constant pool. The memory that
  \<^verbatim>\<open>malloc\<close> gives for the heap and, on demand, for the old space comes from \<open>mem_alloc\<close>; the
  operand stack is a list.
\<close>

definition init_globals :: "proc \<Rightarrow> globals" where
  "init_globals p =
     \<lparr>proc = const_allocator_init 0 p,
      sym_table = hash_table_init string_hash (Some string_equal),
      builtin = install_all 0 (map fst natives) (hash_table_init string_hash (Some string_equal))\<rparr>"

definition vm_init :: "addr \<Rightarrow> obj list \<Rightarrow> vm" where
  "vm_init brk0 stack =
     (let p0 = \<lparr>pmem = (\<lambda>_. None), brk = brk0, ca_mem = (\<lambda>_. [])\<rparr>;
          (p1, mem) = mem_alloc p0 (FRESH_SIZE + SURVIVED_SIZE * 2);
          (p2, old_mem) = mem_alloc p1 OLD_SIZE
      in \<lparr>thread = vm_thread_init (\<lambda>_. None) mem old_mem stack, globs = init_globals p2, modules = [],
          libraries = hash_table_init direct_hash (Some direct_equal), maps = [], out = [], pc = 0,
          ctl = Run\<rparr>)"

text \<open>
  The first time initialisation of \<^verbatim>\<open>eval_thread\<close>: an environment for the entry function, with the
  exit function as its continuation.
\<close>

definition eval_start :: "vm \<Rightarrow> module_t \<Rightarrow> vm outcome" where
  "eval_start v md =
     (let fp = MODULE_FUNC md (entry_point md) in
      bindE (deref (interp_at (modules v) fp) ''entry point'') (\<lambda>func.
      bindE (env_new ((thread v)\<lparr>th_func := fp\<rparr>) (\<lambda>_. 0) (env_sz func) (f_depth func)) (\<lambda>(t, p).
      bindE (write_slots (t\<lparr>th_env := p, th_objects := In_Env (p + sizeof_env), heap_env := 1\<rparr>)
               (p + sizeof_env) 0
               [case lookup_global (globs v) (cstr ''__exit'') of None \<Rightarrow> 0 | Some x \<Rightarrow> x]) (\<lambda>t1.
        Inr (v\<lparr>thread := t1, pc := 0, ctl := Run\<rparr>)))))"

text \<open>\<^verbatim>\<open>main\<close>: load the assembly and evaluate it.\<close>

definition vm_main :: "host \<Rightarrow> addr \<Rightarrow> obj list \<Rightarrow> cstring \<Rightarrow> vm outcome" where
  "vm_main hs brk0 stack path =
     bindE (module_load hs (vm_init brk0 stack) path) (\<lambda>(v, md). eval_start v md)"

end
