(* ===== verification/Assembler.thy ===== *)
theory Assembler
  imports Interp
begin

unbundle bit_operations_syntax

text \<open>
  The writer of compiled modules, \<^verbatim>\<open>src/scheme/compiler/fasl.scm\<close>: the encoding of constants
  (\<^verbatim>\<open>put-object\<close>), of functions (\<^verbatim>\<open>assemble-code\<close>) and of a whole module (\<^verbatim>\<open>assemble\<close>). It is the
  reference for the loader's round trip. Strings are the bytes of their UTF-8 encoding, native byte
  order is little-endian as in the loader.
\<close>

section \<open>Numbers and strings\<close>

primrec le_bytes :: "nat \<Rightarrow> nat \<Rightarrow> u8 list" where
  "le_bytes 0 v = []"
| "le_bytes (Suc n) v = of_nat v # le_bytes n (v div 256)"

definition number_u16 :: "nat \<Rightarrow> u8 list" where "number_u16 n = le_bytes 2 n"

definition number_s16 :: "int \<Rightarrow> u8 list" where "number_s16 i = le_bytes 2 (nat (i mod 2 ^ 16))"

definition number_s64bv :: "int \<Rightarrow> u8 list" where "number_s64bv i = le_bytes 8 (nat (i mod 2 ^ 64))"

definition string_cbv :: "cstring \<Rightarrow> u8 list" where
  "string_cbv s = of_nat (length s + 1) # s @ [0]"

section \<open>Constants\<close>

datatype sexp =
    S_Null
  | S_Bool bool
  | S_Char nat
  | S_Num int
  | S_Symbol cstring
  | S_String cstring
  | S_Static cstring
  | S_Pair sexp sexp
  | S_Vector "sexp list"

text \<open>\<^verbatim>\<open>pair-prepare\<close>: the last cdr, then the elements from the last to the first.\<close>

fun pair_prepare :: "sexp list \<Rightarrow> sexp \<Rightarrow> sexp \<Rightarrow> sexp list" where
  "pair_prepare res a (S_Pair b d) = pair_prepare (a # res) b d"
| "pair_prepare res a d = d # a # res"

lemma pair_prepare_size:
  "x \<in> set (pair_prepare res a d) \<Longrightarrow> size x \<le> size a + size d \<or> x \<in> set res"
  by (induction res a d rule: pair_prepare.induct) auto

lemma pair_prepare_smaller: "x \<in> set (pair_prepare [] a d) \<Longrightarrow> size x < size (S_Pair a d)"
  using pair_prepare_size [of x "[]" a d] by simp

text \<open>\<^verbatim>\<open>put-object\<close>.\<close>

function put_object :: "sexp \<Rightarrow> u8 list" where
  "put_object S_Null = [OT_NULL]"
| "put_object (S_Bool b) = [OT_BOOLEAN, if b then 1 else 0]"
| "put_object (S_Char c) = OT_CHARACTER # number_u16 c"
| "put_object (S_Num i) = OT_FIXNUM # number_s64bv i"
| "put_object (S_Symbol s) = OT_SYMBOL # string_cbv s"
| "put_object (S_String s) = OT_STRING # string_cbv s"
| "put_object (S_Static s) = OT_STATIC # string_cbv s"
| "put_object (S_Pair a d) =
     OT_PAIR_BEGIN # concat (map put_object (pair_prepare [] a d)) @ [OT_PAIR_END]"
| "put_object (S_Vector xs) =
     OT_STRUCT # string_cbv (cstr ''vector'') @ of_nat (length xs) # concat (map put_object xs)"
  by pat_completeness auto
termination
  by (relation "measure size")
    (auto dest!: pair_prepare_smaller simp: less_Suc_eq_le elem_le_sum_list size_list_estimation')

text \<open>\<^verbatim>\<open>write-ks\<close>: the count in one byte, then the constants.\<close>

definition write_consts :: "sexp list \<Rightarrow> u8 list" where
  "write_consts ks = of_nat (length ks) # concat (map put_object ks)"

section \<open>Functions\<close>

text \<open>\<^verbatim>\<open>i-func\<close>: the instructions with their arguments, and what the header records.\<close>

record i_func =
  if_code :: "(opcode \<times> int) list"
  if_size :: nat
  if_argc :: nat
  if_swallow :: bool
  if_heap :: bool
  if_depth :: nat
  if_bindings :: "(nat \<times> nat) list"
  if_bindmap :: "nat list"

definition opcode_number :: "opcode \<Rightarrow> nat" where
  "opcode_number op = length (takeWhile (\<lambda>x. x \<noteq> op) opcode_list)"

definition bool_int :: "bool \<Rightarrow> nat" where "bool_int b = (if b then 1 else 0)"

definition fun_hdr :: "i_func \<Rightarrow> u8 list" where
  "fun_hdr f = concat (map number_u16
     [if_size f, if_argc f, bool_int (if_swallow f), length (if_code f), bool_int (if_heap f),
      if_depth f, length (if_bindings f), length (if_bindmap f)])"

text \<open>\<^verbatim>\<open>assemble-code\<close>: the header, then the bindings, the bindmap and the code.\<close>

definition assemble_code :: "i_func \<Rightarrow> u8 list" where
  "assemble_code f =
     fun_hdr f
     @ concat (map (\<lambda>(up, idx). number_u16 up @ number_u16 idx) (if_bindings f))
     @ concat (map number_u16 (if_bindmap f))
     @ concat (map (\<lambda>(op, arg). number_s16 (int (opcode_number op)) @ number_s16 arg) (if_code f))"

text \<open>\<^verbatim>\<open>assemble\<close>: the module header, the constants, the functions.\<close>

definition assemble :: "sexp list \<Rightarrow> i_func list \<Rightarrow> nat \<Rightarrow> u8 list" where
  "assemble ks funcs entry =
     (let cs = write_consts ks
      in le_bytes 4 (length cs) @ number_u16 (length funcs) @ number_u16 entry @ cs
         @ concat (map assemble_code funcs))"

end
