(* ===== verification/Loader_Bytes.thy ===== *)
theory Loader_Bytes
  imports Assembler
begin

unbundle bit_operations_syntax

text \<open>
  Round trips between the assembler and the loader below the level of constants: numbers, functions
  and the code the interpreter fetches. \<open>at_code f c bs\<close> says that the reader \<open>c\<close> stands in front of the
  bytes \<open>bs\<close> of the file \<open>f\<close>.
\<close>

section \<open>Reading what was written\<close>

definition at_code :: "u8 list \<Rightarrow> code_t \<Rightarrow> u8 list \<Rightarrow> bool" where
  "at_code f c bs \<longleftrightarrow> (\<exists>rest. drop (code c) f = bs @ rest) \<and> length bs \<le> code_size c"

lemma length_le_bytes [simp]: "length (le_bytes n v) = n"
  by (induction n arbitrary: v) auto

lemma le_nat_simps [simp]: "le_nat [] = 0" "le_nat (b # bs) = unat b + 256 * le_nat bs"
  by (simp_all add: le_nat_def)

lemma le_nat_le_bytes: "le_nat (le_bytes n v) = v mod 256 ^ n"
proof (induction n arbitrary: v)
  case (Suc n)
  have "unat (of_nat v :: u8) = v mod 256" by (simp add: unsigned_of_nat take_bit_eq_mod)
  with Suc show ?case by (simp add: mod_mult2_eq)
qed simp

lemma at_code_append: "at_code f c (bs @ cs) \<longleftrightarrow> at_code f c bs \<and> at_code f (advance c (length bs)) cs"
proof
  assume "at_code f c (bs @ cs)"
  then obtain rest where r: "drop (code c) f = bs @ cs @ rest" "length bs + length cs \<le> code_size c"
    by (auto simp: at_code_def)
  then have "drop (code c + length bs) f = cs @ rest"
    by (metis add.commute append_eq_conv_conj drop_drop)
  with r show "at_code f c bs \<and> at_code f (advance c (length bs)) cs"
    by (auto simp: at_code_def advance_def)
next
  assume "at_code f c bs \<and> at_code f (advance c (length bs)) cs"
  then obtain r1 r2 where r: "drop (code c) f = bs @ r1" "drop (code c + length bs) f = cs @ r2"
      "length bs + length cs \<le> code_size c"
    by (auto simp: at_code_def advance_def)
  then have "r1 = cs @ r2" by (metis add.commute append_eq_conv_conj drop_drop)
  with r show "at_code f c (bs @ cs)" by (auto simp: at_code_def)
qed

lemma at_code_Cons: "at_code f c (b # bs) \<longleftrightarrow> at_code f c [b] \<and> at_code f (advance c 1) bs"
  using at_code_append [of f c "[b]" bs] by simp

lemma advance_simps [simp]:
  "advance c 0 = c" "advance (advance c n) k = advance c (n + k)" "code (advance c n) = code c + n"
  "code_size (advance c n) = code_size c - n"
  by (simp_all add: advance_def)

lemma file_bytes_at: "drop i f = bs @ rest \<Longrightarrow> file_bytes f i (length bs) = Inr bs"
proof (induction bs arbitrary: i)
  case (Cons b bs)
  from Cons.prems have "i < length f" "f ! i = b" "drop (Suc i) f = bs @ rest"
    by (metis append_Cons drop_all list.distinct(1) not_less, metis append_Cons nth_via_drop,
        metis append_Cons drop_Suc list.sel(3) tl_drop)
  with Cons.IH [OF this(3)] show ?case by (simp add: file_byte_def)
qed simp

lemma read8_at: "at_code f c [b] \<Longrightarrow> code_read8 f c = Inr (advance c 1, b)"
  using file_bytes_at [of "code c" f "[b]"]
  by (auto simp: code_read8_def CODE_ASSERT_def ASSERT_def at_code_def bindE_Inr_iff)

lemma peek8_at: "at_code f c [b] \<Longrightarrow> code_peek8 f c = Inr b"
  using file_bytes_at [of "code c" f "[b]"]
  by (auto simp: code_peek8_def CODE_ASSERT_def ASSERT_def at_code_def bindE_Inr_iff)

lemma read64_at:
  assumes "at_code f c (le_bytes 8 v)" shows "code_read64 f c = Inr (advance c 8, of_nat v)"
proof -
  from assms obtain rest where "drop (code c) f = le_bytes 8 v @ rest" "8 \<le> code_size c"
    by (auto simp: at_code_def)
  moreover have "(of_nat (v mod 256 ^ 8) :: u64) = of_nat v"
    by (rule word_of_nat_eq_iff [THEN iffD2]) (simp add: take_bit_eq_mod)
  ultimately show ?thesis
    using file_bytes_at [of "code c" f "le_bytes 8 v" rest]
    by (simp add: code_read64_def CODE_ASSERT_def ASSERT_def le_nat_le_bytes)
qed

lemma of_nat_mod_u16: "(of_nat (v mod 65536) :: u16) = of_nat v"
  by (rule word_of_nat_eq_iff [THEN iffD2]) (simp add: take_bit_eq_mod)

lemma read16_at:
  assumes "at_code f c (le_bytes 2 v)" shows "code_read16 f c = Inr (advance c 2, of_nat v)"
proof -
  from assms obtain rest where "drop (code c) f = le_bytes 2 v @ rest" "2 \<le> code_size c"
    by (auto simp: at_code_def)
  then show ?thesis
    using file_bytes_at [of "code c" f "le_bytes 2 v" rest]
    by (simp add: code_read16_def CODE_ASSERT_def ASSERT_def le_nat_le_bytes of_nat_mod_u16)
qed

lemma read_bytes_at: "n \<le> code_size c \<Longrightarrow> code_read_bytes c n = Inr (advance c n, code c)"
  by (simp add: code_read_bytes_def CODE_ASSERT_def ASSERT_def)

lemma unat_of_nat_u8: "n < 2 ^ 8 \<Longrightarrow> unat (of_nat n :: u8) = n"
  by (simp add: unsigned_of_nat take_bit_nat_eq_self_iff)

lemma read_string_at:
  assumes "at_code f c (string_cbv s)" and "length s < 255"
  shows "code_read_string f c = Inr (advance c (length (string_cbv s)), code c + 1)"
proof -
  from assms(1) have "at_code f c [of_nat (length s + 1)]" and rest: "at_code f (advance c 1) (s @ [0])"
    by (simp_all add: string_cbv_def at_code_Cons [of _ _ _ "s @ [0]"])
  then have "code_read8 f c = Inr (advance c 1, of_nat (length s + 1))" by (intro read8_at)
  moreover have "unat (of_nat (length s + 1) :: u8) = length s + 1"
    using assms(2) by (intro unat_of_nat_u8) simp
  ultimately show ?thesis
    using rest by (simp add: code_read_string_def CODE_ASSERT_def ASSERT_def at_code_def string_cbv_def
        del: of_nat_add)
qed

lemma cstring_of_append: "0 \<notin> set s \<Longrightarrow> cstring_of (s @ 0 # rest) = Inr s"
  by (induction s) auto

lemma file_cstring_at:
  assumes "at_code f c (string_cbv s)" and "0 \<notin> set s"
  shows "file_cstring f (code c + 1) = Inr s"
proof -
  from assms(1) have "at_code f (advance c 1) (s @ [0])"
    by (simp add: string_cbv_def at_code_Cons [of _ _ _ "s @ [0]"])
  then obtain rest where "drop (code c + 1) f = s @ 0 # rest" by (auto simp: at_code_def)
  then show ?thesis using assms(2) by (simp add: file_cstring_def cstring_of_append)
qed

section \<open>Functions\<close>

lemma file_u16s_at:
  "drop i f = concat (map (le_bytes 2) vs) @ rest \<Longrightarrow> file_u16s f i (length vs) = Inr (map of_nat vs)"
proof (induction vs arbitrary: i)
  case (Cons v vs)
  then have "drop i f = le_bytes 2 v @ (concat (map (le_bytes 2) vs) @ rest)" by simp
  note d = this
  have "drop 2 (drop i f) = concat (map (le_bytes 2) vs) @ rest" unfolding d by simp
  then have "drop (i + 2) f = concat (map (le_bytes 2) vs) @ rest" by (simp add: add.commute)
  moreover have "file_bytes f i 2 = Inr (le_bytes 2 v)" using file_bytes_at [OF d] by simp
  ultimately show ?case
    using Cons.IH [of "i + 2"] by (simp add: le_nat_le_bytes of_nat_mod_u16 del: le_bytes.simps)
qed simp

lemma length_le_bytes_concat [simp]: "length (concat (map (le_bytes n) vs)) = n * length vs"
  by (induction vs) auto

lemma at_code_u16s: "at_code f c (concat (map (le_bytes 2) vs)) \<Longrightarrow>
    code_read_bytes c (2 * length vs) = Inr (advance c (2 * length vs), code c)
    \<and> file_u16s f (code c) (length vs) = Inr (map of_nat vs)"
  by (auto simp: at_code_def intro: read_bytes_at file_u16s_at)

text \<open>What fits the fields of the file, and what the loader makes of it.\<close>

definition i_func_ok :: "i_func \<Rightarrow> bool" where
  "i_func_ok f \<longleftrightarrow> if_size f < 2 ^ 15 \<and> if_argc f < 2 ^ 16 \<and> if_depth f < 2 ^ 16
     \<and> length (if_code f) < 2 ^ 16 \<and> length (if_bindings f) < 2 ^ 16 \<and> length (if_bindmap f) < 2 ^ 16
     \<and> (\<forall>(up, idx) \<in> set (if_bindings f). up < 2 ^ 15 \<and> idx < 2 ^ 15)
     \<and> (\<forall>d \<in> set (if_bindmap f). d < 2 ^ 16)
     \<and> (\<forall>(op, arg) \<in> set (if_code f). - (2 ^ 15) \<le> arg \<and> arg < 2 ^ 15)
     \<and> (if_bindings f = [] \<longrightarrow> if_bindmap f = [])"

definition loaded_func :: "nat \<Rightarrow> i_func \<Rightarrow> func_t" where
  "loaded_func modno f =
     \<lparr>f_argc = if_argc f, f_swallow = if_swallow f, env_sz = int (if_size f),
      op_count = length (if_code f), f_heap_env = int (bool_int (if_heap f)), f_depth = int (if_depth f),
      bcount = length (if_bindings f), bmcount = length (if_bindmap f),
      f_opcode = concat (map (\<lambda>(op, arg). [of_nat (opcode_number op), of_int arg]) (if_code f)),
      f_bindings = map (\<lambda>(up, idx). \<lparr>b_up = int up, b_idx = int idx\<rparr>) (if_bindings f),
      f_bindmap = map int (if_bindmap f), f_module = modno\<rparr>"

lemma concat_pairs: "concat (map (\<lambda>(a, b). g a @ g b) xs) = concat (map g (concat (map (\<lambda>(a, b). [a, b]) xs)))"
  by (induction xs) auto

lemma concat_pairs2:
  "concat (map (\<lambda>(a, b). g (p a) @ g (q b)) xs) = concat (map g (concat (map (\<lambda>(a, b). [p a, q b]) xs)))"
  by (induction xs) auto

lemma length_concat_pairs [simp]: "length (concat (map (\<lambda>(a, b). [p a, q b]) xs)) = 2 * length xs"
  by (induction xs) auto

lemma sint_of_nat_u16: "n < 2 ^ 15 \<Longrightarrow> sint (of_nat n :: u16) = int n"
  by (simp add: signed_of_nat signed_take_bit_int_eq_self)

lemma unat_of_nat_u16: "n < 2 ^ 16 \<Longrightarrow> unat (of_nat n :: u16) = n"
  by (simp add: unsigned_of_nat take_bit_nat_eq_self_iff)

lemma uint_of_nat_u16: "n < 2 ^ 16 \<Longrightarrow> uint (of_nat n :: u16) = int n"
  by (simp add: unsigned_of_nat take_bit_nat_eq_self_iff flip: of_nat_take_bit)

lemma pair_up_words:
  "\<forall>(up, idx) \<in> set bs. up < 2 ^ 15 \<and> idx < 2 ^ 15 \<Longrightarrow>
   pair_up (map of_nat (concat (map (\<lambda>(a, b). [a, b]) bs))) = map (\<lambda>(up, idx). \<lparr>b_up = int up, b_idx = int idx\<rparr>) bs"
  by (induction bs) (auto simp: sint_of_nat_u16)

lemma of_nat_mod_int_u16: "(of_nat (nat (i mod 65536)) :: u16) = of_int i"
proof -
  have "(of_int (i mod 65536) :: u16) = of_int i"
    by (rule word_of_int_eq_iff [THEN iffD2]) (simp add: take_bit_eq_mod)
  then show ?thesis by (simp add: of_nat_nat)
qed

lemma opcode_number_less: "opcode_number op < length opcode_list"
  by (cases op) (simp_all add: opcode_number_def opcode_list_def)

lemma decode_opcode_number: "decode_op (of_nat (opcode_number op)) = Some op"
  by (cases op) (simp_all add: decode_op_def opcode_number_def opcode_list_def)

text \<open>The code words of a function, and the instruction the interpreter fetches.\<close>

definition code_vals :: "(opcode \<times> int) list \<Rightarrow> nat list" where
  "code_vals cs = concat (map (\<lambda>(op, arg). [nat (int (opcode_number op) mod 2 ^ 16), nat (arg mod 2 ^ 16)]) cs)"

lemma code_vals_bytes:
  "concat (map (\<lambda>(op, arg). number_s16 (int (opcode_number op)) @ number_s16 arg) cs) =
   concat (map (le_bytes 2) (code_vals cs))"
  by (induction cs) (auto simp: number_s16_def code_vals_def)

lemma code_vals_words:
  "map of_nat (code_vals cs) = concat (map (\<lambda>(op, arg). [of_nat (opcode_number op), of_int arg :: u16]) cs)"
  by (induction cs) (auto simp: code_vals_def of_nat_mod_int_u16)

lemma length_code_vals [simp]: "length (code_vals cs) = 2 * length cs"
  by (induction cs) (auto simp: code_vals_def)

lemma parse_bindings_at:
  assumes ok: "i_func_ok fn" and at: "at_code f c (concat (map (\<lambda>(up, idx). number_u16 up @ number_u16 idx) (if_bindings fn))
      @ concat (map number_u16 (if_bindmap fn)))"
  shows "parse_bindings f c (length (if_bindings fn)) (length (if_bindmap fn)) =
    Inr (advance c (4 * length (if_bindings fn) + 2 * length (if_bindmap fn)),
         f_bindings (loaded_func modno fn), f_bindmap (loaded_func modno fn))"
proof (cases "if_bindings fn = []")
  case True
  with ok show ?thesis by (simp add: parse_bindings_def i_func_ok_def loaded_func_def)
next
  case False
  let ?bs = "concat (map (\<lambda>(a, b). [a, b]) (if_bindings fn))"
  have num: "number_u16 = le_bytes 2" by (simp add: fun_eq_iff number_u16_def)
  from at have a: "at_code f c (concat (map (le_bytes 2) ?bs))"
      "at_code f (advance c (4 * length (if_bindings fn))) (concat (map (le_bytes 2) (if_bindmap fn)))"
    unfolding num concat_pairs at_code_append by simp_all
  note u1 = at_code_u16s [OF a(1)] and u2 = at_code_u16s [OF a(2)]
  have "map (\<lambda>d. uint (of_nat d :: u16)) (if_bindmap fn) = map int (if_bindmap fn)"
    using ok by (simp add: i_func_ok_def uint_of_nat_u16)
  moreover have "pair_up (map of_nat ?bs) = map (\<lambda>(up, idx). \<lparr>b_up = int up, b_idx = int idx\<rparr>) (if_bindings fn)"
    using ok by (intro pair_up_words) (auto simp: i_func_ok_def)
  ultimately show ?thesis
    using False u1 u2
    by (simp add: parse_bindings_def loaded_func_def mult.commute [of 4] mult.commute [of 2] o_def)
qed

lemma parse_func_at:
  assumes ok: "i_func_ok fn" and at: "at_code f c (assemble_code fn)"
  shows "parse_func f modno c = Inr (advance c (length (assemble_code fn)), loaded_func modno fn)"
proof -
  let ?hs = "[if_size fn, if_argc fn, bool_int (if_swallow fn), length (if_code fn), bool_int (if_heap fn),
      if_depth fn, length (if_bindings fn), length (if_bindmap fn)]"
  let ?nb = "4 * length (if_bindings fn) + 2 * length (if_bindmap fn)"
  have num: "number_u16 = le_bytes 2" by (simp add: fun_eq_iff number_u16_def)
  have hb: "fun_hdr fn = concat (map (le_bytes 2) ?hs)" by (simp only: fun_hdr_def num)
  have lhb: "length (fun_hdr fn) = 16" unfolding hb length_le_bytes_concat by simp
  define B where "B = concat (map (\<lambda>(up, idx). number_u16 up @ number_u16 idx) (if_bindings fn))
      @ concat (map number_u16 (if_bindmap fn))"
  have lB: "length B = ?nb"
    unfolding B_def num concat_pairs by simp
  have asm: "assemble_code fn = fun_hdr fn @ B @ concat (map (le_bytes 2) (code_vals (if_code fn)))"
    by (simp add: assemble_code_def code_vals_bytes B_def)
  from at have a: "at_code f c (fun_hdr fn)" "at_code f (advance c 16) B"
      "at_code f (advance c (16 + ?nb)) (concat (map (le_bytes 2) (code_vals (if_code fn))))"
    unfolding asm by (simp_all add: at_code_append lhb lB)
  note u = at_code_u16s [OF a(1) [unfolded hb]] and uc = at_code_u16s [OF a(3)]
  have l8: "length ?hs = 8" "2 * length ?hs = 16" by simp_all
  from u have h8: "code_read_bytes c 16 = Inr (advance c 16, code c)"
      "file_u16s f (code c) 8 = Inr (map of_nat ?hs)"
    unfolding l8 by simp_all
  have len: "length (assemble_code fn) = 16 + ?nb + 4 * length (if_code fn)"
    by (simp add: asm lhb lB)
  have sw: "bit (of_nat (bool_int b) :: u16) 0 = b" "sint (of_nat (bool_int b) :: u16) = int (bool_int b)" for b
    by (simp_all add: bool_int_def bit_simps)
  show ?thesis
    unfolding parse_func_def FUN_HDR_SIZE_def
    using h8 uc ok parse_bindings_at [OF ok a(2) [unfolded B_def], of modno]
    by (simp add: i_func_ok_def unat_of_nat_u16 uint_of_nat_u16 sint_of_nat_u16 sw len code_vals_words
        loaded_func_def mult.commute [of _ 4] mult.commute [of _ 2])
qed

lemma parse_funcs_at:
  assumes "\<forall>fn \<in> set fns. i_func_ok fn" and "at_code f c (concat (map assemble_code fns))"
  shows "parse_funcs (length fns) f modno c =
    Inr (advance c (length (concat (map assemble_code fns))), map (loaded_func modno) fns)"
  using assms
proof (induction fns arbitrary: c)
  case (Cons fn fns)
  then have a: "at_code f c (assemble_code fn)"
      "at_code f (advance c (length (assemble_code fn))) (concat (map assemble_code fns))"
    and ok: "i_func_ok fn" "\<forall>fn \<in> set fns. i_func_ok fn"
    by (simp_all add: at_code_append)
  show ?case
    using parse_func_at [OF ok(1) a(1), of modno] Cons.IH [OF ok(2) a(2)] by simp
qed simp

end
