(* ===== verification/Const_Area.thy ===== *)
theory Const_Area
  imports Module_Loader
begin

unbundle bit_operations_syntax

text \<open>
  The constant area: the constant allocator only ever adds blocks, so whatever was read from memory
  is read again, and the symbol table interns names. \<open>proc_ok\<close> says that every block lies below the
  address that \<^verbatim>\<open>malloc\<close> hands out next.
\<close>

section \<open>Memory only grows\<close>

definition proc_ok :: "proc \<Rightarrow> bool" where
  "proc_ok s \<longleftrightarrow> (\<forall>x b. pmem s x = Some b \<longrightarrow> x + blen b \<le> brk s)"

definition mem_le :: "memory \<Rightarrow> memory \<Rightarrow> bool" where
  "mem_le m m' \<longleftrightarrow> (\<forall>x b. m x = Some b \<longrightarrow> m' x = Some b)"

lemma mem_le_refl [simp]: "mem_le m m" by (simp add: mem_le_def)
lemma mem_le_trans: "mem_le m m' \<Longrightarrow> mem_le m' m'' \<Longrightarrow> mem_le m m''" by (simp add: mem_le_def)
lemma mem_leD: "mem_le m m' \<Longrightarrow> m x = Some b \<Longrightarrow> m' x = Some b" by (simp add: mem_le_def)

lemma HTYPE_mono: "mem_le m m' \<Longrightarrow> HTYPE m p = Some b \<Longrightarrow> HTYPE m' p = Some b"
  by (auto simp: HTYPE_def mem_le_def split: if_splits)

lemma IS_TYPE_mono: "mem_le m m' \<Longrightarrow> IS_TYPE m x tid = Inr r \<Longrightarrow> IS_TYPE m' x tid = Inr r"
  by (auto simp: IS_TYPE_def bindE_Inr_iff dest: HTYPE_mono split: if_splits)

lemma pair_at_mono: "mem_le m m' \<Longrightarrow> pair_at m x = Inr q \<Longrightarrow> pair_at m' x = Inr q"
  by (auto simp: pair_at_def bindE_Inr_iff dest: HTYPE_mono)

lemma cons_flags_mono:
  assumes "mem_le m m'" and "cons_flags m i d = Inr r" shows "cons_flags m' i d = Inr r"
proof (cases "IS_NULL d")
  case True
  then show ?thesis using assms(2) by (simp add: cons_flags_def)
next
  case False
  then obtain p where p: "IS_PAIR m d = Inr p"
    using assms(2) by (auto simp: cons_flags_def bindE_Inr_iff)
  then have p': "IS_PAIR m' d = Inr p" using IS_TYPE_mono [OF assms(1)] by (simp add: IS_PAIR_def)
  show ?thesis
  proof (cases p)
    case True
    then obtain q where "pair_at m d = Inr q" using assms(2) False p by (auto simp: cons_flags_def bindE_Inr_iff)
    with pair_at_mono [OF assms(1) this] show ?thesis
      using assms(2) p p' False True by (simp add: cons_flags_def)
  qed (use assms(2) p p' False in \<open>simp add: cons_flags_def\<close>)
qed

section \<open>Allocation\<close>

definition ptr_ok :: "addr \<Rightarrow> bool" where "ptr_ok p \<longleftrightarrow> 8 \<le> p \<and> 8 dvd p \<and> p < 2 ^ 64"

lemma ptr_ok_PTR: "ptr_ok p \<Longrightarrow> PTR (MAKE_CONST_PTR p) = p"
  by (simp add: ptr_ok_def)

lemma IS_CONST_PTR_MAKE [simp]: "IS_CONST_PTR (MAKE_CONST_PTR p)" "\<not> IS_HEAP_PTR (MAKE_CONST_PTR p)"
  by (simp_all add: is_tag_defs tag_defs)

definition const_block :: "u16 \<Rightarrow> nat \<Rightarrow> block" where
  "const_block tid n = \<lparr>hdr = \<lparr>type_id = tid, forward = False, generation = 0, remembered = False,
     hsize = n\<rparr>, payload = P_Uninit\<rparr>"

lemma const_alloc:
  assumes ok: "proc_ok s" and n: "n < 2 ^ 32"
  obtains p s' where "const_allocator_alloc k s (of_nat n) tid = Inr (s', p)" "proc_ok s'"
    "pmem s' = (pmem s)(p - 8 \<mapsto> const_block tid n)" "pmem s (p - 8) = None"
    "8 \<le> p" "8 dvd p" "p + n = brk s'" "brk s < p" "brk s' \<le> brk s + n + 31"
proof -
  let ?q = "(brk s + 15) div 16 * 16" and ?p = "(brk s + 15) div 16 * 16 + 16"
  have sz: "unat (16 + of_nat n :: u64) = 16 + n" and hs: "unat (ucast (of_nat n :: u64) :: u32) = n"
    using n by (simp_all add: unat_word_ariths unsigned_of_nat unsigned_ucast_eq take_bit_nat_eq_self)
  have q: "brk s \<le> ?q" "?q \<le> brk s + 15" by linarith+
  have dv: "8 dvd ?p"
  proof -
    have "(8 :: nat) dvd 16" by simp
    then have "8 dvd (brk s + 15) div 16 * 16" by (rule dvd_mult)
    then show ?thesis by (rule dvd_add) simp
  qed
  let ?b = "const_block tid n"
  have bl: "blen ?b = n + 8" by (simp add: blen_def const_block_def BHDR_SIZE_def)
  have free: "\<not> overlap (?p - 8) (blen ?b) x (blen c)" if "pmem s x = Some c" for x c
  proof -
    have "x + blen c \<le> brk s" using ok that by (simp add: proc_ok_def)
    then have "x + blen c \<le> ?p - 8" using q by linarith
    then show ?thesis unfolding overlap_def by linarith
  qed
  have none: "pmem s (?p - 8) = None"
  proof (rule ccontr)
    assume "pmem s (?p - 8) \<noteq> None"
    then obtain c where "pmem s (?p - 8) = Some c" by blast
    then have "?p - 8 + blen c \<le> brk s" using ok by (simp add: proc_ok_def)
    with q show False by linarith
  qed
  define s' where "s' = s\<lparr>brk := ?p + n, pmem := (pmem s)(?p - 8 \<mapsto> ?b), ca_mem := (ca_mem s)(k := ?q # ca_mem s k)\<rparr>"
  have pb: "put_block (pmem s) (?p - 8) ?b = (pmem s)(?p - 8 \<mapsto> ?b)"
    using free by (rule put_block_free)
  have al: "const_allocator_alloc k s (of_nat n) tid = Inr (s', ?p)"
  proof -
    have "?q + (16 + n) = ?p + n" by simp
    moreover have "?q + 16 - BHDR_SIZE = ?p - 8" by (simp add: BHDR_SIZE_def)
    ultimately show ?thesis
      using pb sz hs
      by (simp only: const_allocator_alloc_def mem_alloc_def Let_def sizeof_linked_mem_def s'_def const_block_def
          of_nat_numeral prod.case) simp
  qed
  moreover have "proc_ok s'"
    unfolding proc_ok_def
  proof (intro allI impI)
    fix x b
    assume "pmem s' x = Some b"
    then show "x + blen b \<le> brk s'"
      using ok bl q by (auto simp: s'_def proc_ok_def split: if_splits) (meson le_add1 le_trans order_trans)+
  qed
  moreover have "pmem s' = (pmem s)(?p - 8 \<mapsto> ?b)" "brk s' = ?p + n" by (simp_all add: s'_def)
  ultimately show ?thesis
    using that [of s' ?p] none dv q by simp
qed

section \<open>Globals\<close>

definition symbol_at :: "memory \<Rightarrow> addr \<Rightarrow> cstring \<Rightarrow> bool" where
  "symbol_at m a s \<longleftrightarrow> ptr_ok a \<and>
     (\<exists>b. m (a - 8) = Some b \<and> type_id (hdr b) = t_symbol \<and> payload b = P_Symbol s)"

text \<open>
  The symbol table maps a name to the symbol with that name, and the builtins are functions.
\<close>

definition glob_ok :: "globals \<Rightarrow> bool" where
  "glob_ok g \<longleftrightarrow> proc_ok (proc g) \<and> str_table (sym_table g)
     \<and> (\<forall>s a. hash_table_lookup (sym_table g) s = Some a \<longrightarrow> symbol_at (pmem (proc g)) a s)
     \<and> (\<forall>s x. lookup_global g s = Some x \<longrightarrow> GET_TAG x = TAG_FUNC)"

text \<open>\<open>grows A g g'\<close>: outside the blocks of \<open>A\<close>, which are not symbols, memory and symbols only grow.\<close>

definition grows :: "addr set \<Rightarrow> globals \<Rightarrow> globals \<Rightarrow> bool" where
  "grows A g g' \<longleftrightarrow> glob_ok g' \<and> builtin g' = builtin g \<and> brk (proc g) \<le> brk (proc g')
     \<and> (\<forall>x b. x \<notin> A \<longrightarrow> pmem (proc g) x = Some b \<longrightarrow> pmem (proc g') x = Some b)
     \<and> (\<forall>s a. hash_table_lookup (sym_table g) s = Some a \<longrightarrow> hash_table_lookup (sym_table g') s = Some a)"

lemma grows_refl: "glob_ok g \<Longrightarrow> grows A g g" by (simp add: grows_def)

lemma grows_trans: "grows A g g' \<Longrightarrow> grows A g' g'' \<Longrightarrow> grows A g g''"
  by (auto simp: grows_def)

lemma grows_mem: "grows {} g g' \<Longrightarrow> mem_le (pmem (proc g)) (pmem (proc g'))"
  by (auto simp: grows_def mem_le_def)

text \<open>Adding one block, and filling it.\<close>

lemma glob_ok_add:
  assumes g: "glob_ok g" and s: "proc_ok s" "pmem s = (pmem (proc g))(a \<mapsto> b)" "pmem (proc g) a = None"
    "brk (proc g) \<le> brk s"
  shows "grows {} g (g\<lparr>proc := s\<rparr>)"
proof -
  have "symbol_at (pmem s) p nm" if "symbol_at (pmem (proc g)) p nm" for p nm
    using that s(3) by (auto simp: symbol_at_def s(2))
  then have "glob_ok (g\<lparr>proc := s\<rparr>)"
    using g s(1) by (auto simp: glob_ok_def lookup_global_def)
  then show ?thesis using s by (auto simp: grows_def)
qed

lemma proc_ok_fill:
  assumes "proc_ok s" "pmem s a = Some b" shows "proc_ok (s\<lparr>pmem := (pmem s)(a \<mapsto> b\<lparr>payload := pl\<rparr>)\<rparr>)"
  using assms by (auto simp: proc_ok_def split: if_splits)

text \<open>
  A constructor on the constant allocator: an allocation, then a payload for the new block.
\<close>

lemma const_build:
  assumes g: "glob_ok g" and n: "n < 2 ^ 32" and lim: "brk (proc g) + n + 31 < 2 ^ 64"
  obtains p s where "const_allocator_alloc k (proc g) (of_nat n) tid = Inr (s, p)"
    "pmem (proc g) (p - 8) = None" "HTYPE (pmem s) p = Some (const_block tid n)" "ptr_ok p"
    "mem_le (pmem (proc g)) (pmem s)"
    "\<And>pl. grows {} g (g\<lparr>proc := s\<lparr>pmem := (pmem s)(p - 8 \<mapsto> (const_block tid n)\<lparr>payload := pl\<rparr>)\<rparr>\<rparr>)"
    "brk s \<le> brk (proc g) + n + 31"
proof -
  from g have ok: "proc_ok (proc g)" by (simp add: glob_ok_def)
  from const_alloc [OF ok n, of k tid] obtain p s where a:
    "const_allocator_alloc k (proc g) (of_nat n) tid = Inr (s, p)" "proc_ok s"
    "pmem s = (pmem (proc g))(p - 8 \<mapsto> const_block tid n)" "pmem (proc g) (p - 8) = None"
    "8 \<le> p" "8 dvd p" "p + n = brk s" "brk (proc g) < p" "brk s \<le> brk (proc g) + n + 31"
    by metis
  have gr: "grows {} g (g\<lparr>proc := s\<lparr>pmem := (pmem s)(p - 8 \<mapsto> (const_block tid n)\<lparr>payload := pl\<rparr>)\<rparr>\<rparr>)" for pl
  proof (rule glob_ok_add [OF g _ _ a(4)])
    show "proc_ok (s\<lparr>pmem := (pmem s)(p - 8 \<mapsto> (const_block tid n)\<lparr>payload := pl\<rparr>)\<rparr>)"
      by (rule proc_ok_fill [OF a(2)]) (simp add: a(3))
    show "pmem (s\<lparr>pmem := (pmem s)(p - 8 \<mapsto> (const_block tid n)\<lparr>payload := pl\<rparr>)\<rparr>) =
        (pmem (proc g))(p - 8 \<mapsto> (const_block tid n)\<lparr>payload := pl\<rparr>)"
      by (simp add: a(3))
  qed (use a(7,8) in simp)
  have "HTYPE (pmem s) p = Some (const_block tid n)"
    using a(5) by (simp add: HTYPE_def BHDR_SIZE_def a(3))
  moreover have "mem_le (pmem (proc g)) (pmem s)" using a(4) by (auto simp: mem_le_def a(3))
  moreover have "ptr_ok p" using a lim by (simp add: ptr_ok_def)
  ultimately show ?thesis using that a gr by blast
qed

lemma const_block_simps [simp]:
  "payload (const_block tid n) = P_Uninit" "type_id (hdr (const_block tid n)) = tid"
  "hsize (hdr (const_block tid n)) = n"
  by (simp_all add: const_block_def)

text \<open>What the constructors of constants return.\<close>

definition const_object :: "globals \<Rightarrow> globals \<Rightarrow> addr \<Rightarrow> u16 \<Rightarrow> payload \<Rightarrow> nat \<Rightarrow> bool" where
  "const_object g g' p tid pl k \<longleftrightarrow> grows {} g g' \<and> pmem (proc g) (p - 8) = None \<and> ptr_ok p
     \<and> (\<exists>b. pmem (proc g') (p - 8) = Some b \<and> type_id (hdr b) = tid \<and> payload b = pl)
     \<and> brk (proc g') \<le> brk (proc g) + k"

lemma const_cons_ok:
  assumes g: "glob_ok g" and lim: "brk (proc g) + 55 < 2 ^ 64"
    and fl: "cons_flags (pmem (proc g)) (None, None) d = Inr (l, n)"
  obtains g' p where "const_cons k g a d = Inr (g', MAKE_CONST_PTR p)"
    "const_object g g' p t_pair (P_Pair \<lparr>car = a, cdr = d, pair_list = l, pair_length = n\<rparr>) 55"
    "sym_table g' = sym_table g"
proof -
  have 24: "(24 :: nat) < 2 ^ 32" by simp
  have lim': "brk (proc g) + 24 + 31 < 2 ^ 64" using lim by simp
  from const_build [OF g 24 lim', of k t_pair] obtain p s where b:
    "const_allocator_alloc k (proc g) (of_nat 24) t_pair = Inr (s, p)"
    "pmem (proc g) (p - 8) = None" "HTYPE (pmem s) p = Some (const_block t_pair 24)" "ptr_ok p"
    "mem_le (pmem (proc g)) (pmem s)"
    "\<And>pl. grows {} g (g\<lparr>proc := s\<lparr>pmem := (pmem s)(p - 8 \<mapsto> (const_block t_pair 24)\<lparr>payload := pl\<rparr>)\<rparr>\<rparr>)"
    "brk s \<le> brk (proc g) + 24 + 31"
    by metis
  let ?pl = "P_Pair \<lparr>car = a, cdr = d, pair_list = l, pair_length = n\<rparr>"
  define g' where "g' = g\<lparr>proc := s\<lparr>pmem := (pmem s)(p - 8 \<mapsto> (const_block t_pair 24)\<lparr>payload := ?pl\<rparr>)\<rparr>\<rparr>"
  have "const_cons k g a d = Inr (g', MAKE_CONST_PTR p)"
    using b(1,3) cons_flags_mono [OF b(5) fl]
    by (simp add: const_cons_def cons_def allocator_alloc_def const_allocator_def sizeof_pair_def g'_def
        BHDR_SIZE_def MAKE_CONST_PTR_def)
  moreover have "const_object g g' p t_pair ?pl 55"
    using b(2,4,6,7) by (simp add: const_object_def g'_def)
  ultimately show ?thesis using that by (simp add: g'_def)
qed

lemma const_string_ok:
  assumes g: "glob_ok g" and lim: "brk (proc g) + 47 < 2 ^ 64"
  obtains g' p where "const_string k g a s = Inr (g', MAKE_CONST_PTR p)"
    "const_object g g' p t_string
       (P_String \<lparr>str = a, str_size = int (length s) + 1, allocated = False, chars = []\<rparr>) 47"
    "sym_table g' = sym_table g"
proof -
  have 16: "(16 :: nat) < 2 ^ 32" by simp
  have lim': "brk (proc g) + 16 + 31 < 2 ^ 64" using lim by simp
  from const_build [OF g 16 lim', of k t_string] obtain p q where b:
    "const_allocator_alloc k (proc g) (of_nat 16) t_string = Inr (q, p)"
    "pmem (proc g) (p - 8) = None" "HTYPE (pmem q) p = Some (const_block t_string 16)" "ptr_ok p"
    "\<And>pl. grows {} g (g\<lparr>proc := q\<lparr>pmem := (pmem q)(p - 8 \<mapsto> (const_block t_string 16)\<lparr>payload := pl\<rparr>)\<rparr>\<rparr>)"
    "brk q \<le> brk (proc g) + 16 + 31"
    by metis
  let ?pl = "P_String \<lparr>str = a, str_size = int (length s) + 1, allocated = False, chars = []\<rparr>"
  define g' where "g' = g\<lparr>proc := q\<lparr>pmem := (pmem q)(p - 8 \<mapsto> (const_block t_string 16)\<lparr>payload := ?pl\<rparr>)\<rparr>\<rparr>"
  have "const_string k g a s = Inr (g', MAKE_CONST_PTR p)"
    using b(1,3)
    by (simp add: const_string_def string_new_def allocator_alloc_def const_allocator_def sizeof_string_def g'_def
        BHDR_SIZE_def MAKE_CONST_PTR_def Let_def add.commute)
  moreover have "const_object g g' p t_string ?pl 47"
    using b(2,4,5,6) by (simp add: const_object_def g'_def)
  ultimately show ?thesis using that by (simp add: g'_def)
qed

lemma const_struct_ok:
  assumes g: "glob_ok g" and n: "n < 256" and lim: "brk (proc g) + (55 + 8 * n) < 2 ^ 64"
  obtains g' p where "const_struct k g nm (of_nat n) = Inr (g', p)"
    "const_object g g' p t_struct (P_Struct \<lparr>type_name = nm, struct_size = int n,
       struct_fields = p + 24, field_slots = replicate n 0\<rparr>) (55 + 8 * n)"
    "sym_table g' = sym_table g"
proof -
  have sz: "24 + 8 * n < 2 ^ 32" using n by simp
  have lim': "brk (proc g) + (24 + 8 * n) + 31 < 2 ^ 64" using lim by simp
  from const_build [OF g sz lim', of k t_struct] obtain p q where b:
    "const_allocator_alloc k (proc g) (of_nat (24 + 8 * n)) t_struct = Inr (q, p)"
    "pmem (proc g) (p - 8) = None" "HTYPE (pmem q) p = Some (const_block t_struct (24 + 8 * n))" "ptr_ok p"
    "\<And>pl. grows {} g (g\<lparr>proc := q\<lparr>pmem := (pmem q)(p - 8 \<mapsto> (const_block t_struct (24 + 8 * n))\<lparr>payload := pl\<rparr>)\<rparr>\<rparr>)"
    "brk q \<le> brk (proc g) + (24 + 8 * n) + 31"
    by metis
  have si: "sint (of_nat n :: 32 word) = int n"
    using n by (simp add: signed_of_nat signed_take_bit_int_eq_self)
  then have w: "of_nat sizeof_struct + of_nat sizeof_obj * scast (of_nat n :: 32 word) = (of_nat (24 + 8 * n) :: u64)"
    by (simp add: sizeof_struct_def sizeof_obj_def scast_eq)
  have rm: "room (const_block t_struct (24 + 8 * n)) sizeof_struct sizeof_obj n = n"
    by (simp add: room_def sizeof_struct_def sizeof_obj_def)
  let ?pl = "P_Struct \<lparr>type_name = nm, struct_size = int n, struct_fields = p + 24, field_slots = replicate n 0\<rparr>"
  define g' where "g' = g\<lparr>proc := q\<lparr>pmem := (pmem q)(p - 8 \<mapsto> (const_block t_struct (24 + 8 * n))\<lparr>payload := ?pl\<rparr>)\<rparr>\<rparr>"
  have "const_struct k g nm (of_nat n) = Inr (g', p)"
    unfolding const_struct_def struct_new_def allocator_alloc_def w
    using b(1,3) rm
    by (simp add: const_allocator_def g'_def BHDR_SIZE_def si sizeof_struct_def)
  moreover have "const_object g g' p t_struct ?pl (55 + 8 * n)"
    using b(2,4,5,6) by (simp add: const_object_def g'_def)
  ultimately show ?thesis using that by (simp add: g'_def)
qed

section \<open>Symbols\<close>

lemma make_symbol_ok:
  assumes g: "glob_ok g" and len: "length s < 256" and lim: "brk (proc g) + (length s + 32) < 2 ^ 64"
  obtains g' a where "make_symbol g s = Inr (g', MAKE_CONST_PTR a)" "grows {} g g'"
    "hash_table_lookup (sym_table g') s = Some a" "symbol_at (pmem (proc g')) a s"
    "brk (proc g') \<le> brk (proc g) + (length s + 32)"
proof (cases "hash_table_lookup (sym_table g) s")
  case (Some a)
  with g have "symbol_at (pmem (proc g)) a s" by (simp add: glob_ok_def)
  with Some show ?thesis using that [of g a] grows_refl [OF g] by (simp add: make_symbol_def)
next
  case None
  have sz: "length s + 1 < 2 ^ 32" using len by simp
  have lim': "brk (proc g) + (length s + 1) + 31 < 2 ^ 64" using lim by simp
  from const_build [OF g sz lim', of 0 t_symbol] obtain a q where b:
    "const_allocator_alloc 0 (proc g) (of_nat (length s + 1)) t_symbol = Inr (q, a)"
    "pmem (proc g) (a - 8) = None" "HTYPE (pmem q) a = Some (const_block t_symbol (length s + 1))" "ptr_ok a"
    "\<And>pl. grows {} g (g\<lparr>proc := q\<lparr>pmem := (pmem q)(a - 8 \<mapsto> (const_block t_symbol (length s + 1))\<lparr>payload := pl\<rparr>)\<rparr>\<rparr>)"
    "brk q \<le> brk (proc g) + (length s + 1) + 31"
    by metis
  define g1 where "g1 = g\<lparr>proc := q\<lparr>pmem := (pmem q)(a - 8 \<mapsto>
      (const_block t_symbol (length s + 1))\<lparr>payload := P_Symbol s\<rparr>)\<rparr>\<rparr>"
  define g' where "g' = g1\<lparr>sym_table := ht_put (sym_table g) s a\<rparr>"
  have g1: "grows {} g g1" unfolding g1_def by (rule b(5))
  have qa: "pmem q (a - 8) = Some (const_block t_symbol (length s + 1))"
    using b(3) by (simp add: HTYPE_def BHDR_SIZE_def split: if_splits)
  have mk: "make_symbol g s = Inr (g', MAKE_CONST_PTR a)"
    using None b(1) qa
    by (simp add: make_symbol_def alloc_global_const_def allocator_alloc_def const_allocator_def Let_def
        set_payload_def BHDR_SIZE_def g'_def g1_def)
  have st: "str_table (sym_table g)" using g by (simp add: glob_ok_def)
  have look: "hash_table_lookup (sym_table g') k = (if k = s then Some a else hash_table_lookup (sym_table g) k)" for k
    using str_map.look_ins [OF st, of s a k] by (auto simp: g'_def string_equal_def)
  have sy: "symbol_at (pmem (proc g')) a s"
    using b(4) by (simp add: symbol_at_def g'_def g1_def)
  have old: "hash_table_lookup (sym_table g') k = Some x" if "hash_table_lookup (sym_table g) k = Some x" for k x
    using that None look by auto
  have "glob_ok g'"
    using g1 sy look str_map.inv_ins [OF st, of s a]
    by (auto simp: glob_ok_def grows_def g'_def lookup_global_def g1_def split: if_splits)
  then have "grows {} g g'" using g1 old by (auto simp: grows_def g'_def)
  moreover have "brk (proc g') \<le> brk (proc g) + (length s + 32)"
    using b(6) by (simp add: g'_def g1_def)
  ultimately show ?thesis using that mk sy look by simp
qed

end
