(* ===== verification/Loader_Consts.thy ===== *)
theory Loader_Consts
  imports Loader_Bytes Const_Area
begin

unbundle bit_operations_syntax

text \<open>
  The round trip of constants: what \<^verbatim>\<open>fasl_read_datum\<close> builds from the bytes of \<^verbatim>\<open>put-object\<close>
  represents the datum that was written. \<open>represents f base g m s x\<close> says that the object \<open>x\<close> stands for
  the datum \<open>s\<close> in the memory \<open>m\<close>, with the symbols and builtins of \<open>g\<close>; strings stay in the mapped file
  \<open>f\<close> at \<open>base\<close>.
\<close>

section \<open>What an object stands for\<close>

fun is_pair :: "sexp \<Rightarrow> bool" where
  "is_pair (S_Pair a d) = True"
| "is_pair s = False"

primrec list_len :: "sexp \<Rightarrow> nat option" where
  "list_len S_Null = Some 0"
| "list_len (S_Pair a d) = map_option Suc (list_len d)"
| "list_len (S_Bool b) = None"
| "list_len (S_Char c) = None"
| "list_len (S_Num i) = None"
| "list_len (S_Symbol s) = None"
| "list_len (S_String s) = None"
| "list_len (S_Static s) = None"
| "list_len (S_Vector xs) = None"

text \<open>
  The list flag that \<^verbatim>\<open>_cons\<close> leaves in a pair: true for a proper list, false when the cdr is not a
  pair, and not written at all when the cdr is a pair that is not a list.
\<close>

definition pair_flag :: "sexp \<Rightarrow> bool option" where
  "pair_flag d = (if list_len d \<noteq> None then Some True else if is_pair d then None else Some False)"

inductive represents :: "u8 list \<Rightarrow> addr \<Rightarrow> globals \<Rightarrow> memory \<Rightarrow> sexp \<Rightarrow> obj \<Rightarrow> bool"
  for f :: "u8 list" and base :: addr and g :: globals and m :: memory where
  rep_null: "represents f base g m S_Null cnull"
| rep_bool: "represents f base g m (S_Bool b) (CIF b)"
| rep_char: "IS_CHAR x \<Longrightarrow> unat (CHAR_OF x) = c \<Longrightarrow> represents f base g m (S_Char c) x"
| rep_num: "IS_FIXNUM x \<Longrightarrow> sint (FIXNUM x) = i \<Longrightarrow> represents f base g m (S_Num i) x"
| rep_symbol: "hash_table_lookup (sym_table g) s = Some a \<Longrightarrow>
    represents f base g m (S_Symbol s) (MAKE_CONST_PTR a)"
| rep_static: "lookup_global g s = Some x \<Longrightarrow> represents f base g m (S_Static s) x"
| rep_string: "\<lbrakk>ptr_ok p; m (p - 8) = Some b; type_id (hdr b) = t_string;
     payload b = P_String \<lparr>str = base + i, str_size = int (length s) + 1, allocated = False, chars = []\<rparr>;
     file_cstring f i = Inr s\<rbrakk> \<Longrightarrow> represents f base g m (S_String s) (MAKE_CONST_PTR p)"
| rep_pair: "\<lbrakk>ptr_ok p; m (p - 8) = Some b; type_id (hdr b) = t_pair;
     payload b = P_Pair \<lparr>car = x, cdr = y, pair_list = pair_flag d,
       pair_length = map_option (\<lambda>n. of_nat (Suc n)) (list_len d)\<rparr>;
     represents f base g m a x; represents f base g m d y\<rbrakk> \<Longrightarrow>
     represents f base g m (S_Pair a d) (MAKE_CONST_PTR p)"
| rep_vector: "\<lbrakk>ptr_ok p; m (p - 8) = Some b; type_id (hdr b) = t_struct;
     payload b = P_Struct \<lparr>type_name = MAKE_CONST_PTR nm, struct_size = int (length xs),
       struct_fields = p + 24, field_slots = ys\<rparr>;
     hash_table_lookup (sym_table g) (cstr ''vector'') = Some nm;
     list_all2 (represents f base g m) xs ys\<rbrakk> \<Longrightarrow>
     represents f base g m (S_Vector xs) (MAKE_CONST_PTR p)"
monos list_all2_mono

inductive_cases represents_nullE: "represents f base g m S_Null x"
inductive_cases represents_pairE: "represents f base g m (S_Pair a d) x"

lemma represents_mono:
  assumes "represents f base g m s x" and "mem_le m m'" and "grows A g g'"
  shows "represents f base g' m' s x"
  using assms(1)
proof induction
  case (rep_vector p b nm xs ys)
  have "list_all2 (represents f base g' m') xs ys"
    using rep_vector(6) by (rule list_all2_mono) simp
  then show ?case
    using rep_vector(1-5) assms(2,3)
    by (intro represents.rep_vector) (auto simp: mem_le_def grows_def)
qed (use assms(2,3) in \<open>auto intro: represents.intros simp: mem_le_def grows_def lookup_global_def\<close>)

text \<open>The data whose round trip is claimed.\<close>

definition name_ok :: "cstring \<Rightarrow> bool" where "name_ok s \<longleftrightarrow> 0 \<notin> set s \<and> length s < 255"

fun good :: "(cstring \<Rightarrow> obj option) \<Rightarrow> sexp \<Rightarrow> bool" where
  "good bt S_Null = True"
| "good bt (S_Bool b) = True"
| "good bt (S_Char c) = (c < 2 ^ 16)"
| "good bt (S_Num i) = (- (2 ^ 60) \<le> i \<and> i < 2 ^ 60)"
| "good bt (S_Symbol s) = name_ok s"
| "good bt (S_String s) = name_ok s"
| "good bt (S_Static s) = (name_ok s \<and> bt s \<noteq> None)"
| "good bt (S_Pair a d) = (good bt a \<and> good bt d
     \<and> (case d of S_Pair b e \<Rightarrow> pair_flag e \<noteq> None | _ \<Rightarrow> True))"
| "good bt (S_Vector xs) = (length xs < 256 \<and> (\<forall>x \<in> set xs. good bt x))"

section \<open>Cons on a represented cdr\<close>

lemmas tags_differ = TAG_distinct TAG_distinct [THEN not_sym]

lemma GET_TAG_not_null: "GET_TAG x \<noteq> TAG_CONST \<Longrightarrow> \<not> IS_NULL x"
  by (auto simp: IS_NULL_def)

lemma CIF_not_null [simp]: "\<not> IS_NULL (CIF b)"
  by (cases b) (simp_all add: IS_NULL_def CIF_def const_defs ADD_TAG_def TAG_SIZE_def TAG_CONST_def)

lemma HTYPE_at: "ptr_ok p \<Longrightarrow> HTYPE m p = m (p - 8)"
  by (simp add: HTYPE_def BHDR_SIZE_def ptr_ok_def)

lemma represents_IS_PAIR:
  assumes r: "represents f base g m s x" and ok: "glob_ok g" and m: "mem_le m (pmem (proc g))"
  shows "IS_PAIR (pmem (proc g)) x = Inr (is_pair s)"
  using r
proof cases
  case (rep_symbol s a)
  then have "symbol_at (pmem (proc g)) a s" using ok by (simp add: glob_ok_def)
  then show ?thesis
    using rep_symbol by (auto simp: IS_PAIR_def IS_TYPE_def symbol_at_def HTYPE_at ptr_ok_PTR type_id_defs)
next
  case (rep_static s)
  then have "GET_TAG x = TAG_FUNC" using ok by (simp add: glob_ok_def)
  then show ?thesis using rep_static by (simp add: IS_PAIR_def IS_TYPE_def is_tag_defs tags_differ)
qed (use m in \<open>auto simp: IS_PAIR_def IS_TYPE_def is_tag_defs CIF_def tags_differ HTYPE_at ptr_ok_PTR mem_le_def type_id_defs\<close>)

lemma represents_not_null:
  assumes "represents f base g m s x" and "glob_ok g" and "s \<noteq> S_Null"
  shows "\<not> IS_NULL x"
  using assms(1)
proof cases
  case (rep_static s)
  then have "GET_TAG x = TAG_FUNC" using assms(2) by (simp add: glob_ok_def)
  then show ?thesis by (intro GET_TAG_not_null) (simp add: tags_differ)
qed (use assms(3) in \<open>auto intro!: GET_TAG_not_null simp: is_tag_defs tags_differ\<close>)

lemma represents_cons_flags:
  assumes r: "represents f base g m d y" and ok: "glob_ok g" and m: "mem_le m (pmem (proc g))"
    and gd: "case d of S_Pair b e \<Rightarrow> pair_flag e \<noteq> None | _ \<Rightarrow> True"
  shows "cons_flags (pmem (proc g)) (None, None) y =
    Inr (pair_flag d, map_option (\<lambda>n. of_nat (Suc n)) (list_len d))"
proof (cases "d = S_Null")
  case True
  then show ?thesis using r by (auto elim!: represents_nullE simp: cons_flags_def IS_NULL_def pair_flag_def)
next
  case False
  then have nn: "\<not> IS_NULL y" using represents_not_null [OF r ok] by blast
  have ip: "IS_PAIR (pmem (proc g)) y = Inr (is_pair d)" by (rule represents_IS_PAIR [OF r ok m])
  show ?thesis
  proof (cases "is_pair d")
    case True
    then obtain b e where d: "d = S_Pair b e" by (cases d) auto
    from r [unfolded d] obtain p c x z where p: "y = MAKE_CONST_PTR p" "ptr_ok p" "m (p - 8) = Some c"
        "payload c = P_Pair \<lparr>car = x, cdr = z, pair_list = pair_flag e,
           pair_length = map_option (\<lambda>n. of_nat (Suc n)) (list_len e)\<rparr>"
      by (auto elim!: represents_pairE)
    then have "pair_at (pmem (proc g)) y = Inr \<lparr>car = x, cdr = z, pair_list = pair_flag e,
           pair_length = map_option (\<lambda>n. of_nat (Suc n)) (list_len e)\<rparr>"
      using m by (auto simp: pair_at_def HTYPE_at ptr_ok_PTR mem_le_def bindE_Inr_iff)
    then show ?thesis
      using ip nn True gd d by (auto simp: cons_flags_def pair_flag_def split: if_splits)
  next
    case False
    then have "list_len d = None" using \<open>d \<noteq> S_Null\<close> by (cases d) auto
    with False show ?thesis using ip nn by (simp add: cons_flags_def pair_flag_def)
  qed
qed

section \<open>Reading one datum\<close>

definition new_blocks :: "globals \<Rightarrow> globals \<Rightarrow> memory" where
  "new_blocks g g' = pmem (proc g') |` (- dom (pmem (proc g)))"

lemma new_blocks_le: "mem_le (new_blocks g g') (pmem (proc g'))"
  by (simp add: new_blocks_def mem_le_def restrict_map_def)

lemma new_blocks_mono: "grows {} g g1 \<Longrightarrow> grows {} g1 g' \<Longrightarrow> mem_le (new_blocks g g1) (new_blocks g g')"
  by (auto simp: new_blocks_def mem_le_def restrict_map_def grows_def split: if_splits)

lemma new_blocks_anti: "grows {} g g1 \<Longrightarrow> mem_le (new_blocks g1 g') (new_blocks g g')"
  by (fastforce simp: new_blocks_def mem_le_def restrict_map_def grows_def split: if_splits)

text \<open>
  \<open>reads\<close>: with the bound \<open>n\<close>, the reader standing in front of the bytes of \<open>s\<close> returns an object that
  represents \<open>s\<close>, built of new blocks and interned symbols, and stands behind those bytes; it takes at
  most 256 bytes of memory for each byte of the file, 56 less in all.
\<close>

definition read_result ::
  "u8 list \<Rightarrow> addr \<Rightarrow> globals \<Rightarrow> code_t \<Rightarrow> sexp \<Rightarrow> (globals \<times> code_t \<times> obj) outcome \<Rightarrow> bool" where
  "read_result f base g c s r \<longleftrightarrow> (\<exists>g' x. r = Inr (g', advance c (length (put_object s)), x)
     \<and> grows {} g g' \<and> represents f base g' (new_blocks g g') s x
     \<and> brk (proc g') + 56 \<le> brk (proc g) + 256 * length (put_object s))"

definition reads :: "u8 list \<Rightarrow> addr \<Rightarrow> nat \<Rightarrow> nat \<Rightarrow> sexp \<Rightarrow> bool" where
  "reads f base k n s \<longleftrightarrow> (\<forall>g c. at_code f c (put_object s) \<longrightarrow> glob_ok g \<longrightarrow> good (lookup_global g) s
     \<longrightarrow> brk (proc g) + 256 * length (put_object s) < 2 ^ 64
     \<longrightarrow> read_result f base g c s (fasl_datum n f base k g c))"

lemma readsD:
  assumes "reads f base k n s" "at_code f c (put_object s)" "glob_ok g" "good (lookup_global g) s"
    "brk (proc g) + 256 * length (put_object s) < 2 ^ 64"
  obtains g' x where "fasl_datum n f base k g c = Inr (g', advance c (length (put_object s)), x)"
    "grows {} g g'" "represents f base g' (new_blocks g g') s x"
    "brk (proc g') + 56 \<le> brk (proc g) + 256 * length (put_object s)"
  using assms unfolding reads_def read_result_def by blast

lemma read_resultI:
  assumes "r = Inr (g', c', x)" "c' = advance c (length (put_object s))" "grows {} g g'"
    "represents f base g' (new_blocks g g') s x"
    "brk (proc g') + 56 \<le> brk (proc g) + 256 * length (put_object s)"
  shows "read_result f base g c s r"
  using assms by (auto simp: read_result_def)

lemma put_object_not_end: "\<exists>ty rest. put_object s = ty # rest \<and> ty \<noteq> OT_PAIR_END"
  by (cases s) (auto simp: OT_defs)

lemma length_put_object: "0 < length (put_object s)"
  using put_object_not_end [of s] by auto

lemma MAKE_FIXNUM_read:
  assumes "- (2 ^ 60) \<le> i" and "i < 2 ^ 60"
  shows "IS_FIXNUM (MAKE_FIXNUM (of_nat (nat (i mod 2 ^ 64)))) \<and>
    sint (FIXNUM (MAKE_FIXNUM (of_nat (nat (i mod 2 ^ 64))))) = i"
proof -
  have "(of_nat (nat (i mod 2 ^ 64)) :: u64) = of_int (i mod 2 ^ 64)" by simp
  also have "\<dots> = of_int i"
    by (simp add: word_of_int_eq_iff take_bit_eq_mod)
  finally show ?thesis
    using assms by (simp add: is_tag_defs sint_FIXNUM_MAKE signed_of_int signed_take_bit_int_eq_self)
qed

lemma MAKE_CHAR_read:
  assumes "c < 2 ^ 16"
  shows "IS_CHAR (MAKE_CHAR (ucast (of_nat c :: u16))) \<and>
    unat (CHAR_OF (MAKE_CHAR (ucast (of_nat c :: u16)))) = c"
  using assms by (simp add: is_tag_defs CHAR_MAKE_CHAR unsigned_of_nat take_bit_nat_eq_self_iff unsigned_ucast_eq)

lemma at_tail: "at_code f c (b # bs) \<Longrightarrow> at_code f (advance c 1) bs"
  by (simp add: at_code_Cons [of f c b bs])

lemma at_head: "at_code f c (b # bs) \<Longrightarrow> at_code f c [b]"
  by (simp add: at_code_Cons [of f c b bs])

lemma fasl_datum_atom:
  assumes "at_code f c (ty # bs)" and "ty \<noteq> OT_PAIR_BEGIN" and "ty \<noteq> OT_STRUCT"
  shows "fasl_datum (Suc n) f base k g c = fasl_atom f base k g (advance c 1) ty"
  using read8_at [OF at_head [OF assms(1)]] assms(2,3) by simp

lemmas fasl_atom_simps = fasl_atom_def OT_defs

lemma string_at:
  assumes "at_code f c (ty # string_cbv s)" and "name_ok s"
  shows "code_read_string f (advance c 1) = Inr (advance c (Suc (length (string_cbv s))), code c + 2)"
    and "file_cstring f (code c + 2) = Inr s"
proof -
  have at: "at_code f (advance c 1) (string_cbv s)" using assms(1) at_code_Cons [of f c ty "string_cbv s"] by simp
  show "code_read_string f (advance c 1) = Inr (advance c (Suc (length (string_cbv s))), code c + 2)"
    using read_string_at [OF at] assms(2) by (simp add: name_ok_def)
  show "file_cstring f (code c + 2) = Inr s"
    using file_cstring_at [OF at] assms(2) by (simp add: name_ok_def)
qed

lemma length_string_cbv [simp]: "length (string_cbv s) = length s + 2"
  by (simp add: string_cbv_def)

fun is_atom :: "sexp \<Rightarrow> bool" where
  "is_atom (S_Pair a d) = False"
| "is_atom (S_Vector xs) = False"
| "is_atom s = True"

lemma reads_symbol: "reads f base k (Suc n) (S_Symbol s)"
  unfolding reads_def
proof (intro allI impI)
  fix g c
  assume at: "at_code f c (put_object (S_Symbol s))" and ok: "glob_ok g"
    and gd: "good (lookup_global g) (S_Symbol s)"
    and lim: "brk (proc g) + 256 * length (put_object (S_Symbol s)) < 2 ^ 64"
  have at': "at_code f c (OT_SYMBOL # string_cbv s)" using at by simp
  have nm: "name_ok s" "length s < 256" using gd by (auto simp: name_ok_def)
  have lim': "brk (proc g) + (length s + 32) < 2 ^ 64" using lim by simp
  from make_symbol_ok [OF ok nm(2) lim'] obtain g' a where m: "make_symbol g s = Inr (g', MAKE_CONST_PTR a)"
      "grows {} g g'" "hash_table_lookup (sym_table g') s = Some a"
      "brk (proc g') \<le> brk (proc g) + (length s + 32)"
    by metis
  show "read_result f base g c (S_Symbol s) (fasl_datum (Suc n) f base k g c)"
  proof (rule read_resultI [OF _ HOL.refl m(2) rep_symbol [OF m(3)]])
    show "fasl_datum (Suc n) f base k g c =
        Inr (g', advance c (length (put_object (S_Symbol s))), MAKE_CONST_PTR a)"
      using string_at [OF at' nm(1)] m(1) by (subst fasl_datum_atom [OF at']) (simp_all add: fasl_atom_simps)
  qed (use m(4) in simp)
qed

lemma reads_string: "reads f base k (Suc n) (S_String s)"
  unfolding reads_def
proof (intro allI impI)
  fix g c
  assume at: "at_code f c (put_object (S_String s))" and ok: "glob_ok g"
    and gd: "good (lookup_global g) (S_String s)"
    and lim: "brk (proc g) + 256 * length (put_object (S_String s)) < 2 ^ 64"
  have at': "at_code f c (OT_STRING # string_cbv s)" using at by simp
  have nm: "name_ok s" using gd by simp
  have lim': "brk (proc g) + 47 < 2 ^ 64" using lim by simp
  from const_string_ok [OF ok lim', of k "base + (code c + 2)" s] obtain g' p where
    m: "const_string k g (base + (code c + 2)) s = Inr (g', MAKE_CONST_PTR p)"
      "const_object g g' p t_string (P_String \<lparr>str = base + (code c + 2), str_size = int (length s) + 1,
         allocated = False, chars = []\<rparr>) 47" by metis
  then obtain b where b: "grows {} g g'" "pmem (proc g) (p - 8) = None" "ptr_ok p"
      "pmem (proc g') (p - 8) = Some b" "type_id (hdr b) = t_string"
      "payload b = P_String \<lparr>str = base + (code c + 2), str_size = int (length s) + 1,
         allocated = False, chars = []\<rparr>"
      "brk (proc g') \<le> brk (proc g) + 47"
    by (auto simp: const_object_def)
  have nb: "new_blocks g g' (p - 8) = Some b"
    using b(2,4) by (simp add: new_blocks_def restrict_map_def dom_def)
  show "read_result f base g c (S_String s) (fasl_datum (Suc n) f base k g c)"
  proof (rule read_resultI [OF _ HOL.refl b(1)])
    show "represents f base g' (new_blocks g g') (S_String s) (MAKE_CONST_PTR p)"
      using b(6) string_at(2) [OF at' nm] by (intro rep_string [where m = "new_blocks g g'", OF b(3) nb b(5)])
    show "fasl_datum (Suc n) f base k g c =
        Inr (g', advance c (length (put_object (S_String s))), MAKE_CONST_PTR p)"
      using string_at [OF at' nm] m(1) by (subst fasl_datum_atom [OF at']) (simp_all add: fasl_atom_simps)
  qed (use b(7) in simp)
qed

lemma reads_static: "reads f base k (Suc n) (S_Static s)"
  unfolding reads_def
proof (intro allI impI)
  fix g c
  assume at: "at_code f c (put_object (S_Static s))" and ok: "glob_ok g"
    and gd: "good (lookup_global g) (S_Static s)"
  have at': "at_code f c (OT_STATIC # string_cbv s)" using at by simp
  obtain x where x: "lookup_global g s = Some x" and nm: "name_ok s" using gd by auto
  show "read_result f base g c (S_Static s) (fasl_datum (Suc n) f base k g c)"
  proof (rule read_resultI [OF _ HOL.refl grows_refl [OF ok] rep_static [OF x]])
    show "fasl_datum (Suc n) f base k g c = Inr (g, advance c (length (put_object (S_Static s))), x)"
      using string_at [OF at' nm] x by (subst fasl_datum_atom [OF at']) (simp_all add: fasl_atom_simps)
  qed simp
qed

lemma reads_value:
  assumes "\<And>g c. at_code f c (put_object s) \<Longrightarrow> good (lookup_global g) s \<Longrightarrow>
      fasl_datum n f base k g c = Inr (g, advance c (length (put_object s)), x)"
    and "\<And>g. good (lookup_global g) s \<Longrightarrow> represents f base g (new_blocks g g) s x"
  shows "reads f base k n s"
  unfolding reads_def
proof (intro allI impI)
  fix g c
  assume a: "at_code f c (put_object s)" "glob_ok g" "good (lookup_global g) s"
  show "read_result f base g c s (fasl_datum n f base k g c)"
    by (rule read_resultI [OF assms(1) [OF a(1,3)] HOL.refl grows_refl [OF a(2)] assms(2) [OF a(3)]])
      (use length_put_object [of s] in linarith)
qed

lemma reads_atom:
  assumes "is_atom s" shows "reads f base k (Suc n) s"
proof (cases s)
  case S_Null
  have "fasl_datum (Suc n) f base k g c = Inr (g, advance c 1, cnull)" if "at_code f c [OT_NULL]" for g c
    by (subst fasl_datum_atom [OF that]) (simp_all add: fasl_atom_simps)
  then show ?thesis unfolding S_Null by (intro reads_value [where x = cnull] rep_null) simp
next
  case (S_Bool b)
  have "fasl_datum (Suc n) f base k g c = Inr (g, advance c 2, CIF b)"
    if at: "at_code f c [OT_BOOLEAN, if b then 1 else 0]" for g c
    using read8_at [OF at_tail [OF at]] by (subst fasl_datum_atom [OF at]) (simp_all add: fasl_atom_simps)
  then show ?thesis unfolding S_Bool by (intro reads_value [where x = "CIF b"] rep_bool) (simp add: numeral_2_eq_2)
next
  case (S_Char v)
  have "fasl_datum (Suc n) f base k g c = Inr (g, advance c 3, MAKE_CHAR (ucast (of_nat v :: u16)))"
    if at: "at_code f c (OT_CHARACTER # number_u16 v)" for g c
    using read16_at [OF at_tail [OF at, unfolded number_u16_def]]
    by (subst fasl_datum_atom [OF at]) (simp_all add: fasl_atom_simps)
  then show ?thesis unfolding S_Char
    using MAKE_CHAR_read [of v]
    by (intro reads_value [where x = "MAKE_CHAR (ucast (of_nat v :: u16))"] rep_char)
      (auto simp: number_u16_def numeral_3_eq_3)
next
  case (S_Num i)
  let ?n = "nat (i mod 2 ^ 64)"
  have "fasl_datum (Suc n) f base k g c = Inr (g, advance c 9, MAKE_FIXNUM (of_nat ?n))"
    if at: "at_code f c (OT_FIXNUM # number_s64bv i)" for g c
    using read64_at [OF at_tail [OF at, unfolded number_s64bv_def]]
    by (subst fasl_datum_atom [OF at]) (simp_all add: fasl_atom_simps)
  then show ?thesis unfolding S_Num
    using MAKE_FIXNUM_read [of i]
    by (intro reads_value [where x = "MAKE_FIXNUM (of_nat ?n)"] rep_num) (auto simp: number_s64bv_def)
qed (use assms reads_symbol reads_string reads_static in auto)

section \<open>Pairs\<close>

text \<open>What the pair loop builds from the data in the order of the file.\<close>

abbreviation build_pairs :: "sexp \<Rightarrow> sexp list \<Rightarrow> sexp" where
  "build_pairs t es \<equiv> foldl (\<lambda>acc e. S_Pair e acc) t es"

lemma pair_prepare_build:
  "build_pairs (hd (pair_prepare res a d)) (tl (pair_prepare res a d)) = build_pairs (S_Pair a d) res
    \<and> pair_prepare res a d \<noteq> []"
  by (induction res a d rule: pair_prepare.induct) simp_all

lemma good_build: "good bt (build_pairs t es) \<Longrightarrow> good bt t \<and> (\<forall>e \<in> set es. good bt e)"
proof (induction es arbitrary: t)
  case (Cons e es)
  have "good bt (build_pairs (S_Pair e t) es)" using Cons.prems by simp
  from Cons.IH [OF this] show ?case by simp
qed simp

lemma grows_glob_ok: "grows A g g' \<Longrightarrow> glob_ok g'" by (simp add: grows_def)

lemma grows_lookup: "grows A g g' \<Longrightarrow> lookup_global g' = lookup_global g"
  by (simp add: grows_def lookup_global_def fun_eq_iff)

text \<open>One more pair in front of what was read.\<close>

lemma represents_cons:
  assumes x: "represents f base g2 (new_blocks g g2) a x" and y: "represents f base g2 (new_blocks g g2) d y"
    and gr: "grows {} g g2" and gd: "good bt (S_Pair a d)" and lim: "brk (proc g2) + 55 < 2 ^ 64"
  obtains g' z where "const_cons k g2 x y = Inr (g', z)" "grows {} g2 g'"
    "represents f base g' (new_blocks g g') (S_Pair a d) z" "brk (proc g') \<le> brk (proc g2) + 55"
proof -
  have ok: "glob_ok g2" using gr by (rule grows_glob_ok)
  have gd': "case d of S_Pair b e \<Rightarrow> pair_flag e \<noteq> None | _ \<Rightarrow> True" using gd by simp
  from const_cons_ok [OF ok lim represents_cons_flags [OF y ok new_blocks_le gd'], of k x]
  obtain g' p where c: "const_cons k g2 x y = Inr (g', MAKE_CONST_PTR p)"
    "const_object g2 g' p t_pair (P_Pair \<lparr>car = x, cdr = y, pair_list = pair_flag d,
       pair_length = map_option (\<lambda>n. of_nat (Suc n)) (list_len d)\<rparr>) 55" by metis
  then obtain b where b: "grows {} g2 g'" "pmem (proc g2) (p - 8) = None" "ptr_ok p"
      "pmem (proc g') (p - 8) = Some b" "type_id (hdr b) = t_pair"
      "payload b = P_Pair \<lparr>car = x, cdr = y, pair_list = pair_flag d,
       pair_length = map_option (\<lambda>n. of_nat (Suc n)) (list_len d)\<rparr>"
      "brk (proc g') \<le> brk (proc g2) + 55"
    by (auto simp: const_object_def)
  have "pmem (proc g) (p - 8) = None" using b(2) gr by (cases "pmem (proc g) (p - 8)") (auto simp: grows_def)
  then have nb: "new_blocks g g' (p - 8) = Some b"
    using b(4) by (simp add: new_blocks_def restrict_map_def dom_def)
  have le: "mem_le (new_blocks g g2) (new_blocks g g')" by (rule new_blocks_mono [OF gr b(1)])
  have "represents f base g' (new_blocks g g') (S_Pair a d) (MAKE_CONST_PTR p)"
    by (rule rep_pair [where m = "new_blocks g g'", OF b(3) nb b(5,6)
          represents_mono [OF x le b(1)] represents_mono [OF y le b(1)]])
  with c(1) b(1,7) show ?thesis by (intro that)
qed

abbreviation put_objects :: "sexp list \<Rightarrow> u8 list" where
  "put_objects es \<equiv> concat (map put_object es)"

lemma pairs_loop_prefix:
  assumes "\<forall>e \<in> set es. reads f base k m e"
    and "good (lookup_global g0) (build_pairs t es)"
    and "represents f base g (new_blocks g0 g) t x" and "grows {} g0 g"
    and "at_code f c (put_objects es)"
    and "brk (proc g) + 256 * length (put_objects es) < 2 ^ 64"
  shows "\<exists>g' y. pairs_loop (length es + n) (fasl_datum m f base k) f k g c (Some x) =
      pairs_loop n (fasl_datum m f base k) f k g' (advance c (length (put_objects es))) (Some y)
    \<and> grows {} g0 g' \<and> represents f base g' (new_blocks g0 g') (build_pairs t es) y
    \<and> brk (proc g') \<le> brk (proc g) + 256 * length (put_objects es)"
  using assms
proof (induction es arbitrary: g t x c)
  case Nil
  then show ?case by auto
next
  case (Cons e es)
  let ?c = "advance c (length (put_object e))"
  have at: "at_code f c (put_object e)" "at_code f ?c (put_objects es)"
    using Cons.prems(5) by (simp_all add: at_code_append)
  obtain ty rest where ty: "put_object e = ty # rest" "ty \<noteq> OT_PAIR_END" using put_object_not_end by blast
  have pk: "code_peek8 f c = Inr ty" using at(1) unfolding ty(1) by (rule peek8_at [OF at_head])
  have ok: "glob_ok g" using Cons.prems(4) by (rule grows_glob_ok)
  have gb: "good (lookup_global g0) (build_pairs (S_Pair e t) es)" using Cons.prems(2) by simp
  have gp: "good (lookup_global g0) (S_Pair e t)" using good_build [OF gb] by blast
  then have ge: "good (lookup_global g) e" using grows_lookup [OF Cons.prems(4)] by simp
  have lim: "brk (proc g) + 256 * length (put_object e) < 2 ^ 64" using Cons.prems(6) by simp
  have rd: "reads f base k m e" using Cons.prems(1) by simp
  from readsD [OF rd at(1) ok ge lim] obtain g1 y where r: "fasl_datum m f base k g c = Inr (g1, ?c, y)"
      "grows {} g g1" "represents f base g1 (new_blocks g g1) e y"
      "brk (proc g1) + 56 \<le> brk (proc g) + 256 * length (put_object e)" by metis
  have gr: "grows {} g0 g1" by (rule grows_trans [OF Cons.prems(4) r(2)])
  have ry: "represents f base g1 (new_blocks g0 g1) e y"
    by (rule represents_mono [OF r(3) new_blocks_anti [OF Cons.prems(4)] grows_refl [OF grows_glob_ok [OF r(2)]]])
  have rx: "represents f base g1 (new_blocks g0 g1) t x"
    by (rule represents_mono [OF Cons.prems(3) new_blocks_mono [OF Cons.prems(4) r(2)] r(2)])
  have lim1: "brk (proc g1) + 55 < 2 ^ 64" using r(4) lim by linarith
  from represents_cons [OF ry rx gr gp lim1, of k] obtain g2 z where z: "const_cons k g1 y x = Inr (g2, z)"
      "grows {} g1 g2" "represents f base g2 (new_blocks g0 g2) (S_Pair e t) z"
      "brk (proc g2) \<le> brk (proc g1) + 55" by metis
  have lim2: "brk (proc g2) + 256 * length (put_objects es) < 2 ^ 64" using z(4) r(4) Cons.prems(6) by simp
  have ih: "\<forall>e \<in> set es. reads f base k m e" using Cons.prems(1) by simp
  from Cons.IH [OF ih gb z(3) grows_trans [OF gr z(2)] at(2) lim2] obtain g' w where w:
      "pairs_loop (length es + n) (fasl_datum m f base k) f k g2 ?c (Some z) =
        pairs_loop n (fasl_datum m f base k) f k g' (advance ?c (length (put_objects es))) (Some w)"
      "grows {} g0 g'" "represents f base g' (new_blocks g0 g') (build_pairs (S_Pair e t) es) w"
      "brk (proc g') \<le> brk (proc g2) + 256 * length (put_objects es)" by blast
  then show ?case
    using pk ty(2) r(1,4) z(1,4) by (intro exI [of _ g'] exI [of _ w]) simp
qed

lemma pairs_loop_end:
  "at_code f c [OT_PAIR_END] \<Longrightarrow> pairs_loop (Suc n) rd f k g c (Some y) = Inr (g, advance c 1, y)"
  using peek8_at [of f c OT_PAIR_END] read8_at [of f c OT_PAIR_END] by simp

lemma at_code_size: "at_code f c bs \<Longrightarrow> length bs \<le> code_size c"
  by (simp add: at_code_def)

lemma length_put_objects: "length es \<le> length (put_objects es)"
proof (induction es)
  case (Cons e es)
  have "Suc (length es) \<le> length (put_object e) + length (put_objects es)"
    using Cons length_put_object [of e] by linarith
  then show ?case by simp
qed simp

lemma reads_pair:
  assumes "\<forall>e \<in> set (pair_prepare [] a d). reads f base k n e"
  shows "reads f base k (Suc n) (S_Pair a d)"
  unfolding reads_def
proof (intro allI impI)
  fix g c
  assume at: "at_code f c (put_object (S_Pair a d))" and ok: "glob_ok g"
    and gd: "good (lookup_global g) (S_Pair a d)"
    and lim: "brk (proc g) + 256 * length (put_object (S_Pair a d)) < 2 ^ 64"
  obtain t es where te: "pair_prepare [] a d = t # es" "build_pairs t es = S_Pair a d"
    using pair_prepare_build [of "[]" a d] by (cases "pair_prepare [] a d") simp_all
  let ?c = "advance c (Suc (length (put_object t)))"
  have po: "put_object (S_Pair a d) = OT_PAIR_BEGIN # put_object t @ put_objects es @ [OT_PAIR_END]"
    using te(1) by simp
  have at1: "at_code f (advance c 1) (put_object t @ put_objects es @ [OT_PAIR_END])"
    using at_tail [OF at [unfolded po]] .
  then have at2: "at_code f (advance c 1) (put_object t)" "at_code f ?c (put_objects es)"
    "at_code f (advance ?c (length (put_objects es))) [OT_PAIR_END]"
    by (simp_all add: at_code_append)
  have ge: "good (lookup_global g) (build_pairs t es)" using gd te(2) by simp
  then have gt: "good (lookup_global g) t" using good_build by blast
  have rt: "reads f base k n t" and re: "\<forall>e \<in> set es. reads f base k n e" using assms te(1) by simp_all
  have lt: "brk (proc g) + 256 * length (put_object t) < 2 ^ 64" using lim po by simp
  from readsD [OF rt at2(1) ok gt lt] obtain g1 x where r:
      "fasl_datum n f base k g (advance c 1) = Inr (g1, ?c, x)" "grows {} g g1"
      "represents f base g1 (new_blocks g g1) t x"
      "brk (proc g1) + 56 \<le> brk (proc g) + 256 * length (put_object t)"
    by (auto simp: plus_1_eq_Suc)
  obtain ty rest where ty: "put_object t = ty # rest" "ty \<noteq> OT_PAIR_END" using put_object_not_end by blast
  have pk: "code_peek8 f (advance c 1) = Inr ty"
    using at2(1) unfolding ty(1) by (rule peek8_at [OF at_head])
  obtain n' where sz: "code_size (advance c 1) = length es + Suc n'"
  proof (rule that)
    show "code_size (advance c 1) = length es + Suc (code_size (advance c 1) - Suc (length es))"
      using at_code_size [OF at1] length_put_objects [of es] by simp
  qed
  have le: "brk (proc g1) + 256 * length (put_objects es) < 2 ^ 64" using r(4) lim po by simp
  from pairs_loop_prefix [OF re ge r(3,2) at2(2) le] obtain g' y where w:
      "pairs_loop (length es + Suc n') (fasl_datum n f base k) f k g1 ?c (Some x) =
        pairs_loop (Suc n') (fasl_datum n f base k) f k g' (advance ?c (length (put_objects es))) (Some y)"
      "grows {} g g'" "represents f base g' (new_blocks g g') (S_Pair a d) y"
      "brk (proc g') \<le> brk (proc g1) + 256 * length (put_objects es)"
    unfolding te(2) by blast
  note w(1) [folded sz, unfolded pairs_loop_end [OF at2(3)]]
  note w = this w(2-4)
  show "read_result f base g c (S_Pair a d) (fasl_datum (Suc n) f base k g c)"
  proof (rule read_resultI [OF _ HOL.refl w(2,3)])
    show "fasl_datum (Suc n) f base k g c = Inr (g', advance c (length (put_object (S_Pair a d))), y)"
      using read8_at [OF at_head [OF at [unfolded po]]] pk ty(2) r(1) w(1) by (simp add: po del: put_object.simps)
  qed (use w(4) r(4) po in \<open>simp del: put_object.simps\<close>)
qed

section \<open>Vectors\<close>

text \<open>
  \<open>filling\<close>: while the fields of the structure at \<open>p\<close> are read, the first ones represent the data read so
  far in the new blocks, without the structure itself, and the others are still unset.
\<close>

definition vector_block :: "globals \<Rightarrow> addr \<Rightarrow> obj \<Rightarrow> nat \<Rightarrow> obj list \<Rightarrow> bool" where
  "vector_block g p nm n ys \<longleftrightarrow> (\<exists>b. pmem (proc g) (p - 8) = Some b \<and> type_id (hdr b) = t_struct
     \<and> payload b = P_Struct \<lparr>type_name = nm, struct_size = int n, struct_fields = p + 24, field_slots = ys\<rparr>)"

definition elems_new :: "globals \<Rightarrow> addr \<Rightarrow> globals \<Rightarrow> memory" where
  "elems_new g0 p g = pmem (proc g) |` (- insert (p - 8) (dom (pmem (proc g0))))"

lemma put_field_ok:
  assumes v: "vector_block g p nm n ys" and i: "i < length ys" and p: "ptr_ok p" and ok: "glob_ok g"
  obtains g' where "put_field g p i x = Inr g'" "vector_block g' p nm n (ys[i := x])"
    "grows {p - 8} g g'" "brk (proc g') = brk (proc g)"
    "pmem (proc g') |` (- {p - 8}) = pmem (proc g) |` (- {p - 8})"
proof -
  obtain b where b: "pmem (proc g) (p - 8) = Some b" "type_id (hdr b) = t_struct"
    "payload b = P_Struct \<lparr>type_name = nm, struct_size = int n, struct_fields = p + 24, field_slots = ys\<rparr>"
    using v by (auto simp: vector_block_def)
  define pl where "pl = P_Struct \<lparr>type_name = nm, struct_size = int n, struct_fields = p + 24,
      field_slots = ys[i := x]\<rparr>"
  define g' where "g' = g\<lparr>proc := (proc g)\<lparr>pmem := (pmem (proc g))(p - 8 \<mapsto> b\<lparr>payload := pl\<rparr>)\<rparr>\<rparr>"
  have eq: "put_field g p i x = Inr g'"
    using b i HTYPE_at [OF p] by (simp add: put_field_def BHDR_SIZE_def g'_def pl_def)
  have sy: "symbol_at (pmem (proc g')) a s" if "symbol_at (pmem (proc g)) a s" for a s
    using that b by (auto simp: symbol_at_def g'_def type_id_defs)
  have pk: "proc_ok (proc g')"
    using ok proc_ok_fill [of "proc g" "p - 8" b pl] b(1) by (simp add: glob_ok_def g'_def)
  have gk: "glob_ok g'"
    using ok sy pk by (auto simp: glob_ok_def lookup_global_def g'_def)
  have gr: "grows {p - 8} g g'" using gk by (simp add: grows_def) (simp add: g'_def)
  have vb: "vector_block g' p nm n (ys[i := x])"
    using b(2) by (simp add: vector_block_def g'_def pl_def)
  have rs: "pmem (proc g') |` (- {p - 8}) = pmem (proc g) |` (- {p - 8})"
    by (rule ext) (simp add: g'_def restrict_map_def)
  show ?thesis by (rule that [OF eq vb gr _ rs]) (simp add: g'_def)
qed

lemma elems_new_grows:
  assumes "pmem (proc g) |` (- {p - 8}) = pmem (proc g1) |` (- {p - 8})" and "grows {} g g'"
  shows "mem_le (elems_new g0 p g1) (elems_new g0 p g')"
  unfolding mem_le_def elems_new_def
proof (intro allI impI)
  fix x b
  assume a: "(pmem (proc g1) |` (- insert (p - 8) (dom (pmem (proc g0))))) x = Some b"
  then have "x \<in> - insert (p - 8) (dom (pmem (proc g0)))" "pmem (proc g1) x = Some b"
    by (simp_all add: restrict_map_def split: if_splits)
  moreover have "pmem (proc g) x = Some b"
    using assms(1) calculation by (metis (no_types, lifting) Compl_iff insertCI restrict_in singletonD)
  ultimately show "(pmem (proc g') |` (- insert (p - 8) (dom (pmem (proc g0))))) x = Some b"
    using assms(2) by (simp add: grows_def)
qed

lemma vector_block_grows: "vector_block g p nm n ys \<Longrightarrow> grows {} g g' \<Longrightarrow> vector_block g' p nm n ys"
  by (auto simp: vector_block_def grows_def)

lemma elems_new_le:
  assumes "insert (p - 8) (dom (pmem (proc g0))) \<subseteq> dom (pmem (proc g))"
  shows "mem_le (new_blocks g g') (elems_new g0 p g')"
  using assms by (auto simp: mem_le_def new_blocks_def elems_new_def restrict_map_def split: if_splits)

lemma grows_weaken: "grows {} g g' \<Longrightarrow> grows A g g'"
  by (auto simp: grows_def)

lemma grows_strengthen: "grows A g g' \<Longrightarrow> \<forall>x \<in> A. pmem (proc g) x = None \<Longrightarrow> grows {} g g'"
  by (auto simp: grows_def) (metis option.distinct(1))

lemma fields_loop_at:
  assumes "\<forall>e \<in> set es. reads f base k m e" and "\<forall>e \<in> set es. good (lookup_global g0) e"
    and "vector_block g p nm n (ys @ replicate (length es) 0)"
    and "list_all2 (represents f base g (elems_new g0 p g)) ds ys" and "length ys = i"
    and "grows {p - 8} g0 g" and "ptr_ok p"
    and "insert (p - 8) (dom (pmem (proc g0))) \<subseteq> dom (pmem (proc g))"
    and "at_code f c (put_objects es)"
    and "brk (proc g) + 256 * length (put_objects es) < 2 ^ 64"
  shows "\<exists>g' zs. fields_loop (length es) (fasl_datum m f base k) p i g c =
      Inr (g', advance c (length (put_objects es)))
    \<and> grows {p - 8} g g' \<and> vector_block g' p nm n zs
    \<and> list_all2 (represents f base g' (elems_new g0 p g')) (ds @ es) zs
    \<and> brk (proc g') + 56 * length es \<le> brk (proc g) + 256 * length (put_objects es)"
  using assms
proof (induction es arbitrary: g ys ds i c)
  case Nil
  then show ?case
    using grows_refl [OF grows_glob_ok [OF Nil.prems(6)], of "{p - 8}"] by auto
next
  case (Cons e es)
  let ?c = "advance c (length (put_object e))"
  have at: "at_code f c (put_object e)" "at_code f ?c (put_objects es)"
    using Cons.prems(9) by (simp_all add: at_code_append)
  have ok: "glob_ok g" using Cons.prems(6) by (rule grows_glob_ok)
  have ge: "good (lookup_global g) e" using Cons.prems(2) grows_lookup [OF Cons.prems(6)] by simp
  have lim: "brk (proc g) + 256 * length (put_object e) < 2 ^ 64" using Cons.prems(10) by simp
  have rd: "reads f base k m e" using Cons.prems(1) by simp
  from readsD [OF rd at(1) ok ge lim] obtain g1 x where r: "fasl_datum m f base k g c = Inr (g1, ?c, x)"
      "grows {} g g1" "represents f base g1 (new_blocks g g1) e x"
      "brk (proc g1) + 56 \<le> brk (proc g) + 256 * length (put_object e)" by metis
  have v1: "vector_block g1 p nm n (ys @ replicate (Suc (length es)) 0)"
    using vector_block_grows [OF Cons.prems(3) r(2)] by simp
  have i: "i < length (ys @ replicate (Suc (length es)) (0 :: obj))" using Cons.prems(5) by simp
  from put_field_ok [OF v1 i Cons.prems(7) grows_glob_ok [OF r(2)], of x] obtain g2 where p:
      "put_field g1 p i x = Inr g2" "vector_block g2 p nm n ((ys @ replicate (Suc (length es)) 0)[i := x])"
      "grows {p - 8} g1 g2" "brk (proc g2) = brk (proc g1)"
      "pmem (proc g2) |` (- {p - 8}) = pmem (proc g1) |` (- {p - 8})" by metis
  have v2: "vector_block g2 p nm n ((ys @ [x]) @ replicate (length es) 0)"
    using p(2) Cons.prems(5) by (simp add: list_update_append)
  have gr1: "grows {p - 8} g g2" by (rule grows_trans [OF grows_weaken [OF r(2)] p(3)])
  have gr2: "grows {p - 8} g0 g2" by (rule grows_trans [OF Cons.prems(6) gr1])
  have same: "elems_new g0 p g1 = elems_new g0 p g2"
  proof -
    have "elems_new g0 p h = (pmem (proc h) |` (- {p - 8})) |` (- insert (p - 8) (dom (pmem (proc g0))))" for h
      by (rule ext) (simp add: elems_new_def restrict_map_def)
    then show ?thesis using p(5) by metis
  qed
  have le: "mem_le (elems_new g0 p g) (elems_new g0 p g2)"
    using elems_new_grows [of g p g g1 g0] r(2) same by simp
  have old: "list_all2 (represents f base g2 (elems_new g0 p g2)) ds ys"
    using Cons.prems(4) by (rule list_all2_mono) (rule represents_mono [OF _ le gr1])
  have le1: "mem_le (new_blocks g g1) (elems_new g0 p g2)"
    using elems_new_le [OF Cons.prems(8), of g1] same by simp
  have new: "represents f base g2 (elems_new g0 p g2) e x"
    by (rule represents_mono [OF r(3) le1 p(3)])
  have all: "list_all2 (represents f base g2 (elems_new g0 p g2)) (ds @ [e]) (ys @ [x])"
    using old new by (simp add: list_all2_appendI)
  have dm: "insert (p - 8) (dom (pmem (proc g0))) \<subseteq> dom (pmem (proc g2))"
  proof -
    have "dom (pmem (proc g)) \<subseteq> dom (pmem (proc g1))" using r(2) by (auto simp: grows_def)
    moreover have "dom (pmem (proc g1)) \<subseteq> insert (p - 8) (dom (pmem (proc g2)))"
      using p(3) by (auto simp: grows_def)
    moreover have "p - 8 \<in> dom (pmem (proc g2))" using v2 by (auto simp: vector_block_def)
    ultimately show ?thesis using Cons.prems(8) by blast
  qed
  have lim2: "brk (proc g2) + 256 * length (put_objects es) < 2 ^ 64"
    using p(4) r(4) Cons.prems(10) by simp
  have a1: "\<forall>e \<in> set es. reads f base k m e" "\<forall>e \<in> set es. good (lookup_global g0) e"
    "length (ys @ [x]) = Suc i" using Cons.prems(1,2,5) by simp_all
  from Cons.IH [OF a1(1,2) v2 all a1(3) gr2 Cons.prems(7) dm at(2) lim2] obtain g' zs where w:
      "fields_loop (length es) (fasl_datum m f base k) p (Suc i) g2 ?c =
        Inr (g', advance ?c (length (put_objects es)))"
      "grows {p - 8} g2 g'" "vector_block g' p nm n zs"
      "list_all2 (represents f base g' (elems_new g0 p g')) ((ds @ [e]) @ es) zs"
      "brk (proc g') + 56 * length es \<le> brk (proc g2) + 256 * length (put_objects es)" by blast
  then show ?case
    using r(1,4) p(1,4) grows_trans [OF gr1 w(2)] by auto
qed

lemma reads_vector:
  assumes "\<forall>e \<in> set xs. reads f base k n e"
  shows "reads f base k (Suc n) (S_Vector xs)"
  unfolding reads_def
proof (intro allI impI)
  fix g c
  assume at: "at_code f c (put_object (S_Vector xs))" and ok: "glob_ok g"
    and gd: "good (lookup_global g) (S_Vector xs)"
    and lim: "brk (proc g) + 256 * length (put_object (S_Vector xs)) < 2 ^ 64"
  let ?nm = "cstr ''vector''"
  let ?len = "of_nat (length xs) :: u8"
  have po: "put_object (S_Vector xs) = (OT_STRUCT # string_cbv ?nm) @ ?len # put_objects xs" by simp
  have nm: "name_ok ?nm" "length ?nm = 6" by (simp_all add: name_ok_def cstr_def)
  have at1: "at_code f c (OT_STRUCT # string_cbv ?nm)"
    and at2: "at_code f (advance c 9) (?len # put_objects xs)"
    using at [unfolded po] nm(2) by (simp_all add: at_code_append del: append_Cons)
  have n255: "length xs < 256" and ge: "\<forall>e \<in> set xs. good (lookup_global g) e" using gd by simp_all
  have un: "unat ?len = length xs" using n255 by (intro unat_of_nat_u8) simp
  have uc: "(ucast ?len :: 32 word) = of_nat (length xs)"
    by (metis un of_nat_unat)
  have lp: "256 * length (put_object (S_Vector xs)) = 2560 + 256 * length (put_objects xs)"
    using nm(2) by simp
  have l256: "length ?nm < 256" using nm(2) by simp
  have lim1: "brk (proc g) + (length ?nm + 32) < 2 ^ 64" using lim lp nm(2) by simp
  from make_symbol_ok [OF ok l256 lim1] obtain g1 a where s: "make_symbol g ?nm = Inr (g1, MAKE_CONST_PTR a)"
      "grows {} g g1" "hash_table_lookup (sym_table g1) ?nm = Some a"
      "brk (proc g1) \<le> brk (proc g) + (length ?nm + 32)" by metis
  have n: "length xs \<le> length (put_objects xs)" by (rule length_put_objects)
  have lim2: "brk (proc g1) + (55 + 8 * length xs) < 2 ^ 64" using s(4) lim lp nm(2) n by linarith
  from const_struct_ok [OF grows_glob_ok [OF s(2)] n255 lim2, of k "MAKE_CONST_PTR a"] obtain g2 p where st:
      "const_struct k g1 (MAKE_CONST_PTR a) (of_nat (length xs)) = Inr (g2, p)"
      "const_object g1 g2 p t_struct (P_Struct \<lparr>type_name = MAKE_CONST_PTR a, struct_size = int (length xs),
         struct_fields = p + 24, field_slots = replicate (length xs) 0\<rparr>) (55 + 8 * length xs)" by metis
  then have b: "grows {} g1 g2" "pmem (proc g1) (p - 8) = None" "ptr_ok p"
      "vector_block g2 p (MAKE_CONST_PTR a) (length xs) (replicate (length xs) 0)"
      "brk (proc g2) \<le> brk (proc g1) + (55 + 8 * length xs)"
    by (auto simp: const_object_def vector_block_def)
  have gr: "grows {} g g2" by (rule grows_trans [OF s(2) b(1)])
  have no: "pmem (proc g) (p - 8) = None"
    using b(2) s(2) by (cases "pmem (proc g) (p - 8)") (auto simp: grows_def)
  have dm: "insert (p - 8) (dom (pmem (proc g))) \<subseteq> dom (pmem (proc g2))"
    using gr b(4) by (auto simp: grows_def vector_block_def)
  have lim3: "brk (proc g2) + 256 * length (put_objects xs) < 2 ^ 64"
    using b(5) s(4) lim lp nm(2) n n255 by linarith
  have v0: "vector_block g2 p (MAKE_CONST_PTR a) (length xs) ([] @ replicate (length xs) 0)" using b(4) by simp
  from fields_loop_at [OF assms ge v0 _ _ grows_weaken [OF gr] b(3) dm at_tail [OF at2] lim3, of "[]" 0]
  obtain g3 zs where w:
      "fields_loop (length xs) (fasl_datum n f base k) p 0 g2 (advance (advance c 9) 1) =
        Inr (g3, advance (advance (advance c 9) 1) (length (put_objects xs)))"
      "grows {p - 8} g2 g3" "vector_block g3 p (MAKE_CONST_PTR a) (length xs) zs"
      "list_all2 (represents f base g3 (elems_new g p g3)) xs zs"
      "brk (proc g3) + 56 * length xs \<le> brk (proc g2) + 256 * length (put_objects xs)" by auto
  have gr3: "grows {} g g3"
    by (rule grows_strengthen [OF grows_trans [OF grows_weaken [OF gr] w(2)]]) (use no in simp)
  obtain blk where blk: "pmem (proc g3) (p - 8) = Some blk" "type_id (hdr blk) = t_struct"
      "payload blk = P_Struct \<lparr>type_name = MAKE_CONST_PTR a, struct_size = int (length xs),
         struct_fields = p + 24, field_slots = zs\<rparr>"
    using w(3) by (auto simp: vector_block_def)
  have nb: "new_blocks g g3 (p - 8) = Some blk"
    using blk(1) no by (simp add: new_blocks_def restrict_map_def dom_def)
  have sy: "hash_table_lookup (sym_table g3) ?nm = Some a"
    using s(3) grows_trans [OF grows_weaken [OF b(1)] w(2)] by (auto simp: grows_def)
  have le: "mem_le (elems_new g p g3) (new_blocks g g3)"
    by (auto simp: mem_le_def elems_new_def new_blocks_def restrict_map_def split: if_splits)
  have el: "list_all2 (represents f base g3 (new_blocks g g3)) xs zs"
    using w(4) by (rule list_all2_mono) (rule represents_mono [OF _ le grows_refl [OF grows_glob_ok [OF gr3], of "{}"]])
  have hd: "fasl_struct_head f k g (advance c 1) = Inr (g2, advance c 10, p, length xs)"
    using string_at [OF at1 nm(1)] nm(2) s(1) st(1) read8_at [OF at_head [OF at2]] uc un
    by (simp add: fasl_struct_head_def)
  have ld: "length (put_object (S_Vector xs)) = 10 + length (put_objects xs)" using nm(2) by simp
  show "read_result f base g c (S_Vector xs) (fasl_datum (Suc n) f base k g c)"
  proof (rule read_resultI [OF _ HOL.refl gr3])
    show "represents f base g3 (new_blocks g g3) (S_Vector xs) (MAKE_CONST_PTR p)"
      by (rule rep_vector [where m = "new_blocks g g3", OF b(3) nb blk(2,3) sy el])
    show "fasl_datum (Suc n) f base k g c =
        Inr (g3, advance c (length (put_object (S_Vector xs))), MAKE_CONST_PTR p)"
      using read8_at [OF at_head [OF at1]] hd w(1) unfolding ld
      by (simp add: OT_defs)
    show "brk (proc g3) + 56 \<le> brk (proc g) + 256 * length (put_object (S_Vector xs))"
      using w(5) b(5) s(4) lp nm(2) by linarith
  qed
qed

section \<open>All constants\<close>

lemma reads_all: "length (put_object s) \<le> n \<Longrightarrow> reads f base k n s"
proof (induction s arbitrary: n rule: put_object.induct)
  case (8 a d)
  then obtain n' where n: "n = Suc n'" by (cases n) auto
  have "length (put_object e) \<le> n'" if "e \<in> set (pair_prepare [] a d)" for e
  proof -
    have "length (put_object e) \<le> length (put_objects (pair_prepare [] a d))"
      using that by (simp add: length_concat member_le_sum_list)
    then show ?thesis using 8(2) n by simp
  qed
  then show ?case unfolding n using 8(1) by (intro reads_pair) simp
next
  case (9 xs)
  then obtain n' where n: "n = Suc n'" by (cases n) auto
  have "length (put_object e) \<le> n'" if "e \<in> set xs" for e
  proof -
    have "length (put_object e) \<le> length (put_objects xs)"
      using that by (simp add: length_concat member_le_sum_list)
    then show ?thesis using 9(2) n by simp
  qed
  then show ?case unfolding n using 9(1) by (intro reads_vector) simp
qed (metis Suc_le_D is_atom.simps length_put_object less_eq_Suc_le order.trans reads_atom)+

end
