(* ===== verification/Globals_Init.thy ===== *)
theory Globals_Init
  imports Loader_Consts
begin

unbundle bit_operations_syntax

text \<open>
  The global tables after \<^verbatim>\<open>vm_init\<close>: every built-in function is found under its name and leads back
  to its entry, and the loader's invariant holds, so modules can be loaded.
\<close>

definition builtin_entries :: "nat \<Rightarrow> string list \<Rightarrow> (cstring \<times> obj) list" where
  "builtin_entries i nms = map (\<lambda>(j, nm). (cstr nm, MAKE_FUNC (native_addr j))) (enumerate i nms)"

lemma install_all_fold:
  "install_all i nms t = fold (\<lambda>(k, v) m. ht_put m k v) (builtin_entries i nms) t"
  by (induction i nms t rule: install_all.induct) (simp_all add: builtin_entries_def ns_install_native_def)

lemma native_names_distinct: "distinct (map (\<lambda>nt. cstr (fst nt)) natives)"
  by code_simp

lemma length_natives: "length natives = 34" by (simp add: natives_def)

lemma PTR_native: "i < length natives \<Longrightarrow> PTR (MAKE_FUNC (native_addr i)) = native_addr i"
  by (simp add: native_addr_def NATIVE_BASE_def sizeof_native_def length_natives)

lemma native_at_addr: "i < length natives \<Longrightarrow> native_at (native_addr i) = Some (make_native (natives ! i))"
  by (simp add: native_at_def native_addr_def sizeof_native_def)

lemma builtin_entries_parts:
  assumes "i < length nms"
  shows "builtin_entries 0 nms = builtin_entries 0 (take i nms) @
    (cstr (nms ! i), MAKE_FUNC (native_addr i)) # builtin_entries (Suc i) (drop (Suc i) nms)"
proof -
  have "nms = take i nms @ nms ! i # drop (Suc i) nms" by (rule id_take_nth_drop [OF assms])
  then have "enumerate 0 nms = enumerate 0 (take i nms @ nms ! i # drop (Suc i) nms)" by simp
  then show ?thesis using assms by (simp add: builtin_entries_def enumerate_append_eq)
qed

lemma set_builtin_entries: "(k, v) \<in> set (builtin_entries i nms) \<Longrightarrow> k \<in> cstr ` set nms"
  by (auto simp: builtin_entries_def enumerate_eq_zip dest!: set_zip_rightD)

lemma GET_TAG_builtin: "(k, v) \<in> set (builtin_entries i nms) \<Longrightarrow> GET_TAG v = TAG_FUNC"
  by (auto simp: builtin_entries_def)

lemma look_fold_in:
  assumes "hash_table_lookup (fold (\<lambda>(k, v) m. ht_put m k v) kvs t) s = Some v" and "str_table t"
  shows "(s, v) \<in> set kvs \<or> hash_table_lookup t s = Some v"
  using assms
proof (induction kvs arbitrary: t)
  case (Cons kv kvs)
  obtain k w where kv: "kv = (k, w)" by (cases kv)
  have "hash_table_lookup (fold (\<lambda>(k, v) m. ht_put m k v) kvs (ht_put t k w)) s = Some v"
    using Cons.prems(1) kv by simp
  from Cons.IH [OF this str_map.inv_ins [OF Cons.prems(2)]] show ?case
    using str_map.look_ins [OF Cons.prems(2), of k w s] kv by (auto simp: string_equal_def split: if_splits)
qed simp

lemma glob_ok_init_globals: "proc_ok p \<Longrightarrow> glob_ok (init_globals p)"
  using look_fold_in [of "builtin_entries 0 (map fst natives)"
      "hash_table_init string_hash (Some string_equal)"] GET_TAG_builtin
  by (fastforce simp: glob_ok_def init_globals_def proc_ok_def const_allocator_init_def
      lookup_global_def install_all_fold)

text \<open>
  C31: After \<^verbatim>\<open>vm_init\<close> every built-in function of the interpreter is found in the global table
  under its own name, as a tagged function pointer that leads back to its argument count, its name and
  its code; no other name is bound, and the table is well formed.
\<close>

theorem builtins_installed:
  "str_table (builtin (init_globals p))
   \<and> (\<forall>i < length natives.
        lookup_global (init_globals p) (cstr (fst (natives ! i))) = Some (MAKE_FUNC (native_addr i))
        \<and> native_at (PTR (MAKE_FUNC (native_addr i))) = Some (make_native (natives ! i)))
   \<and> (\<forall>s. s \<notin> cstr ` fst ` set natives \<longrightarrow> lookup_global (init_globals p) s = None)"
proof (intro conjI allI impI)
  let ?t = "hash_table_init string_hash (Some string_equal) :: (cstring, obj) hash_table"
  let ?nms = "map fst natives"
  have b: "builtin (init_globals p) = fold (\<lambda>(k, v) m. ht_put m k v) (builtin_entries 0 ?nms) ?t"
    by (simp add: init_globals_def install_all_fold)
  show "str_table (builtin (init_globals p))" unfolding b by (rule str_map.inv_fold) simp
  fix i assume i: "i < length natives"
  then have j: "i < length ?nms" by simp
  have "cstr (fst (natives ! i)) \<notin> cstr ` set (drop (Suc i) ?nms)"
    using native_names_distinct i id_take_nth_drop [OF i]
    by (metis (no_types, lifting) Cons_nth_drop_Suc distinct.simps(2) distinct_drop drop_map image_set list.map_comp
        list.simps(9) nth_map comp_def map_eq_conv)
  then have "\<forall>(k, v) \<in> set (builtin_entries (Suc i) (drop (Suc i) ?nms)). \<not> string_equal k (cstr (fst (natives ! i)))"
    using set_builtin_entries by (fastforce simp: string_equal_def)
  then show "lookup_global (init_globals p) (cstr (fst (natives ! i))) = Some (MAKE_FUNC (native_addr i))"
    unfolding lookup_global_def b builtin_entries_parts [OF j]
    by (intro str_map.look_fold_last) (use i in \<open>simp_all add: string_equal_def\<close>)
  show "native_at (PTR (MAKE_FUNC (native_addr i))) = Some (make_native (natives ! i))"
    using i by (simp add: PTR_native native_at_addr)
next
  fix s assume s: "s \<notin> cstr ` fst ` set natives"
  show "lookup_global (init_globals p) s = None"
  proof (rule ccontr)
    assume "lookup_global (init_globals p) s \<noteq> None"
    then obtain v where "(s, v) \<in> set (builtin_entries 0 (map fst natives))"
      using look_fold_in [of "builtin_entries 0 (map fst natives)"
          "hash_table_init string_hash (Some string_equal)"]
      by (fastforce simp: lookup_global_def init_globals_def install_all_fold)
    then show False using s set_builtin_entries by fastforce
  qed
qed

theorem builtins_installed_witness:
  "lookup_global (init_globals \<lparr>pmem = (\<lambda>_. None), brk = 16, ca_mem = (\<lambda>_. [])\<rparr>) (cstr ''list'')
     = Some (MAKE_FUNC 4256)"
proof -
  have "5 < length natives" "fst (natives ! 5) = ''list''" "native_addr 5 = 4256"
    by (simp_all add: natives_def native_addr_def NATIVE_BASE_def sizeof_native_def)
  then show ?thesis
    using builtins_installed [of "\<lparr>pmem = (\<lambda>_. None), brk = 16, ca_mem = (\<lambda>_. [])\<rparr>"] by metis
qed

end
