(* ===== verification/Module_Roundtrip.thy ===== *)
theory Module_Roundtrip
  imports Globals_Init
begin

unbundle bit_operations_syntax

text \<open>
  The round trip of a whole module: \<^verbatim>\<open>module_parse\<close> on the bytes written by the compiler's
  \<^verbatim>\<open>assemble\<close> gives back its constants, functions and entry point.
\<close>

section \<open>The constant section\<close>

lemma fasl_read_datum_at:
  assumes "at_code f c (put_object s)" "glob_ok g" "good (lookup_global g) s"
    "brk (proc g) + 256 * length (put_object s) < 2 ^ 64"
  obtains g' x where "fasl_read_datum f base k g c = Inr (g', advance c (length (put_object s)), x)"
    "grows {} g g'" "represents f base g' (new_blocks g g') s x"
    "brk (proc g') \<le> brk (proc g) + 256 * length (put_object s)"
proof -
  have "reads f base k (Suc (code_size c)) s"
    using at_code_size [OF assms(1)] by (intro reads_all) simp
  from readsD [OF this assms] obtain g' x where
    r: "fasl_datum (Suc (code_size c)) f base k g c = Inr (g', advance c (length (put_object s)), x)"
      "grows {} g g'" "represents f base g' (new_blocks g g') s x"
      "brk (proc g') + 56 \<le> brk (proc g) + 256 * length (put_object s)" by metis
  show ?thesis by (rule that [OF r(1) [folded fasl_read_datum_def] r(2,3)]) (use r(4) in simp)
qed

lemma load_consts_loop_at:
  assumes "at_code f c (put_objects ss)" "glob_ok g" "\<forall>s \<in> set ss. good (lookup_global g) s"
    "brk (proc g) + 256 * length (put_objects ss) < 2 ^ 64"
  shows "\<exists>g' xs. load_consts_loop (length ss) f base k g c = Inr (g', advance c (length (put_objects ss)), xs)
    \<and> grows {} g g' \<and> list_all2 (represents f base g' (new_blocks g g')) ss xs
    \<and> brk (proc g') \<le> brk (proc g) + 256 * length (put_objects ss)"
  using assms
proof (induction ss arbitrary: g c)
  case Nil
  then show ?case using grows_refl [of g "{}"] by simp
next
  case (Cons s ss)
  let ?c = "advance c (length (put_object s))"
  have at: "at_code f c (put_object s)" "at_code f ?c (put_objects ss)"
    using Cons.prems(1) by (simp_all add: at_code_append)
  have gs: "good (lookup_global g) s" using Cons.prems(3) by simp
  have lim: "brk (proc g) + 256 * length (put_object s) < 2 ^ 64" using Cons.prems(4) by simp
  from fasl_read_datum_at [OF at(1) Cons.prems(2) gs lim] obtain g1 x where r:
    "fasl_read_datum f base k g c = Inr (g1, ?c, x)" "grows {} g g1"
    "represents f base g1 (new_blocks g g1) s x" "brk (proc g1) \<le> brk (proc g) + 256 * length (put_object s)"
    by metis
  have gss: "\<forall>s \<in> set ss. good (lookup_global g1) s" using Cons.prems(3) grows_lookup [OF r(2)] by simp
  have lim1: "brk (proc g1) + 256 * length (put_objects ss) < 2 ^ 64" using Cons.prems(4) r(4) by simp
  from Cons.IH [OF at(2) grows_glob_ok [OF r(2)] gss lim1] obtain g' xs where w:
    "load_consts_loop (length ss) f base k g1 ?c = Inr (g', advance ?c (length (put_objects ss)), xs)"
    "grows {} g1 g'" "list_all2 (represents f base g' (new_blocks g1 g')) ss xs"
    "brk (proc g') \<le> brk (proc g1) + 256 * length (put_objects ss)" by blast
  have "represents f base g' (new_blocks g g') s x"
    by (rule represents_mono [OF r(3) new_blocks_mono [OF r(2) w(2)] w(2)])
  moreover have "list_all2 (represents f base g' (new_blocks g g')) ss xs"
    using w(3) by (rule list_all2_mono)
      (rule represents_mono [OF _ new_blocks_anti [OF r(2)] grows_refl [OF grows_glob_ok [OF w(2)], of "{}"]])
  ultimately show ?case
    using r(1,4) w(1,4) grows_trans [OF r(2) w(2)] by simp
qed

lemma load_consts_at:
  assumes "at_code f c (write_consts ss)" "glob_ok g" "\<forall>s \<in> set ss. good (lookup_global g) s"
    "length ss < 256" "brk (proc g) + 256 * length (write_consts ss) < 2 ^ 64"
  obtains g' xs where "load_consts f base k g c = Inr (g', advance c (length (write_consts ss)), xs)"
    "grows {} g g'" "list_all2 (represents f base g' (new_blocks g g')) ss xs"
proof -
  have at: "at_code f c (of_nat (length ss) # put_objects ss)" using assms(1) by (simp add: write_consts_def)
  have un: "unat (of_nat (length ss) :: u8) = length ss" using assms(4) by (intro unat_of_nat_u8) simp
  have lim: "brk (proc g) + 256 * length (put_objects ss) < 2 ^ 64" using assms(5) by (simp add: write_consts_def)
  from load_consts_loop_at [OF at_tail [OF at] assms(2,3) lim] obtain g' xs where w:
    "load_consts_loop (length ss) f base k g (advance c 1) =
       Inr (g', advance (advance c 1) (length (put_objects ss)), xs)"
    "grows {} g g'" "list_all2 (represents f base g' (new_blocks g g')) ss xs" by blast
  show ?thesis
    using that [OF _ w(2,3)] w(1) read8_at [OF at_head [OF at]] un
    by (simp add: load_consts_def write_consts_def)
qed

section \<open>The whole module\<close>

lemma file_num_at:
  assumes "drop i f = le_bytes n v @ rest" and "v < 256 ^ n" shows "file_num f i n = Inr v"
  using file_bytes_at [OF assms(1)] assms(2) by (simp add: file_num_def le_nat_le_bytes)

lemma glob_ok_init: "glob_ok g \<Longrightarrow> glob_ok (g\<lparr>proc := const_allocator_init k (proc g)\<rparr>)"
  by (simp add: glob_ok_def proc_ok_def const_allocator_init_def lookup_global_def)

lemma glob_ok_brk:
  assumes "glob_ok g" and "brk (proc g) \<le> b"
  shows "glob_ok (g\<lparr>proc := (proc g)\<lparr>brk := b\<rparr>\<rparr>)"
  using assms by (fastforce simp: glob_ok_def proc_ok_def lookup_global_def intro: order_trans)

definition module_ok :: "(cstring \<Rightarrow> obj option) \<Rightarrow> sexp list \<Rightarrow> i_func list \<Rightarrow> nat \<Rightarrow> bool" where
  "module_ok bt ks funcs entry \<longleftrightarrow> length ks < 256 \<and> (\<forall>s \<in> set ks. good bt s)
     \<and> length (write_consts ks) < 2 ^ 32 \<and> length funcs < 2 ^ 16 \<and> entry < 2 ^ 16
     \<and> (\<forall>fn \<in> set funcs. i_func_ok fn)"

lemma assemble_parts:
  fixes ks funcs entry
  defines "f \<equiv> assemble ks funcs entry"
  shows "drop 0 f = le_bytes 4 (length (write_consts ks)) @ le_bytes 2 (length funcs) @ le_bytes 2 entry
      @ write_consts ks @ concat (map assemble_code funcs)"
    and "drop 4 f = le_bytes 2 (length funcs) @ le_bytes 2 entry @ write_consts ks @ concat (map assemble_code funcs)"
    and "drop 6 f = le_bytes 2 entry @ write_consts ks @ concat (map assemble_code funcs)"
    and "drop 8 f = write_consts ks @ concat (map assemble_code funcs)"
    and "length f = 8 + length (write_consts ks) + length (concat (map assemble_code funcs))"
  by (simp_all add: f_def assemble_def number_u16_def Let_def)

text \<open>
  C4: Loading what the compiler wrote gives the module back, for the modules in the predicate \<open>module_ok\<close>:
  counts, sizes, offsets and instruction arguments within their fields, names and strings of fewer than
  255 bytes without a null byte, characters below \<open>2 ^ 16\<close>, numbers of 61 bits, vectors of fewer than 256
  elements, static names that are bound; and two exclusions that are no ranges: no dotted list with three or
  more elements in front of the dot, which the compiler writes and the loader cannot read (C32), and no
  function with a bindmap but without bindings, whose bindmap the loader does not skip. For such a module,
  if memory is not exhausted, \<^verbatim>\<open>module_parse\<close>, on the bytes that
  \<^verbatim>\<open>assemble\<close> of \<^verbatim>\<open>scheme/compiler/fasl.scm\<close> produces,
  neither aborts nor reads outside the file; it returns the functions
  with their headers, bindings and instructions, and for each constant an object that represents it,
  with symbols interned once, strings left in the mapped file, and the list flags and lengths of pairs
  set; existing memory and symbols are not touched.
\<close>

theorem module_parse_assemble:
  assumes ok: "glob_ok g0" and m: "module_ok (lookup_global g0) ks funcs entry"
    and lim: "brk (proc g0) + 16 + 80 * length funcs + 256 * length (write_consts ks) < 2 ^ 64"
  shows "\<exists>g' fb xs. module_parse (assemble ks funcs entry) base modno g0 =
      Inr (g', \<lparr>mod_functions = map (loaded_func modno) funcs, func_base = fb, entry_point = entry,
        fun_count = length funcs, mod_consts = xs\<rparr>)
    \<and> list_all2 (represents (assemble ks funcs entry) base g' (pmem (proc g'))) ks xs
    \<and> grows {} g0 g'"
proof -
  define f where "f = assemble ks funcs entry"
  note parts = assemble_parts [of ks funcs entry, folded f_def]
  let ?cs = "write_consts ks" and ?fs = "concat (map assemble_code funcs)"
  let ?g1 = "g0\<lparr>proc := const_allocator_init modno (proc g0)\<rparr>"
  obtain s1 fb where al: "mem_alloc (proc ?g1) (length funcs * sizeof_func) = (s1, fb)"
    by (cases "mem_alloc (proc ?g1) (length funcs * sizeof_func)")
  have s1: "s1 = (proc ?g1)\<lparr>brk := (brk (proc g0) + 15) div 16 * 16 + length funcs * 80\<rparr>"
    using al by (auto simp: mem_alloc_def Let_def const_allocator_init_def sizeof_func_def)
  let ?g2 = "?g1\<lparr>proc := s1\<rparr>"
  have b2: "brk (proc g0) \<le> (brk (proc g0) + 15) div 16 * 16 + length funcs * 80"
    "(brk (proc g0) + 15) div 16 * 16 + length funcs * 80 \<le> brk (proc g0) + 15 + length funcs * 80"
    by linarith+
  have gk2: "glob_ok ?g2"
    using glob_ok_brk [OF glob_ok_init [OF ok, of modno], of "(brk (proc g0) + 15) div 16 * 16 + length funcs * 80"] b2(1)
    by (simp add: s1 const_allocator_init_def)
  have gr2: "grows {} g0 ?g2"
    using gk2 b2(1) by (simp add: grows_def) (simp add: s1 const_allocator_init_def)
  have bt: "lookup_global ?g2 = lookup_global g0" by (rule grows_lookup [OF gr2])
  have cs: "at_code f \<lparr>code = 8, code_size = length ?cs\<rparr> ?cs"
    using parts(4) by (auto simp: at_code_def)
  have lim2: "brk (proc ?g2) + 256 * length ?cs < 2 ^ 64"
    using lim b2(2) by (simp add: s1)
  have mo: "length ks < 256" "\<forall>s \<in> set ks. good (lookup_global ?g2) s" "length ?cs < 2 ^ 32"
      "length funcs < 2 ^ 16" "entry < 2 ^ 16" "\<forall>fn \<in> set funcs. i_func_ok fn"
    using m bt by (simp_all add: module_ok_def)
  from load_consts_at [OF cs gk2 mo(2,1) lim2, of base modno] obtain g' xs where lc:
      "load_consts f base modno ?g2 \<lparr>code = 8, code_size = length ?cs\<rparr> =
        Inr (g', advance \<lparr>code = 8, code_size = length ?cs\<rparr> (length ?cs), xs)"
      "grows {} ?g2 g'" "list_all2 (represents f base g' (new_blocks ?g2 g')) ks xs" by metis
  let ?c0 = "\<lparr>code = 0, code_size = length f\<rparr>"
  have rb1: "code_read_bytes ?c0 8 = Inr (advance ?c0 8, 0)"
    using read_bytes_at [of 8 ?c0] parts(5) by simp
  have rb2: "code_read_bytes (advance ?c0 8) (length ?cs) = Inr (advance ?c0 (8 + length ?cs), 8)"
    using read_bytes_at [of "length ?cs" "advance ?c0 8"] parts(5) by simp
  have "drop (8 + length ?cs) f = ?fs" using parts(4) by (metis append_eq_conv_conj drop_drop add.commute)
  then have fs: "at_code f (advance ?c0 (8 + length ?cs)) ?fs"
    using parts(5) by (simp add: at_code_def)
  have nums: "file_num f 0 4 = Inr (length ?cs)" "file_num f 4 2 = Inr (length funcs)" "file_num f 6 2 = Inr entry"
    using file_num_at [OF parts(1)] file_num_at [OF parts(2)] file_num_at [OF parts(3)] mo(3-5) by simp_all
  have "module_parse f base modno g0 =
      Inr (g', \<lparr>mod_functions = map (loaded_func modno) funcs, func_base = fb, entry_point = entry,
        fun_count = length funcs, mod_consts = xs\<rparr>)"
    using rb1 rb2 nums al lc(1) parse_funcs_at [OF mo(6) fs, of modno]
    by (simp add: module_parse_def MODULE_HDR_OFFSET_def Let_def)
  moreover have "list_all2 (represents f base g' (pmem (proc g'))) ks xs"
    using lc(3) by (rule list_all2_mono)
      (rule represents_mono [OF _ new_blocks_le grows_refl [OF grows_glob_ok [OF lc(2)], of "{}"]])
  ultimately show ?thesis using grows_trans [OF gr2 lc(2)] unfolding f_def by blast
qed

text \<open>A small module: three constants and a function of two instructions.\<close>

definition ex_globals :: "globals" where
  "ex_globals = init_globals \<lparr>pmem = (\<lambda>_. None), brk = 16, ca_mem = (\<lambda>_. [])\<rparr>"

definition ex_consts :: "sexp list" where
  "ex_consts = [S_Pair (S_Num 7) (S_Pair (S_Symbol [97]) S_Null), S_String [98, 99], S_Vector [S_Bool True]]"

definition ex_funcs :: "i_func list" where
  "ex_funcs = [\<lparr>if_code = [(LOAD_CONST, 0), (FUNC_CALL, 1)], if_size = 1, if_argc = 1, if_swallow = False,
      if_heap = False, if_depth = 0, if_bindings = [], if_bindmap = []\<rparr>]"

lemma ex_globals_ok: "glob_ok ex_globals"
  unfolding ex_globals_def by (rule glob_ok_init_globals) (simp add: proc_ok_def)

theorem module_parse_assemble_witness:
  "\<exists>g' fb xs. module_parse (assemble ex_consts ex_funcs 0) 4096 1 ex_globals =
      Inr (g', \<lparr>mod_functions = map (loaded_func 1) ex_funcs, func_base = fb, entry_point = 0,
        fun_count = length ex_funcs, mod_consts = xs\<rparr>)
    \<and> list_all2 (represents (assemble ex_consts ex_funcs 0) 4096 g' (pmem (proc g'))) ex_consts xs
    \<and> grows {} ex_globals g'"
proof (rule module_parse_assemble)
  show "glob_ok ex_globals" by (rule ex_globals_ok)
  have len: "length (write_consts ex_consts) = 34"
    by (simp add: ex_consts_def write_consts_def number_s64bv_def cstr_def)
  then show "module_ok (lookup_global ex_globals) ex_consts ex_funcs 0"
    by (simp add: module_ok_def ex_consts_def ex_funcs_def name_ok_def i_func_ok_def pair_flag_def ex_bool_eq)
  show "brk (proc ex_globals) + 16 + 80 * length ex_funcs + 256 * length (write_consts ex_consts) < 2 ^ 64"
    using len by (simp add: ex_globals_def init_globals_def const_allocator_init_def ex_funcs_def)
qed

section \<open>Improper lists of three elements\<close>

lemma pair_prepare_acc: "pair_prepare res a d = pair_prepare [] a d @ res"
proof (induction d arbitrary: res a)
  case (S_Pair b d)
  have "pair_prepare (a # r) b d = pair_prepare [] b d @ a # r" for r by (rule S_Pair.IH)
  then show ?case by simp
qed simp_all

lemma const_cons_indeterminate:
  assumes y: "represents f base g (new_blocks g0 g) (S_Pair b e) y" and e: "pair_flag e = None"
    and ok: "glob_ok g" and lim: "brk (proc g) + 55 < 2 ^ 64"
  shows "const_cons k g x y = Inl (Undefined ''indeterminate list flag'')"
proof -
  have 24: "(24 :: nat) < 2 ^ 32" by simp
  have lim': "brk (proc g) + 24 + 31 < 2 ^ 64" using lim by simp
  from const_build [OF ok 24 lim', of k t_pair] obtain q s where bd:
    "const_allocator_alloc k (proc g) (of_nat 24) t_pair = Inr (s, q)"
    "HTYPE (pmem s) q = Some (const_block t_pair 24)" "mem_le (pmem (proc g)) (pmem s)"
    by metis
  have "IS_PAIR (pmem (proc g)) y = Inr True" using represents_IS_PAIR [OF y ok new_blocks_le] by simp
  then have ip: "IS_PAIR (pmem s) y = Inr True" using IS_TYPE_mono [OF bd(3)] by (simp add: IS_PAIR_def)
  from y obtain p c u z where p: "y = MAKE_CONST_PTR p" "ptr_ok p" "new_blocks g0 g (p - 8) = Some c"
      "payload c = P_Pair \<lparr>car = u, cdr = z, pair_list = None,
         pair_length = map_option (\<lambda>n. of_nat (Suc n)) (list_len e)\<rparr>"
    using e by (auto elim!: represents_pairE)
  have "HTYPE (pmem s) p = Some c"
    using p(2,3) mem_leD [OF bd(3) mem_leD [OF new_blocks_le]] by (simp add: HTYPE_at)
  then have pa: "pair_at (pmem s) y = Inr \<lparr>car = u, cdr = z, pair_list = None,
      pair_length = map_option (\<lambda>n. of_nat (Suc n)) (list_len e)\<rparr>"
    using p by (simp add: pair_at_def ptr_ok_PTR bindE_Inr_iff)
  have "\<not> IS_NULL y" using represents_not_null [OF y ok] by simp
  then have "cons_flags (pmem s) (None, None) y = Inl (Undefined ''indeterminate list flag'')"
    using ip pa by (simp add: cons_flags_def)
  then show ?thesis
    using bd(1,2) by (simp add: const_cons_def cons_def allocator_alloc_def const_allocator_def sizeof_pair_def)
qed

text \<open>
  What the loader does with the written elements \<open>t\<close>, \<open>es\<close>, \<open>a\<close> of a list, whatever follows them, when
  \<open>t\<close> and \<open>es\<close> make a pair whose cdr is a pair but no list.
\<close>

lemma improper_prefix_undefined:
  assumes at: "at_code f c (OT_PAIR_BEGIN # put_object t @ put_objects es @ put_object a @ rest)"
    and te: "build_pairs t es = S_Pair b e" and e: "pair_flag e = None"
    and ga: "good (lookup_global g) a" and gd: "good (lookup_global g) (S_Pair b e)"
    and ok: "glob_ok g"
    and lim: "brk (proc g) + 256 * (length (put_object t) + length (put_objects es) + length (put_object a)) < 2 ^ 64"
  shows "fasl_read_datum f base k g c = Inl (Undefined ''indeterminate list flag'')"
proof -
  let ?n = "code_size c"
  let ?c1 = "advance c 1" and ?c = "advance c (Suc (length (put_object t)))"
  let ?c2 = "advance ?c (length (put_objects es))"
  have at1: "at_code f ?c1 (put_object t @ put_objects es @ put_object a @ rest)" using at_tail [OF at] .
  then have at2: "at_code f ?c1 (put_object t)" "at_code f ?c (put_objects es)" "at_code f ?c2 (put_object a)"
    by (simp_all add: at_code_append add.assoc)
  have sz: "length (put_object t) + length (put_objects es) + length (put_object a) \<le> ?n" using at_code_size [OF at] by simp
  have rd: "reads f base k ?n s" if s: "s = t \<or> s = a \<or> s \<in> set es" for s
  proof (rule reads_all)
    have "length (put_object s) \<le> length (put_objects es)" if "s \<in> set es"
      using that by (simp add: length_concat member_le_sum_list)
    then have "length (put_object s) \<le> length (put_object t) + length (put_objects es) + length (put_object a)"
      using s by fastforce
    then show "length (put_object s) \<le> ?n" using sz by simp
  qed
  have ge: "good (lookup_global g) (build_pairs t es)" unfolding te by (rule gd)
  have gt: "good (lookup_global g) t" using good_build [OF ge] by (rule conjunct1)
  have lt: "brk (proc g) + 256 * length (put_object t) < 2 ^ 64" using lim by simp
  from readsD [OF rd at2(1) ok gt lt] obtain g1 x where r:
      "fasl_datum ?n f base k g ?c1 = Inr (g1, ?c, x)" "grows {} g g1"
      "represents f base g1 (new_blocks g g1) t x"
      "brk (proc g1) + 56 \<le> brk (proc g) + 256 * length (put_object t)"
    by (auto simp: plus_1_eq_Suc)
  have re: "\<forall>s \<in> set es. reads f base k ?n s" using rd by simp
  have le: "brk (proc g1) + 256 * length (put_objects es) < 2 ^ 64" using r(4) lim by simp
  have nonempty: "0 < length (put_object t)" using put_object_not_end [of t] by fastforce
  obtain n' where n': "code_size ?c1 = length es + Suc n'"
  proof (rule that)
    show "code_size ?c1 = length es + Suc (code_size ?c1 - Suc (length es))"
      using at_code_size [OF at1] length_put_objects [of es] nonempty unfolding length_append by arith
  qed
  from pairs_loop_prefix [OF re ge r(3,2) at2(2) le] obtain g2 y where w:
      "pairs_loop (length es + Suc n') (fasl_datum ?n f base k) f k g1 ?c (Some x) =
        pairs_loop (Suc n') (fasl_datum ?n f base k) f k g2 ?c2 (Some y)"
      "grows {} g g2" "represents f base g2 (new_blocks g g2) (S_Pair b e) y"
      "brk (proc g2) \<le> brk (proc g1) + 256 * length (put_objects es)"
    unfolding te by blast
  have ga2: "good (lookup_global g2) a" using ga grows_lookup [OF w(2)] by simp
  have ok2: "glob_ok g2" by (rule grows_glob_ok [OF w(2)])
  have la: "brk (proc g2) + 256 * length (put_object a) < 2 ^ 64" using w(4) r(4) lim by simp
  from readsD [OF rd at2(3) ok2 ga2 la] obtain g3 z where v:
      "fasl_datum ?n f base k g2 ?c2 = Inr (g3, advance ?c2 (length (put_object a)), z)" "grows {} g2 g3"
      "brk (proc g3) + 56 \<le> brk (proc g2) + 256 * length (put_object a)"
    by metis
  have y3: "represents f base g3 (new_blocks g g3) (S_Pair b e) y"
    by (rule represents_mono [OF w(3) new_blocks_mono [OF w(2) v(2)] v(2)])
  have l3: "brk (proc g3) + 55 < 2 ^ 64" using v(3) la by linarith
  obtain ty rest where ty: "put_object t = ty # rest" "ty \<noteq> OT_PAIR_END" using put_object_not_end by blast
  obtain ty2 rest2 where ty2: "put_object a = ty2 # rest2" "ty2 \<noteq> OT_PAIR_END" using put_object_not_end by blast
  have pk: "code_peek8 f ?c1 = Inr ty" using at2(1) unfolding ty(1) by (rule peek8_at [OF at_head])
  have pk2: "code_peek8 f ?c2 = Inr ty2" using at2(3) unfolding ty2(1) by (rule peek8_at [OF at_head])
  have "pairs_loop (Suc n') (fasl_datum ?n f base k) f k g2 ?c2 (Some y) =
      Inl (Undefined ''indeterminate list flag'')"
    using pk2 ty2(2) v(1) const_cons_indeterminate [OF y3 e grows_glob_ok [OF v(2)] l3, of k z]
    by (simp del: advance_simps)
  then have "pairs_loop (Suc (code_size ?c1)) (fasl_datum ?n f base k) f k g ?c1 None =
      Inl (Undefined ''indeterminate list flag'')"
    using pk ty(2) r(1) w(1) n' by (simp del: advance_simps)
  then show ?thesis
    using read8_at [OF at_head [OF at]] by (simp add: fasl_read_datum_def del: advance_simps)
qed

text \<open>A dotted list: its elements and what stands behind the dot.\<close>

definition dotted :: "sexp list \<Rightarrow> sexp \<Rightarrow> sexp" where "dotted ks e = foldr S_Pair ks e"

lemma pair_prepare_dotted:
  "pair_prepare [] a (dotted ks d) = pair_prepare [] (last (a # ks)) d @ rev (butlast (a # ks))"
proof (induction ks arbitrary: a)
  case (Cons b ks)
  have "pair_prepare [] a (dotted (b # ks) d) = pair_prepare [] b (dotted ks d) @ [a]"
    using pair_prepare_acc [of "[a]" b "dotted ks d"] by (simp add: dotted_def)
  then show ?case by (simp add: Cons.IH)
qed (simp add: dotted_def)

text \<open>
  C32: A dotted list of three or more elements, like \<open>(a b c . d)\<close>, cannot be a constant. The loader builds
  it from its end. For its second last element it makes a pair whose cdr is a pair but no list, and leaves the list
  flag of the new pair unwritten, in memory that the constant allocator does not clear; for the element in
  front, \<^verbatim>\<open>_cons\<close> reads this flag. So the result depends on indeterminate bits, for every such list, of any length,
  whose elements the loader could read. (Only constants are affected: pairs on the heap get blocks from a space that
  has been cleared.)
\<close>

theorem improper_constant_undefined:
  assumes at: "at_code f c (put_object (dotted ks e))" and n: "3 \<le> length ks" and e: "\<not> is_pair e" "e \<noteq> S_Null"
    and gk: "\<forall>a \<in> set ks. good (lookup_global g) a" and ge: "good (lookup_global g) e"
    and ok: "glob_ok g" and lim: "brk (proc g) + 256 * length (put_object (dotted ks e)) < 2 ^ 64"
  shows "fasl_read_datum f base k g c = Inl (Undefined ''indeterminate list flag'')"
proof -
  obtain zs z y x where "rev ks = z # y # x # zs" using n by (cases "rev ks" rule: remdups_adj.cases; cases "tl (tl (rev ks))") auto
  then have ks: "ks = rev zs @ [x, y, z]" by (metis append.assoc append_Cons append_Nil rev.simps(2) rev_rev_ident)
  let ?e = "S_Pair z e"
  obtain t es where te: "pair_prepare [] y ?e = t # es" "build_pairs t es = S_Pair y ?e"
    using pair_prepare_build [of "[]" y ?e] by (cases "pair_prepare [] y ?e") simp_all
  have ll: "list_len e = None" using e by (cases e) auto
  then have fl: "pair_flag ?e = None" "pair_flag e = Some False" using e(1) by (simp_all add: pair_flag_def)
  have gd: "good (lookup_global g) x" "good (lookup_global g) (S_Pair y ?e)"
    using gk ge fl(2) e(1) by (auto simp: ks split: sexp.splits)
  have dk: "dotted ks e = dotted (rev zs @ [x]) (S_Pair y ?e)" by (simp add: ks dotted_def)
  obtain h hs where h: "rev zs @ [x] = h # hs" by (cases "rev zs @ [x]") simp_all
  have "pair_prepare [] h (dotted hs (S_Pair y ?e)) = pair_prepare [] x (S_Pair y ?e) @ zs"
    using pair_prepare_dotted [of h hs "S_Pair y ?e"] by (simp flip: h)
  moreover have "pair_prepare [] x (S_Pair y ?e) = t # es @ [x]" using te(1) pair_prepare_acc [of "[x]" y ?e] by simp
  moreover have "dotted ks e = S_Pair h (dotted hs (S_Pair y ?e))" unfolding dk h by (simp add: dotted_def)
  ultimately have po: "put_object (dotted ks e) =
      OT_PAIR_BEGIN # put_object t @ put_objects es @ put_object x @ (put_objects zs @ [OT_PAIR_END])"
    by (simp only: put_object.simps) simp
  have "brk (proc g) + 256 * (length (put_object t) + length (put_objects es) + length (put_object x)) < 2 ^ 64"
    using lim unfolding po by simp
  from improper_prefix_undefined [OF at [unfolded po] te(2) fl(1) gd ok this] show ?thesis .
qed

text \<open>The list \<open>(1 2 3 4 . 5)\<close>.\<close>

definition ex_improper :: "sexp" where
  "ex_improper = dotted [S_Num 1, S_Num 2, S_Num 3, S_Num 4] (S_Num 5)"

theorem improper_constant_undefined_witness:
  "fasl_read_datum (put_object ex_improper) 4096 1 ex_globals
      \<lparr>code = 0, code_size = length (put_object ex_improper)\<rparr> =
    Inl (Undefined ''indeterminate list flag'')"
proof -
  have len: "length (put_object ex_improper) = 47" by (simp add: ex_improper_def dotted_def number_s64bv_def)
  show ?thesis
  proof (rule improper_constant_undefined [of _ _ "[S_Num 1, S_Num 2, S_Num 3, S_Num 4]" "S_Num 5"])
    show "at_code (put_object ex_improper) \<lparr>code = 0, code_size = length (put_object ex_improper)\<rparr>
        (put_object (dotted [S_Num 1, S_Num 2, S_Num 3, S_Num 4] (S_Num 5)))"
      by (simp add: at_code_def ex_improper_def)
    show "glob_ok ex_globals" by (rule ex_globals_ok)
    show "brk (proc ex_globals) +
        256 * length (put_object (dotted [S_Num 1, S_Num 2, S_Num 3, S_Num 4] (S_Num 5))) < 2 ^ 64"
      using len by (simp add: ex_improper_def ex_globals_def init_globals_def const_allocator_init_def)
  qed simp_all
qed

end
