(* ===== verification/Loader_Bounds.thy ===== *)
theory Loader_Bounds
  imports Const_Area Loader_Bytes
begin

unbundle bit_operations_syntax

text \<open>
  The loader on arbitrary bytes: whatever the file holds, \<^verbatim>\<open>module_parse\<close> stops, and the checked
  readers never take a byte from outside the mapped file. Only the unchecked \<^verbatim>\<open>strlen\<close> on a string
  constant can leave it.
\<close>

section \<open>Outcomes of a checked reader\<close>

definition bounded :: "'a outcome \<Rightarrow> bool" where
  "bounded r \<longleftrightarrow> r \<noteq> Inl Fuel \<and> r \<noteq> Inl (Undefined ''read past the file'')"

named_theorems bounded_intros \<open>outcomes that are no read past the file\<close>

lemma bounded_simps [simp]:
  "bounded (Inr x)" "bounded (Inl e) \<longleftrightarrow> e \<noteq> Fuel \<and> e \<noteq> Undefined ''read past the file''"
  by (auto simp: bounded_def)

lemma bounded_bindE [bounded_intros]:
  "bounded m \<Longrightarrow> (\<And>x. m = Inr x \<Longrightarrow> bounded (h x)) \<Longrightarrow> bounded (bindE m h)"
  by (auto simp: bounded_def bindE_def split: sum.splits)

lemma bounded_deref [bounded_intros]: "msg \<noteq> ''read past the file'' \<Longrightarrow> bounded (deref x msg)"
  by (cases x) auto

lemma bounded_ASSERT [bounded_intros]: "(c \<Longrightarrow> bounded r) \<Longrightarrow> bounded (ASSERT c msg r)"
  by (simp add: ASSERT_def)

lemma bounded_if [bounded_intros]: "(b \<Longrightarrow> bounded r) \<Longrightarrow> (\<not> b \<Longrightarrow> bounded s) \<Longrightarrow> bounded (if b then r else s)"
  by simp

text \<open>The reader stays inside the file; it moves forward within the bytes it was given.\<close>

definition inside :: "u8 list \<Rightarrow> code_t \<Rightarrow> bool" where
  "inside f c \<longleftrightarrow> code c + code_size c \<le> length f"

definition moves :: "code_t \<Rightarrow> code_t \<Rightarrow> bool" where
  "moves c c' \<longleftrightarrow> code c' + code_size c' = code c + code_size c \<and> code_size c' \<le> code_size c"

lemma moves_refl [simp]: "moves c c" by (simp add: moves_def)

lemma moves_trans: "moves c c' \<Longrightarrow> moves c' c'' \<Longrightarrow> moves c c''" by (simp add: moves_def)

lemma moves_inside: "moves c c' \<Longrightarrow> inside f c \<Longrightarrow> inside f c'" by (simp add: moves_def inside_def)

lemma file_bytes_bounded: "i + n \<le> length f \<Longrightarrow> bounded (file_bytes f i n)"
  by (induction n arbitrary: i) (auto simp: file_byte_def intro!: bounded_intros)

lemma advance_moves: "n \<le> code_size c \<Longrightarrow> moves c (advance c n)"
  by (simp add: moves_def advance_def)

lemma read8_bounded: "inside f c \<Longrightarrow> bounded (code_read8 f c)"
  by (auto simp: code_read8_def CODE_ASSERT_def inside_def file_byte_def intro!: bounded_intros)

lemma read8_moves: "code_read8 f c = Inr (c', b) \<Longrightarrow> moves c c' \<and> code_size c' < code_size c"
  by (auto simp: code_read8_def CODE_ASSERT_def bindE_Inr_iff moves_def advance_def)

lemma peek8_bounded: "inside f c \<Longrightarrow> bounded (code_peek8 f c)"
  by (auto simp: code_peek8_def CODE_ASSERT_def inside_def file_byte_def intro!: bounded_intros)

lemma read16_bounded: "inside f c \<Longrightarrow> bounded (code_read16 f c)"
  by (auto simp: code_read16_def CODE_ASSERT_def inside_def intro!: bounded_intros file_bytes_bounded)

lemma read64_bounded: "inside f c \<Longrightarrow> bounded (code_read64 f c)"
  by (auto simp: code_read64_def CODE_ASSERT_def inside_def intro!: bounded_intros file_bytes_bounded)

lemma read_string_bounded: "inside f c \<Longrightarrow> bounded (code_read_string f c)"
  by (auto simp: code_read_string_def CODE_ASSERT_def intro!: bounded_intros read8_bounded)

lemma read_bytes_bounded: "bounded (code_read_bytes c n)"
  by (auto simp: code_read_bytes_def CODE_ASSERT_def intro!: bounded_intros)

lemma readers_move:
  "code_read16 f c = Inr (c', w) \<Longrightarrow> moves c c'"
  "code_read64 f c = Inr (c', v) \<Longrightarrow> moves c c'"
  "code_read_string f c = Inr (c', p) \<Longrightarrow> moves c c'"
  "code_read_bytes c n = Inr (c', p) \<Longrightarrow> moves c c' \<and> p = code c \<and> c' = advance c n \<and> n \<le> code_size c"
  by (auto simp: code_read16_def code_read64_def code_read_string_def code_read8_def code_read_bytes_def
      CODE_ASSERT_def bindE_Inr_iff moves_def advance_def)

lemma cstring_bounded: "bounded (file_cstring f i)"
proof -
  have "bounded (cstring_of bs)" for bs
    by (induction bs) (auto intro!: bounded_intros)
  then show ?thesis by (simp add: file_cstring_def)
qed

section \<open>Building constants\<close>

lemma allocator_bounded: "bounded (allocator_alloc (const_allocator k) s n tid)"
  by (auto simp: allocator_alloc_def const_allocator_def const_allocator_alloc_def mem_alloc_def Let_def
      split: prod.splits)

lemma make_symbol_bounded: "bounded (make_symbol g s)"
  by (auto simp: make_symbol_def alloc_global_const_def Let_def split: option.splits
      intro!: bounded_intros allocator_bounded)

lemma IS_PAIR_bounded: "bounded (IS_PAIR m x)"
  by (auto simp: IS_PAIR_def IS_TYPE_def intro!: bounded_intros)

lemma cons_flags_bounded: "bounded (cons_flags m i d)"
  by (auto simp: cons_flags_def pair_at_def intro!: bounded_intros IS_PAIR_bounded)

lemma const_cons_bounded: "bounded (const_cons k g a d)"
  by (auto simp: const_cons_def cons_def intro!: bounded_intros allocator_bounded cons_flags_bounded)

lemma const_string_bounded: "bounded (const_string k g a s)"
  by (auto simp: const_string_def string_new_def Let_def intro!: bounded_intros allocator_bounded)

lemma const_struct_bounded: "bounded (const_struct k g nm n)"
  by (auto simp: const_struct_def struct_new_def intro!: bounded_intros allocator_bounded)

lemma put_field_bounded: "bounded (put_field g p i x)"
  by (auto simp: put_field_def intro!: bounded_intros)

section \<open>The constants reader\<close>

text \<open>A reader of one datum that is given fewer than \<open>n\<close> bytes.\<close>

definition reader_ok :: "u8 list \<Rightarrow> nat \<Rightarrow> datum_reader \<Rightarrow> bool" where
  "reader_ok f n rd \<longleftrightarrow> (\<forall>g c. inside f c \<longrightarrow> code_size c < n \<longrightarrow>
     bounded (rd g c) \<and> (\<forall>g' c' x. rd g c = Inr (g', c', x) \<longrightarrow> moves c c' \<and> code_size c' < code_size c))"

lemma reader_okD:
  assumes "reader_ok f n rd" and "inside f c" and "code_size c < n"
  shows "bounded (rd g c)" and "rd g c = Inr (g', c', x) \<Longrightarrow> moves c c' \<and> code_size c' < code_size c"
  using assms unfolding reader_ok_def by blast+

lemma pairs_loop_bounded:
  assumes rd: "reader_ok f n rd" and c: "inside f c" "code_size c < n" "code_size c < m"
  shows "bounded (pairs_loop m rd f k g c res)"
    and "pairs_loop m rd f k g c res = Inr (g', c', x) \<Longrightarrow> moves c c'"
proof -
  have "bounded (pairs_loop m rd f k g c res) \<and>
      (\<forall>g' c' x. pairs_loop m rd f k g c res = Inr (g', c', x) \<longrightarrow> moves c c')"
    using c
  proof (induction m arbitrary: g c res)
    case (Suc m)
    have step: "bounded (pairs_loop m rd f k g1 c1 r) \<and>
        (\<forall>g' c' x. pairs_loop m rd f k g1 c1 r = Inr (g', c', x) \<longrightarrow> moves c c')"
      if "rd g c = Inr (g0, c1, y)" for g0 g1 c1 y r
    proof -
      have m: "moves c c1" "code_size c1 < code_size c" using reader_okD(2) [OF rd Suc.prems(1,2) that] by auto
      then have "bounded (pairs_loop m rd f k g1 c1 r) \<and>
          (\<forall>g' c' x. pairs_loop m rd f k g1 c1 r = Inr (g', c', x) \<longrightarrow> moves c1 c')"
        using Suc.prems moves_inside [OF m(1)] by (intro Suc.IH) auto
      then show ?thesis using moves_trans [OF m(1)] by blast
    qed
    show ?case
    proof (intro conjI allI impI)
      show "bounded (pairs_loop (Suc m) rd f k g c res)"
        using peek8_bounded [OF Suc.prems(1)] read8_bounded [OF Suc.prems(1)] step
          reader_okD(1) [OF rd Suc.prems(1,2), of g] const_cons_bounded
        by (auto intro!: bounded_intros split: option.splits)
      fix g' c' x assume "pairs_loop (Suc m) rd f k g c res = Inr (g', c', x)"
      then show "moves c c'"
        using read8_moves [of f c] step
        by (auto simp: bindE_Inr_iff split: option.splits if_splits) blast+
    qed
  qed simp
  then show "bounded (pairs_loop m rd f k g c res)"
    and "pairs_loop m rd f k g c res = Inr (g', c', x) \<Longrightarrow> moves c c'" by blast+
qed

lemma fields_loop_bounded:
  assumes rd: "reader_ok f n rd" and c: "inside f c" "code_size c < n"
  shows "bounded (fields_loop m rd st i g c)"
    and "fields_loop m rd st i g c = Inr (g', c') \<Longrightarrow> moves c c'"
proof -
  have "bounded (fields_loop m rd st i g c) \<and>
      (\<forall>g' c'. fields_loop m rd st i g c = Inr (g', c') \<longrightarrow> moves c c')"
    using c
  proof (induction m arbitrary: i g c)
    case (Suc m)
    have step: "bounded (fields_loop m rd st (Suc i) g1 c1) \<and>
        (\<forall>g' c'. fields_loop m rd st (Suc i) g1 c1 = Inr (g', c') \<longrightarrow> moves c c')"
      if "rd g c = Inr (g0, c1, y)" for g0 g1 c1 y
    proof -
      have m: "moves c c1" "code_size c1 < code_size c" using reader_okD(2) [OF rd Suc.prems(1,2) that] by auto
      then have "bounded (fields_loop m rd st (Suc i) g1 c1) \<and>
          (\<forall>g' c'. fields_loop m rd st (Suc i) g1 c1 = Inr (g', c') \<longrightarrow> moves c1 c')"
        using Suc.prems moves_inside [OF m(1)] by (intro Suc.IH) auto
      then show ?thesis using moves_trans [OF m(1)] by blast
    qed
    show ?case
      using step reader_okD(1) [OF rd Suc.prems, of g] put_field_bounded
      by (auto intro!: bounded_intros simp: bindE_Inr_iff)
  qed simp
  then show "bounded (fields_loop m rd st i g c)"
    and "fields_loop m rd st i g c = Inr (g', c') \<Longrightarrow> moves c c'" by blast+
qed

lemma atom_bounded:
  assumes "inside f c"
  shows "bounded (fasl_atom f base k g c ty)"
    and "fasl_atom f base k g c ty = Inr (g', c', x) \<Longrightarrow> moves c c'"
proof -
  note b = read8_bounded [OF assms] read16_bounded [OF assms] read64_bounded [OF assms]
    read_string_bounded [OF assms]
  show "bounded (fasl_atom f base k g c ty)"
    using b by (auto simp: fasl_atom_def split: option.splits
        intro!: bounded_intros cstring_bounded make_symbol_bounded const_string_bounded)
  show "fasl_atom f base k g c ty = Inr (g', c', x) \<Longrightarrow> moves c c'"
    by (auto simp: fasl_atom_def bindE_Inr_iff split: option.splits if_splits dest: readers_move read8_moves)
qed

lemma struct_head_bounded:
  assumes "inside f c"
  shows "bounded (fasl_struct_head f k g c)"
    and "fasl_struct_head f k g c = Inr (g', c', st, n) \<Longrightarrow> moves c c'"
proof -
  show "bounded (fasl_struct_head f k g c)"
    using read_string_bounded [OF assms] assms
    by (auto simp: fasl_struct_head_def dest!: readers_move(3)
        intro!: bounded_intros cstring_bounded make_symbol_bounded const_struct_bounded read8_bounded
        intro: moves_inside)
  show "fasl_struct_head f k g c = Inr (g', c', st, n) \<Longrightarrow> moves c c'"
    by (auto simp: fasl_struct_head_def bindE_Inr_iff dest!: readers_move(3) read8_moves intro: moves_trans)
qed

lemma fasl_datum_ok: "reader_ok f n (fasl_datum n f base k)"
proof (induction n)
  case (Suc n)
  show ?case
    unfolding reader_ok_def
  proof (intro allI impI)
    fix g c assume c: "inside f c" "code_size c < Suc n"
    have after: "inside f c1" "code_size c1 < n" "moves c c1" "code_size c1 < code_size c"
      if "code_read8 f c = Inr (c1, ty)" for c1 ty
      using read8_moves [OF that] c moves_inside by auto
    note rd = read8_bounded [OF c(1)]
    show "bounded (fasl_datum (Suc n) f base k g c) \<and>
        (\<forall>g' c' x. fasl_datum (Suc n) f base k g c = Inr (g', c', x) \<longrightarrow> moves c c' \<and> code_size c' < code_size c)"
    proof (cases "code_read8 f c")
      case (Inr p)
      obtain c1 ty where p: "p = (c1, ty)" by (cases p)
      note c1 = after [OF Inr [unfolded p]]
      have less: "moves c c' \<and> code_size c' < code_size c" if "moves c1 c'" for c'
        using that c1(3,4) moves_trans by (auto simp: moves_def)
      consider "ty = OT_PAIR_BEGIN" | "ty \<noteq> OT_PAIR_BEGIN" "ty = OT_STRUCT"
        | "ty \<noteq> OT_PAIR_BEGIN" "ty \<noteq> OT_STRUCT" by blast
      then show ?thesis
      proof cases
        case 1
        then show ?thesis
          using Inr p pairs_loop_bounded [OF Suc.IH c1(1,2), of "Suc (code_size c1)" k g None] less
          by (auto simp del: pairs_loop.simps)
      next
        case 2
        note h = struct_head_bounded [OF c1(1), of k g]
        have fl: "bounded (fields_loop sz (fasl_datum n f base k) st 0 g2 c2)"
          "\<And>g3 c3. fields_loop sz (fasl_datum n f base k) st 0 g2 c2 = Inr (g3, c3) \<Longrightarrow> moves c1 c3"
          if "fasl_struct_head f k g c1 = Inr (g2, c2, st, sz)" for g2 c2 st sz
        proof -
          have m: "moves c1 c2" using h(2) that by blast
          then have i: "inside f c2" "code_size c2 < n" using c1(1,2) moves_inside by (auto simp: moves_def)
          show "bounded (fields_loop sz (fasl_datum n f base k) st 0 g2 c2)"
            by (rule fields_loop_bounded(1) [OF Suc.IH i])
          show "moves c1 c3" if "fields_loop sz (fasl_datum n f base k) st 0 g2 c2 = Inr (g3, c3)" for g3 c3
            using fields_loop_bounded(2) [OF Suc.IH i that] m moves_trans by blast
        qed
        then show ?thesis
          using 2 Inr p h(1) less by (auto intro!: bounded_intros simp: bindE_Inr_iff)
      next
        case 3
        then show ?thesis
          using Inr p atom_bounded [OF c1(1)] less by auto
      qed
    next
      case (Inl e)
      then show ?thesis using rd by simp
    qed
  qed
qed (simp add: reader_ok_def)

lemma fasl_read_datum_ok:
  assumes "inside f c"
  shows "bounded (fasl_read_datum f base k g c)"
    and "fasl_read_datum f base k g c = Inr (g', c', x) \<Longrightarrow> moves c c'"
  using reader_okD [OF fasl_datum_ok assms, where n = "Suc (code_size c)"]
  by (auto simp: fasl_read_datum_def simp del: fasl_datum.simps)

lemma load_consts_bounded: "inside f c \<Longrightarrow> bounded (load_consts f base k g c)"
proof -
  have loop: "bounded (load_consts_loop n f base k g c)" if "inside f c" for n g c
    using that
  proof (induction n arbitrary: g c)
    case (Suc n)
    then show ?case
      using fasl_read_datum_ok [OF Suc.prems, of base k g] moves_inside [OF _ Suc.prems]
      by (auto intro!: bounded_intros Suc.IH)
  qed simp
  assume "inside f c"
  then show ?thesis
    unfolding load_consts_def
    by (auto intro!: bounded_intros read8_bounded loop dest!: read8_moves intro: moves_inside)
qed

section \<open>Functions and the module\<close>

lemma file_u16s_bounded: "i + 2 * n \<le> length f \<Longrightarrow> bounded (file_u16s f i n)"
  by (induction n arbitrary: i) (auto intro!: bounded_intros file_bytes_bounded)

lemma parse_bindings_bounded:
  assumes "inside f c"
  shows "bounded (parse_bindings f c bc bmc)"
    and "parse_bindings f c bc bmc = Inr (c', bs, bm) \<Longrightarrow> moves c c'"
proof -
  show "bounded (parse_bindings f c bc bmc)"
    using assms by (auto simp: parse_bindings_def inside_def advance_def dest!: readers_move(4)
        intro!: bounded_intros read_bytes_bounded file_u16s_bounded)
  show "parse_bindings f c bc bmc = Inr (c', bs, bm) \<Longrightarrow> moves c c'"
    by (auto simp: parse_bindings_def bindE_Inr_iff split: if_splits dest!: readers_move(4) intro: moves_trans)
qed

lemma parse_func_bounded:
  assumes "inside f c"
  shows "bounded (parse_func f modno c)"
    and "parse_func f modno c = Inr (c', fn) \<Longrightarrow> moves c c'"
proof -
  have hd: "bounded (file_u16s f hp 8)" if "code_read_bytes c FUN_HDR_SIZE = Inr (c1, hp)" for c1 hp
    using readers_move(4) [OF that] assms by (intro file_u16s_bounded) (auto simp: inside_def FUN_HDR_SIZE_def)
  have code: "bounded (file_u16s f op (2 * n))" if "code_read_bytes c2 (n * 4) = Inr (c3, op)" "inside f c2" for c2 c3 op n
    using readers_move(4) [OF that(1)] that(2) by (intro file_u16s_bounded) (auto simp: inside_def)
  have i1: "inside f c1" if "code_read_bytes c FUN_HDR_SIZE = Inr (c1, hp)" for c1 hp
    using readers_move(4) [OF that] assms moves_inside by blast
  have i2: "inside f c2"
    if "code_read_bytes c FUN_HDR_SIZE = Inr (c1, hp)" "parse_bindings f c1 b m = Inr (c2, bs, bm)" for c1 hp b m c2 bs bm
    using parse_bindings_bounded(2) [OF i1 [OF that(1)] that(2)] i1 [OF that(1)] moves_inside by blast
  show "bounded (parse_func f modno c)"
    unfolding parse_func_def
    by (intro bounded_bindE read_bytes_bounded)
      (auto intro!: bounded_intros read_bytes_bounded parse_bindings_bounded(1) intro: hd i1 i2 code)
  show "parse_func f modno c = Inr (c', fn) \<Longrightarrow> moves c c'"
    using assms by (auto simp: parse_func_def bindE_Inr_iff dest!: readers_move(4)
        parse_bindings_bounded(2) [rotated] intro: moves_trans moves_inside)
qed

lemma parse_funcs_bounded: "inside f c \<Longrightarrow> bounded (parse_funcs n f modno c)"
proof (induction n arbitrary: c)
  case (Suc n)
  then show ?case
    using parse_func_bounded [OF Suc.prems, of modno] moves_inside [OF _ Suc.prems]
    by (auto intro!: bounded_intros Suc.IH)
qed simp

text \<open>
  C33: Whatever bytes a module file holds, \<^verbatim>\<open>module_parse\<close> stops (the recursion over nested constants
  and the loop over a list never run out of their bounds, because every round takes a byte), and the
  checked readers of \<^verbatim>\<open>code_t\<close> never take a byte from outside the mapped file: lengths and counts in the
  file are compared with the bytes that are left before they are used.
\<close>

theorem module_parse_bounded:
  "module_parse f base modno g \<noteq> Inl Fuel
   \<and> module_parse f base modno g \<noteq> Inl (Undefined ''read past the file'')"
proof -
  let ?c = "\<lparr>code = 0, code_size = length f\<rparr>"
  have i0: "inside f ?c" by (simp add: inside_def)
  have "bounded (module_parse f base modno g)"
  proof (cases "code_read_bytes ?c MODULE_HDR_OFFSET")
    case (Inr p)
    obtain c1 hp where p: "p = (c1, hp)" by (cases p)
    have h: "hp = 0" "8 \<le> length f" "inside f c1"
      using readers_move(4) [OF Inr [unfolded p]] i0 moves_inside by (auto simp: MODULE_HDR_OFFSET_def)
    have nums: "bounded (file_num f hp 4)" "bounded (file_num f (hp + 4) 2)" "bounded (file_num f (hp + 6) 2)"
      using h(1,2) by (auto simp: file_num_def intro!: bounded_intros file_bytes_bounded)
    have rest: "inside f c2" "inside f \<lparr>code = cp, code_size = n\<rparr>" if "code_read_bytes c1 n = Inr (c2, cp)" for c2 cp n
      using readers_move(4) [OF that] h(3) moves_inside by (auto simp: inside_def)
    show ?thesis
      using Inr p nums unfolding module_parse_def Let_def
      by (auto split: prod.splits intro!: bounded_intros read_bytes_bounded load_consts_bounded parse_funcs_bounded
          rest)
  next
    case (Inl e)
    then show ?thesis using read_bytes_bounded [of ?c MODULE_HDR_OFFSET]
      by (simp add: module_parse_def Let_def)
  qed
  then show ?thesis by (simp add: bounded_def)
qed

lemma cstring_of_unterminated: "0 \<notin> set s \<Longrightarrow> cstring_of s = Inl (Undefined ''strlen past the file'')"
  by (induction s) auto

text \<open>
  C34: The lengths of the strings in a module are checked, their terminators are not. A string constant, or the name
  of a symbol, of a built-in function or of a structure's type, whose bytes end with the file and hold no terminating null, makes the
  string functions that get its address (\<^verbatim>\<open>strlen\<close> in \<^verbatim>\<open>_string\<close> and in \<^verbatim>\<open>string_hash\<close>) run past
  the mapped file, although the length byte was compared with the bytes that are left.
\<close>

theorem unterminated_string_undefined:
  assumes at: "at_code f c (ty # of_nat (length s) # s)" and ty: "ty \<in> {OT_STRING, OT_SYMBOL, OT_STATIC, OT_STRUCT}"
    and n: "length s < 256" and z: "0 \<notin> set s" and e: "code c + 2 + length s = length f"
  shows "fasl_read_datum f base k g c = Inl (Undefined ''strlen past the file'')"
proof -
  have a: "at_code f c [ty]" "at_code f (advance c 1) (of_nat (length s) # s)"
    using at at_code_Cons [of f c ty] by blast+
  then have b: "at_code f (advance c 1) [of_nat (length s)]" "at_code f (advance c 2) s"
    using at_code_Cons [of f "advance c 1" "of_nat (length s)" s] by (auto simp: numeral_2_eq_2)
  have "unat (of_nat (length s) :: u8) = length s" using n by (intro unat_of_nat_u8) simp
  then have rs: "code_read_string f (advance c 1) = Inr (advance c (2 + length s), code c + 2)"
    using read8_at [OF b(1)] b(2)
    by (simp add: code_read_string_def CODE_ASSERT_def at_code_def add.commute numeral_2_eq_2)
  have "drop (code c + 2) f = s"
  proof -
    obtain rest where r: "drop (code c + 2) f = s @ rest" using b(2) by (auto simp: at_code_def)
    have "length (drop (code c + 2) f) = length s" using e by simp
    then have "rest = []" unfolding r by simp
    then show ?thesis using r by simp
  qed
  then have fc: "file_cstring f (code c + 2) = Inl (Undefined ''strlen past the file'')"
    using cstring_of_unterminated [OF z] by (simp add: file_cstring_def)
  show ?thesis
  proof (cases "ty = OT_STRUCT")
    case True
    then show ?thesis
      using read8_at [OF a(1)] rs fc by (simp add: fasl_read_datum_def fasl_struct_head_def OT_defs)
  next
    case False
    then have "fasl_atom f base k g (advance c 1) ty = Inl (Undefined ''strlen past the file'')"
      using ty rs fc by (auto simp: fasl_atom_def OT_defs)
    then show ?thesis using read8_at [OF a(1)] False ty by (auto simp: fasl_read_datum_def OT_defs)
  qed
qed

text \<open>The symbol "a" at the end of a file of three bytes.\<close>

theorem unterminated_string_undefined_witness:
  "fasl_read_datum [3, 1, 97] 4096 1 (init_globals \<lparr>pmem = (\<lambda>_. None), brk = 16, ca_mem = (\<lambda>_. [])\<rparr>)
      \<lparr>code = 0, code_size = 3\<rparr> = Inl (Undefined ''strlen past the file'')"
  using unterminated_string_undefined [of "[3, 1, 97]" "\<lparr>code = 0, code_size = 3\<rparr>" OT_SYMBOL "[97]" 4096 1
      "init_globals \<lparr>pmem = (\<lambda>_. None), brk = 16, ca_mem = (\<lambda>_. [])\<rparr>"]
  by (simp add: at_code_def OT_defs)

end
