(* ===== verification/Stack_Machine.thy ===== *)
theory Stack_Machine
  imports Interp
begin

unbundle bit_operations_syntax

text \<open>
  The interpreter on values that are not heap objects refines a stack machine on mathematical integers
  and booleans: its state is an instruction index and a list of values, and it has no words, tags, or
  encodings. The simulation covers the fetch and decode of the opcodes, the tagging of numbers,
  arithmetic and its wrap-around, comparisons, jumps, constants and locals on the operand stack.
\<close>

section \<open>The reference machine\<close>

datatype val = VInt int | VBool bool | VObj obj

definition val_of :: "obj \<Rightarrow> val" where
  "val_of x = (if IS_FIXNUM x then VInt (sint (FIXNUM x)) else if x = ctrue then VBool True
     else if x = cfalse then VBool False else VObj x)"

text \<open>Numbers wrap around at 61 bits.\<close>

definition wrap61 :: "int \<Rightarrow> int" where "wrap61 n = signed_take_bit 60 n"

text \<open>The operations on two numbers; \<open>None\<close> where the C code is undefined.\<close>

fun int_op :: "opcode \<Rightarrow> int \<Rightarrow> int \<Rightarrow> val option" where
  "int_op OP_ADD a b = Some (VInt (wrap61 (a + b)))"
| "int_op OP_SUB a b = Some (VInt (wrap61 (a - b)))"
| "int_op OP_MUL a b = (if - (2 ^ 63) \<le> a * b \<and> a * b < 2 ^ 63 then Some (VInt (wrap61 (a * b))) else None)"
| "int_op OP_DIV a b = (if b = 0 then None else Some (VInt (wrap61 (a sdiv b))))"
| "int_op OP_MOD a b = (if b = 0 then None else Some (VInt (a smod b)))"
| "int_op OP_BIT_AND a b = Some (VInt (a AND b))"
| "int_op OP_BIT_IOR a b = Some (VInt (a OR b))"
| "int_op OP_BIT_XOR a b = Some (VInt (a XOR b))"
| "int_op OP_EQ a b = Some (VBool (a = b))"
| "int_op OP_LT a b = Some (VBool (a < b))"
| "int_op OP_GT a b = Some (VBool (a > b))"
| "int_op _ a b = None"

record machine =
  code :: "(opcode \<times> int) list"
  pool :: "val list"
  base :: nat
  limit :: nat

text \<open>
  One step: the instruction index and the stack, top first. Locals are the stack cells from \<open>base\<close> on,
  counted from the bottom; \<open>None\<close> is a stuck machine.
\<close>

definition local_ix :: "machine \<Rightarrow> int \<Rightarrow> nat" where "local_ix M n = base M + nat n"

definition value_step :: "machine \<Rightarrow> opcode \<Rightarrow> int \<Rightarrow> val list \<Rightarrow> val list option" where
  "value_step M op n s =
     (case op of
        PUSH_BOOL \<Rightarrow> Some (VBool (n \<noteq> 0) # s)
      | PUSH_NULL \<Rightarrow> Some (VObj cnull # s)
      | LOAD_CONST \<Rightarrow> if 0 \<le> n \<and> nat n < length (pool M) then Some (pool M ! nat n # s) else None
      | LOAD_LOCAL \<Rightarrow>
          if 0 \<le> n \<and> local_ix M n < length s then Some (rev s ! local_ix M n # s) else None
      | SET_LOCAL \<Rightarrow>
          (case s of
             x # s' \<Rightarrow> if 0 \<le> n \<and> local_ix M n < length s' then Some (rev ((rev s')[local_ix M n := x])) else None
           | [] \<Rightarrow> None)
      | OP_NOT \<Rightarrow> (case s of x # s' \<Rightarrow> Some (VBool (x = VBool False) # s') | [] \<Rightarrow> None)
      | OP_EQ_PTR \<Rightarrow> (case s of y # x # s' \<Rightarrow> Some (VBool (x = y) # s') | _ \<Rightarrow> None)
      | _ \<Rightarrow> (case s of VInt b # VInt a # s' \<Rightarrow> map_option (\<lambda>c. c # s') (int_op op a b) | _ \<Rightarrow> None))"

definition machine_step :: "machine \<Rightarrow> nat \<times> val list \<Rightarrow> (nat \<times> val list) option" where
  "machine_step M = (\<lambda>(i, s).
     if i < length (code M) then
       (case code M ! i of
          (JUMP_FORWARD, n) \<Rightarrow> if 0 \<le> int i + 1 + n then Some (nat (int i + 1 + n), s) else None
        | (JUMP_IF_FALSE, n) \<Rightarrow>
            (case s of
               [] \<Rightarrow> None
             | x # s' \<Rightarrow> if x = VBool False
                         then if 0 \<le> int i + 1 + n then Some (nat (int i + 1 + n), s') else None
                         else Some (Suc i, s'))
        | (op, n) \<Rightarrow>
            (case value_step M op n s of
               Some s' \<Rightarrow> if length s' < limit M then Some (Suc i, s') else None
             | None \<Rightarrow> None))
     else None)"

fun machine_run :: "machine \<Rightarrow> nat \<Rightarrow> nat \<times> val list \<Rightarrow> (nat \<times> val list) option" where
  "machine_run M 0 c = Some c"
| "machine_run M (Suc k) c = Option.bind (machine_step M c) (machine_run M k)"

section \<open>Numbers\<close>

lemma fixnum_test [simp]:
  "IS_FIXNUM (MAKE_FIXNUM v)" "\<not> IS_FIXNUM cnull" "\<not> IS_FIXNUM ctrue" "\<not> IS_FIXNUM cfalse"
  by (simp_all add: is_tag_defs TAG_distinct(5) [symmetric])

lemma const_distinct [simp]: "cnull \<noteq> ctrue" "cnull \<noteq> cfalse" "ctrue \<noteq> cfalse" "cfalse \<noteq> ctrue"
  by (simp_all add: const_defs ADD_TAG_def tag_defs TAG_SIZE_def)

lemma val_of_simps [simp]:
  "val_of (MAKE_FIXNUM v) = VInt (wrap61 (sint v))" "val_of (CIF b) = VBool b" "val_of cnull = VObj cnull"
  by (auto simp: val_of_def wrap61_def sint_FIXNUM_MAKE CIF_def)

lemma val_of_IntD: "val_of x = VInt n \<Longrightarrow> IS_FIXNUM x \<and> n = sint (FIXNUM x)"
  by (auto simp: val_of_def split: if_splits)

lemma val_of_inj: "val_of x = val_of y \<longleftrightarrow> x = y"
proof
  assume e: "val_of x = val_of y"
  show "x = y"
  proof (cases "IS_FIXNUM x")
    case True
    then have "val_of y = VInt (sint (FIXNUM x))" using e by (simp add: val_of_def)
    from val_of_IntD [OF this] have "IS_FIXNUM y" "FIXNUM x = FIXNUM y" by (auto intro: signed_word_eqI)
    then show ?thesis using True by (metis MAKE_FIXNUM_FIXNUM)
  next
    case False
    then show ?thesis using e by (auto simp: val_of_def split: if_splits)
  qed
qed simp

lemma val_of_False: "val_of x = VBool False \<longleftrightarrow> IS_FALSE x"
  using val_of_inj [of x cfalse] val_of_simps(2) [of False] by (simp add: IS_FALSE_def CIF_def)

lemma wrap61_sint: "wrap61 (sint (of_int n :: u64)) = wrap61 n"
  by (rule bit_eqI) (auto simp: wrap61_def bit_simps min_def)

text \<open>Both operands fit, so bitwise operations and the remainder fit.\<close>

lemma wrap61_id: "- (2 ^ 60) \<le> n \<Longrightarrow> n < 2 ^ 60 \<Longrightarrow> wrap61 n = n"
  by (simp add: wrap61_def signed_take_bit_int_eq_self)

lemma wrap61_bits:
  assumes "wrap61 a = a" "wrap61 b = b"
  shows "wrap61 (a AND b) = a AND b" "wrap61 (a OR b) = a OR b" "wrap61 (a XOR b) = a XOR b"
proof -
  have "wrap61 (a AND b) = wrap61 a AND wrap61 b" "wrap61 (a OR b) = wrap61 a OR wrap61 b"
      "wrap61 (a XOR b) = wrap61 a XOR wrap61 b"
    by (auto intro!: bit_eqI simp: wrap61_def bit_simps)
  with assms show "wrap61 (a AND b) = a AND b" "wrap61 (a OR b) = a OR b" "wrap61 (a XOR b) = a XOR b"
    by simp_all
qed

lemma FIXNUM_wrap61: "wrap61 (sint (FIXNUM x)) = sint (FIXNUM x)"
  using FIXNUM_range by (simp add: wrap61_id)

lemma smod_fits:
  fixes a b :: int
  assumes "- (2 ^ 60) \<le> b" "b < 2 ^ 60" "b \<noteq> 0"
  shows "wrap61 (a smod b) = a smod b"
proof (rule wrap61_id)
  have "\<bar>a smod b\<bar> < \<bar>b\<bar>" using assms(3) by (simp add: signed_modulo_int_def abs_mult)
  then show "- (2 ^ 60) \<le> a smod b" "a smod b < 2 ^ 60" using assms(1,2) by linarith+
qed

section \<open>Simulation\<close>

definition stack_vals :: "vm_thread \<Rightarrow> val list" where
  "stack_vals t = rev (map val_of (take (op_stack_idx t) (opstack t)))"

definition stack_ok :: "vm_thread \<Rightarrow> bool" where
  "stack_ok t \<longleftrightarrow> length (opstack t) = op_stack_size t \<and> op_stack_idx t < op_stack_size t"

text \<open>The instructions of a function, and what they have to do with its words.\<close>

definition encodes :: "16 word list \<Rightarrow> (opcode \<times> int) list \<Rightarrow> bool" where
  "encodes ws prog \<longleftrightarrow> length ws = 2 * length prog
     \<and> (\<forall>i < length prog. decode_op (ws ! (2 * i)) = Some (fst (prog ! i)) \<and> sint (ws ! (2 * i + 1)) = snd (prog ! i))"

lemma take_upd: "i < length xs \<Longrightarrow> take (Suc i) (xs[i := x]) = take i xs @ [x]"
  by (simp add: take_Suc_conv_app_nth)

lemma push_vals:
  assumes "stack_ok t" "Suc (op_stack_idx t) < op_stack_size t"
  shows "\<exists>t'. STACK_PUSH t x = Inr t' \<and> stack_vals t' = val_of x # stack_vals t \<and> stack_ok t'
    \<and> (\<exists>st i. t' = t\<lparr>opstack := st, op_stack_idx := i\<rparr>)"
  using assms by (auto simp: STACK_PUSH_def stack_ok_def stack_vals_def take_upd)

lemma pop_vals:
  assumes "stack_ok t" "stack_vals t = w # s"
  obtains x t' where "STACK_POP t = Inr (t', x)" "val_of x = w" "stack_vals t' = s" "stack_ok t'"
    "t' = t\<lparr>op_stack_idx := op_stack_idx t - 1\<rparr>" "0 < op_stack_idx t"
proof -
  have "op_stack_idx t \<noteq> 0" using assms(2) by (cases "op_stack_idx t") (simp_all add: stack_vals_def)
  then obtain i where i: "op_stack_idx t = Suc i" by (cases "op_stack_idx t") auto
  have l: "i < length (opstack t)" using assms(1) i by (simp add: stack_ok_def)
  have "val_of (opstack t ! i) # rev (map val_of (take i (opstack t))) = w # s"
    using assms(2) l i by (simp add: stack_vals_def take_Suc_conv_app_nth)
  then show ?thesis
    using that [of "t\<lparr>op_stack_idx := op_stack_idx t - 1\<rparr>" "opstack t ! i"] assms(1) i
    by (simp add: STACK_POP_def stack_vals_def stack_ok_def)
qed

text \<open>The operations on two fixnums.\<close>

lemma arith_int_op:
  assumes "int_op op (sint (FIXNUM x)) (sint (FIXNUM y)) = Some (VInt k)"
  shows "\<exists>w. arith op (FIXNUM x) (FIXNUM y) = Inr w \<and> wrap61 (sint w) = k"
proof -
  let ?a = "FIXNUM x" and ?b = "FIXNUM y"
  have sum: "?a + ?b = of_int (sint ?a + sint ?b)" "?a - ?b = of_int (sint ?a - sint ?b)"
      "?a * ?b = of_int (sint ?a * sint ?b)" by simp_all
  have w: "wrap61 (sint (?a + ?b)) = wrap61 (sint ?a + sint ?b)"
      "wrap61 (sint (?a - ?b)) = wrap61 (sint ?a - sint ?b)"
      "wrap61 (sint (?a * ?b)) = wrap61 (sint ?a * sint ?b)"
    by (simp_all only: sum wrap61_sint)
  have z: "sint ?b = 0 \<longleftrightarrow> ?b = 0" using signed_word_eqI [of ?b 0] by auto
  have m: "wrap61 (sint ?a smod sint ?b) = sint ?a smod sint ?b" if "sint ?b \<noteq> 0"
    by (rule smod_fits) (use FIXNUM_range [of y] that in auto)
  show ?thesis
  proof (cases op)
    case OP_ADD
    then show ?thesis using assms w by simp
  next
    case OP_SUB
    then show ?thesis using assms w by simp
  next
    case OP_MUL
    then show ?thesis using assms w by (auto simp: long_mul_def split: if_splits)
  next
    case OP_DIV
    then show ?thesis using assms z by (auto simp: wrap61_sint split: if_splits)
  next
    case OP_MOD
    then show ?thesis using assms z m by (auto simp: wrap61_sint split: if_splits)
  next
    case OP_BIT_AND
    then show ?thesis using assms wrap61_bits [OF FIXNUM_wrap61 FIXNUM_wrap61, of x y] by (auto simp: signed_and_eq)
  next
    case OP_BIT_IOR
    then show ?thesis using assms wrap61_bits [OF FIXNUM_wrap61 FIXNUM_wrap61, of x y] by (auto simp: signed_or_eq)
  next
    case OP_BIT_XOR
    then show ?thesis using assms wrap61_bits [OF FIXNUM_wrap61 FIXNUM_wrap61, of x y] by (auto simp: signed_xor_eq)
  qed (use assms in auto)
qed

lemma compare_int_op:
  "int_op op (sint (FIXNUM x)) (sint (FIXNUM y)) = Some (VBool b) \<Longrightarrow>
     op \<in> {OP_EQ, OP_LT, OP_GT} \<and> compare_longs op (FIXNUM x) (FIXNUM y) = b"
  by (cases op) (auto simp: signed_word_eqI split: if_splits)

lemma int_op_result: "int_op op a b = Some c \<Longrightarrow> (\<exists>k. c = VInt k) \<or> (\<exists>q. c = VBool q)"
  by (cases op) (auto split: if_splits)

lemma fetch_vals:
  assumes "stack_ok t" "stack_vals t = w2 # w1 # s"
  obtains x y t' where "FETCH_AB t = Inr (t', x, y)" "val_of x = w1" "val_of y = w2" "stack_vals t' = s"
    "stack_ok t'" "t' = t\<lparr>op_stack_idx := op_stack_idx t - 2\<rparr>" "Suc (op_stack_idx t') < op_stack_size t"
proof -
  from pop_vals [OF assms] obtain y t1 where y: "STACK_POP t = Inr (t1, y)" "val_of y = w2"
      "stack_vals t1 = w1 # s" "stack_ok t1" "t1 = t\<lparr>op_stack_idx := op_stack_idx t - 1\<rparr>" "0 < op_stack_idx t"
    by blast
  from pop_vals [OF y(4,3)] obtain x t2 where x: "STACK_POP t1 = Inr (t2, x)" "val_of x = w1"
      "stack_vals t2 = s" "stack_ok t2" "t2 = t1\<lparr>op_stack_idx := op_stack_idx t1 - 1\<rparr>" "0 < op_stack_idx t1"
    by blast
  show ?thesis
    using that [of t2 x y] x y assms(1) by (simp add: FETCH_AB_def stack_ok_def)
qed

text \<open>What a step changes: the stack.\<close>

definition stack_only :: "vm_thread \<Rightarrow> vm_thread \<Rightarrow> bool" where
  "stack_only t t' \<longleftrightarrow> (\<exists>st i. t' = t\<lparr>opstack := st, op_stack_idx := i\<rparr>)"

lemma stack_only_simps [simp]: "stack_only t t" "stack_only t (t\<lparr>op_stack_idx := i\<rparr>)"
    "stack_only t (t\<lparr>opstack := st, op_stack_idx := i\<rparr>)" "stack_only t (t\<lparr>opstack := st\<rparr>)"
  unfolding stack_only_def by (cases t; auto)+

lemma stack_only_trans: "stack_only t t' \<Longrightarrow> stack_only t' t'' \<Longrightarrow> stack_only t t''"
  by (cases t) (auto simp: stack_only_def)

text \<open>\<open>yields t r s\<close>: the operation returns with the stack \<open>s\<close>.\<close>

definition yields :: "vm_thread \<Rightarrow> vm_thread outcome \<Rightarrow> val list \<Rightarrow> bool" where
  "yields t r s \<longleftrightarrow> (\<exists>t'. r = Inr t' \<and> stack_vals t' = s \<and> stack_ok t' \<and> stack_only t t')"

lemma yields_push:
  assumes "stack_ok t" "Suc (op_stack_idx t) < op_stack_size t" "stack_only t0 t" "val_of x = w" "stack_vals t = s"
  shows "yields t0 (STACK_PUSH t x) (w # s)"
proof -
  from push_vals [OF assms(1,2), of x] obtain t' where t': "STACK_PUSH t x = Inr t'"
      "stack_vals t' = val_of x # stack_vals t" "stack_ok t'" "\<exists>st i. t' = t\<lparr>opstack := st, op_stack_idx := i\<rparr>"
    by blast
  then have "stack_only t t'" by (auto simp: stack_only_def)
  with t' assms show ?thesis by (auto simp: yields_def intro: stack_only_trans)
qed

lemma stack_vals_length: "stack_ok t \<Longrightarrow> length (stack_vals t) = op_stack_idx t"
  by (simp add: stack_vals_def stack_ok_def)

lemma binary_sim:
  assumes ok: "stack_ok t" and s: "stack_vals t = VInt b # VInt a # s" and c: "int_op op a b = Some c"
  shows "yields t (simple_target v func op n t) (c # s)"
proof -
  from fetch_vals [OF ok s] obtain x y t1 where f: "FETCH_AB t = Inr (t1, x, y)" "val_of x = VInt a"
      "val_of y = VInt b" "stack_vals t1 = s" "stack_ok t1" "t1 = t\<lparr>op_stack_idx := op_stack_idx t - 2\<rparr>"
      "Suc (op_stack_idx t1) < op_stack_size t"
    by blast
  then have ab: "int_op op (sint (FIXNUM x)) (sint (FIXNUM y)) = Some c" using c val_of_IntD by auto
  have p: "yields t (STACK_PUSH t1 z) (c # s)" if "val_of z = c" for z
    by (rule yields_push [OF f(5) _ _ that f(4)]) (use f(6,7) in simp_all)
  from int_op_result [OF ab] show ?thesis
  proof (elim disjE exE)
    fix k
    assume k: "c = VInt k"
    from arith_int_op [OF ab [unfolded k]] obtain w where "arith op (FIXNUM x) (FIXNUM y) = Inr w"
        "wrap61 (sint w) = k" by blast
    then have "arith_target op t = STACK_PUSH t1 (MAKE_FIXNUM w)" "val_of (MAKE_FIXNUM w) = c"
      using f(1) k by (simp_all add: arith_target_def)
    moreover have "simple_target v func op n t = arith_target op t"
      using ab k by (cases op) (simp_all add: simple_target_def)
    ultimately show ?thesis using p by simp
  next
    fix q
    assume q: "c = VBool q"
    from compare_int_op [OF ab [unfolded q]] have o: "op \<in> {OP_EQ, OP_LT, OP_GT}"
        "compare_longs op (FIXNUM x) (FIXNUM y) = q" by auto
    then have "simple_target v func op n t = STACK_PUSH t1 (CIF q)"
      using f(1) by (auto simp: simple_target_def compare_target_def)
    then show ?thesis using p q by simp
  qed
qed

text \<open>The context in which the two machines agree.\<close>

definition related :: "machine \<Rightarrow> vm \<Rightarrow> func_t \<Rightarrow> vm_thread \<Rightarrow> bool" where
  "related M v func t \<longleftrightarrow> op_stack_size t = limit M \<and> th_objects t = On_Stack (base M)
     \<and> (\<exists>md. module_of v func = Inr md \<and> map val_of (mod_consts md) = pool M)"

lemma stack_vals_nth:
  assumes "stack_ok t" "i < length (stack_vals t)"
  shows "stack_at i t = Inr (opstack t ! i)" "val_of (opstack t ! i) = rev (stack_vals t) ! i" "i < length (opstack t)"
proof -
  have i: "i < op_stack_idx t" "op_stack_idx t < length (opstack t)"
    using assms stack_vals_length [OF assms(1)] by (auto simp: stack_ok_def)
  then show "stack_at i t = Inr (opstack t ! i)" "i < length (opstack t)" by (simp_all add: stack_at_def)
  show "val_of (opstack t ! i) = rev (stack_vals t) ! i" using i by (simp add: stack_vals_def)
qed

lemma write_vals:
  assumes "stack_ok t" "i < length (stack_vals t)"
  shows "yields t (write_stack t i x) (rev ((rev (stack_vals t))[i := val_of x]))"
proof -
  have "i < op_stack_idx t" "op_stack_idx t < length (opstack t)"
    using assms stack_vals_length [OF assms(1)] by (auto simp: stack_ok_def)
  then show ?thesis using assms(1)
    by (simp add: yields_def write_stack_def stack_vals_def stack_ok_def take_update_swap map_update)
qed

lemma value_step_sim:
  assumes ok: "stack_ok t" and s: "stack_vals t = s" and st: "value_step M op n s = Some s'"
    and lim: "length s' < limit M" and rel: "related M v func t"
  shows "yields t (simple_target v func op n t) s'"
proof -
  have sz: "op_stack_size t = limit M" and ob: "th_objects t = On_Stack (base M)" using rel by (auto simp: related_def)
  obtain md where md: "module_of v func = Inr md" "map val_of (mod_consts md) = pool M"
    using rel by (auto simp: related_def)
  have len: "length s = op_stack_idx t" using stack_vals_length [OF ok] s by simp
  have push: "yields t (STACK_PUSH t x) s'" if "s' = val_of x # s" for x
    unfolding that by (rule yields_push [OF ok _ _ HOL.refl s]) (use that lim len sz in simp_all)
  have bin: ?thesis if "s = VInt b # VInt a # s0" "map_option (\<lambda>c. c # s0) (int_op op a b) = Some s'" for a b s0
    using binary_sim [OF ok] s that by auto
  show ?thesis
  proof (cases op)
    case PUSH_BOOL
    then show ?thesis using st push [of "CIF (n \<noteq> 0)"] by (simp add: simple_target_def value_step_def)
  next
    case PUSH_NULL
    then show ?thesis using st push [of cnull] by (simp add: simple_target_def value_step_def)
  next
    case LOAD_CONST
    then have n: "0 \<le> n" "nat n < length (mod_consts md)" "s' = pool M ! nat n # s"
      using st by (auto simp: value_step_def md(2) [symmetric] split: if_splits)
    then have "val_of (mod_consts md ! nat n) = pool M ! nat n" using md(2) by (metis nth_map)
    then show ?thesis
      using push [of "mod_consts md ! nat n"] n LOAD_CONST md(1)
      by (simp add: simple_target_def load_const_def)
  next
    case LOAD_LOCAL
    then have n: "0 \<le> n" "local_ix M n < length s" "s' = rev s ! local_ix M n # s"
      using st by (auto simp: value_step_def split: if_splits)
    note r = stack_vals_nth [OF ok n(2) [folded s]]
    have "nat (int (base M) + n) = local_ix M n" using n(1) by (simp add: local_ix_def)
    then show ?thesis
      using push [of "opstack t ! local_ix M n"] n(1,3) r s LOAD_LOCAL ob
      by (simp add: simple_target_def load_local_def)
  next
    case SET_LOCAL
    then obtain w s0 where n: "s = w # s0" "0 \<le> n" "local_ix M n < length s0"
        "s' = rev ((rev s0)[local_ix M n := w])"
      using st by (auto simp: value_step_def split: if_splits list.splits)
    from pop_vals [OF ok s [unfolded n(1)]] obtain x t1 where x: "STACK_POP t = Inr (t1, x)" "val_of x = w"
        "stack_vals t1 = s0" "stack_ok t1" "t1 = t\<lparr>op_stack_idx := op_stack_idx t - 1\<rparr>"
      by blast
    have "nat (int (base M) + n) = local_ix M n" using n(2) by (simp add: local_ix_def)
    then have "simple_target v func op n t = write_stack t1 (local_ix M n) x"
      using SET_LOCAL x(1,5) ob n(2) by (simp add: simple_target_def set_local_slot_def)
    moreover have "yields t1 (write_stack t1 (local_ix M n) x) s'"
      using write_vals [OF x(4), of "local_ix M n" x] n(3,4) x(2,3) by simp
    moreover have "stack_only t t1" using x(5) by simp
    ultimately show ?thesis using stack_only_trans by (auto simp: yields_def)
  next
    case OP_NOT
    then obtain w s0 where n: "s = w # s0" "s' = VBool (w = VBool False) # s0"
      using st by (auto simp: value_step_def split: list.splits)
    from pop_vals [OF ok s [unfolded n(1)]] obtain x t1 where x: "STACK_POP t = Inr (t1, x)" "val_of x = w"
        "stack_vals t1 = s0" "stack_ok t1" "t1 = t\<lparr>op_stack_idx := op_stack_idx t - 1\<rparr>" "0 < op_stack_idx t"
      by blast
    have "yields t (STACK_PUSH t1 (CIF (IS_FALSE x))) s'"
      unfolding n(2)
      by (rule yields_push [OF x(4) _ _ _ x(3)]) (use x ok val_of_False [of x] in \<open>auto simp: stack_ok_def\<close>)
    then show ?thesis using OP_NOT x(1) by (simp add: simple_target_def not_target_def)
  next
    case OP_EQ_PTR
    then obtain w1 w2 s0 where n: "s = w2 # w1 # s0" "s' = VBool (w1 = w2) # s0"
      using st by (auto simp: value_step_def split: list.splits)
    from fetch_vals [OF ok s [unfolded n(1)]] obtain x y t1 where f: "FETCH_AB t = Inr (t1, x, y)" "val_of x = w1"
        "val_of y = w2" "stack_vals t1 = s0" "stack_ok t1" "t1 = t\<lparr>op_stack_idx := op_stack_idx t - 2\<rparr>"
        "Suc (op_stack_idx t1) < op_stack_size t"
      by blast
    have "yields t (STACK_PUSH t1 (CIF (x = y))) s'"
      unfolding n(2)
      by (rule yields_push [OF f(5) _ _ _ f(4)]) (use f val_of_inj [of x y] in auto)
    then show ?thesis using OP_EQ_PTR f(1) by (simp add: simple_target_def eq_ptr_target_def)
  qed (use st bin in \<open>auto simp: value_step_def split: list.splits val.splits\<close>)
qed

section \<open>The interpreter refines the machine\<close>

text \<open>
  The states correspond: the interpreter runs a function whose words encode the code of the machine, with
  its constants and locals, its program counter counts words, and the values on the operand stack are the
  values of the machine.
\<close>

definition simulates :: "machine \<Rightarrow> vm \<Rightarrow> nat \<times> val list \<Rightarrow> bool" where
  "simulates M v c \<longleftrightarrow> ctl v = Run \<and> pc v = 2 * fst c \<and> stack_ok (thread v) \<and> stack_vals (thread v) = snd c
     \<and> (\<exists>func. cur_func v = Inr func \<and> encodes (f_opcode func) (code M) \<and> related M v func (thread v))"

lemma stack_only_fields:
  assumes "stack_only t t'"
  shows "op_stack_size t' = op_stack_size t" "th_objects t' = th_objects t" "th_func t' = th_func t"
    "heap t' = heap t" "th_env t' = th_env t"
  using assms by (auto simp: stack_only_def)

lemma module_of_update: "module_of (v\<lparr>pc := p, thread := t\<rparr>) = module_of v" by (simp add: module_of_def fun_eq_iff)

lemma simulates_after:
  assumes sim: "simulates M v c" and so: "stack_only (thread v) t'" and ok: "stack_ok t'" "stack_vals t' = s'"
    and p: "p = 2 * i'"
  shows "simulates M (v\<lparr>pc := p, thread := t'\<rparr>) (i', s')"
proof -
  from sim obtain func where f: "cur_func v = Inr func" "encodes (f_opcode func) (code M)"
      "related M v func (thread v)" and run: "ctl v = Run"
    by (auto simp: simulates_def)
  note k = stack_only_fields [OF so]
  have "cur_func (v\<lparr>pc := p, thread := t'\<rparr>) = Inr func" using f(1) k(3) by (simp add: cur_func_def)
  moreover have "related M (v\<lparr>pc := p, thread := t'\<rparr>) func t'"
    using f(3) k(1,2) module_of_update by (simp add: related_def)
  ultimately show ?thesis using f(2) run ok p by (auto simp: simulates_def)
qed

lemma fetch_step:
  assumes sim: "simulates M v (i, s)" and i: "i < length (code M)"
  obtains func where "cur_func v = Inr func" "related M v func (thread v)"
    "run_step v = exec_opcode (v\<lparr>pc := pc v + 2\<rparr>) func (fst (code M ! i)) (snd (code M ! i))"
proof -
  from sim obtain func where f: "cur_func v = Inr func" "encodes (f_opcode func) (code M)"
      "related M v func (thread v)" "pc v = 2 * i"
    by (auto simp: simulates_def)
  then have "run_step v = exec_opcode (v\<lparr>pc := pc v + 2\<rparr>) func (fst (code M ! i)) (snd (code M ! i))"
    using i by (simp add: run_step_def encodes_def)
  with f that show ?thesis by blast
qed

lemma machine_step_sim:
  assumes sim: "simulates M v (i, s)" and st: "machine_step M (i, s) = Some (i', s')"
  shows "\<exists>v'. vm_red hs v v' \<and> simulates M v' (i', s') \<and> heap (thread v') = heap (thread v) \<and> out v' = out v"
proof -
  have i: "i < length (code M)" using st by (auto simp: machine_step_def split: if_splits)
  obtain op n where on: "code M ! i = (op, n)" by (cases "code M ! i")
  obtain func where f: "cur_func v = Inr func" "related M v func (thread v)"
      "run_step v = exec_opcode (v\<lparr>pc := pc v + 2\<rparr>) func op n"
    using fetch_step [OF sim i] on by (metis fst_conv snd_conv)
  have run: "ctl v = Run" and ok: "stack_ok (thread v)" and vs: "stack_vals (thread v) = s" and pc: "pc v = 2 * i"
    using sim by (auto simp: simulates_def)
  have red: "vm_red hs v v'" if "exec_opcode (v\<lparr>pc := pc v + 2\<rparr>) func op n = Inr v'" for v'
    using that f(3) run by (intro red_step) (simp_all add: vm_step_def)
  have fin: ?thesis if "exec_opcode (v\<lparr>pc := pc v + 2\<rparr>) func op n = Inr (v\<lparr>pc := p, thread := t'\<rparr>)"
      "stack_only (thread v) t'" "stack_ok t'" "stack_vals t' = s'" "p = 2 * i'" for p t'
    using red [OF that(1)] simulates_after [OF sim that(2-5)] stack_only_fields(4) [OF that(2)] by auto
  have jmp: "exec = jump (v\<lparr>pc := pc v + 2, thread := t'\<rparr>) n \<Longrightarrow> 0 \<le> int i + 1 + n \<Longrightarrow>
      exec = Inr (v\<lparr>pc := 2 * nat (int i + 1 + n), thread := t'\<rparr>)" for exec t'
  proof -
    assume e: "exec = jump (v\<lparr>pc := pc v + 2, thread := t'\<rparr>) n" and "0 \<le> int i + 1 + n"
    then have "nat (int (pc v + 2) + n * 2) = 2 * nat (int i + 1 + n)" "\<not> int (pc v + 2) + n * 2 < 0"
      using pc by auto
    with e show ?thesis by (simp add: jump_def Let_def)
  qed
  show ?thesis
  proof (cases "op = JUMP_FORWARD \<or> op = JUMP_IF_FALSE")
    case False
    then obtain s1 where s1: "value_step M op n s = Some s1" "length s1 < limit M" "i' = Suc i" "s' = s1"
      using st i on by (cases op) (auto simp: machine_step_def split: option.splits if_splits)
    have "simple_target (v\<lparr>pc := p\<rparr>) func op n = simple_target v func op n" for p
      by (cases op) (auto simp: simple_target_def load_const_def module_of_def module_func_def fun_eq_iff)
    moreover have "yields (thread v) (simple_target v func op n (thread v)) s'"
      using value_step_sim [OF ok vs s1(1,2) f(2)] s1(4) by simp
    then obtain t' where t': "simple_target v func op n (thread v) = Inr t'" "stack_vals t' = s'" "stack_ok t'"
        "stack_only (thread v) t'"
      by (auto simp: yields_def)
    moreover have "op \<notin> {FUNC_CALL, OP_CAR, OP_CDR}"
      using s1(1) by (auto simp: value_step_def split: list.splits val.splits)
    ultimately have "exec_opcode (v\<lparr>pc := pc v + 2\<rparr>) func op n = Inr (v\<lparr>pc := pc v + 2, thread := t'\<rparr>)"
      using False by (cases op) (simp_all add: exec_opcode_def with_thread_def)
    from fin [OF this t'(4,3,2)] s1(3) pc show ?thesis by simp
  next
    case True
    then show ?thesis
    proof (elim disjE)
      assume op: "op = JUMP_FORWARD"
      then have c: "0 \<le> int i + 1 + n" "i' = nat (int i + 1 + n)" "s' = s"
        using st i on by (auto simp: machine_step_def split: if_splits)
      have "exec_opcode (v\<lparr>pc := pc v + 2\<rparr>) func op n = jump (v\<lparr>pc := pc v + 2, thread := thread v\<rparr>) n"
        by (simp add: op exec_opcode_def)
      from fin [OF jmp [OF this c(1)] _ ok] c vs show ?thesis by simp
    next
      assume op: "op = JUMP_IF_FALSE"
      then obtain x s0 where x: "s = x # s0" "s' = s0"
          "if x = VBool False then 0 \<le> int i + 1 + n \<and> i' = nat (int i + 1 + n) else i' = Suc i"
        using st i on by (auto simp: machine_step_def split: list.splits if_splits)
      from pop_vals [OF ok vs [unfolded x(1)]] obtain y t1 where y: "STACK_POP (thread v) = Inr (t1, y)"
          "val_of y = x" "stack_vals t1 = s0" "stack_ok t1" "t1 = (thread v)\<lparr>op_stack_idx := op_stack_idx (thread v) - 1\<rparr>"
        by blast
      have so: "stack_only (thread v) t1" using y(5) by simp
      have e: "exec_opcode (v\<lparr>pc := pc v + 2\<rparr>) func op n =
          (if IS_FALSE y then jump (v\<lparr>pc := pc v + 2, thread := t1\<rparr>) n else Inr (v\<lparr>pc := pc v + 2, thread := t1\<rparr>))"
        by (simp add: op exec_opcode_def y(1))
      show ?thesis
      proof (cases "IS_FALSE y")
        case True
        then have "x = VBool False" using y(2) val_of_False by blast
        with x(3) have c: "0 \<le> int i + 1 + n" "i' = nat (int i + 1 + n)" by auto
        from e True have "exec_opcode (v\<lparr>pc := pc v + 2\<rparr>) func op n = jump (v\<lparr>pc := pc v + 2, thread := t1\<rparr>) n"
          by simp
        from fin [OF jmp [OF this c(1)] so y(4)] c x(2) y(3) show ?thesis by simp
      next
        case False
        then have "x \<noteq> VBool False" using y(2) val_of_False by blast
        with x(3) have "i' = Suc i" by simp
        moreover from e False
        have "exec_opcode (v\<lparr>pc := pc v + 2\<rparr>) func op n = Inr (v\<lparr>pc := pc v + 2, thread := t1\<rparr>)" by simp
        ultimately show ?thesis using fin [OF _ so y(4)] x(2) y(3) pc by simp
      qed
    qed
  qed
qed

lemma vm_reach_trans: "vm_reach hs b c \<Longrightarrow> vm_reach hs a b \<Longrightarrow> vm_reach hs a c"
  by (induction rule: vm_reach.induct) (auto intro: reach_step)

lemma machine_run_sim:
  assumes "simulates M v c" and "machine_run M k c = Some c'"
  shows "\<exists>v'. vm_reach hs v v' \<and> simulates M v' c' \<and> heap (thread v') = heap (thread v) \<and> out v' = out v"
  using assms
proof (induction k arbitrary: v c)
  case 0
  then show ?case by (auto intro: reach_refl)
next
  case (Suc k)
  then obtain c1 where c1: "machine_step M c = Some c1" "machine_run M k c1 = Some c'"
    by (auto simp: bind_eq_Some_conv)
  obtain i s i1 s1 where c: "c = (i, s)" "c1 = (i1, s1)" by (cases c, cases c1)
  from machine_step_sim [OF Suc.prems(1) [unfolded c] c1(1) [unfolded c]]
  obtain v1 where v1: "vm_red hs v v1" "simulates M v1 c1" "heap (thread v1) = heap (thread v)" "out v1 = out v"
    using c by blast
  from Suc.IH [OF v1(2) c1(2)] obtain v' where v': "vm_reach hs v1 v'" "simulates M v' c'"
      "heap (thread v') = heap (thread v1)" "out v' = out v1" by blast
  have "vm_reach hs v v1" using v1(1) by (rule reach_step [OF reach_refl])
  with v' v1(3,4) vm_reach_trans show ?case by (metis (no_types))
qed

section \<open>Properties\<close>

text \<open>
  C5: The interpreter refines the stack machine on integers and booleans. If the interpreter runs a function
  whose 16-bit words encode a program, with the same constants, locals and values on the operand stack, then
  any number of steps of the machine (loads, stores, arithmetic that wraps at 61 bits, truncated division and
  remainder, comparisons, boolean negation, conditional and unconditional jumps, loops included, as long as
  the operand stack does not fill up) are matched by steps of the interpreter, which ends at the same
  instruction with the same values and has not touched the heap.
\<close>

theorem interpreter_refines_machine:
  assumes "simulates M v c" and "machine_run M k c = Some c'"
  shows "\<exists>v'. vm_reach hs v v' \<and> simulates M v' c' \<and> heap (thread v') = heap (thread v) \<and> out v' = out v"
  by (rule machine_run_sim [OF assms])

text \<open>A loop that adds the numbers from local 0 down to 1 to local 1.\<close>

definition sum_code :: "(opcode \<times> int) list" where
  "sum_code =
    [(LOAD_LOCAL, 0), (LOAD_CONST, 0), (OP_EQ, 0), (JUMP_IF_FALSE, 1), (JUMP_FORWARD, 9),
     (LOAD_LOCAL, 1), (LOAD_LOCAL, 0), (OP_ADD, 0), (SET_LOCAL, 1),
     (LOAD_LOCAL, 0), (LOAD_CONST, 1), (OP_SUB, 0), (SET_LOCAL, 0), (JUMP_FORWARD, -14)]"

definition sum_words :: "16 word list" where
  "sum_words = [2, 0, 4, 0, 26, 0, 7, 1, 8, 9, 2, 1, 2, 0, 16, 0, 10, 1, 2, 0, 4, 1, 15, 0, 10, 0, 8, - 14]"

definition sum_machine :: machine where
  "sum_machine = \<lparr>code = sum_code, pool = [VInt 0, VInt 1], base = 0, limit = 512\<rparr>"

definition sum_func :: func_t where
  "sum_func = \<lparr>f_argc = 2, f_swallow = False, env_sz = 0, op_count = 14, f_heap_env = 0, f_depth = 0, bcount = 0,
     bmcount = 0, f_opcode = sum_words, f_bindings = [], f_bindmap = [], f_module = 1\<rparr>"

definition sum_vm :: vm where
  "sum_vm = (vm_init 65536 [])\<lparr>
     modules := [\<lparr>mod_functions = [sum_func], func_base = 8388608, entry_point = 0, fun_count = 1,
                  mod_consts = [MAKE_FIXNUM 0, MAKE_FIXNUM 1]\<rparr>],
     thread := (vm_thread_init (\<lambda>_. None) 65536 1048576
                 (MAKE_FIXNUM 2 # MAKE_FIXNUM 0 # replicate 510 0))\<lparr>th_func := 8388608, op_stack_idx := 2\<rparr>\<rparr>"

lemma encodes_simps [simp]:
  "encodes [] []"
  "encodes (w # x # ws) ((op, n) # prog) \<longleftrightarrow> decode_op w = Some op \<and> sint x = n \<and> encodes ws prog"
  by (auto simp: encodes_def All_less_Suc2)

lemma sum_encoded: "encodes sum_words sum_code"
  by (simp add: sum_words_def sum_code_def decode_op_def opcode_list_def)

lemma sum_simulates: "simulates sum_machine sum_vm (0, [VInt 0, VInt 2])"
  by (auto simp: simulates_def sum_vm_def sum_machine_def vm_init_def mem_alloc_def Let_def stack_ok_def
      vm_thread_init_def sizeof_obj_def stack_vals_def cur_func_def module_func_at_def sizeof_func_def sum_func_def
      sum_encoded related_def module_of_def wrap61_id)

lemma machine_run_numeral [simp]:
  "machine_run M (numeral k) c = Option.bind (machine_step M c) (machine_run M (pred_numeral k))"
  by (simp add: numeral_eq_Suc)

lemma sum_step:
  "machine_step sum_machine (0, [a, n]) = Some (Suc 0, [n, a, n])"
  "machine_step sum_machine (Suc 0, [n, a, n]) = Some (2, [VInt 0, n, a, n])"
  "machine_step sum_machine (2, [VInt j, VInt i, a, n]) = Some (3, [VBool (i = j), a, n])"
  "machine_step sum_machine (3, [VBool b, a, n]) = Some (if b then 4 else 5, [a, n])"
  "machine_step sum_machine (4, s) = Some (14, s)"
  "machine_step sum_machine (5, [a, n]) = Some (6, [a, a, n])"
  "machine_step sum_machine (6, [a, a, n]) = Some (7, [n, a, a, n])"
  "machine_step sum_machine (7, [VInt j, VInt i, a, n]) = Some (8, [VInt (wrap61 (i + j)), a, n])"
  "machine_step sum_machine (8, [x, a, n]) = Some (9, [x, n])"
  "machine_step sum_machine (9, [a, n]) = Some (10, [n, a, n])"
  "machine_step sum_machine (10, [n, a, n]) = Some (11, [VInt 1, n, a, n])"
  "machine_step sum_machine (11, [VInt j, VInt i, a, n]) = Some (12, [VInt (wrap61 (i - j)), a, n])"
  "machine_step sum_machine (12, [x, a, n]) = Some (13, [a, x])"
  "machine_step sum_machine (13, s) = Some (0, s)"
  by (simp_all add: machine_step_def sum_machine_def sum_code_def value_step_def local_ix_def)

theorem interpreter_refines_machine_witness:
  "\<forall>hs. \<exists>v'. vm_reach hs sum_vm v' \<and> simulates sum_machine v' (14, [VInt 3, VInt 0])"
proof
  fix hs
  have "machine_run sum_machine 31 (0, [VInt 0, VInt 2]) = Some (14, [VInt 3, VInt 0])"
    by (simp add: sum_step wrap61_id)
  from interpreter_refines_machine [OF sum_simulates this]
  show "\<exists>v'. vm_reach hs sum_vm v' \<and> simulates sum_machine v' (14, [VInt 3, VInt 0])" by blast
qed

end
