(* ===== verification/Gc_Inv.thy ===== *)
theory Gc_Inv
  imports Thread
begin

text \<open>
  The invariant of the heap during a minor collection, and what a visitor may do to it. A heap is
  laid out when its spaces are, lie in their regions and keep apart; it is well-formed when every
  block has the payload of its type and every pointer in it is the address of a block. A pointer is
  clean when it no longer points to the spaces that the collection empties.
\<close>

section \<open>Outcomes\<close>

text \<open>\<open>safe P m\<close>: the operation returns with \<open>P\<close>, or stops because a space is full.\<close>

definition safe :: "('a \<Rightarrow> bool) \<Rightarrow> 'a outcome \<Rightarrow> bool" where
  "safe P m = (case m of Inr y \<Rightarrow> P y | Inl e \<Rightarrow> e = Fatal ''out of memory'')"

lemma safe_simps [simp]:
  "safe P (Inr y) = P y"
  "safe P (Inl e) \<longleftrightarrow> e = Fatal ''out of memory''"
  by (simp_all add: safe_def)

lemma safe_bind: "safe P m \<Longrightarrow> (\<And>y. P y \<Longrightarrow> safe Q (f y)) \<Longrightarrow> safe Q (bindE m f)"
  by (cases m) auto

lemma safe_mono: "safe P m \<Longrightarrow> (\<And>y. P y \<Longrightarrow> Q y) \<Longrightarrow> safe Q m"
  by (cases m) auto

lemma safe_Inr: "safe P m \<Longrightarrow> m = Inr y \<Longrightarrow> P y"
  by simp

section \<open>Layout\<close>

definition apart :: "addr \<Rightarrow> nat \<Rightarrow> addr \<Rightarrow> nat \<Rightarrow> bool" where
  "apart a n b k \<longleftrightarrow> a + n \<le> b \<or> b + k \<le> a"

definition apart_spaces :: "space \<Rightarrow> space \<Rightarrow> bool" where
  "apart_spaces s1 s2 \<longleftrightarrow> apart (sp_mem s1) (sp_size s1) (sp_mem s2) (sp_size s2)"

definition inside :: "heap \<Rightarrow> space \<Rightarrow> bool" where
  "inside h sp \<longleftrightarrow> heap_mem h \<le> sp_mem sp \<and> sp_mem sp + sp_size sp \<le> heap_mem h + mem_size h"

definition old_ok :: "heap \<Rightarrow> bool" where
  "old_ok h \<longleftrightarrow>
     (if sp_mem (old h) = 0
      then old h = no_space \<and> 8 \<le> old_base h \<and> 8 dvd old_base h \<and> old_base h + OLD_SIZE < 2 ^ 64
        \<and> apart (old_base h) OLD_SIZE (heap_mem h) (mem_size h)
      else space_ok (store h) (old h) \<and> 8 \<le> sp_mem (old h) \<and> sp_mem (old h) + sp_size (old h) < 2 ^ 64
        \<and> apart (sp_mem (old h)) (sp_size (old h)) (heap_mem h) (mem_size h))"

definition layout_ok :: "heap \<Rightarrow> bool" where
  "layout_ok h \<longleftrightarrow> 8 \<le> heap_mem h \<and> heap_mem h + mem_size h < 2 ^ 64
     \<and> sp_clear (fresh h) \<and> space_ok (store h) (fresh h) \<and> space_ok (store h) (survived h)
     \<and> space_ok (store h) (future_survived h)
     \<and> inside h (fresh h) \<and> inside h (survived h) \<and> inside h (future_survived h)
     \<and> apart_spaces (fresh h) (survived h) \<and> apart_spaces (fresh h) (future_survived h)
     \<and> apart_spaces (survived h) (future_survived h) \<and> old_ok h
     \<and> sp_size (fresh h) \<le> 2 ^ 32"

definition from_addr :: "heap \<Rightarrow> addr \<Rightarrow> bool" where
  "from_addr h a \<longleftrightarrow> in_space (fresh h) a \<or> in_space (survived h) a"

definition to_addr :: "heap \<Rightarrow> addr \<Rightarrow> bool" where
  "to_addr h a \<longleftrightarrow> in_space (future_survived h) a \<or> in_space (old h) a"

definition heap_hdr :: "heap \<Rightarrow> addr \<Rightarrow> bool" where
  "heap_hdr h a \<longleftrightarrow> store h a \<noteq> None \<and> (from_addr h a \<or> to_addr h a)"

section \<open>Blocks\<close>

fun obj_slots :: "payload \<Rightarrow> obj list" where
  "obj_slots (P_Env e) = env_slots e"
| "obj_slots (P_Pair q) = [car q, cdr q]"
| "obj_slots (P_Cont c) = [cont_func c]"
| "obj_slots (P_Struct s) = field_slots s"
| "obj_slots _ = []"

fun env_links :: "payload \<Rightarrow> addr list" where
  "env_links (P_Env e) = [prev e]"
| "env_links (P_Closure c) = [clo_env c]"
| "env_links _ = []"

fun typed :: "u16 \<Rightarrow> payload \<Rightarrow> bool" where
  "typed t (P_Env e) \<longleftrightarrow> t = t_env \<and> env_size e = int (length (env_slots e))"
| "typed t (P_Closure c) \<longleftrightarrow> t = t_closure"
| "typed t (P_Pair q) \<longleftrightarrow> t = t_pair \<and> pair_list q \<noteq> None \<and> pair_length q \<noteq> None"
| "typed t (P_Cont c) \<longleftrightarrow> t = t_cont"
| "typed t (P_String s) \<longleftrightarrow> t = t_string"
| "typed t (P_Struct s) \<longleftrightarrow> t = t_struct \<and> struct_size s = int (length (field_slots s))"
| "typed t (P_Bytevector v) \<longleftrightarrow> t = t_bytevector"
| "typed t _ \<longleftrightarrow> False"

definition valid_addr :: "heap \<Rightarrow> addr \<Rightarrow> bool" where
  "valid_addr h p \<longleftrightarrow> 8 \<le> p \<and> heap_hdr h (p - 8)"

definition valid_obj :: "heap \<Rightarrow> obj \<Rightarrow> bool" where
  "valid_obj h x \<longleftrightarrow> (IS_HEAP_PTR x \<longrightarrow> valid_addr h (PTR x))"

definition clean_obj :: "heap \<Rightarrow> obj \<Rightarrow> bool" where
  "clean_obj h x \<longleftrightarrow> valid_obj h x \<and> (IS_HEAP_PTR x \<longrightarrow> to_addr h (PTR x - 8))"

definition links_ok :: "(obj \<Rightarrow> bool) \<Rightarrow> (addr \<Rightarrow> bool) \<Rightarrow> payload \<Rightarrow> bool" where
  "links_ok P Q pl \<longleftrightarrow> (\<forall>x \<in> set (obj_slots pl). P x) \<and> (\<forall>q \<in> set (env_links pl). q = 0 \<or> Q q)"

definition clean_addr :: "heap \<Rightarrow> addr \<Rightarrow> bool" where
  "clean_addr h p \<longleftrightarrow> valid_addr h p \<and> to_addr h (p - 8)"

text \<open>The type of the object at a payload address.\<close>

definition hdr_type :: "heap \<Rightarrow> addr \<Rightarrow> u16 option" where
  "hdr_type h p = map_option (\<lambda>b. type_id (hdr b)) (store h (p - 8))"

definition block_ok :: "heap \<Rightarrow> block \<Rightarrow> bool" where
  "block_ok h b \<longleftrightarrow> 8 \<le> hsize (hdr b) \<and>
     (if forward (hdr b) then \<exists>q. payload b = P_Forward q \<and> clean_addr h q
        \<and> hdr_type h q = Some (type_id (hdr b))
      else typed (type_id (hdr b)) (payload b) \<and> links_ok (valid_obj h) (valid_addr h) (payload b))"

definition graph_ok :: "heap \<Rightarrow> bool" where
  "graph_ok h \<longleftrightarrow> (\<forall>a b. heap_hdr h a \<longrightarrow> store h a = Some b \<longrightarrow>
     block_ok h b \<and> (to_addr h a \<longrightarrow> \<not> forward (hdr b)))"

text \<open>
  The interior pointer of an object at the payload address \<open>p\<close> (to the slots, fields, characters or bytes
  that trail its structure) points into the object itself.
\<close>

fun homed :: "addr \<Rightarrow> payload \<Rightarrow> bool" where
  "homed p (P_Env e) \<longleftrightarrow> objects e = p + sizeof_env"
| "homed p (P_Struct s) \<longleftrightarrow> struct_fields s = p + sizeof_struct"
| "homed p (P_String s) \<longleftrightarrow> (allocated s \<longrightarrow> str s = p + sizeof_string)"
| "homed p (P_Bytevector v) \<longleftrightarrow> data v = p + sizeof_bytevector"
| "homed p _ \<longleftrightarrow> True"

definition clean_block :: "heap \<Rightarrow> addr \<Rightarrow> bool" where
  "clean_block h a \<longleftrightarrow> (\<forall>b. store h a = Some b \<longrightarrow>
     links_ok (clean_obj h) (clean_addr h) (payload b) \<and> homed (a + BHDR_SIZE) (payload b))"

definition heap_wf :: "heap \<Rightarrow> bool" where
  "heap_wf h \<longleftrightarrow> layout_ok h \<and> graph_ok h \<and> old_map h = None
     \<and> (\<forall>a \<in> set (remembered_set h). in_space (old h) a \<and> store h a \<noteq> None)"

definition gc_inv :: "heap \<Rightarrow> bool" where
  "gc_inv h \<longleftrightarrow> layout_ok h \<and> graph_ok h \<and> \<not> full_gc h \<and> old_map h = None
     \<and> (\<forall>a \<in> set (remembered_set h). in_space (old h) a \<and> store h a \<noteq> None)"

lemma gc_inv_wf: "gc_inv h \<longleftrightarrow> heap_wf h \<and> \<not> full_gc h"
  by (auto simp: gc_inv_def heap_wf_def)

section \<open>The steps of a collection\<close>

text \<open>
  A visited pointer keeps its value or follows the forwarding word of its target; a payload is visited
  piecemeal, so some of its pointers follow and others do not yet. \<open>shape\<close> is what a visit does not
  change: all but the pointers and the addresses inside the object itself.
\<close>

definition fwd :: "heap \<Rightarrow> addr \<Rightarrow> addr option" where
  "fwd h a = (case store h a of
     Some b \<Rightarrow> if forward (hdr b) then (case payload b of P_Forward q \<Rightarrow> Some q | _ \<Rightarrow> None) else None
   | None \<Rightarrow> None)"

definition follows :: "heap \<Rightarrow> obj \<Rightarrow> obj \<Rightarrow> bool" where
  "follows h x y \<longleftrightarrow> y = x \<or> IS_HEAP_PTR x \<and> (\<exists>q. fwd h (PTR x - 8) = Some q \<and> y = MAKE_HEAP_PTR q)"

definition follows_addr :: "heap \<Rightarrow> addr \<Rightarrow> addr \<Rightarrow> bool" where
  "follows_addr h p q \<longleftrightarrow> q = p \<or> p \<noteq> 0 \<and> fwd h (p - 8) = Some q"

fun shape :: "payload \<Rightarrow> payload" where
  "shape (P_Env e) = P_Env (e\<lparr>prev := 0, objects := 0, env_slots := replicate (length (env_slots e)) 0\<rparr>)"
| "shape (P_Closure c) = P_Closure (c\<lparr>clo_env := 0\<rparr>)"
| "shape (P_Pair q) = P_Pair (q\<lparr>car := 0, cdr := 0\<rparr>)"
| "shape (P_Cont c) = P_Cont (c\<lparr>cont_func := 0\<rparr>)"
| "shape (P_String s) = P_String (if allocated s then s\<lparr>str := 0\<rparr> else s)"
| "shape (P_Struct s) =
     P_Struct (s\<lparr>struct_fields := 0, field_slots := replicate (length (field_slots s)) 0\<rparr>)"
| "shape (P_Bytevector v) = P_Bytevector (v\<lparr>data := 0\<rparr>)"
| "shape pl = pl"

definition payload_follows :: "heap \<Rightarrow> payload \<Rightarrow> payload \<Rightarrow> bool" where
  "payload_follows h pl pl' \<longleftrightarrow> shape pl' = shape pl
     \<and> list_all2 (follows h) (obj_slots pl) (obj_slots pl')
     \<and> list_all2 (follows_addr h) (env_links pl) (env_links pl')"

definition add_block :: "space \<Rightarrow> nat \<Rightarrow> space" where
  "add_block sp n = sp\<lparr>sp_pos := sp_pos sp + n, free_mem := free_mem sp - n, blocks := Suc (blocks sp)\<rparr>"

lemma add_block_simps [simp]:
  "sp_mem (add_block sp n) = sp_mem sp" "sp_size (add_block sp n) = sp_size sp"
  "blocks (add_block sp n) = Suc (blocks sp)" "in_space (add_block sp n) = in_space sp"
  by (auto simp: add_block_def in_space_def fun_eq_iff)

text \<open>
  The move of a block out of the emptied spaces: into the future survived space, or into the old space
  and the remembered set.
\<close>

definition moved :: "heap \<Rightarrow> addr \<Rightarrow> block \<Rightarrow> block \<Rightarrow> block \<Rightarrow> heap \<Rightarrow> addr \<Rightarrow> bool" where
  "moved h a b bf bc h' q \<longleftrightarrow>
     store h' = (store h)(a \<mapsto> bf, q \<mapsto> bc)
     \<and> heap_mem h' = heap_mem h \<and> mem_size h' = mem_size h \<and> fresh h' = fresh h
     \<and> survived h' = survived h \<and> full_gc h' = full_gc h \<and> old_map h' = old_map h
     \<and> old_base h' = old_base h
     \<and> payload bf = P_Forward (q + 8) \<and> forward (hdr bf) \<and> hsize (hdr bf) = hsize (hdr b)
     \<and> type_id (hdr bf) = type_id (hdr b)
     \<and> payload bc = payload b \<and> \<not> forward (hdr bc) \<and> hsize (hdr bc) = hsize (hdr b)
     \<and> type_id (hdr bc) = type_id (hdr b)
     \<and> (q = sp_pos (future_survived h) \<and> blen b \<le> free_mem (future_survived h)
          \<and> future_survived h' = add_block (future_survived h) (blen b)
          \<and> old h' = old h \<and> remembered_set h' = remembered_set h
        \<or> q = sp_pos (old h) \<and> blen b \<le> free_mem (old h) \<and> sp_mem (old h) \<noteq> 0
          \<and> old h' = add_block (old h) (blen b)
          \<and> future_survived h' = future_survived h \<and> remembered_set h' = remembered_set h @ [q])"

definition with_payload :: "heap \<Rightarrow> addr \<Rightarrow> block \<Rightarrow> payload \<Rightarrow> heap" where
  "with_payload h a b pl = h\<lparr>store := (store h)(a \<mapsto> b\<lparr>payload := pl\<rparr>)\<rparr>"

text \<open>
  What a collection does to the heap, one step at a time: a block moves, a pointer of a target block is
  visited, the old space is set up, the remembered set is dropped.
\<close>

inductive gc_step :: "heap \<Rightarrow> heap \<Rightarrow> bool" where
  step_move: "\<lbrakk>gc_inv h; moved h a b bf bc h' q; store h a = Some b; from_addr h a;
     \<not> forward (hdr b)\<rbrakk> \<Longrightarrow> gc_step h h'"
| step_visit: "\<lbrakk>gc_inv h; store h a = Some b; to_addr h a; payload_follows h (payload b) pl\<rbrakk> \<Longrightarrow>
     gc_step h (with_payload h a b pl)"
| step_grow: "\<lbrakk>gc_inv h; old_on_demand h = Inr h'; \<And>a. heap_hdr h a \<Longrightarrow> store h' a = store h a\<rbrakk> \<Longrightarrow>
     gc_step h h'"
| step_forget: "gc_inv h \<Longrightarrow> gc_step h (forget h)"

abbreviation gc_steps :: "heap \<Rightarrow> heap \<Rightarrow> bool" where "gc_steps \<equiv> rtranclp gc_step"

section \<open>Extension\<close>

text \<open>
  \<open>ext A h h'\<close>: a later state of the same collection. The spaces stay where they are, no block
  disappears, the blocks of the target spaces keep their size, type and, outside \<open>A\<close>, their payload; a
  block that is new in the old space is in the remembered set.
\<close>

definition same_block :: "block \<Rightarrow> block \<Rightarrow> bool" where
  "same_block b b' \<longleftrightarrow> hsize (hdr b') = hsize (hdr b) \<and> type_id (hdr b') = type_id (hdr b)"

definition types_kept :: "heap \<Rightarrow> heap \<Rightarrow> bool" where
  "types_kept h h' \<longleftrightarrow> (\<forall>p. valid_addr h p \<longrightarrow> hdr_type h' p = hdr_type h p)"

definition ext :: "addr set \<Rightarrow> heap \<Rightarrow> heap \<Rightarrow> bool" where
  "ext A h h' \<longleftrightarrow> gc_steps h h' \<and> fresh h' = fresh h \<and> survived h' = survived h
     \<and> heap_mem h' = heap_mem h \<and> mem_size h' = mem_size h
     \<and> sp_mem (future_survived h') = sp_mem (future_survived h)
     \<and> sp_size (future_survived h') = sp_size (future_survived h)
     \<and> blocks (future_survived h) \<le> blocks (future_survived h')
     \<and> (sp_mem (old h) \<noteq> 0 \<longrightarrow> sp_mem (old h') = sp_mem (old h) \<and> sp_size (old h') = sp_size (old h))
     \<and> blocks (old h) \<le> blocks (old h')
     \<and> (\<forall>a. in_space (old h) a \<longrightarrow> in_space (old h') a)
     \<and> (\<forall>a. heap_hdr h a \<longrightarrow> heap_hdr h' a)
     \<and> types_kept h h'
     \<and> (\<forall>a b. to_addr h a \<longrightarrow> store h a = Some b \<longrightarrow>
          (\<exists>b'. store h' a = Some b' \<and> same_block b b' \<and> (a \<notin> A \<longrightarrow> payload b' = payload b)))
     \<and> (\<exists>new. remembered_set h' = remembered_set h @ new
          \<and> (\<forall>a. in_space (old h') a \<longrightarrow> store h' a \<noteq> None \<longrightarrow>
               in_space (old h) a \<and> store h a \<noteq> None \<or> a \<in> set new))"

lemma same_block_refl [simp]: "same_block b b"
  by (simp add: same_block_def)

lemma types_kept_refl [simp]: "types_kept h h"
  by (simp add: types_kept_def)

lemma ext_refl: "ext A h h"
  by (auto simp: ext_def)

lemma ext_to_addr: "ext A h h' \<Longrightarrow> to_addr h a \<Longrightarrow> to_addr h' a"
  by (auto simp: ext_def to_addr_def in_space_def)

lemma ext_trans: "ext A h h' \<Longrightarrow> ext A h' h'' \<Longrightarrow> ext A h h''"
proof -
  assume e1: "ext A h h'" and e2: "ext A h' h''"
  have blk: "\<exists>b''. store h'' a = Some b'' \<and> same_block b b'' \<and> (a \<notin> A \<longrightarrow> payload b'' = payload b)"
    if "to_addr h a" "store h a = Some b" for a b
  proof -
    from e1 that obtain b' where b': "store h' a = Some b'" "same_block b b'"
        "a \<notin> A \<longrightarrow> payload b' = payload b"
      unfolding ext_def by blast
    moreover from e2 ext_to_addr [OF e1 that(1)] b'(1) obtain b'' where "store h'' a = Some b''"
        "same_block b' b''" "a \<notin> A \<longrightarrow> payload b'' = payload b'"
      unfolding ext_def by blast
    ultimately show ?thesis by (auto simp: same_block_def)
  qed
  have rem: "\<exists>new. remembered_set h'' = remembered_set h @ new
      \<and> (\<forall>a. in_space (old h'') a \<longrightarrow> store h'' a \<noteq> None \<longrightarrow>
           in_space (old h) a \<and> store h a \<noteq> None \<or> a \<in> set new)"
  proof -
    from e1 obtain n1 where n1: "remembered_set h' = remembered_set h @ n1"
        "\<And>a. in_space (old h') a \<Longrightarrow> store h' a \<noteq> None \<Longrightarrow>
          in_space (old h) a \<and> store h a \<noteq> None \<or> a \<in> set n1"
      unfolding ext_def by blast
    from e2 obtain n2 where n2: "remembered_set h'' = remembered_set h' @ n2"
        "\<And>a. in_space (old h'') a \<Longrightarrow> store h'' a \<noteq> None \<Longrightarrow>
          in_space (old h') a \<and> store h' a \<noteq> None \<or> a \<in> set n2"
      unfolding ext_def by blast
    have "remembered_set h'' = remembered_set h @ (n1 @ n2)" using n1 n2 by simp
    moreover have "\<forall>a. in_space (old h'') a \<longrightarrow> store h'' a \<noteq> None \<longrightarrow>
        in_space (old h) a \<and> store h a \<noteq> None \<or> a \<in> set (n1 @ n2)"
      using n1(2) n2(2) by fastforce
    ultimately show ?thesis by blast
  qed
  have "valid_addr h' p" if "valid_addr h p" for p
    using that e1 by (auto simp: ext_def valid_addr_def)
  moreover have "types_kept h h'" "types_kept h' h''" using e1 e2 by (auto simp: ext_def)
  ultimately have "types_kept h h''" by (simp add: types_kept_def)
  then show ?thesis
    using e1 e2 blk rem unfolding ext_def by auto
qed

lemma ext_valid_addr: "ext A h h' \<Longrightarrow> valid_addr h p \<Longrightarrow> valid_addr h' p"
  by (auto simp: ext_def valid_addr_def)

lemma ext_valid_obj: "ext A h h' \<Longrightarrow> valid_obj h x \<Longrightarrow> valid_obj h' x"
  by (auto simp: valid_obj_def ext_valid_addr)

lemma ext_clean_addr: "ext A h h' \<Longrightarrow> clean_addr h p \<Longrightarrow> clean_addr h' p"
  by (auto simp: clean_addr_def ext_valid_addr ext_to_addr)

lemma ext_clean_obj: "ext A h h' \<Longrightarrow> clean_obj h x \<Longrightarrow> clean_obj h' x"
  by (auto simp: clean_obj_def ext_valid_obj ext_to_addr)

lemma ext_weaken: "ext {} h h' \<Longrightarrow> ext A h h'"
  unfolding ext_def by fastforce

lemma links_ok_mono:
  "links_ok P Q pl \<Longrightarrow> (\<And>x. P x \<Longrightarrow> P' x) \<Longrightarrow> (\<And>q. Q q \<Longrightarrow> Q' q) \<Longrightarrow> links_ok P' Q' pl"
  by (auto simp: links_ok_def)

lemma ext_clean_block:
  assumes e: "ext A h h'" and "to_addr h a" "store h a \<noteq> None" "a \<notin> A" and c: "clean_block h a"
  shows "clean_block h' a"
proof -
  from assms obtain b where b: "store h a = Some b" by blast
  with assms obtain b' where b': "store h' a = Some b'" "payload b' = payload b"
    unfolding ext_def by blast
  from c b have hm: "homed (a + BHDR_SIZE) (payload b)" by (simp add: clean_block_def)
  from c b have "links_ok (clean_obj h) (clean_addr h) (payload b)" by (simp add: clean_block_def)
  then have "links_ok (clean_obj h') (clean_addr h') (payload b)"
    by (rule links_ok_mono) (use e in \<open>auto intro: ext_clean_obj ext_clean_addr\<close>)
  with b' hm show ?thesis by (simp add: clean_block_def)
qed

section \<open>Facts of a laid-out heap\<close>

lemma space_ok_block:
  assumes "space_ok m sp" and "m a = Some b" and "in_space sp a"
  shows "8 dvd a" "a + blen b \<le> sp_pos sp" "sp_mem sp \<le> a" "8 dvd hsize (hdr b)"
    "a \<in> set (run_addrs m (sp_mem sp) (blocks sp))" "sp_pos sp \<le> sp_mem sp + sp_size sp"
proof -
  have "overlap (sp_mem sp) (sp_size sp) a (blen b)"
    using assms(3) blen_pos [of b] unfolding in_space_def overlap_def by linarith
  with assms show mem: "a \<in> set (run_addrs m (sp_mem sp) (blocks sp))"
    by (simp add: space_ok_def)
  have run: "run m (sp_mem sp) (blocks sp) (sp_pos sp)" and al: "8 dvd sp_mem sp"
    using assms by (auto simp: space_ok_def)
  from run_mem [OF run mem] assms(2) al
  show "8 dvd a" "a + blen b \<le> sp_pos sp" "sp_mem sp \<le> a" "8 dvd hsize (hdr b)" by auto
  show "sp_pos sp \<le> sp_mem sp + sp_size sp" using assms(1) by (simp add: space_ok_def)
qed

lemma in_space_no_space [simp]: "\<not> in_space no_space a"
  by (simp add: in_space_def no_space_def)

lemma heap_hdr_space:
  assumes "layout_ok h" and "heap_hdr h a"
  obtains sp b where "store h a = Some b" "in_space sp a" "space_ok (store h) sp"
    "sp \<in> {fresh h, survived h, future_survived h} \<and> inside h sp \<or> sp = old h \<and> sp_mem (old h) \<noteq> 0"
  using assms by (fastforce simp: heap_hdr_def layout_ok_def from_addr_def to_addr_def old_ok_def
      split: if_splits)

lemma valid_addr_props:
  assumes lay: "layout_ok h" and v: "valid_addr h p"
  shows "8 dvd p" "p < 2 ^ 64" "8 \<le> p" "p \<noteq> 0"
proof -
  from v have p: "8 \<le> p" "heap_hdr h (p - 8)" by (auto simp: valid_addr_def)
  from heap_hdr_space [OF lay p(2)] obtain sp b where sp: "store h (p - 8) = Some b"
      "in_space sp (p - 8)" "space_ok (store h) sp"
      "sp \<in> {fresh h, survived h, future_survived h} \<and> inside h sp \<or> sp = old h \<and> sp_mem (old h) \<noteq> 0"
    by blast
  note b = space_ok_block [OF sp(3,1,2)]
  have "sp_mem sp + sp_size sp < 2 ^ 64"
    using sp(4) lay by (auto simp: layout_ok_def inside_def old_ok_def)
  then show "p < 2 ^ 64" using b(2,6) p(1) by (simp add: blen_def BHDR_SIZE_def)
  have "8 dvd (p - 8) + 8" using b(1) by (intro dvd_add) auto
  with p(1) show "8 dvd p" by simp
  show "8 \<le> p" "p \<noteq> 0" using p(1) by auto
qed

lemma PTR_heap_ptr: "layout_ok h \<Longrightarrow> valid_addr h p \<Longrightarrow> PTR (MAKE_HEAP_PTR p) = p"
  using valid_addr_props by simp

lemma IS_HEAP_PTR_MAKE [simp]: "IS_HEAP_PTR (MAKE_HEAP_PTR p)"
  by (simp add: IS_HEAP_PTR_def TEST_TAG_def)

text \<open>The payload address of a block lies in the space of its header, and in no other.\<close>

lemma payload_in_space:
  assumes "layout_ok h" and "store h a = Some b" and "8 \<le> hsize (hdr b)"
    and "from_addr h a \<or> to_addr h a"
  shows "in_space (future_survived h) (a + 8) \<longleftrightarrow> in_space (future_survived h) a"
    and "in_space (old h) (a + 8) \<longleftrightarrow> in_space (old h) a"
    and "from_addr h a \<Longrightarrow> heap_mem h \<le> a \<and> a + 8 \<le> heap_mem h + mem_size h"
    and "from_addr h a \<Longrightarrow> \<not> to_addr h a"
proof -
  have "heap_hdr h a" using assms(2,4) by (simp add: heap_hdr_def)
  from heap_hdr_space [OF assms(1) this] assms(2) obtain sp where sp: "in_space sp a"
      "space_ok (store h) sp"
      "sp \<in> {fresh h, survived h, future_survived h} \<and> inside h sp \<or> sp = old h \<and> sp_mem (old h) \<noteq> 0"
    by auto
  note b = space_ok_block [OF sp(2) assms(2) sp(1)]
  have rng: "sp_mem sp \<le> a" "a + 8 < sp_mem sp + sp_size sp"
    using b(2,3,6) assms(3) by (auto simp: blen_def BHDR_SIZE_def)
  have old_in: "sp_mem (old h) = 0 \<Longrightarrow> \<not> in_space (old h) x" for x
    using assms(1) by (auto simp: layout_ok_def old_ok_def)
  have old_ap: "sp_mem (old h) \<noteq> 0 \<Longrightarrow>
      apart (sp_mem (old h)) (sp_size (old h)) (heap_mem h) (mem_size h)"
    using assms(1) by (auto simp: layout_ok_def old_ok_def)
  have ins: "inside h (fresh h)" "inside h (survived h)" "inside h (future_survived h)"
    and ap: "apart_spaces (fresh h) (survived h)" "apart_spaces (fresh h) (future_survived h)"
      "apart_spaces (survived h) (future_survived h)"
    using assms(1) by (auto simp: layout_ok_def)
  note unf = inside_def apart_spaces_def apart_def in_space_def
  from sp(3) consider "sp = fresh h" | "sp = survived h" | "sp = future_survived h"
    | "sp = old h" "sp_mem (old h) \<noteq> 0" by auto
  note cases = this
  show "in_space (future_survived h) (a + 8) \<longleftrightarrow> in_space (future_survived h) a"
    by (rule cases) (use rng ins ap old_ap in \<open>auto simp: unf\<close>)
  show "in_space (old h) (a + 8) \<longleftrightarrow> in_space (old h) a"
  proof (cases "sp_mem (old h) = 0")
    case True
    then show ?thesis using old_in by simp
  next
    case False
    show ?thesis by (rule cases) (use rng ins old_ap [OF False] in \<open>auto simp: unf\<close>)
  qed
  have not_old: "from_addr h a \<Longrightarrow> \<not> in_space (old h) a"
    using old_in [of a] old_ap ins by (cases "sp_mem (old h) = 0") (auto simp: unf from_addr_def)
  show "\<not> to_addr h a" if "from_addr h a"
    using that not_old ap by (auto simp: unf from_addr_def to_addr_def)
  show "heap_mem h \<le> a \<and> a + 8 \<le> heap_mem h + mem_size h" if "from_addr h a"
    by (rule cases) (use rng ins not_old [OF that] sp(1) in \<open>auto simp: unf\<close>)
qed

end
