(* ===== verification/Gc_Mark.thy ===== *)
theory Gc_Mark
  imports Gc_Inv
begin

text \<open>
  Marking with \<^verbatim>\<open>heap_mark\<close> in a minor collection: a block is moved into the future survived space,
  or promoted to the old space, which is allocated on demand. Either move keeps the heap well-formed
  and extends it; the result of marking is a clean pointer to an object of the same type.
\<close>

section \<open>Copying a block\<close>

lemma forward_to_eq:
  assumes "m a = Some b" and "m q = Some c" and "a \<noteq> q"
  shows "forward_to m a q =
    m(a \<mapsto> b\<lparr>hdr := (hdr b)\<lparr>forward := True\<rparr>, payload := P_Forward (q + BHDR_SIZE)\<rparr>,
      q \<mapsto> c\<lparr>hdr := (hdr c)\<lparr>forward := False, generation := (generation (hdr c) + 1) mod 4\<rparr>\<rparr>)"
  using assms by (simp add: forward_to_def set_hdr_def set_payload_def)

text \<open>A block at \<open>a\<close> is rewritten in place and a block of its size is put at the end of \<open>sp\<close>.\<close>

lemma copy_spaces:
  assumes ok: "space_ok m sp" and a: "m a = Some b" "8 dvd hsize (hdr b)"
    and fits: "blen b \<le> free_mem sp" and sz: "hsize (hdr bf) = hsize (hdr b)" "hsize (hdr bc) = hsize (hdr b)"
  shows "space_ok (m(a \<mapsto> bf, sp_pos sp \<mapsto> bc)) (add_block sp (blen b))"
    and "m (sp_pos sp) = None" and "a \<noteq> sp_pos sp" and "in_space sp (sp_pos sp)"
    and "\<And>sp2. apart_spaces sp sp2 \<or> apart_spaces sp2 sp \<Longrightarrow> space_ok m sp2
      \<Longrightarrow> space_ok (m(a \<mapsto> bf, sp_pos sp \<mapsto> bc)) sp2"
    and "put_block m (sp_pos sp) b = m(sp_pos sp \<mapsto> b)"
proof -
  let ?q = "sp_pos sp"
  have len: "blen bc = blen b" using sz by (simp add: blen_def)
  have dvd: "8 dvd hsize (hdr bc)" using a sz by simp
  note app = space_ok_append [OF ok dvd, unfolded len, OF fits]
  show none: "m ?q = None" by (rule app(3))
  with a show ne: "a \<noteq> ?q" by auto
  show "put_block m ?q b = m(?q \<mapsto> b)" by (rule space_ok_append [OF ok a(2) fits])
  have start: "sp_mem sp \<le> ?q" and lay: "?q + free_mem sp = sp_mem sp + sp_size sp"
    using ok run_bounds by (fastforce simp: space_ok_def)+
  show "in_space sp ?q"
    using start lay fits blen_pos [of b] unfolding in_space_def by linarith
  have "space_ok (m(?q \<mapsto> bc)) (add_block sp (blen b))"
    using app(2) by (simp add: add_block_def)
  then have "space_ok (m(?q \<mapsto> bc, a \<mapsto> bf)) (add_block sp (blen b))"
    by (rule space_ok_update [where c = b]) (use a ne sz in auto)
  then show "space_ok (m(a \<mapsto> bf, ?q \<mapsto> bc)) (add_block sp (blen b))"
    using ne by (simp add: fun_upd_twist)
  show "space_ok (m(a \<mapsto> bf, ?q \<mapsto> bc)) sp2"
    if "apart_spaces sp sp2 \<or> apart_spaces sp2 sp" "space_ok m sp2" for sp2
  proof -
    have "space_ok (m(a \<mapsto> bf)) sp2"
      by (rule space_ok_update [OF that(2) a(1) sz(1)])
    then show ?thesis
    proof (rule space_ok_frame)
      show "\<not> overlap (sp_mem sp2) (sp_size sp2) ?q (blen bc)"
        using that(1) start lay fits len by (auto simp: overlap_def apart_spaces_def apart_def)
      show "\<And>c. (m(a \<mapsto> bf)) ?q = Some c \<Longrightarrow> blen c = blen bc" using none ne by auto
    qed
  qed
qed

lemma apart_commute: "apart a n b k = apart b k a n"
  by (auto simp: apart_def)

lemma old_apart_inside:
  assumes "layout_ok h" "sp_mem (old h) \<noteq> 0" "inside h sp"
  shows "apart_spaces (old h) sp"
  using assms by (auto simp: layout_ok_def old_ok_def apart_spaces_def apart_def inside_def)

lemma moved_facts:
  assumes mv: "moved h a b bf bc h' q" and lay: "layout_ok h" and b: "store h a = Some b" "8 dvd hsize (hdr b)"
  shows "layout_ok h'" "store h q = None" "a \<noteq> q" "to_addr h q"
    "in_space (future_survived h') = in_space (future_survived h)" "in_space (old h') = in_space (old h)"
proof -
  let ?m = "(store h)(a \<mapsto> bf, q \<mapsto> bc)"
  note sz = mv [unfolded moved_def]
  have hs: "hsize (hdr bf) = hsize (hdr b)" "hsize (hdr bc) = hsize (hdr b)" using sz by auto
  note lays = lay [unfolded layout_ok_def]
  have facts: "layout_ok h' \<and> store h q = None \<and> a \<noteq> q \<and> to_addr h q"
  proof (cases "old h' = old h")
    case True
    with sz have q: "q = sp_pos (future_survived h)" "blen b \<le> free_mem (future_survived h)"
        "future_survived h' = add_block (future_survived h) (blen b)" "old h' = old h"
      by (auto simp: add_block_def dest: arg_cong [where f = blocks])
    from lays have ok: "space_ok (store h) (future_survived h)" by blast
    note cs = copy_spaces [OF ok b q(2) hs, folded q(1)]
    have "old_ok h'"
    proof (cases "sp_mem (old h) = 0")
      case True
      with lays sz q show ?thesis by (auto simp: old_ok_def)
    next
      case False
      have "apart_spaces (old h) (future_survived h)"
        using lays by (intro old_apart_inside [OF lay False]) blast
      then have "space_ok ?m (old h)" using cs(5) lays False by (auto simp: old_ok_def)
      with False lays sz q show ?thesis by (auto simp: old_ok_def)
    qed
    with cs lays sz q show ?thesis
      by (auto simp: layout_ok_def inside_def apart_spaces_def apart_commute to_addr_def)
  next
    case False
    with sz have q: "q = sp_pos (old h)" "blen b \<le> free_mem (old h)" "sp_mem (old h) \<noteq> 0"
        "old h' = add_block (old h) (blen b)" "future_survived h' = future_survived h"
      by auto
    from lays q have ok: "space_ok (store h) (old h)" by (simp add: old_ok_def)
    note cs = copy_spaces [OF ok b q(2) hs, folded q(1)]
    have ap: "apart_spaces (old h) (fresh h)" "apart_spaces (old h) (survived h)"
        "apart_spaces (old h) (future_survived h)"
      using lays by (auto intro!: old_apart_inside [OF lay q(3)])
    have "space_ok ?m (fresh h)" "space_ok ?m (survived h)" "space_ok ?m (future_survived h)"
      using cs(5) ap lays by blast+
    moreover have "old_ok h'"
      using cs(1) lays sz q by (auto simp: old_ok_def)
    ultimately show ?thesis
      using cs lays sz q by (auto simp: layout_ok_def inside_def apart_spaces_def to_addr_def)
  qed
  then show "layout_ok h'" "store h q = None" "a \<noteq> q" "to_addr h q" by auto
  show "in_space (future_survived h') = in_space (future_survived h)" "in_space (old h') = in_space (old h)"
    using sz by auto
qed

lemma moved_safe:
  assumes mv: "moved h a b bf bc h' q" and inv: "gc_inv h" and b: "store h a = Some b"
    and from_a: "from_addr h a" and nf: "\<not> forward (hdr b)"
  shows "gc_inv h' \<and> ext {} h h' \<and> clean_addr h' (q + 8)
    \<and> hdr_type h' (q + 8) = Some (type_id (hdr b))"
proof -
  from inv have lay: "layout_ok h" and gr: "graph_ok h" by (auto simp: gc_inv_def)
  have hh: "heap_hdr h a" using b from_a by (simp add: heap_hdr_def)
  with gr b have bok: "block_ok h b" by (auto simp: graph_ok_def)
  from heap_hdr_space [OF lay hh] b obtain sp where "in_space sp a" "space_ok (store h) sp" by auto
  from space_ok_block [OF this(2) b this(1)] have dvd: "8 dvd hsize (hdr b)" by simp
  note f = moved_facts [OF mv lay b dvd]
  note mv' = mv [unfolded moved_def]
  have not_to: "\<not> to_addr h a"
    using payload_in_space(4) [OF lay b _ _ from_a] bok from_a by (auto simp: block_ok_def)
  have to_eq: "to_addr h' x = to_addr h x" and from_eq: "from_addr h' x = from_addr h x" for x
    using f(5,6) mv' by (auto simp: to_addr_def from_addr_def)
  have st: "store h' = (store h)(a \<mapsto> bf, q \<mapsto> bc)" using mv' by auto
  have hdr_mono: "heap_hdr h' x" if "heap_hdr h x" for x
    using that by (auto simp: heap_hdr_def to_eq from_eq st)
  have hdr_cases: "x = q \<or> heap_hdr h x" if "heap_hdr h' x" for x
    using that b from_a by (auto simp: heap_hdr_def to_eq from_eq st split: if_splits)
  have va: "valid_addr h' p" if "valid_addr h p" for p
    using that hdr_mono by (auto simp: valid_addr_def)
  have vo: "valid_obj h' x" if "valid_obj h x" for x
    using that va by (auto simp: valid_obj_def)
  have ca: "clean_addr h' p" if "clean_addr h p" for p
    using that va to_eq by (auto simp: clean_addr_def)
  have ht: "hdr_type h' p = hdr_type h p" if "clean_addr h p" for p
    using that not_to f(2) by (auto simp: clean_addr_def valid_addr_def heap_hdr_def hdr_type_def st)
  have type_q: "hdr_type h' (q + 8) = Some (type_id (hdr b))"
    using mv' by (auto simp: hdr_type_def)
  have clean_q: "clean_addr h' (q + 8)"
    using f(4) by (auto simp: clean_addr_def valid_addr_def heap_hdr_def to_eq st)
  have lmono: "links_ok (valid_obj h') (valid_addr h') pl" if "links_ok (valid_obj h) (valid_addr h) pl" for pl
    by (rule links_ok_mono [OF that]) (auto intro: vo va)
  have bmono: "block_ok h' c" if "block_ok h c" for c
  proof (cases "forward (hdr c)")
    case True
    with that ca ht show ?thesis by (auto simp: block_ok_def)
  next
    case False
    then show ?thesis using that lmono by (simp add: block_ok_def)
  qed
  have "graph_ok h'"
    unfolding graph_ok_def
  proof (intro allI impI)
    fix x c
    assume x: "heap_hdr h' x" "store h' x = Some c"
    consider "x = q" "c = bc" | "x = a" "x \<noteq> q" "c = bf" | "x \<noteq> a" "x \<noteq> q" "store h x = Some c"
      using x(2) f(3) by (auto simp: st split: if_splits)
    then show "block_ok h' c \<and> (to_addr h' x \<longrightarrow> \<not> forward (hdr c))"
    proof cases
      case 1
      have "block_ok h bc" using bok nf mv' by (auto simp: block_ok_def)
      then show ?thesis using 1 bmono mv' by simp
    next
      case 2
      then show ?thesis using clean_q type_q bok not_to mv' by (auto simp: block_ok_def to_eq)
    next
      case 3
      with hdr_cases [OF x(1)] have "heap_hdr h x" by simp
      with 3 gr bmono show ?thesis by (auto simp: graph_ok_def to_eq)
    qed
  qed
  moreover have rem: "\<forall>x \<in> set (remembered_set h'). in_space (old h') x \<and> store h' x \<noteq> None"
  proof
    fix x
    assume "x \<in> set (remembered_set h')"
    then consider "x \<in> set (remembered_set h)" | "x = q" "q = sp_pos (old h)" "remembered_set h' = remembered_set h @ [q]"
      using mv' by auto
    then show "in_space (old h') x \<and> store h' x \<noteq> None"
    proof cases
      case 1
      then show ?thesis using inv f(6) by (auto simp: gc_inv_def st)
    next
      case 2
      from 2 mv' have "sp_mem (old h) \<noteq> 0" "blen b \<le> free_mem (old h)" by auto
      with lay dvd b have "in_space (old h) (sp_pos (old h))"
        using copy_spaces(4) [of "store h" "old h" a b b b] by (auto simp: layout_ok_def old_ok_def)
      with 2 show ?thesis using f(6) by (auto simp: st)
    qed
  qed
  ultimately have "gc_inv h'" using inv f(1) mv' by (auto simp: gc_inv_def)
  moreover have "ext {} h h'"
  proof -
    have blk: "\<exists>c'. store h' x = Some c' \<and> same_block c c' \<and> payload c' = payload c"
      if "to_addr h x" "store h x = Some c" for x c
      using that not_to f(2) by (auto simp: st)
    have "\<exists>new. remembered_set h' = remembered_set h @ new
        \<and> (\<forall>x. in_space (old h') x \<longrightarrow> store h' x \<noteq> None \<longrightarrow>
             in_space (old h) x \<and> store h x \<noteq> None \<or> x \<in> set new)"
    proof (cases "old h' = old h")
      case True
      with mv' have q: "q = sp_pos (future_survived h)" "remembered_set h' = remembered_set h"
        by (auto simp: add_block_def dest: arg_cong [where f = blocks])
      have "in_space (future_survived h) q"
        using q mv' True lay dvd b copy_spaces(4) [of "store h" "future_survived h" a b b b]
        by (auto simp: layout_ok_def add_block_def dest: arg_cong [where f = blocks])
      then have "\<not> in_space (old h) q"
        using lay by (auto simp: layout_ok_def old_ok_def apart_def inside_def in_space_def no_space_def
            split: if_splits)
      moreover have "\<not> in_space (old h) a" using not_to by (simp add: to_addr_def)
      ultimately show ?thesis using q True by (auto simp: st split: if_splits)
    next
      case False
      with mv' have "remembered_set h' = remembered_set h @ [q]" by auto
      moreover have "\<not> in_space (old h) a" using not_to by (simp add: to_addr_def)
      ultimately show ?thesis using f(6) by (auto simp: st split: if_splits)
    qed
    moreover have "hdr_type h' p = hdr_type h p" if "valid_addr h p" for p
      using that b f(2) mv' by (auto simp: valid_addr_def heap_hdr_def hdr_type_def st)
    then have "types_kept h h'" by (simp add: types_kept_def)
    moreover have "gc_steps h h'" using step_move [OF inv mv b from_a nf] by (rule r_into_rtranclp)
    ultimately show ?thesis
      using blk mv' f(5,6) hdr_mono unfolding ext_def by auto
  qed
  ultimately show ?thesis using clean_q type_q by blast
qed


section \<open>The old space on demand\<close>

lemma clear_range_keep:
  assumes "space_ok m sp" and "apart a n (sp_mem sp) (sp_size sp)" and "in_space sp x" "m x = Some b"
  shows "clear_range m a n x = Some b"
  using space_ok_block [OF assms(1,4,3)] assms(2)
  by (auto simp: clear_range_Some assms(4) overlap_def apart_def)

lemma space_ok_clear:
  assumes ok: "space_ok m sp" and ap: "apart a n (sp_mem sp) (sp_size sp)"
  shows "space_ok (clear_range m a n) sp"
proof -
  have run: "run m (sp_mem sp) (blocks sp) (sp_pos sp)" using ok by (simp add: space_ok_def)
  have "run (clear_range m a n) (sp_mem sp) (blocks sp) (sp_pos sp)
      \<and> run_addrs (clear_range m a n) (sp_mem sp) (blocks sp) = run_addrs m (sp_mem sp) (blocks sp)"
  proof (rule run_cong [OF run])
    fix x b
    assume x: "x \<in> set (run_addrs m (sp_mem sp) (blocks sp))" "m x = Some b"
    from run_mem [OF run x(1)] x(2) have "sp_mem sp \<le> x" "x + blen b \<le> sp_pos sp" by auto
    moreover have "sp_pos sp \<le> sp_mem sp + sp_size sp" using ok by (simp add: space_ok_def)
    ultimately have "in_space sp x" using blen_pos [of b] unfolding in_space_def by linarith
    with clear_range_keep [OF ok ap this x(2)]
    show "\<exists>b'. clear_range m a n x = Some b' \<and> hsize (hdr b') = hsize (hdr b)" by auto
  qed
  then show ?thesis using ok by (auto simp: space_ok_def clear_range_Some)
qed

lemma space_ok_empty:
  "8 dvd a \<Longrightarrow> space_ok (clear_range m a n) \<lparr>sp_mem = a, sp_pos = a, sp_size = n, free_mem = n, blocks = 0, sp_clear = True\<rparr>"
  by (auto simp: space_ok_def clear_range_Some)

lemma old_on_demand_safe:
  assumes inv: "gc_inv h"
  shows "safe (\<lambda>h'. gc_inv h' \<and> ext {} h h' \<and> sp_mem (old h') \<noteq> 0
      \<and> (\<forall>x. from_addr h x \<longrightarrow> store h' x = store h x)) (old_on_demand h)"
proof (cases "sp_mem (old h) = 0")
  case False
  then show ?thesis using inv ext_refl by (simp add: old_on_demand_def)
next
  case True
  from inv have lay: "layout_ok h" and gr: "graph_ok h" by (auto simp: gc_inv_def)
  from lay True have old: "old h = no_space" "8 \<le> old_base h" "8 dvd old_base h"
      "old_base h + OLD_SIZE < 2 ^ 64" "apart (old_base h) OLD_SIZE (heap_mem h) (mem_size h)"
    by (auto simp: layout_ok_def old_ok_def)
  define m where "m = clear_range (store h) (old_base h) OLD_SIZE"
  define sp where "sp = \<lparr>sp_mem = old_base h, sp_pos = old_base h, sp_size = OLD_SIZE,
      free_mem = OLD_SIZE, blocks = 0, sp_clear = True\<rparr>"
  define h' where "h' = h\<lparr>store := m, old := sp\<rparr>"
  have ood: "old_on_demand h = Inr h'"
    using True old by (simp add: old_on_demand_def space_init_def space_reset0_def space_reset_def
        h'_def m_def sp_def no_space_def)
  have ap: "apart (old_base h) OLD_SIZE (sp_mem s) (sp_size s)"
    if "s \<in> {fresh h, survived h, future_survived h}" for s
    using that lay old(5) by (auto simp: layout_ok_def inside_def apart_def)
  have okm: "space_ok m s" and keep: "\<And>x. in_space s x \<Longrightarrow> m x = store h x"
    if "s \<in> {fresh h, survived h, future_survived h}" for s
  proof -
    have ok: "space_ok (store h) s" using that lay by (auto simp: layout_ok_def)
    show "space_ok m s" unfolding m_def by (rule space_ok_clear [OF ok ap [OF that]])
    fix x
    assume x: "in_space s x"
    show "m x = store h x"
      using clear_range_keep [OF ok ap [OF that] x]
      by (cases "store h x") (auto simp: m_def clear_range_def)
  qed
  have keep3: "m x = store h x" if "from_addr h x \<or> in_space (future_survived h) x" for x
    using that keep [of "fresh h" x] keep [of "survived h" x] keep [of "future_survived h" x]
    by (auto simp: from_addr_def)
  have okn: "space_ok m sp" unfolding m_def sp_def by (rule space_ok_empty [OF old(3)])
  have no_new: "m x = None" if "in_space sp x" for x
  proof (rule ccontr)
    assume "m x \<noteq> None"
    then obtain b where "m x = Some b" by blast
    with space_ok_block [OF okn this that] show False by (simp add: sp_def)
  qed
  have to_eq: "to_addr h' x \<longleftrightarrow> to_addr h x \<or> in_space sp x" and from_eq: "from_addr h' x = from_addr h x" for x
    by (auto simp: to_addr_def from_addr_def h'_def old(1))
  have hdr_eq: "heap_hdr h' x = heap_hdr h x" for x
    using keep3 [of x] no_new [of x] unfolding heap_hdr_def to_eq from_eq
    by (auto simp: to_addr_def old(1) h'_def) metis+
  have st_eq: "store h' x = store h x" if "heap_hdr h x" for x
    using that keep3 [of x] by (auto simp: heap_hdr_def to_addr_def h'_def old(1))
  have va: "valid_addr h' p = valid_addr h p" for p by (simp add: valid_addr_def hdr_eq)
  have vo: "valid_obj h' x = valid_obj h x" for x by (simp add: valid_obj_def va)
  have bok: "block_ok h' b" if "block_ok h b" for b
  proof -
    have "clean_addr h q \<Longrightarrow> clean_addr h' q \<and> hdr_type h' q = hdr_type h q" for q
      using st_eq hdr_eq by (auto simp: clean_addr_def to_eq hdr_type_def valid_addr_def)
    moreover have "links_ok (valid_obj h') (valid_addr h') = links_ok (valid_obj h) (valid_addr h)"
      by (auto simp: links_ok_def vo va fun_eq_iff)
    ultimately show ?thesis using that by (auto simp: block_ok_def)
  qed
  have "graph_ok h'"
  proof (unfold graph_ok_def, intro allI impI)
    fix a b
    assume a: "heap_hdr h' a" "store h' a = Some b"
    then have ha: "heap_hdr h a" "store h a = Some b" using st_eq hdr_eq by auto
    have "to_addr h a" if "to_addr h' a"
      using that a(2) no_new [of a] unfolding to_eq by (auto simp: h'_def)
    with ha gr bok show "block_ok h' b \<and> (to_addr h' a \<longrightarrow> \<not> forward (hdr b))"
      by (auto simp: graph_ok_def)
  qed
  moreover have "layout_ok h'"
    using lay okm okn old unfolding layout_ok_def old_ok_def
    by (auto simp: h'_def inside_def apart_spaces_def sp_def)
  moreover have rem: "remembered_set h = []"
    using inv old(1) by (cases "remembered_set h") (auto simp: gc_inv_def)
  ultimately have "gc_inv h'" using inv by (auto simp: gc_inv_def h'_def)
  moreover have "ext {} h h'"
  proof -
    have "store h' x = Some b" if "to_addr h x" "store h x = Some b" for x b
      using that st_eq by (auto simp: heap_hdr_def)
    then have "\<forall>x b. to_addr h x \<longrightarrow> store h x = Some b \<longrightarrow>
        (\<exists>b'. store h' x = Some b' \<and> same_block b b' \<and> (x \<notin> {} \<longrightarrow> payload b' = payload b))"
      by auto
    moreover have "\<forall>x. heap_hdr h x \<longrightarrow> heap_hdr h' x" by (simp add: hdr_eq)
    moreover have "types_kept h h'"
      using st_eq by (auto simp: types_kept_def hdr_type_def valid_addr_def)
    moreover have "\<forall>x. in_space (old h') x \<longrightarrow> store h' x = None"
      using no_new by (simp add: h'_def)
    moreover have "gc_steps h h'" using step_grow [OF inv ood st_eq] by (rule r_into_rtranclp)
    ultimately show ?thesis
      using old(1) True unfolding ext_def by (auto simp: h'_def rem) (simp_all add: no_space_def)
  qed
  moreover have "sp_mem (old h') \<noteq> 0" using old(2) by (simp add: h'_def sp_def)
  moreover have "\<forall>x. from_addr h x \<longrightarrow> store h' x = store h x"
    using keep3 by (simp add: h'_def)
  ultimately show ?thesis by (simp add: ood)
qed

section \<open>Marking\<close>

lemma space_copy_fits:
  assumes ok: "space_ok m sp" and b: "m a = Some b" "8 dvd hsize (hdr b)"
    and src: "in_space sp2 a" "space_ok m sp2" "apart_spaces sp sp2"
  shows "space_copy m sp a (hsize (hdr b) + BHDR_SIZE) =
    (if blen b > free_mem sp then Inl (Fatal ''out of memory'')
     else Inr (m(sp_pos sp \<mapsto> b), add_block sp (blen b), sp_pos sp))"
proof (cases "blen b > free_mem sp")
  case True
  then show ?thesis by (simp add: space_copy_def space_put_def blen_def)
next
  case False
  note cs = copy_spaces [OF ok b, of b b, simplified]
  have fits: "blen b \<le> free_mem sp" using False by simp
  have "sp_mem sp \<le> sp_pos sp" "sp_pos sp + free_mem sp = sp_mem sp + sp_size sp"
    using ok run_bounds by (fastforce simp: space_ok_def)+
  with fits space_ok_block [OF src(2) b(1) src(1)] src(3)
  have "\<not> overlap (sp_pos sp) (blen b) a (blen b)"
    by (auto simp: overlap_def apart_spaces_def apart_def)
  with False cs(6) [OF fits] b(1) show ?thesis
    by (simp add: space_copy_def space_put_def Let_def add_block_def blen_def add.commute)
qed

lemma survive_safe:
  assumes inv: "gc_inv h" and b: "store h a = Some b" and from_a: "from_addr h a"
    and nf: "\<not> forward (hdr b)"
  shows "safe (\<lambda>(h', x'). gc_inv h' \<and> ext {} h h' \<and> clean_obj h' x'
      \<and> IS_HEAP_PTR x' \<and> hdr_type h' (PTR x') = Some (type_id (hdr b))
      \<and> x' = MAKE_HEAP_PTR (PTR x') \<and> fwd h' a = Some (PTR x'))
    (survive h a (hsize (hdr b) + BHDR_SIZE))"
proof -
  from inv have lay: "layout_ok h" by (simp add: gc_inv_def)
  from from_a lay obtain sp2 where sp2: "in_space sp2 a" "space_ok (store h) sp2"
      "apart_spaces (future_survived h) sp2"
    by (auto simp: from_addr_def layout_ok_def apart_spaces_def apart_commute)
  have dvd: "8 dvd hsize (hdr b)" using space_ok_block [OF sp2(2) b sp2(1)] by simp
  have ok: "space_ok (store h) (future_survived h)" using lay by (simp add: layout_ok_def)
  note cp = space_copy_fits [OF ok b dvd sp2]
  show ?thesis
  proof (cases "blen b > free_mem (future_survived h)")
    case True
    then show ?thesis using cp by (simp add: survive_def)
  next
    case False
    let ?q = "sp_pos (future_survived h)"
    have ne: "a \<noteq> ?q" using copy_spaces(3) [OF ok b dvd, of b b] False by simp
    let ?bf = "b\<lparr>hdr := (hdr b)\<lparr>forward := True\<rparr>, payload := P_Forward (?q + BHDR_SIZE)\<rparr>"
    let ?bc = "b\<lparr>hdr := (hdr b)\<lparr>forward := False, generation := (generation (hdr b) + 1) mod 4\<rparr>\<rparr>"
    let ?h = "h\<lparr>store := (store h)(a \<mapsto> ?bf, ?q \<mapsto> ?bc),
        future_survived := add_block (future_survived h) (blen b)\<rparr>"
    have "survive h a (hsize (hdr b) + BHDR_SIZE) = Inr (?h, MAKE_HEAP_PTR (?q + BHDR_SIZE))"
      using False cp ne b by (simp add: survive_def forward_to_eq)
    moreover have "moved h a b ?bf ?bc ?h ?q"
      using False by (simp add: moved_def BHDR_SIZE_def)
    then have "gc_inv ?h \<and> ext {} h ?h \<and> clean_addr ?h (?q + 8)
        \<and> hdr_type ?h (?q + 8) = Some (type_id (hdr b))"
      by (rule moved_safe [OF _ inv b from_a nf])
    moreover from this have "PTR (MAKE_HEAP_PTR (?q + 8)) = ?q + 8"
      by (intro PTR_heap_ptr [of ?h]) (auto simp: gc_inv_def clean_addr_def)
    moreover have "fwd ?h a = Some (?q + 8)" using ne by (simp add: fwd_def BHDR_SIZE_def)
    ultimately show ?thesis by (simp add: clean_obj_def valid_obj_def clean_addr_def BHDR_SIZE_def)
  qed
qed

lemma promote_safe:
  assumes inv: "gc_inv h0" and b: "store h0 a = Some b" and from_a: "from_addr h0 a"
    and nf: "\<not> forward (hdr b)"
  shows "safe (\<lambda>(h', x'). gc_inv h' \<and> ext {} h0 h' \<and> clean_obj h' x'
      \<and> IS_HEAP_PTR x' \<and> hdr_type h' (PTR x') = Some (type_id (hdr b))
      \<and> x' = MAKE_HEAP_PTR (PTR x') \<and> fwd h' a = Some (PTR x'))
    (promote h0 a (hsize (hdr b) + BHDR_SIZE))"
  unfolding promote_def
proof (rule safe_bind [OF old_on_demand_safe [OF inv]])
  fix h
  assume h: "gc_inv h \<and> ext {} h0 h \<and> sp_mem (old h) \<noteq> 0
      \<and> (\<forall>x. from_addr h0 x \<longrightarrow> store h x = store h0 x)"
  have b1: "store h a = Some b" and from1: "from_addr h a"
    using h b from_a by (auto simp: from_addr_def ext_def)
  from h have lay: "layout_ok h" by (simp add: gc_inv_def)
  from from1 obtain sp2 where sp2: "in_space sp2 a" "sp2 = fresh h \<or> sp2 = survived h"
    by (auto simp: from_addr_def)
  then have s2: "space_ok (store h) sp2" "apart_spaces (old h) sp2"
    using lay h by (auto simp: layout_ok_def intro: old_apart_inside)
  have dvd: "8 dvd hsize (hdr b)" using space_ok_block [OF s2(1) b1 sp2(1)] by simp
  have ok: "space_ok (store h) (old h)" using lay h by (auto simp: layout_ok_def old_ok_def)
  note cp = space_copy_fits [OF ok b1 dvd sp2(1) s2]
  let ?k = "\<lambda>(m, sp, new_pos).
      let h1 = heap_remember (h\<lparr>store := m, old := sp\<rparr>) new_pos;
          m1 = set_hdr m a (\<lambda>d. d\<lparr>remembered := False\<rparr>)
      in Inr (h1\<lparr>store := forward_to m1 a new_pos\<rparr>, MAKE_HEAP_PTR (new_pos + BHDR_SIZE))"
  show "safe (\<lambda>(h', x'). gc_inv h' \<and> ext {} h0 h' \<and> clean_obj h' x'
      \<and> IS_HEAP_PTR x' \<and> hdr_type h' (PTR x') = Some (type_id (hdr b))
      \<and> x' = MAKE_HEAP_PTR (PTR x') \<and> fwd h' a = Some (PTR x'))
      (bindE (space_copy (store h) (old h) a (hsize (hdr b) + BHDR_SIZE)) ?k)"
  proof (cases "blen b > free_mem (old h)")
    case True
    then show ?thesis using cp by simp
  next
    case False
    let ?q = "sp_pos (old h)"
    have ne: "a \<noteq> ?q" using copy_spaces(3) [OF ok b1 dvd, of b b] False by simp
    let ?bf = "b\<lparr>hdr := (hdr b)\<lparr>remembered := False, forward := True\<rparr>,
        payload := P_Forward (?q + BHDR_SIZE)\<rparr>"
    let ?bc = "b\<lparr>hdr := (hdr b)\<lparr>forward := False, generation := (generation (hdr b) + 1) mod 4\<rparr>\<rparr>"
    let ?h = "h\<lparr>store := (store h)(a \<mapsto> ?bf, ?q \<mapsto> ?bc), old := add_block (old h) (blen b),
        remembered_set := remembered_set h @ [?q]\<rparr>"
    have st: "forward_to (set_hdr ((store h)(?q \<mapsto> b)) a (\<lambda>d. d\<lparr>remembered := False\<rparr>)) a ?q =
        (store h)(a \<mapsto> ?bf, ?q \<mapsto> ?bc)"
      using ne b1 by (simp add: set_hdr_def forward_to_eq fun_upd_twist)
    have "bindE (space_copy (store h) (old h) a (hsize (hdr b) + BHDR_SIZE)) ?k
        = Inr (?h, MAKE_HEAP_PTR (?q + BHDR_SIZE))"
      using False cp st by (simp add: heap_remember_def Let_def)
    moreover have "moved h a b ?bf ?bc ?h ?q"
      using False h by (simp add: moved_def BHDR_SIZE_def)
    then have "gc_inv ?h \<and> ext {} h ?h \<and> clean_addr ?h (?q + 8)
        \<and> hdr_type ?h (?q + 8) = Some (type_id (hdr b))"
      by (rule moved_safe [OF _ _ b1 from1 nf]) (use h in simp)
    moreover from this have "PTR (MAKE_HEAP_PTR (?q + 8)) = ?q + 8"
      by (intro PTR_heap_ptr [of ?h]) (auto simp: gc_inv_def clean_addr_def)
    moreover have "fwd ?h a = Some (?q + 8)" using ne by (simp add: fwd_def BHDR_SIZE_def)
    ultimately show ?thesis
      using h by (auto simp: clean_obj_def valid_obj_def clean_addr_def BHDR_SIZE_def intro: ext_trans)
  qed
qed

text \<open>A visited slot keeps its value unless it is a heap pointer, and then the type of its target.\<close>

definition same_target :: "heap \<Rightarrow> obj \<Rightarrow> heap \<Rightarrow> obj \<Rightarrow> bool" where
  "same_target h x h' x' \<longleftrightarrow>
     (if IS_HEAP_PTR x then IS_HEAP_PTR x' \<and> hdr_type h' (PTR x') = hdr_type h (PTR x) else x' = x)"

lemma heap_mark_safe:
  assumes inv: "gc_inv h" and v: "valid_obj h x"
  shows "safe (\<lambda>(h', x'). gc_inv h' \<and> ext {} h h' \<and> clean_obj h' x' \<and> same_target h x h' x'
      \<and> follows h' x x') (heap_mark h x)"
proof (cases "IS_HEAP_PTR x")
  case False
  then show ?thesis using inv ext_refl by (simp add: heap_mark_def clean_obj_def valid_obj_def same_target_def
      follows_def)
next
  case True
  let ?p = "PTR x"
  from inv have lay: "layout_ok h" and gr: "graph_ok h" by (auto simp: gc_inv_def)
  from v True have va: "valid_addr h ?p" by (simp add: valid_obj_def)
  then have p8: "8 \<le> ?p" "?p - 8 + 8 = ?p" and hh: "heap_hdr h (?p - 8)"
    by (auto simp: valid_addr_def)
  then obtain b where b: "store h (?p - 8) = Some b" by (auto simp: heap_hdr_def)
  with gr hh have bok: "block_ok h b" by (auto simp: graph_ok_def)
  then have hs: "8 \<le> hsize (hdr b)" by (simp add: block_ok_def)
  have sides: "from_addr h (?p - 8) \<or> to_addr h (?p - 8)" using hh by (simp add: heap_hdr_def)
  note pis = payload_in_space [OF lay b hs sides, unfolded p8(2)]
  have ty: "hdr_type h ?p = Some (type_id (hdr b))" using b by (simp add: hdr_type_def)
  have HT: "HTYPE (store h) ?p = Some b" using p8 b by (simp add: HTYPE_def BHDR_SIZE_def)
  show ?thesis
  proof (cases "to_addr h (?p - 8)")
    case tt: True
    have "clean_obj h x" using tt v by (simp add: clean_obj_def)
    moreover have "heap_mark h x = Inr (h, x)"
    proof -
      have rng: "in_space (old h) ?p \<or> \<not> (?p < heap_mem h \<or> heap_mem h + mem_size h < ?p)"
        using tt pis(1,2) lay by (auto simp: to_addr_def in_space_def layout_ok_def inside_def)
      show ?thesis
        using True rng tt pis(1,2) HT inv
        by (auto simp: heap_mark_def mark_old_def Let_def to_addr_def gc_inv_def)
    qed
    ultimately show ?thesis using inv ext_refl by (simp add: same_target_def follows_def)
  next
    case ff: False
    with sides have from_a: "from_addr h (?p - 8)" by simp
    have mk: "heap_mark h x = mark_young h x ?p"
      using True ff pis(1,2) pis(3) [OF from_a]
      by (auto simp: heap_mark_def Let_def to_addr_def)
    show ?thesis
    proof (cases "forward (hdr b)")
      case fw: True
      with bok obtain q where q: "payload b = P_Forward q" "clean_addr h q"
          "hdr_type h q = Some (type_id (hdr b))"
        by (auto simp: block_ok_def)
      moreover have "PTR (MAKE_HEAP_PTR q) = q"
        using q lay by (intro PTR_heap_ptr) (auto simp: clean_addr_def)
      ultimately show ?thesis
        using mk HT fw inv ext_refl True ty
        by (simp add: mark_young_def Let_def clean_obj_def valid_obj_def clean_addr_def same_target_def
            follows_def fwd_def b)
    next
      case False
      have "mark_young h x ?p =
          (if generation (hdr b) = 3 then promote h (?p - 8) (hsize (hdr b) + BHDR_SIZE)
           else survive h (?p - 8) (hsize (hdr b) + BHDR_SIZE))"
        using HT False inv by (simp add: mark_young_def Let_def gc_inv_def BHDR_SIZE_def)
      then show ?thesis
        using mk survive_safe [OF inv b from_a False] promote_safe [OF inv b from_a False] True ty
        by (auto simp: same_target_def follows_def elim!: safe_mono)
    qed
  qed
qed


end
