(* ===== verification/Gc_Visit.thy ===== *)
theory Gc_Visit
  imports Gc_Mark
begin

text \<open>
  The visitors of the object types over any safe visitor of a slot: after the visit of a block of the
  target spaces all its pointers are clean. The contract of the visitor is the locale
  \<open>safe_visitor\<close>, with \<^verbatim>\<open>heap_mark\<close> as its interpretation.
\<close>

section \<open>Writing the payload of a visited block\<close>

lemma with_payload_simps [simp]:
  "fresh (with_payload h a b pl) = fresh h" "survived (with_payload h a b pl) = survived h"
  "future_survived (with_payload h a b pl) = future_survived h" "old (with_payload h a b pl) = old h"
  "heap_mem (with_payload h a b pl) = heap_mem h" "mem_size (with_payload h a b pl) = mem_size h"
  "remembered_set (with_payload h a b pl) = remembered_set h"
  "full_gc (with_payload h a b pl) = full_gc h" "old_map (with_payload h a b pl) = old_map h"
  "old_base (with_payload h a b pl) = old_base h"
  "store (with_payload h a b pl) = (store h)(a \<mapsto> b\<lparr>payload := pl\<rparr>)"
  by (simp_all add: with_payload_def)

lemma with_payload_preds:
  assumes b: "store h a = Some b"
  shows "to_addr (with_payload h a b pl) = to_addr h" "from_addr (with_payload h a b pl) = from_addr h"
    "heap_hdr (with_payload h a b pl) = heap_hdr h" "valid_addr (with_payload h a b pl) = valid_addr h"
    "valid_obj (with_payload h a b pl) = valid_obj h" "clean_obj (with_payload h a b pl) = clean_obj h"
    "clean_addr (with_payload h a b pl) = clean_addr h" "hdr_type (with_payload h a b pl) = hdr_type h"
proof -
  let ?h = "with_payload h a b pl"
  show t: "to_addr ?h = to_addr h" "from_addr ?h = from_addr h"
    by (auto simp: to_addr_def from_addr_def fun_eq_iff)
  show hh: "heap_hdr ?h = heap_hdr h" using b by (auto simp: heap_hdr_def t fun_eq_iff)
  show va: "valid_addr ?h = valid_addr h" by (auto simp: valid_addr_def hh fun_eq_iff)
  show vo: "valid_obj ?h = valid_obj h" by (auto simp: valid_obj_def va fun_eq_iff)
  show "clean_obj ?h = clean_obj h" by (auto simp: clean_obj_def vo t fun_eq_iff)
  show "clean_addr ?h = clean_addr h" by (auto simp: clean_addr_def va t fun_eq_iff)
  show "hdr_type ?h = hdr_type h" using b by (auto simp: hdr_type_def fun_eq_iff)
qed

lemma with_payload_wf:
  assumes lay: "layout_ok h" and gr: "graph_ok h" and b: "store h a = Some b" and hh: "heap_hdr h a"
    and nf: "\<not> forward (hdr b)" and ty: "typed (type_id (hdr b)) pl"
    and lk: "links_ok (valid_obj h) (valid_addr h) pl"
  shows "layout_ok (with_payload h a b pl)" "graph_ok (with_payload h a b pl)"
proof -
  let ?h = "with_payload h a b pl"
  note pr = with_payload_preds [OF b, of pl]
  have sok: "space_ok (store ?h) sp" if "space_ok (store h) sp" for sp
    using space_ok_update [OF that b, of "b\<lparr>payload := pl\<rparr>"] by simp
  show "layout_ok ?h" using lay sok by (auto simp: layout_ok_def old_ok_def inside_def)
  show "graph_ok ?h"
    unfolding graph_ok_def
  proof (intro allI impI)
    fix x c
    assume x: "heap_hdr ?h x" "store ?h x = Some c"
    have mono: "block_ok ?h c = block_ok h c" for c by (simp add: block_ok_def pr)
    have hb: "block_ok h b" using gr hh b by (auto simp: graph_ok_def)
    show "block_ok ?h c \<and> (to_addr ?h x \<longrightarrow> \<not> forward (hdr c))"
    proof (cases "x = a")
      case True
      with x(2) have "c = b\<lparr>payload := pl\<rparr>" by simp
      then show ?thesis using hb ty lk nf by (simp add: mono) (simp add: block_ok_def)
    next
      case False
      then show ?thesis using x gr by (simp add: mono pr graph_ok_def)
    qed
  qed
qed

lemma with_payload_safe:
  assumes inv: "gc_inv h" and b: "store h a = Some b" and to: "to_addr h a"
    and ty: "typed (type_id (hdr b)) pl" and lk: "links_ok (valid_obj h) (valid_addr h) pl"
    and pf: "payload_follows h (payload b) pl"
  shows "gc_inv (with_payload h a b pl)" "ext {a} h (with_payload h a b pl)"
proof -
  let ?h = "with_payload h a b pl"
  note pr = with_payload_preds [OF b, of pl]
  have hh: "heap_hdr h a" using b to by (simp add: heap_hdr_def)
  have "\<not> forward (hdr b)" using inv hh to b by (auto simp: gc_inv_def graph_ok_def)
  with inv with_payload_wf [OF _ _ b hh _ ty lk] show "gc_inv ?h" by (auto simp: gc_inv_def)
  have "gc_steps h ?h" using step_visit [OF inv b to pf] by (rule r_into_rtranclp)
  then show "ext {a} h ?h"
    using b by (auto simp: ext_def pr same_block_def types_kept_def)
qed

section \<open>Access to the fields\<close>

text \<open>
  How a visitor reads and writes the pointer number \<open>i\<close> of the objects of type \<open>t\<close>, and the link to an
  environment.
\<close>

definition slot_acc ::
  "u16 \<Rightarrow> nat \<Rightarrow> (payload \<Rightarrow> obj option) \<Rightarrow> (obj \<Rightarrow> payload \<Rightarrow> payload option) \<Rightarrow> bool" where
  "slot_acc t i rd wr \<longleftrightarrow> (\<forall>pl. typed t pl \<longrightarrow> i < length (obj_slots pl) \<longrightarrow>
     rd pl = Some (obj_slots pl ! i) \<and>
     (\<forall>x. \<exists>pl'. wr x pl = Some pl' \<and> typed t pl' \<and> obj_slots pl' = (obj_slots pl)[i := x]
        \<and> env_links pl' = env_links pl \<and> shape pl' = shape pl \<and> (\<forall>p. homed p pl' = homed p pl)))"

definition link_acc ::
  "u16 \<Rightarrow> (payload \<Rightarrow> addr option) \<Rightarrow> (addr \<Rightarrow> payload \<Rightarrow> payload option) \<Rightarrow> bool" where
  "link_acc t rd wr \<longleftrightarrow> (\<forall>pl. typed t pl \<longrightarrow> (\<exists>q. env_links pl = [q] \<and> rd pl = Some q) \<and>
     (\<forall>q. \<exists>pl'. wr q pl = Some pl' \<and> typed t pl' \<and> env_links pl' = [q] \<and> obj_slots pl' = obj_slots pl
        \<and> shape pl' = shape pl \<and> (\<forall>p. homed p pl' = homed p pl)))"

definition fix_acc :: "u16 \<Rightarrow> addr \<Rightarrow> (payload \<Rightarrow> payload option) \<Rightarrow> bool" where
  "fix_acc t p upd \<longleftrightarrow> (\<forall>pl. typed t pl \<longrightarrow>
     (\<exists>pl'. upd pl = Some pl' \<and> typed t pl' \<and> obj_slots pl' = obj_slots pl \<and> env_links pl' = env_links pl
        \<and> shape pl' = shape pl \<and> homed p pl'))"

lemma typed_cases:
  "typed t pl \<Longrightarrow> (\<exists>e. pl = P_Env e \<and> t = t_env) \<or> (\<exists>c. pl = P_Closure c \<and> t = t_closure)
    \<or> (\<exists>q. pl = P_Pair q \<and> t = t_pair) \<or> (\<exists>c. pl = P_Cont c \<and> t = t_cont)
    \<or> (\<exists>s. pl = P_String s \<and> t = t_string) \<or> (\<exists>s. pl = P_Struct s \<and> t = t_struct)
    \<or> (\<exists>v. pl = P_Bytevector v \<and> t = t_bytevector)"
  by (cases pl) auto

lemma typed_iff:
  "typed t_env pl \<longleftrightarrow> (\<exists>e. pl = P_Env e \<and> env_size e = int (length (env_slots e)))"
  "typed t_closure pl \<longleftrightarrow> (\<exists>c. pl = P_Closure c)"
  "typed t_pair pl \<longleftrightarrow> (\<exists>q. pl = P_Pair q \<and> pair_list q \<noteq> None \<and> pair_length q \<noteq> None)"
  "typed t_cont pl \<longleftrightarrow> (\<exists>c. pl = P_Cont c)"
  "typed t_string pl \<longleftrightarrow> (\<exists>s. pl = P_String s)"
  "typed t_struct pl \<longleftrightarrow> (\<exists>s. pl = P_Struct s \<and> struct_size s = int (length (field_slots s)))"
  "typed t_bytevector pl \<longleftrightarrow> (\<exists>v. pl = P_Bytevector v)"
  by (cases pl; simp add: type_id_defs)+

lemma accesses:
  "slot_acc t_pair 0 get_car set_car" "slot_acc t_pair 1 get_cdr set_cdr"
  "slot_acc t_cont 0 get_cont set_cont"
  "slot_acc t_env i (get_slot i) (set_slot i)" "slot_acc t_struct i (get_slot i) (set_slot i)"
  "link_acc t_env get_prev set_prev" "link_acc t_closure get_clo_env set_clo_env"
  "fix_acc t_env p (fix_env p)" "fix_acc t_struct p (fix_struct p)" "fix_acc t_string p (fix_string p)"
  "fix_acc t_bytevector p (fix_bytevector p)"
  by (auto simp: slot_acc_def link_acc_def fix_acc_def typed_iff)

text \<open>A pointer may stay as it is; writing one visited pointer is a visited payload.\<close>

lemma follows_refl [simp]: "follows h x x" "follows_addr h p p"
  by (simp_all add: follows_def follows_addr_def)

lemma follows_slots:
  "list_all2 (follows h) xs xs" "list_all2 (follows_addr h) qs qs"
  "follows h (xs ! i) x \<Longrightarrow> list_all2 (follows h) xs (xs[i := x])"
  "follows_addr h q q' \<Longrightarrow> list_all2 (follows_addr h) [q] [q']"
proof -
  show "list_all2 (follows h) xs xs" "list_all2 (follows_addr h) qs qs" by (simp_all add: list_all2_same)
  show "follows h (xs ! i) x \<Longrightarrow> list_all2 (follows h) xs (xs[i := x])"
    by (cases "i < length xs") (auto simp: list_all2_conv_all_nth nth_list_update)
  show "follows_addr h q q' \<Longrightarrow> list_all2 (follows_addr h) [q] [q']" by simp
qed

section \<open>Visiting with a safe visitor\<close>

text \<open>
  The state of the visit of the block at \<open>a\<close> that started in \<open>h\<close> with payload \<open>pl\<close>: the block has
  type \<open>t\<close> and now the given pointers; \<open>F\<close> says that its interior pointer has been set.
\<close>

definition visited :: "bool \<Rightarrow> heap \<Rightarrow> addr \<Rightarrow> u16 \<Rightarrow> obj list \<Rightarrow> addr list \<Rightarrow> heap \<Rightarrow> bool" where
  "visited F h a t xs qs h' \<longleftrightarrow> gc_inv h' \<and> ext {a} h h' \<and> to_addr h' a
     \<and> (\<exists>b. store h' a = Some b \<and> type_id (hdr b) = t \<and> obj_slots (payload b) = xs
         \<and> env_links (payload b) = qs \<and> (F \<longrightarrow> homed (a + BHDR_SIZE) (payload b)))"

lemma visitedE:
  assumes "visited F h a t xs qs h'"
  obtains b where "gc_inv h'" "ext {a} h h'" "to_addr h' a" "store h' a = Some b"
    "type_id (hdr b) = t" "obj_slots (payload b) = xs" "env_links (payload b) = qs"
    "typed t (payload b)" "links_ok (valid_obj h') (valid_addr h') (payload b)"
    "F \<longrightarrow> homed (a + BHDR_SIZE) (payload b)"
proof -
  from assms obtain b where b: "gc_inv h'" "ext {a} h h'" "to_addr h' a" "store h' a = Some b"
    "type_id (hdr b) = t" "obj_slots (payload b) = xs" "env_links (payload b) = qs"
    "F \<longrightarrow> homed (a + BHDR_SIZE) (payload b)"
    by (auto simp: visited_def)
  moreover from b(1,3,4) have "block_ok h' b \<and> \<not> forward (hdr b)"
    by (auto simp: gc_inv_def graph_ok_def heap_hdr_def)
  ultimately show ?thesis using that by (auto simp: block_ok_def)
qed

lemma put_payload_visited:
  assumes v: "visited F h a t xs qs h'" and b: "store h' a = Some b"
    and upd: "upd (payload b) = Some pl" and ty: "typed t pl"
    and lk: "links_ok (valid_obj h') (valid_addr h') pl" and pf: "payload_follows h' (payload b) pl"
    and hm: "G \<longrightarrow> homed (a + BHDR_SIZE) pl"
  shows "safe (visited G h a t (obj_slots pl) (env_links pl)) (put_payload h' a upd)"
proof -
  from v obtain b' where v': "gc_inv h'" "ext {a} h h'" "to_addr h' a" "store h' a = Some b'"
      "type_id (hdr b') = t"
    by (auto elim: visitedE)
  with b have [simp]: "b' = b" by simp
  have pp: "put_payload h' a upd = Inr (with_payload h' a b pl)"
    using b upd by (simp add: put_payload_def with_payload_def)
  from v' ty have "typed (type_id (hdr b)) pl" by simp
  note w = with_payload_safe [OF v'(1) b v'(3) this lk pf]
  show ?thesis
    using pp w v' hm with_payload_preds [OF b] by (auto simp: visited_def intro: ext_trans)
qed

text \<open>What a visit achieves: the block no longer points into the emptied spaces.\<close>

definition cleaned :: "heap \<Rightarrow> addr \<Rightarrow> heap \<Rightarrow> bool" where
  "cleaned h a h' \<longleftrightarrow> gc_inv h' \<and> ext {a} h h' \<and> clean_block h' a"

locale safe_visitor =
  fixes vs :: visitor
  assumes vs_safe: "gc_inv h \<Longrightarrow> valid_obj h x \<Longrightarrow>
    safe (\<lambda>(h', x'). gc_inv h' \<and> ext {} h h' \<and> clean_obj h' x' \<and> same_target h x h' x'
      \<and> follows h' x x') (vs h x)"
begin

text \<open>After a call of the visitor the block under visit is as it was.\<close>

lemma visited_ext:
  assumes v: "visited F h a t xs qs h1" and e: "ext {} h1 h2" and inv: "gc_inv h2"
  shows "visited F h a t xs qs h2"
proof -
  from v obtain b where b: "ext {a} h h1" "to_addr h1 a" "store h1 a = Some b"
      "type_id (hdr b) = t" "obj_slots (payload b) = xs" "env_links (payload b) = qs"
      "F \<longrightarrow> homed (a + BHDR_SIZE) (payload b)"
    by (auto elim: visitedE)
  from e b(2,3) obtain b' where "store h2 a = Some b'" "same_block b b'" "payload b' = payload b"
    unfolding ext_def by blast
  with b e inv show ?thesis
    by (auto simp: visited_def same_block_def intro: ext_trans ext_weaken ext_to_addr)
qed

lemma visit_field_safe:
  assumes v: "visited F h a t xs qs h1" and acc: "slot_acc t i rd wr" and i: "i < length xs"
  shows "safe (\<lambda>h2. ext {a} h1 h2 \<and> (\<exists>x. visited F h a t (xs[i := x]) qs h2 \<and> clean_obj h2 x))
    (visit_field vs h1 a rd wr)"
proof -
  from v obtain b where b: "gc_inv h1" "store h1 a = Some b" "type_id (hdr b) = t"
      "obj_slots (payload b) = xs" "typed t (payload b)"
      "links_ok (valid_obj h1) (valid_addr h1) (payload b)"
    by (rule visitedE)
  from acc b i have rd: "rd (payload b) = Some (xs ! i)" by (auto simp: slot_acc_def)
  have "valid_obj h1 (xs ! i)" using b i by (auto simp: links_ok_def)
  have "safe (\<lambda>h2. ext {a} h1 h2 \<and> (\<exists>x. visited F h a t (xs[i := x]) qs h2 \<and> clean_obj h2 x))
      (bindE (vs h1 (xs ! i)) (\<lambda>(h2, x). put_payload h2 a (wr x)))"
  proof (rule safe_bind [OF vs_safe [OF b(1) \<open>valid_obj h1 (xs ! i)\<close>]], clarify)
    fix h2 x
    assume h2: "gc_inv h2" "ext {} h1 h2" "clean_obj h2 x" "follows h2 (xs ! i) x"
    have v2: "visited F h a t xs qs h2" by (rule visited_ext [OF v h2(2,1)])
    have v2': "visited F h1 a t xs qs h2"
      using v2 h2 by (auto simp: visited_def intro: ext_weaken)
    from v2 obtain c where c: "store h2 a = Some c" "obj_slots (payload c) = xs"
        "env_links (payload c) = qs" "typed t (payload c)"
        "links_ok (valid_obj h2) (valid_addr h2) (payload c)" "F \<longrightarrow> homed (a + BHDR_SIZE) (payload c)"
      by (auto elim: visitedE)
    from acc c i obtain pl where pl: "wr x (payload c) = Some pl" "typed t pl"
        "obj_slots pl = xs[i := x]" "env_links pl = qs" "shape pl = shape (payload c)"
        "\<forall>p. homed p pl = homed p (payload c)"
      unfolding slot_acc_def by metis
    have hm: "F \<longrightarrow> homed (a + BHDR_SIZE) pl" using c pl by simp
    have pf: "payload_follows h2 (payload c) pl"
      using c(2,3) pl(3-5) h2(4) by (simp add: payload_follows_def follows_slots)
    have "links_ok (valid_obj h2) (valid_addr h2) pl"
      using c pl h2(3) by (auto simp: links_ok_def clean_obj_def dest!: set_update_subset_insert [THEN subsetD])
    note p1 = put_payload_visited [where upd = "wr x", OF v2 c(1) pl(1,2) this pf hm, unfolded pl(3,4)]
    note p2 = put_payload_visited [where upd = "wr x", OF v2' c(1) pl(1,2) \<open>links_ok _ _ pl\<close> pf hm, unfolded pl(3,4)]
    have eq: "put_payload h2 a (wr x) = Inr (with_payload h2 a c pl)"
      using c pl by (simp add: put_payload_def with_payload_def)
    show "safe (\<lambda>h2. ext {a} h1 h2 \<and> (\<exists>x. visited F h a t (xs[i := x]) qs h2 \<and> clean_obj h2 x))
        (put_payload h2 a (wr x))"
      using p1 p2 h2(3) with_payload_preds(6) [OF c(1), of pl]
      by (auto simp: eq visited_def intro: exI [of _ x])
  qed
  then show ?thesis using b rd by (simp add: visit_field_def)
qed

lemma mark_env_safe:
  assumes inv: "gc_inv h" and v: "q = 0 \<or> valid_addr h q"
  shows "safe (\<lambda>(h', q'). gc_inv h' \<and> ext {} h h' \<and> (q' = 0 \<or> clean_addr h' q')
      \<and> (q \<noteq> 0 \<longrightarrow> q' \<noteq> 0 \<and> hdr_type h' q' = hdr_type h q) \<and> follows_addr h' q q') (mark_env vs h q)"
proof (cases "q = 0")
  case True
  then show ?thesis using inv ext_refl by (simp add: mark_env_def follows_addr_def)
next
  case False
  with v have va: "valid_addr h q" by simp
  from inv have lay: "layout_ok h" by (simp add: gc_inv_def)
  note ptr = PTR_heap_ptr [OF lay va]
  have vo: "valid_obj h (MAKE_HEAP_PTR q)" using va ptr by (simp add: valid_obj_def)
  have fa: "follows_addr h' q (PTR x)" if x: "follows h' (MAKE_HEAP_PTR q) x" and inv': "gc_inv h'"
      and hh: "heap_hdr h' (q - 8)" for h' x
  proof (cases "x = MAKE_HEAP_PTR q")
    case False
    then obtain r where r: "fwd h' (q - 8) = Some r" "x = MAKE_HEAP_PTR r"
      using x ptr by (auto simp: follows_def)
    then obtain b where b: "store h' (q - 8) = Some b" "forward (hdr b)" "payload b = P_Forward r"
      by (auto simp: fwd_def split: option.splits if_splits payload.splits)
    then have "clean_addr h' r" using inv' hh by (auto simp: gc_inv_def graph_ok_def block_ok_def)
    then have "PTR x = r" using inv' r(2) by (auto simp: gc_inv_def clean_addr_def intro: PTR_heap_ptr)
    then show ?thesis using r(1) \<open>q \<noteq> 0\<close> by (simp add: follows_addr_def)
  qed (simp add: follows_addr_def ptr)
  have hh: "heap_hdr h' (q - 8)" if "ext {} h h'" for h'
    using va that by (auto simp: valid_addr_def ext_def)
  from vs_safe [OF inv vo] show ?thesis
    using False fa hh by (auto simp: mark_env_def same_target_def ptr clean_obj_def valid_obj_def clean_addr_def
        valid_addr_def elim!: safe_bind)
qed

lemma visit_env_field_safe:
  assumes v: "visited F h a t xs qs h1" and acc: "link_acc t rd wr"
  shows "safe (\<lambda>h2. ext {a} h1 h2 \<and> (\<exists>q. visited F h a t xs [q] h2 \<and> (q = 0 \<or> clean_addr h2 q)))
    (visit_env_field vs h1 a rd wr)"
proof -
  from v obtain b where b: "gc_inv h1" "store h1 a = Some b" "type_id (hdr b) = t"
      "obj_slots (payload b) = xs" "typed t (payload b)"
      "links_ok (valid_obj h1) (valid_addr h1) (payload b)"
    by (rule visitedE)
  from acc b obtain q where rd: "rd (payload b) = Some q" "env_links (payload b) = [q]"
    by (auto simp: link_acc_def)
  have vq: "q = 0 \<or> valid_addr h1 q" using b rd by (auto simp: links_ok_def)
  have "safe (\<lambda>h2. ext {a} h1 h2 \<and> (\<exists>q. visited F h a t xs [q] h2 \<and> (q = 0 \<or> clean_addr h2 q)))
      (bindE (mark_env vs h1 q) (\<lambda>(h2, q). put_payload h2 a (wr q)))"
  proof (rule safe_bind [OF mark_env_safe [OF b(1) vq]], clarify)
    fix h2 q'
    assume h2: "gc_inv h2" "ext {} h1 h2" "q' = 0 \<or> clean_addr h2 q'" "follows_addr h2 q q'"
    have v2: "visited F h a t xs qs h2" by (rule visited_ext [OF v h2(2,1)])
    have v2': "visited F h1 a t xs qs h2"
      using v2 h2 by (auto simp: visited_def intro: ext_weaken)
    from v2 obtain c where c: "store h2 a = Some c" "obj_slots (payload c) = xs"
        "typed t (payload c)" "links_ok (valid_obj h2) (valid_addr h2) (payload c)"
        "F \<longrightarrow> homed (a + BHDR_SIZE) (payload c)"
      by (auto elim: visitedE)
    from acc c obtain pl where pl: "wr q' (payload c) = Some pl" "typed t pl"
        "obj_slots pl = xs" "env_links pl = [q']" "shape pl = shape (payload c)"
        "\<forall>p. homed p pl = homed p (payload c)"
      unfolding link_acc_def by metis
    have hm: "F \<longrightarrow> homed (a + BHDR_SIZE) pl" using c pl by simp
    have "env_links (payload c) = [q]" using v2 c(1) v rd(2) b(2) by (auto simp: visited_def)
    then have pf: "payload_follows h2 (payload c) pl"
      using c(2) pl(3-5) h2(4) by (simp add: payload_follows_def follows_slots)
    have "links_ok (valid_obj h2) (valid_addr h2) pl"
      using c pl h2(3) by (auto simp: links_ok_def clean_addr_def)
    note p1 = put_payload_visited [where upd = "wr q'", OF v2 c(1) pl(1,2) this pf hm, unfolded pl(3,4)]
    note p2 = put_payload_visited [where upd = "wr q'", OF v2' c(1) pl(1,2) \<open>links_ok _ _ pl\<close> pf hm, unfolded pl(3,4)]
    have eq: "put_payload h2 a (wr q') = Inr (with_payload h2 a c pl)"
      using c pl by (simp add: put_payload_def with_payload_def)
    show "safe (\<lambda>h2. ext {a} h1 h2 \<and> (\<exists>q. visited F h a t xs [q] h2 \<and> (q = 0 \<or> clean_addr h2 q)))
        (put_payload h2 a (wr q'))"
      using p1 p2 h2(3) with_payload_preds(7) [OF c(1), of pl]
      by (auto simp: eq visited_def intro: exI [of _ q'])
  qed
  then show ?thesis using b rd by (simp add: visit_env_field_def)
qed

lemma fix_safe:
  assumes v: "visited F h a t xs qs h1" and acc: "fix_acc t (a + BHDR_SIZE) upd"
  shows "safe (visited True h a t xs qs) (put_payload h1 a upd)"
proof -
  from v obtain b where b: "store h1 a = Some b" "obj_slots (payload b) = xs"
      "env_links (payload b) = qs" "typed t (payload b)"
      "links_ok (valid_obj h1) (valid_addr h1) (payload b)"
    by (auto elim: visitedE)
  with acc obtain pl where pl: "upd (payload b) = Some pl" "typed t pl" "obj_slots pl = xs"
      "env_links pl = qs" "shape pl = shape (payload b)" "homed (a + BHDR_SIZE) pl"
    unfolding fix_acc_def by metis
  have pf: "payload_follows h1 (payload b) pl"
    using b(2,3) pl(3-5) by (simp add: payload_follows_def follows_slots)
  have "links_ok (valid_obj h1) (valid_addr h1) pl" using b pl by (simp add: links_ok_def)
  from put_payload_visited [where upd = upd, OF v b(1) pl(1,2) this pf, of True] pl show ?thesis by simp
qed

lemma visit_slots_safe:
  assumes "visited F h a t xs qs h1" and acc: "\<And>i. slot_acc t i (get_slot i) (set_slot i)"
    and "i + n = length xs" and "\<forall>j < i. clean_obj h1 (xs ! j)"
  shows "safe (\<lambda>h2. \<exists>ys. visited F h a t ys qs h2 \<and> (\<forall>x \<in> set ys. clean_obj h2 x))
    (visit_slots vs h1 a i n)"
  using assms(1,3,4)
proof (induction n arbitrary: i h1 xs)
  case 0
  then show ?case by (auto simp: in_set_conv_nth intro!: exI [of _ xs])
next
  case (Suc n)
  have "safe (\<lambda>h2. ext {a} h1 h2 \<and> (\<exists>x. visited F h a t (xs[i := x]) qs h2 \<and> clean_obj h2 x))
      (visit_field vs h1 a (get_slot i) (set_slot i))"
    by (rule visit_field_safe [OF Suc.prems(1) acc]) (use Suc.prems in simp)
  then show ?case
    unfolding visit_slots.simps
  proof (rule safe_bind, elim conjE exE)
    fix h2 x
    assume h2: "ext {a} h1 h2" "visited F h a t (xs[i := x]) qs h2" "clean_obj h2 x"
    have "\<forall>j < Suc i. clean_obj h2 (xs[i := x] ! j)"
      using Suc.prems h2 by (auto simp: less_Suc_eq nth_list_update intro: ext_clean_obj)
    then show "safe (\<lambda>h2. \<exists>ys. visited F h a t ys qs h2 \<and> (\<forall>x \<in> set ys. clean_obj h2 x))
        (visit_slots vs h2 a (Suc i) n)"
      using Suc.prems by (intro Suc.IH [OF h2(2)]) auto
  qed
qed

lemma visited_plain:
  "visited F h a t xs qs h' \<Longrightarrow> t = t_pair \<or> t = t_cont \<or> t = t_closure \<Longrightarrow> visited True h a t xs qs h'"
  by (erule visitedE) (auto simp: visited_def typed_iff)

lemma visited_clean:
  assumes "visited True h a t xs qs h'" and "\<forall>x \<in> set xs. clean_obj h' x" and "\<forall>q \<in> set qs. q = 0 \<or> clean_addr h' q"
  shows "cleaned h a h'"
  using assms by (auto simp: visited_def cleaned_def clean_block_def links_ok_def)

lemma env_visit_safe:
  assumes v: "visited F h a t_env xs qs h"
  shows "safe (cleaned h a) (env_visit vs h a)"
  unfolding env_visit_def
proof (rule safe_bind [OF fix_safe [OF v accesses(8)]])
  fix h1
  assume v1: "visited True h a t_env xs qs h1"
  then obtain b where b: "store h1 a = Some b" "obj_slots (payload b) = xs" "typed t_env (payload b)"
    by (auto elim: visitedE)
  then obtain e where e: "payload b = P_Env e" "env_size e = int (length xs)"
    by (auto simp: typed_iff)
  have "safe (cleaned h a) (bindE (visit_slots vs h1 a 0 (length xs))
      (\<lambda>h2. visit_env_field vs h2 a get_prev set_prev))"
  proof (rule safe_bind [OF visit_slots_safe [OF v1 accesses(4)]], simp, simp, elim exE conjE)
    fix h2 ys
    assume h2: "visited True h a t_env ys qs h2" "\<forall>x \<in> set ys. clean_obj h2 x"
    show "safe (cleaned h a) (visit_env_field vs h2 a get_prev set_prev)"
      by (rule safe_mono [OF visit_env_field_safe [OF h2(1) accesses(6)]])
        (use h2 in \<open>auto intro!: visited_clean intro: ext_clean_obj\<close>)
  qed
  then show "safe (cleaned h a) (bindE (deref (store h1 a) ''env'') (\<lambda>b.
      bindE (deref (env_size_of (payload b)) ''env size'') (\<lambda>n.
        bindE (visit_slots vs h1 a 0 (nat n)) (\<lambda>h2. visit_env_field vs h2 a get_prev set_prev))))"
    using b e by simp
qed

lemma struct_visit_safe:
  assumes v: "visited F h a t_struct xs qs h"
  shows "safe (cleaned h a) (struct_visit vs h a)"
  unfolding struct_visit_def
proof (rule safe_bind [OF fix_safe [OF v accesses(9)]])
  fix h1
  assume v1: "visited True h a t_struct xs qs h1"
  then obtain b where b: "store h1 a = Some b" "obj_slots (payload b) = xs" "typed t_struct (payload b)"
      "env_links (payload b) = qs"
    by (auto elim: visitedE)
  then obtain s where s: "payload b = P_Struct s" "struct_size s = int (length xs)" "qs = []"
    by (auto simp: typed_iff)
  have "safe (cleaned h a) (visit_slots vs h1 a 0 (length xs))"
    by (rule safe_mono [OF visit_slots_safe [OF v1 accesses(5)]])
      (use s in \<open>auto intro!: visited_clean\<close>)
  then show "safe (cleaned h a) (bindE (deref (store h1 a) ''struct'') (\<lambda>b.
      bindE (deref (struct_size_of (payload b)) ''struct size'') (\<lambda>n. visit_slots vs h1 a 0 (nat n))))"
    using b s by simp
qed

lemma pair_visit_safe:
  assumes v: "visited F h a t_pair xs qs h"
  shows "safe (cleaned h a) (pair_visit vs h a)"
proof -
  from v obtain b :: block where b: "obj_slots (payload b) = xs" "typed t_pair (payload b)" "env_links (payload b) = qs"
    by (rule visitedE) blast
  then have xs: "length xs = 2" "qs = []" by (auto simp: typed_iff)
  have v: "visited True h a t_pair xs qs h" by (rule visited_plain [OF v]) simp
  show ?thesis
    unfolding pair_visit_def
  proof (rule safe_bind [OF visit_field_safe [OF v accesses(1)]], simp add: xs, elim conjE exE)
    fix h1 x
    assume h1: "visited True h a t_pair (xs[0 := x]) qs h1" "clean_obj h1 x"
    show "safe (cleaned h a) (visit_field vs h1 a get_cdr set_cdr)"
    proof (rule safe_mono [OF visit_field_safe [OF h1(1) accesses(2)]], simp add: xs, elim conjE exE)
      fix h2 y
      assume h2: "ext {a} h1 h2" "visited True h a t_pair (xs[0 := x, 1 := y]) qs h2" "clean_obj h2 y"
      from xs obtain u w where uw: "xs = [u, w]" by (auto simp: length_Suc_conv numeral_2_eq_2)
      from h2 h1 xs(2) show "cleaned h a h2"
        by (intro visited_clean [OF h2(2)]) (auto simp: uw intro: ext_clean_obj)
    qed
  qed
qed

lemma continuation_visit_safe:
  assumes v: "visited F h a t_cont xs qs h"
  shows "safe (cleaned h a) (continuation_visit vs h a)"
proof -
  from v obtain b :: block where "obj_slots (payload b) = xs" "typed t_cont (payload b)" "env_links (payload b) = qs"
    by (rule visitedE) blast
  then obtain u where xs: "xs = [u]" "qs = []" by (auto simp: typed_iff)
  have v: "visited True h a t_cont xs qs h" by (rule visited_plain [OF v]) simp
  show ?thesis
    unfolding continuation_visit_def
    by (rule safe_mono [OF visit_field_safe [OF v accesses(3)]])
      (use xs in \<open>auto intro!: visited_clean\<close>)
qed

lemma closure_visit_safe:
  assumes v: "visited F h a t_closure xs qs h"
  shows "safe (cleaned h a) (closure_visit vs h a)"
proof -
  from v obtain b :: block where "obj_slots (payload b) = xs" "typed t_closure (payload b)"
    by (rule visitedE) blast
  then have "xs = []" by (auto simp: typed_iff)
  moreover have v: "visited True h a t_closure xs qs h" by (rule visited_plain [OF v]) simp
  ultimately show ?thesis
    unfolding closure_visit_def
    by (intro safe_mono [OF visit_env_field_safe [OF v accesses(7)]]) (auto intro!: visited_clean)
qed

lemma leaf_visit_safe:
  assumes v: "visited F h a t xs qs h" and "t = t_string \<or> t = t_bytevector" and "fix_acc t (a + BHDR_SIZE) upd"
  shows "safe (cleaned h a) (put_payload h a upd)"
proof -
  from v obtain b :: block where b: "obj_slots (payload b) = xs" "env_links (payload b) = qs" "typed t (payload b)"
    by (rule visitedE) blast
  with assms(2) have "xs = []" "qs = []" by (auto simp: typed_iff)
  then show ?thesis
    by (intro safe_mono [OF fix_safe [OF v assms(3)]]) (auto intro!: visited_clean)
qed

text \<open>The visit of any block of the target spaces makes it clean.\<close>

lemma visit_hdr_safe:
  assumes inv: "gc_inv h" and to: "to_addr h a" and b: "store h a = Some b"
  shows "safe (cleaned h a) (visit_hdr vs h a)"
proof -
  let ?t = "type_id (hdr b)"
  have v: "visited False h a ?t (obj_slots (payload b)) (env_links (payload b)) h"
    using inv to b by (auto simp: visited_def intro: ext_refl)
  then have ty: "typed ?t (payload b)" using b by (auto elim: visitedE)
  from typed_cases [OF ty] consider "?t = t_env" | "?t = t_closure" | "?t = t_pair" | "?t = t_cont"
    | "?t = t_string" | "?t = t_struct" | "?t = t_bytevector" by auto
  then show ?thesis
  proof cases
    case 5
    with v leaf_visit_safe [of False h a t_string, OF _ _ accesses(10)] show ?thesis
      using b by (simp add: visit_hdr_def string_visit_def)
  next
    case 7
    with v leaf_visit_safe [of False h a t_bytevector, OF _ _ accesses(11)] show ?thesis
      using b by (simp add: visit_hdr_def bv_visit_def)
  qed (use v b in \<open>simp_all add: visit_hdr_def env_visit_safe closure_visit_safe pair_visit_safe
      continuation_visit_safe struct_visit_safe\<close>)
qed

end

interpretation marker: safe_visitor heap_mark
  by unfold_locales (rule heap_mark_safe)

end
