(* ===== verification/Gc_Scan.thy ===== *)
theory Gc_Scan
  imports Gc_Visit
begin

text \<open>
  The scan of the future survived space, which grows while it is scanned: the blocks in front of the scan
  position are clean.
\<close>

section \<open>Positions in a run\<close>

lemma run_prefix:
  "run m a n e \<Longrightarrow> i \<le> n \<Longrightarrow> run m a i x \<Longrightarrow> set (run_addrs m a i) \<subseteq> set (run_addrs m a n)"
proof (induction i arbitrary: a n)
  case (Suc i)
  then obtain k where n: "n = Suc k" by (cases n) auto
  with Suc.prems obtain b where b: "m a = Some b" "run m (NEXT_HDR a b) k e" "run m (NEXT_HDR a b) i x" "i \<le> k"
    by (auto elim!: run_SucE)
  from Suc.IH [OF b(2,4,3)] show ?case using b(1) n by (auto simp: run_addrs_Suc)
qed simp

lemma run_next:
  "run m a n e \<Longrightarrow> i < n \<Longrightarrow> run m a i x \<Longrightarrow>
    \<exists>b. m x = Some b \<and> 8 dvd hsize (hdr b) \<and> x \<in> set (run_addrs m a n)"
proof (induction i arbitrary: a n)
  case 0
  then obtain k where "n = Suc k" by (cases n) auto
  with 0 show ?case by (auto elim!: run_SucE simp: run_addrs_Suc)
next
  case (Suc i)
  then obtain k where "n = Suc k" by (cases n) auto
  with Suc show ?case by (fastforce elim!: run_SucE simp: run_addrs_Suc)
qed

lemma run_end_unique: "run m a n e \<Longrightarrow> run m a n e' \<Longrightarrow> e = e'"
  by (induction n arbitrary: a) (auto elim!: run_SucE)

lemma run_in_space:
  assumes "space_ok m sp" and "x \<in> set (run_addrs m (sp_mem sp) (blocks sp))"
  shows "in_space sp x \<and> m x \<noteq> None"
proof -
  have run: "run m (sp_mem sp) (blocks sp) (sp_pos sp)" and "sp_pos sp \<le> sp_mem sp + sp_size sp"
    using assms(1) by (auto simp: space_ok_def)
  moreover from run_mem [OF run assms(2)] obtain b where "m x = Some b" "sp_mem sp \<le> x"
      "x + blen b \<le> sp_pos sp" by blast
  moreover have "0 < blen b" by simp
  ultimately have "x < sp_mem sp + sp_size sp" by linarith
  with \<open>sp_mem sp \<le> x\<close> \<open>m x = Some b\<close> show ?thesis by (simp add: in_space_def)
qed

section \<open>What the scans keep\<close>

definition all_clean :: "heap \<Rightarrow> addr set \<Rightarrow> bool" where
  "all_clean h A \<longleftrightarrow> (\<forall>a \<in> A. to_addr h a \<and> store h a \<noteq> None \<and> clean_block h a)"

definition keeps :: "heap \<Rightarrow> heap \<Rightarrow> bool" where
  "keeps h h' \<longleftrightarrow> gc_steps h h' \<and> fresh h' = fresh h \<and> survived h' = survived h \<and> heap_mem h' = heap_mem h
     \<and> mem_size h' = mem_size h
     \<and> sp_mem (future_survived h') = sp_mem (future_survived h)
     \<and> (\<forall>x. clean_obj h x \<longrightarrow> clean_obj h' x) \<and> (\<forall>p. clean_addr h p \<longrightarrow> clean_addr h' p)
     \<and> (\<forall>p. clean_addr h p \<longrightarrow> hdr_type h' p = hdr_type h p)
     \<and> (\<forall>a. to_addr h a \<longrightarrow> store h a \<noteq> None \<longrightarrow> to_addr h' a \<and> store h' a \<noteq> None)
     \<and> (\<forall>A. all_clean h A \<longrightarrow> all_clean h' A)"

lemma keeps_refl: "keeps h h"
  by (simp add: keeps_def)

lemma keeps_trans: "keeps h h' \<Longrightarrow> keeps h' h'' \<Longrightarrow> keeps h h''"
  unfolding keeps_def by auto

lemma ext_hdr_type: "ext A h h' \<Longrightarrow> clean_addr h p \<Longrightarrow> hdr_type h' p = hdr_type h p"
  by (simp add: ext_def types_kept_def clean_addr_def)

lemma ext_present:
  assumes "ext A h h'" "to_addr h a" "store h a \<noteq> None" shows "to_addr h' a \<and> store h' a \<noteq> None"
proof -
  from assms obtain b where "store h a = Some b" by blast
  with assms show ?thesis using ext_to_addr unfolding ext_def by blast
qed

lemma ext_keeps_rule:
  assumes e: "ext A h h'"
    and c: "\<And>x. to_addr h x \<Longrightarrow> store h x \<noteq> None \<Longrightarrow> clean_block h x \<Longrightarrow> clean_block h' x"
  shows "keeps h h'"
  unfolding keeps_def all_clean_def
proof (intro conjI allI impI ballI)
  show "gc_steps h h'" "fresh h' = fresh h" "survived h' = survived h" "heap_mem h' = heap_mem h"
    "mem_size h' = mem_size h" "sp_mem (future_survived h') = sp_mem (future_survived h)"
    using e by (simp_all add: ext_def)
qed (use ext_clean_obj [OF e] ext_clean_addr [OF e] ext_hdr_type [OF e] ext_present [OF e] c in blast)+

lemma ext_keeps: "ext {} h h' \<Longrightarrow> keeps h h'"
  by (rule ext_keeps_rule) (auto intro: ext_clean_block)

lemma cleaned_keeps:
  assumes c: "cleaned h a h'" and a: "to_addr h a" "store h a \<noteq> None"
  shows "keeps h h' \<and> all_clean h' {a} \<and> gc_inv h'"
proof -
  from c have e: "ext {a} h h'" and cb: "clean_block h' a" and inv: "gc_inv h'"
    by (auto simp: cleaned_def)
  have "clean_block h' x" if "to_addr h x" "store h x \<noteq> None" "clean_block h x" for x
    using ext_clean_block [OF e that(1,2) _ that(3)] cb by (cases "x = a") auto
  then have "keeps h h'" by (rule ext_keeps_rule [OF e])
  with inv cb ext_present [OF e a] show ?thesis by (simp add: all_clean_def)
qed

lemma all_clean_Un: "all_clean h (A \<union> B) \<longleftrightarrow> all_clean h A \<and> all_clean h B"
  by (auto simp: all_clean_def)

text \<open>A prefix of the blocks of a target space stays a prefix.\<close>

lemma ext_run_prefix:
  assumes e: "ext A h h'" and inv: "gc_inv h" and i: "i \<le> blocks sp"
    and sp: "sp = future_survived h \<or> sp = old h \<and> sp_mem (old h) \<noteq> 0"
    and run: "run (store h) (sp_mem sp) i a"
  shows "run (store h') (sp_mem sp) i a \<and> run_addrs (store h') (sp_mem sp) i = run_addrs (store h) (sp_mem sp) i"
proof (rule run_cong [OF run])
  fix x b
  assume x: "x \<in> set (run_addrs (store h) (sp_mem sp) i)" "store h x = Some b"
  have ok: "space_ok (store h) sp"
    using inv sp by (auto simp: gc_inv_def layout_ok_def old_ok_def)
  then have "run (store h) (sp_mem sp) (blocks sp) (sp_pos sp)" by (simp add: space_ok_def)
  from run_prefix [OF this i run] x(1) have "x \<in> set (run_addrs (store h) (sp_mem sp) (blocks sp))" by blast
  with run_in_space [OF ok] have "in_space sp x" by blast
  with sp have "to_addr h x" by (auto simp: to_addr_def)
  with e x(2) show "\<exists>b'. store h' x = Some b' \<and> hsize (hdr b') = hsize (hdr b)"
    unfolding ext_def same_block_def by blast
qed

section \<open>The scan of the future survived space\<close>

text \<open>The first \<open>i\<close> blocks, up to the address \<open>a\<close>, are scanned.\<close>

definition scanned :: "heap \<Rightarrow> nat \<Rightarrow> addr \<Rightarrow> bool" where
  "scanned h i a \<longleftrightarrow> i \<le> blocks (future_survived h)
     \<and> run (store h) (sp_mem (future_survived h)) i a
     \<and> all_clean h (set (run_addrs (store h) (sp_mem (future_survived h)) i))"

lemma scan_step:
  assumes inv: "gc_inv h" and ok: "space_ok (store h) sp" and i: "i < blocks sp"
    and run: "run (store h) (sp_mem sp) i a" and clean: "all_clean h (set (run_addrs (store h) (sp_mem sp) i))"
    and sp: "sp = future_survived h \<or> sp = old h \<and> sp_mem (old h) \<noteq> 0"
  shows "safe (\<lambda>h1. gc_inv h1 \<and> ext {a} h h1 \<and> keeps h h1 \<and> (\<exists>b. store h1 a = Some b \<and>
      run (store h1) (sp_mem sp) (Suc i) (NEXT_HDR a b) \<and>
      all_clean h1 (set (run_addrs (store h1) (sp_mem sp) (Suc i))))) (visit_hdr heap_mark h a)"
proof -
  have full: "run (store h) (sp_mem sp) (blocks sp) (sp_pos sp)" using ok by (simp add: space_ok_def)
  from run_next [OF full i run] obtain b where b: "store h a = Some b" "8 dvd hsize (hdr b)"
      "a \<in> set (run_addrs (store h) (sp_mem sp) (blocks sp))" by blast
  with run_in_space [OF ok] sp have to: "to_addr h a" by (auto simp: to_addr_def)
  show ?thesis
  proof (rule safe_mono [OF marker.visit_hdr_safe [OF inv to b(1)]])
    fix h1
    assume c: "cleaned h a h1"
    then have e: "ext {a} h h1" by (simp add: cleaned_def)
    from cleaned_keeps [OF c to] b have k: "keeps h h1" "all_clean h1 {a}" "gc_inv h1" by auto
    from e to b(1) obtain b1 where b1: "store h1 a = Some b1" "same_block b b1"
      unfolding ext_def by blast
    note pre = ext_run_prefix [OF e inv less_imp_le [OF i] sp run]
    have "8 dvd hsize (hdr b1)" using b b1 by (simp add: same_block_def)
    note snoc = run_snoc [OF conjunct1 [OF pre] b1(1) this]
    have "all_clean h1 (set (run_addrs (store h) (sp_mem sp) i))"
      using k(1) clean by (simp add: keeps_def)
    then show "gc_inv h1 \<and> ext {a} h h1 \<and> keeps h h1 \<and> (\<exists>b. store h1 a = Some b \<and>
        run (store h1) (sp_mem sp) (Suc i) (NEXT_HDR a b) \<and>
        all_clean h1 (set (run_addrs (store h1) (sp_mem sp) (Suc i))))"
      using snoc pre k e b1 all_clean_Un [of h1 _ "{a}"] by auto
  qed
qed

text \<open>Blocks of the old space that are not clean are remembered.\<close>

definition old_covered :: "heap \<Rightarrow> bool" where
  "old_covered h \<longleftrightarrow> (\<forall>a. in_space (old h) a \<longrightarrow> store h a \<noteq> None \<longrightarrow>
     clean_block h a \<or> a \<in> set (remembered_set h))"

lemma old_covered_ext:
  assumes e: "ext A h h'" and k: "keeps h h'" and c: "old_covered h"
  shows "old_covered h'"
  unfolding old_covered_def
proof (intro allI impI)
  fix x
  assume x: "in_space (old h') x" "store h' x \<noteq> None"
  from e obtain new where new: "remembered_set h' = remembered_set h @ new"
      "in_space (old h) x \<and> store h x \<noteq> None \<or> x \<in> set new"
    using x unfolding ext_def by blast
  show "clean_block h' x \<or> x \<in> set (remembered_set h')"
  proof (cases "x \<in> set (remembered_set h')")
    case False
    with new have old: "in_space (old h) x" "store h x \<noteq> None" and "clean_block h x"
      using c by (auto simp: old_covered_def)
    then have "all_clean h {x}" by (simp add: all_clean_def to_addr_def)
    with k have "all_clean h' {x}" by (simp add: keeps_def)
    then show ?thesis by (simp add: all_clean_def)
  qed simp
qed

lemma scan_references_safe:
  assumes "gc_inv h" and "scanned h i a"
  shows "safe (\<lambda>(h', i', a'). gc_inv h' \<and> keeps h h' \<and> (old_covered h \<longrightarrow> old_covered h')
      \<and> scanned h' i' a' \<and> i' = blocks (future_survived h')) (scan_references h i a)"
  using assms
proof (induction h i a rule: scan_references.induct)
  case (1 h i a)
  show ?case
  proof (cases "i < blocks (future_survived h)")
    case False
    with 1 show ?thesis by (subst scan_references.simps) (auto simp: scanned_def keeps_refl)
  next
    case True
    let ?sp = "future_survived h"
    have ok: "space_ok (store h) ?sp" using 1 by (simp add: gc_inv_def layout_ok_def)
    have sc: "run (store h) (sp_mem ?sp) i a" "all_clean h (set (run_addrs (store h) (sp_mem ?sp) i))"
      using 1 by (auto simp: scanned_def)
    have "safe (\<lambda>(h', i', a'). gc_inv h' \<and> keeps h h' \<and> (old_covered h \<longrightarrow> old_covered h')
        \<and> scanned h' i' a' \<and> i' = blocks (future_survived h'))
      (bindE (visit_hdr heap_mark h a) (\<lambda>h1. bindE (deref (store h1 a) ''next header'') (\<lambda>b.
         scan_references h1 (Suc i) (NEXT_HDR a b))))"
    proof (cases "visit_hdr heap_mark h a")
      case (Inl e)
      with scan_step [OF 1(2) ok True sc] show ?thesis by simp
    next
      case (Inr h1)
      with scan_step [OF 1(2) ok True sc] obtain b where h1: "gc_inv h1" "ext {a} h h1" "keeps h h1"
          "store h1 a = Some b" "run (store h1) (sp_mem ?sp) (Suc i) (NEXT_HDR a b)"
          "all_clean h1 (set (run_addrs (store h1) (sp_mem ?sp) (Suc i)))" by auto
      have "scanned h1 (Suc i) (NEXT_HDR a b)"
        using h1 True by (auto simp: scanned_def ext_def)
      from 1(1) [OF True Inr _ h1(1) this] h1(4)
      have "safe (\<lambda>(h', i', a'). gc_inv h' \<and> keeps h1 h' \<and> (old_covered h1 \<longrightarrow> old_covered h')
          \<and> scanned h' i' a' \<and> i' = blocks (future_survived h')) (scan_references h1 (Suc i) (NEXT_HDR a b))"
        by simp
      then have "safe (\<lambda>(h', i', a'). gc_inv h' \<and> keeps h h' \<and> (old_covered h \<longrightarrow> old_covered h')
          \<and> scanned h' i' a' \<and> i' = blocks (future_survived h')) (scan_references h1 (Suc i) (NEXT_HDR a b))"
        by (rule safe_mono) (use h1 in \<open>auto intro: keeps_trans old_covered_ext\<close>)
      then show ?thesis using Inr h1(4) by simp
    qed
    then show ?thesis using True by (subst scan_references.simps) simp
  qed
qed

end
