(* ===== verification/Gc_Minor.thy ===== *)
theory Gc_Minor
  imports Gc_Scan
begin

text \<open>
  The scans of the old space and of the remembered set, the loop that alternates them, and the roots of
  a thread.
\<close>

section \<open>The scans of the old space and of the remembered set\<close>

lemma ext_mono: "ext A h h' \<Longrightarrow> A \<subseteq> B \<Longrightarrow> ext B h h'"
  unfolding ext_def by fastforce

lemma scan_old_from_safe:
  assumes "gc_inv h" and "sp_mem (old h) \<noteq> 0" and "i \<le> blocks (old h)"
    and "run (store h) (sp_mem (old h)) i a" and "all_clean h (set (run_addrs (store h) (sp_mem (old h)) i))"
  shows "safe (\<lambda>h'. gc_inv h' \<and> keeps h h' \<and> old_covered h') (scan_old_from h i a)"
  using assms
proof (induction h i a rule: scan_old_from.induct)
  case (1 h i a)
  have ok: "space_ok (store h) (old h)"
    using 1 by (simp add: gc_inv_def layout_ok_def old_ok_def)
  show ?case
  proof (cases "i < blocks (old h)")
    case False
    with 1(4) have i: "i = blocks (old h)" by simp
    have "clean_block h x" if "in_space (old h) x" "store h x \<noteq> None" for x
    proof -
      from that obtain b where "store h x = Some b" by blast
      from space_ok_block(5) [OF ok this that(1)] 1(6) i show ?thesis by (simp add: all_clean_def)
    qed
    then have "old_covered h" by (simp add: old_covered_def)
    with 1(2) False show ?thesis by (subst scan_old_from.simps) (simp add: keeps_refl)
  next
    case True
    show ?thesis
    proof (cases "visit_hdr heap_mark h a")
      case (Inl e)
      with scan_step [OF 1(2) ok True 1(5,6)] 1(3) True show ?thesis
        by (subst scan_old_from.simps) simp
    next
      case (Inr h1)
      with scan_step [OF 1(2) ok True 1(5,6)] 1(3) obtain b where h1: "gc_inv h1" "ext {a} h h1" "keeps h h1"
          "store h1 a = Some b" "run (store h1) (sp_mem (old h)) (Suc i) (NEXT_HDR a b)"
          "all_clean h1 (set (run_addrs (store h1) (sp_mem (old h)) (Suc i)))" by auto
      have same: "sp_mem (old h1) = sp_mem (old h)" "blocks (old h) \<le> blocks (old h1)"
        using h1(2) 1(3) by (auto simp: ext_def)
      have "safe (\<lambda>h'. gc_inv h' \<and> keeps h1 h' \<and> old_covered h') (scan_old_from h1 (Suc i) (NEXT_HDR a b))"
        using 1(3) True h1(4) by (intro 1(1) [OF True Inr _ h1(1)]) (use same h1 in auto)
      then have "safe (\<lambda>h'. gc_inv h' \<and> keeps h h' \<and> old_covered h') (scan_old_from h1 (Suc i) (NEXT_HDR a b))"
        by (rule safe_mono) (use h1 in \<open>auto intro: keeps_trans\<close>)
      then show ?thesis using Inr h1(4) True by (subst scan_old_from.simps) simp
    qed
  qed
qed

lemma heap_scan_old_safe:
  assumes inv: "gc_inv h"
  shows "safe (\<lambda>h'. gc_inv h' \<and> keeps h h' \<and> old_covered h') (heap_scan_old h)"
proof (cases "sp_mem (old h) = 0")
  case True
  with inv have old: "old h = no_space" by (auto simp: gc_inv_def layout_ok_def old_ok_def)
  then have "old_covered h" by (simp add: old_covered_def)
  with inv old show ?thesis
    by (simp add: heap_scan_old_def scan_old_from.simps keeps_refl) (simp add: no_space_def)
next
  case False
  with inv show ?thesis
    unfolding heap_scan_old_def by (intro scan_old_from_safe) (auto simp: all_clean_def)
qed

lemma scan_remembered_safe:
  assumes "gc_inv h" and "all_clean h (set (take j (remembered_set h)))"
  shows "safe (\<lambda>h'. gc_inv h' \<and> ext UNIV h h' \<and> keeps h h' \<and> all_clean h' (set (remembered_set h')))
    (scan_remembered_from h j)"
  using assms
proof (induction h j rule: scan_remembered_from.induct)
  case (1 h j)
  show ?case
  proof (cases "j < length (remembered_set h)")
    case False
    with 1 show ?thesis by (subst scan_remembered_from.simps) (simp add: keeps_refl ext_refl)
  next
    case True
    let ?a = "remembered_set h ! j"
    have "in_space (old h) ?a" "store h ?a \<noteq> None" using 1(2) True by (auto simp: gc_inv_def)
    then have to: "to_addr h ?a" and ne: "store h ?a \<noteq> None" by (auto simp: to_addr_def)
    then obtain b where b: "store h ?a = Some b" by blast
    note vis = marker.visit_hdr_safe [OF 1(2) to b]
    show ?thesis
    proof (cases "visit_hdr heap_mark h ?a")
      case (Inl e)
      with vis True show ?thesis by (subst scan_remembered_from.simps) simp
    next
      case (Inr h1)
      with vis have c: "cleaned h ?a h1" by simp
      from cleaned_keeps [OF c to ne] have k: "keeps h h1" "all_clean h1 {?a}" "gc_inv h1" by auto
      from c have e: "ext UNIV h h1" by (auto simp: cleaned_def intro: ext_mono)
      then obtain new where new: "remembered_set h1 = remembered_set h @ new" by (auto simp: ext_def)
      have "set (take (Suc j) (remembered_set h1)) = set (take j (remembered_set h)) \<union> {?a}"
        using True new by (simp add: take_Suc_conv_app_nth)
      moreover have "all_clean h1 (set (take j (remembered_set h)))" using k(1) 1(3) by (simp add: keeps_def)
      ultimately have "all_clean h1 (set (take (Suc j) (remembered_set h1)))"
        using k(2) by (simp only: all_clean_Un simp_thms)
      from 1(1) [OF True Inr k(3) this]
      have "safe (\<lambda>h'. gc_inv h' \<and> ext UNIV h h' \<and> keeps h h' \<and> all_clean h' (set (remembered_set h')))
          (scan_remembered_from h1 (Suc j))"
        by (rule safe_mono) (use k e in \<open>auto intro: keeps_trans ext_trans\<close>)
      then show ?thesis using Inr True by (subst scan_remembered_from.simps) simp
    qed
  qed
qed

lemma forget_preds [simp]:
  "to_addr (forget h) = to_addr h" "from_addr (forget h) = from_addr h" "heap_hdr (forget h) = heap_hdr h"
  "valid_addr (forget h) = valid_addr h" "valid_obj (forget h) = valid_obj h"
  "clean_addr (forget h) = clean_addr h" "clean_obj (forget h) = clean_obj h"
  "hdr_type (forget h) = hdr_type h" "block_ok (forget h) = block_ok h"
  "clean_block (forget h) = clean_block h" "graph_ok (forget h) = graph_ok h"
  "layout_ok (forget h) = layout_ok h" "all_clean (forget h) = all_clean h"
  "scanned (forget h) = scanned h"
proof -
  show t: "to_addr (forget h) = to_addr h" and f: "from_addr (forget h) = from_addr h"
    by (auto simp: to_addr_def from_addr_def forget_def fun_eq_iff)
  show hh: "heap_hdr (forget h) = heap_hdr h" by (auto simp: heap_hdr_def t f fun_eq_iff) (auto simp: forget_def)
  show va: "valid_addr (forget h) = valid_addr h" by (auto simp: valid_addr_def hh fun_eq_iff)
  show vo: "valid_obj (forget h) = valid_obj h" by (auto simp: valid_obj_def va fun_eq_iff)
  show ca: "clean_addr (forget h) = clean_addr h" by (auto simp: clean_addr_def va t fun_eq_iff)
  show co: "clean_obj (forget h) = clean_obj h" by (auto simp: clean_obj_def vo t fun_eq_iff)
  show ht: "hdr_type (forget h) = hdr_type h" by (auto simp: hdr_type_def forget_def fun_eq_iff)
  show bo: "block_ok (forget h) = block_ok h" by (simp add: block_ok_def va vo ca ht fun_eq_iff)
  show cb: "clean_block (forget h) = clean_block h" by (simp add: clean_block_def ca co fun_eq_iff) (simp add: forget_def)
  show "graph_ok (forget h) = graph_ok h" by (simp add: graph_ok_def hh t bo) (simp add: forget_def)
  show "layout_ok (forget h) = layout_ok h" by (simp add: layout_ok_def old_ok_def inside_def forget_def)
  show ac: "all_clean (forget h) = all_clean h" by (simp add: all_clean_def t cb fun_eq_iff) (simp add: forget_def)
  show "scanned (forget h) = scanned h" by (simp add: scanned_def ac fun_eq_iff) (simp add: forget_def)
qed

lemma forget_gc_inv: "gc_inv h \<Longrightarrow> gc_inv (forget h)"
  by (simp add: gc_inv_def) (simp add: forget_def)

lemma forget_keeps: "gc_inv h \<Longrightarrow> keeps h (forget h)"
  using step_forget [of h] by (simp add: keeps_def) (simp add: forget_def r_into_rtranclp)

lemma scanned_ext:
  assumes e: "ext A h h'" and k: "keeps h h'" and inv: "gc_inv h" and s: "scanned h i a"
  shows "scanned h' i a"
proof -
  have "sp_mem (future_survived h') = sp_mem (future_survived h)"
      "blocks (future_survived h) \<le> blocks (future_survived h')"
    using e by (auto simp: ext_def)
  with ext_run_prefix [OF e inv, of i "future_survived h" a] s k show ?thesis
    by (auto simp: scanned_def keeps_def)
qed

text \<open>\<^verbatim>\<open>heap_scan_remebered\<close> empties the remembered set, and then every old block is clean.\<close>

lemma heap_scan_remembered_safe:
  assumes inv: "gc_inv h" and c: "old_covered h" and s: "scanned h i a"
  shows "safe (\<lambda>h'. gc_inv h' \<and> keeps h h' \<and> old_covered h' \<and> scanned h' i a \<and> remembered_set h' = [])
    (heap_scan_remembered h)"
  unfolding heap_scan_remembered_def
proof (rule safe_bind [OF scan_remembered_safe [OF inv, of 0]], simp add: all_clean_def)
  fix h1
  assume h1: "gc_inv h1 \<and> ext UNIV h h1 \<and> keeps h h1 \<and> all_clean h1 (set (remembered_set h1))"
  then have "old_covered h1" using old_covered_ext c by blast
  with h1 have "old_covered (forget h1)"
    by (auto simp: old_covered_def all_clean_def) (auto simp: forget_def)
  then show "safe (\<lambda>h'. gc_inv h' \<and> keeps h h' \<and> old_covered h' \<and> scanned h' i a \<and> remembered_set h' = [])
      (Inr (forget h1))"
    using h1 forget_gc_inv forget_keeps scanned_ext [OF _ _ inv s]
    by (auto intro: keeps_trans) (auto simp: forget_def)
qed

lemma drain_safe:
  assumes "gc_inv h" and "old_covered h" and "scanned h i a"
    and "remembered_set h = [] \<longrightarrow> i = blocks (future_survived h)"
  shows "safe (\<lambda>h'. gc_inv h' \<and> keeps h h' \<and> old_covered h' \<and> remembered_set h' = []
      \<and> (\<exists>a. scanned h' (blocks (future_survived h')) a)) (drain h i a)"
  using assms
proof (induction h i a rule: drain.induct)
  case (1 h i a)
  show ?case
  proof (cases "remembered_set h = []")
    case True
    with 1 show ?thesis by (subst drain.simps) (auto simp: keeps_refl)
  next
    case False
    let ?Q = "\<lambda>h0 h'. gc_inv h' \<and> keeps h0 h' \<and> old_covered h' \<and> remembered_set h' = []
      \<and> (\<exists>a. scanned h' (blocks (future_survived h')) a)"
    note rem = heap_scan_remembered_safe [OF 1(3,4,5)]
    show ?thesis
    proof (cases "heap_scan_remembered h")
      case (Inl e)
      with rem False show ?thesis by (subst drain.simps) simp
    next
      case (Inr h1)
      with rem have h1: "gc_inv h1" "keeps h h1" "old_covered h1" "scanned h1 i a" "remembered_set h1 = []"
        by auto
      show ?thesis
      proof (cases "i < blocks (future_survived h1)")
        case ff: False
        with h1(4) have "i = blocks (future_survived h1)" by (simp add: scanned_def)
        with 1(2) [OF False Inr ff h1(1,3,4)] have "safe (?Q h1) (drain h1 i a)" by simp
        then have "safe (?Q h) (drain h1 i a)" by (rule safe_mono) (use h1 in \<open>auto intro: keeps_trans\<close>)
        then show ?thesis using Inr False ff by (subst drain.simps) simp
      next
        case tt: True
        note refs = scan_references_safe [OF h1(1,4)]
        show ?thesis
        proof (cases "scan_references h1 i a")
          case (Inl e)
          with refs show ?thesis using Inr False tt by (subst drain.simps) simp
        next
          case sr: (Inr r)
          obtain h2 i2 a2 where r: "r = (h2, i2, a2)" by (cases r) auto
          with refs sr h1(3) have h2: "gc_inv h2" "keeps h1 h2" "old_covered h2" "scanned h2 i2 a2"
              "i2 = blocks (future_survived h2)" by auto
          have "safe (?Q h2) (drain h2 i2 a2)"
            using 1(1) [OF False Inr tt sr, of h2 "(i2, a2)" i2 a2] r h2 by simp
          then have "safe (?Q h) (drain h2 i2 a2)"
            by (rule safe_mono) (use h1 h2 in \<open>auto intro: keeps_trans\<close>)
          then show ?thesis using Inr False tt sr r by (subst drain.simps) simp
        qed
      qed
    qed
  qed
qed

section \<open>Roots\<close>

fun root_ok :: "(obj \<Rightarrow> bool) \<Rightarrow> (addr \<Rightarrow> bool) \<Rightarrow> root \<Rightarrow> vm_thread \<Rightarrow> bool" where
  "root_ok P Q R_Env t \<longleftrightarrow> th_env t = 0 \<or> Q (th_env t)"
| "root_ok P Q R_Stack t \<longleftrightarrow> (\<forall>x \<in> set (take (op_stack_idx t) (opstack t)). P x)"
| "root_ok P Q R_Closure t \<longleftrightarrow> th_closure t = 0 \<or> Q (th_closure t)"
| "root_ok P Q R_Lib_Cache t \<longleftrightarrow> P (lib_cache t)"
| "root_ok P Q R_Handlers t \<longleftrightarrow> P (exception_handlers t)"
| "root_ok P Q R_Locals t \<longleftrightarrow> (\<forall>xs. local_roots t = Some xs \<longrightarrow> (\<forall>x \<in> set xs. P x))"

definition valid_root :: "root \<Rightarrow> vm_thread \<Rightarrow> bool" where
  "valid_root r t = root_ok (valid_obj (heap t)) (valid_addr (heap t)) r t"

definition clean_root :: "root \<Rightarrow> vm_thread \<Rightarrow> bool" where
  "clean_root r t = root_ok (clean_obj (heap t)) (clean_addr (heap t)) r t"

text \<open>The locals live in the environment exactly when the thread has one.\<close>

definition env_root_ok :: "vm_thread \<Rightarrow> bool" where
  "env_root_ok t \<longleftrightarrow> (heap_env t \<noteq> 0 \<longrightarrow> th_env t \<noteq> 0 \<and> hdr_type (heap t) (th_env t) = Some t_env)"

text \<open>Between collections no block of the heap is forwarded.\<close>

definition settled :: "heap \<Rightarrow> bool" where
  "settled h \<longleftrightarrow> (\<forall>a b. heap_hdr h a \<longrightarrow> store h a = Some b \<longrightarrow> \<not> forward (hdr b))"

definition thread_wf :: "vm_thread \<Rightarrow> bool" where
  "thread_wf t \<longleftrightarrow> heap_wf (heap t) \<and> settled (heap t) \<and> (\<forall>r. valid_root r t)
     \<and> op_stack_idx t \<le> length (opstack t) \<and> env_root_ok t"

text \<open>The fields of the roots other than \<open>r\<close> are the same.\<close>

definition other_roots :: "root \<Rightarrow> vm_thread \<Rightarrow> vm_thread \<Rightarrow> bool" where
  "other_roots r t t' \<longleftrightarrow> (\<forall>P Q r'. r' \<noteq> r \<longrightarrow> root_ok P Q r' t' = root_ok P Q r' t)
     \<and> op_stack_idx t' = op_stack_idx t \<and> heap_env t' = heap_env t
     \<and> length (opstack t') = length (opstack t) \<and> (r \<noteq> R_Env \<longrightarrow> th_env t' = th_env t)"

lemma root_ok_mono:
  "root_ok P Q r t \<Longrightarrow> (\<And>x. P x \<Longrightarrow> P' x) \<Longrightarrow> (\<And>q. Q q \<Longrightarrow> Q' q) \<Longrightarrow> root_ok P' Q' r t"
  by (cases r) auto

lemma visit_list_length: "visit_list vs h xs = Inr (h', xs') \<Longrightarrow> length xs' = length xs"
  by (induction xs arbitrary: h xs') (auto simp: bindE_Inr_iff)

context safe_visitor
begin

lemma visit_list_safe:
  assumes "gc_inv h" and "\<forall>x \<in> set xs. valid_obj h x"
  shows "safe (\<lambda>(h', xs'). gc_inv h' \<and> ext {} h h' \<and> length xs' = length xs \<and> (\<forall>x \<in> set xs'. clean_obj h' x))
    (visit_list vs h xs)"
  using assms
proof (induction xs arbitrary: h)
  case Nil
  then show ?case by (simp add: ext_refl)
next
  case (Cons x xs)
  show ?case
    unfolding visit_list.simps
  proof (rule safe_bind [OF vs_safe [OF Cons.prems(1)]], use Cons.prems in simp, clarify)
    fix h1 x1
    assume h1: "gc_inv h1" "ext {} h h1" "clean_obj h1 x1"
    have "\<forall>x \<in> set xs. valid_obj h1 x" using Cons.prems h1 by (auto intro: ext_valid_obj)
    from Cons.IH [OF h1(1) this]
    show "safe (\<lambda>(h', xs'). gc_inv h' \<and> ext {} h h' \<and> length xs' = length (x # xs) \<and>
        (\<forall>x \<in> set xs'. clean_obj h' x)) (bindE (visit_list vs h1 xs) (\<lambda>(h2, xs2). Inr (h2, x1 # xs2)))"
      by (rule safe_bind) (use h1 in \<open>auto intro: ext_trans ext_clean_obj\<close>)
  qed
qed

text \<open>The visit of one root makes it clean and leaves the others alone.\<close>

lemma visit_root_step:
  assumes inv: "gc_inv (heap t)" and v: "valid_root r t" and idx: "op_stack_idx t \<le> length (opstack t)"
  shows "safe (\<lambda>t'. gc_inv (heap t') \<and> ext {} (heap t) (heap t') \<and> clean_root r t' \<and> other_roots r t t'
      \<and> (th_env t \<noteq> 0 \<longrightarrow> r = R_Env \<longrightarrow> th_env t' \<noteq> 0 \<and>
           hdr_type (heap t') (th_env t') = hdr_type (heap t) (th_env t)))
    (visit_root vs r t)"
proof (cases r)
  case R_Env
  with v have "th_env t = 0 \<or> valid_addr (heap t) (th_env t)" by (simp add: valid_root_def)
  from mark_env_safe [OF inv this] R_Env show ?thesis
    by simp (erule safe_bind, auto simp: clean_root_def other_roots_def elim!: root_ok.elims)
next
  case R_Stack
  with v have "\<forall>x \<in> set (take (op_stack_idx t) (opstack t)). valid_obj (heap t) x" by (simp add: valid_root_def)
  from visit_list_safe [OF inv this] R_Stack idx show ?thesis
    by simp (erule safe_bind, auto simp: clean_root_def other_roots_def elim!: root_ok.elims)
next
  case R_Closure
  with v have "th_closure t = 0 \<or> valid_addr (heap t) (th_closure t)" by (simp add: valid_root_def)
  from mark_env_safe [OF inv this] R_Closure show ?thesis
    by simp (erule safe_bind, auto simp: clean_root_def other_roots_def elim!: root_ok.elims)
next
  case R_Lib_Cache
  with v have "valid_obj (heap t) (lib_cache t)" by (simp add: valid_root_def)
  from vs_safe [OF inv this] R_Lib_Cache show ?thesis
    by simp (erule safe_bind, auto simp: clean_root_def other_roots_def elim!: root_ok.elims)
next
  case R_Handlers
  with v have "valid_obj (heap t) (exception_handlers t)" by (simp add: valid_root_def)
  from vs_safe [OF inv this] R_Handlers show ?thesis
    by simp (erule safe_bind, auto simp: clean_root_def other_roots_def elim!: root_ok.elims)
next
  case R_Locals
  show ?thesis
  proof (cases "local_roots t")
    case None
    then show ?thesis using R_Locals inv ext_refl by (simp add: clean_root_def other_roots_def)
  next
    case (Some ls)
    with v R_Locals have "\<forall>x \<in> set ls. valid_obj (heap t) x" by (simp add: valid_root_def)
    from visit_list_safe [OF inv this] R_Locals Some show ?thesis
      by simp (erule safe_bind, auto simp: clean_root_def other_roots_def elim!: root_ok.elims)
  qed
qed

lemma visit_roots_safe:
  assumes "gc_inv (heap t)" and "\<forall>r. valid_root r t" and "op_stack_idx t \<le> length (opstack t)"
    and "env_root_ok t"
  shows "safe (\<lambda>t'. gc_inv (heap t') \<and> (\<forall>r. valid_root r t') \<and> op_stack_idx t' \<le> length (opstack t')
      \<and> env_root_ok t' \<and> (\<forall>r. r \<in> set rs \<or> clean_root r t \<longrightarrow> clean_root r t')) (visit_roots vs rs t)"
  using assms
proof (induction rs arbitrary: t)
  case Nil
  then show ?case by simp
next
  case (Cons r rs)
  show ?case
    unfolding visit_roots.simps
  proof (rule safe_bind [OF visit_root_step [OF Cons.prems(1) spec [OF Cons.prems(2)] Cons.prems(3)]],
      elim conjE)
    fix t1
    assume t1: "gc_inv (heap t1)" "ext {} (heap t) (heap t1)" "clean_root r t1" "other_roots r t t1"
      "th_env t \<noteq> 0 \<longrightarrow> r = R_Env \<longrightarrow> th_env t1 \<noteq> 0 \<and>
        hdr_type (heap t1) (th_env t1) = hdr_type (heap t) (th_env t)"
    have keep: "clean_root r' t1" if "clean_root r' t \<or> r' = r" for r'
    proof (cases "r' = r")
      case False
      with that have "root_ok (clean_obj (heap t)) (clean_addr (heap t)) r' t" by (simp add: clean_root_def)
      then have "root_ok (clean_obj (heap t1)) (clean_addr (heap t1)) r' t"
        by (rule root_ok_mono) (use t1(2) in \<open>blast intro: ext_clean_obj ext_clean_addr\<close>)+
      with t1(4) False show ?thesis by (auto simp: other_roots_def clean_root_def)
    qed (use t1 in simp)
    have valid: "valid_root r' t1" for r'
    proof (cases "r' = r")
      case True
      from t1(3) have "root_ok (clean_obj (heap t1)) (clean_addr (heap t1)) r t1"
        by (simp add: clean_root_def)
      then have "root_ok (valid_obj (heap t1)) (valid_addr (heap t1)) r t1"
        by (rule root_ok_mono) (simp_all add: clean_obj_def clean_addr_def)
      with True show ?thesis by (simp add: valid_root_def)
    next
      case False
      have "root_ok (valid_obj (heap t)) (valid_addr (heap t)) r' t"
        using Cons.prems(2) by (simp add: valid_root_def)
      then have "root_ok (valid_obj (heap t1)) (valid_addr (heap t1)) r' t"
        by (rule root_ok_mono) (use t1(2) in \<open>blast intro: ext_valid_obj ext_valid_addr\<close>)+
      with t1(4) False show ?thesis by (auto simp: other_roots_def valid_root_def)
    qed
    have "hdr_type (heap t1) (th_env t) = hdr_type (heap t) (th_env t)" if "th_env t \<noteq> 0"
      using that t1(2) Cons.prems(2) [rule_format, of R_Env] by (auto simp: ext_def types_kept_def valid_root_def)
    then have er: "env_root_ok t1"
      using Cons.prems(4) t1(4,5) by (cases "r = R_Env") (auto simp: env_root_ok_def other_roots_def)
    have idx: "op_stack_idx t1 \<le> length (opstack t1)"
      using Cons.prems(3) t1(4) by (simp add: other_roots_def)
    show "safe (\<lambda>t'. gc_inv (heap t') \<and> (\<forall>r. valid_root r t') \<and> op_stack_idx t' \<le> length (opstack t')
        \<and> env_root_ok t' \<and> (\<forall>ra. ra \<in> set (r # rs) \<or> clean_root ra t \<longrightarrow> clean_root ra t'))
      (visit_roots vs rs t1)"
      by (rule safe_mono [OF Cons.IH [OF t1(1) _ idx er]]) (use valid keep in auto)
  qed
qed

text \<open>After \<^verbatim>\<open>thread_get_roots\<close> all roots are clean.\<close>

lemma thread_get_roots_safe:
  assumes "gc_inv (heap t)" and "thread_wf t"
  shows "safe (\<lambda>t'. gc_inv (heap t') \<and> (\<forall>r. clean_root r t') \<and> op_stack_idx t' \<le> length (opstack t')
      \<and> env_root_ok t') (thread_get_roots vs t)"
  unfolding thread_get_roots_def
proof (rule safe_mono [OF visit_roots_safe [OF assms(1)]])
  fix t'
  assume "gc_inv (heap t') \<and> (\<forall>r. valid_root r t') \<and> op_stack_idx t' \<le> length (opstack t') \<and> env_root_ok t'
    \<and> (\<forall>r. r \<in> set [R_Env, R_Stack, R_Closure, R_Lib_Cache, R_Handlers, R_Locals] \<or> clean_root r t \<longrightarrow>
         clean_root r t')"
  moreover have "r \<in> set [R_Env, R_Stack, R_Closure, R_Lib_Cache, R_Handlers, R_Locals]" for r
    by (cases r) auto
  ultimately show "gc_inv (heap t') \<and> (\<forall>r. clean_root r t') \<and> op_stack_idx t' \<le> length (opstack t')
      \<and> env_root_ok t'" by blast
qed (use assms in \<open>auto simp: thread_wf_def\<close>)

end

end
