(* ===== verification/Gc_Safety.thy ===== *)
theory Gc_Safety
  imports Gc_Minor
begin

text \<open>
  A whole minor collection: it keeps a thread well-formed, empties the fresh space and never accesses
  memory that it must not.
\<close>

section \<open>A whole minor collection\<close>

text \<open>All blocks of the target spaces are clean.\<close>

definition closed :: "heap \<Rightarrow> bool" where
  "closed h \<longleftrightarrow> (\<forall>a. to_addr h a \<longrightarrow> store h a \<noteq> None \<longrightarrow> clean_block h a)"

lemma scanned_closed:
  assumes inv: "gc_inv h" and s: "scanned h (blocks (future_survived h)) a"
    and c: "old_covered h" and r: "remembered_set h = []"
  shows "closed h"
  unfolding closed_def
proof (intro allI impI)
  fix x
  assume x: "to_addr h x" "store h x \<noteq> None"
  then obtain b where b: "store h x = Some b" by blast
  show "clean_block h x"
  proof (cases "in_space (old h) x")
    case True
    with c r x show ?thesis by (simp add: old_covered_def)
  next
    case False
    with x have f: "in_space (future_survived h) x" by (simp add: to_addr_def)
    from inv have "space_ok (store h) (future_survived h)" by (simp add: gc_inv_def layout_ok_def)
    from space_ok_block(5) [OF this b f] s show ?thesis by (simp add: scanned_def all_clean_def)
  qed
qed

lemma heap_gc_main_safe:
  assumes wf: "thread_wf t" and nf: "\<not> full_gc (heap t)"
  shows "safe (\<lambda>t'. gc_inv (heap t') \<and> closed (heap t') \<and> remembered_set (heap t') = []
      \<and> (\<forall>r. clean_root r t') \<and> op_stack_idx t' \<le> length (opstack t') \<and> env_root_ok t') (heap_gc_main t)"
proof -
  from wf nf have inv: "gc_inv (heap t)" by (simp add: thread_wf_def gc_inv_wf)
  show ?thesis
    unfolding heap_gc_main_def
  proof (rule safe_bind [OF marker.thread_get_roots_safe [OF inv wf]], elim conjE)
    fix t1
    assume t1: "gc_inv (heap t1)" "\<forall>r. clean_root r t1" "op_stack_idx t1 \<le> length (opstack t1)" "env_root_ok t1"
    have nf1: "\<not> full_gc (heap t1)" using t1(1) by (simp add: gc_inv_def)
    let ?P = "\<lambda>t'. gc_inv (heap t') \<and> closed (heap t') \<and> remembered_set (heap t') = []
      \<and> (\<forall>r. clean_root r t') \<and> op_stack_idx t' \<le> length (opstack t') \<and> env_root_ok t'"
    have fin: "?P (t1\<lparr>heap := h\<rparr>)"
      if h: "gc_inv h" "keeps (heap t1) h" "closed h" "remembered_set h = []" for h
    proof -
      have r: "clean_root r (t1\<lparr>heap := h\<rparr>)" for r
      proof -
        have "root_ok (clean_obj (heap t1)) (clean_addr (heap t1)) r t1"
          using t1(2) by (simp add: clean_root_def)
        then have "root_ok (clean_obj h) (clean_addr h) r t1"
          by (rule root_ok_mono) (use h(2) in \<open>auto simp: keeps_def\<close>)
        then show ?thesis by (cases r) (auto simp: clean_root_def)
      qed
      have "hdr_type h (th_env t1) = hdr_type (heap t1) (th_env t1)" if "th_env t1 \<noteq> 0"
        using that t1(2) [rule_format, of R_Env] h(2) by (auto simp: keeps_def clean_root_def)
      with t1(3,4) h r show ?thesis by (simp add: env_root_ok_def)
    qed
    have "safe (\<lambda>h3. gc_inv h3 \<and> keeps (heap t1) h3 \<and> closed h3 \<and> remembered_set h3 = [])
      (bindE (heap_scan_old (heap t1)) (\<lambda>h1. bindE (scan_references h1 0 (sp_mem (future_survived h1)))
        (\<lambda>(h2, i, a). drain h2 i a)))"
    proof (rule safe_bind [OF heap_scan_old_safe [OF t1(1)]], elim conjE)
      fix h1
      assume h1: "gc_inv h1" "keeps (heap t1) h1" "old_covered h1"
      have "scanned h1 0 (sp_mem (future_survived h1))" by (simp add: scanned_def all_clean_def)
      note refs = scan_references_safe [OF h1(1) this]
      show "safe (\<lambda>h3. gc_inv h3 \<and> keeps (heap t1) h3 \<and> closed h3 \<and> remembered_set h3 = [])
        (bindE (scan_references h1 0 (sp_mem (future_survived h1))) (\<lambda>(h2, i, a). drain h2 i a))"
      proof (rule safe_bind [OF refs], clarify)
        fix h2 i a
        assume h2: "gc_inv h2" "keeps h1 h2" "old_covered h1 \<longrightarrow> old_covered h2"
          "scanned h2 (blocks (future_survived h2)) a"
        show "safe (\<lambda>h3. gc_inv h3 \<and> keeps (heap t1) h3 \<and> closed h3 \<and> remembered_set h3 = [])
            (drain h2 (blocks (future_survived h2)) a)"
          by (rule safe_mono [OF drain_safe [OF h2(1) _ h2(4)]])
            (use h1 h2 in \<open>auto intro: keeps_trans scanned_closed\<close>)
      qed
    qed
    then have "safe ?P (bindE (bindE (heap_scan_old (heap t1))
        (\<lambda>h1. bindE (scan_references h1 0 (sp_mem (future_survived h1))) (\<lambda>(h2, i, a). drain h2 i a)))
        (\<lambda>h3. Inr (t1\<lparr>heap := h3\<rparr>)))"
      by (rule safe_bind) (use fin in auto)
    then show "safe ?P (bindE (if full_gc (heap t1) then Inr (heap t1) else heap_scan_old (heap t1)) (\<lambda>h1.
        bindE (scan_references h1 0 (sp_mem (future_survived h1))) (\<lambda>(h2, i, a).
        bindE (drain h2 i a) (\<lambda>h3. Inr (t1\<lparr>heap := h3\<rparr>)))))"
      using nf1 by (simp add: bindE_assoc case_prod_beta')
  qed
qed

text \<open>Emptying the fresh and the survived space, and swapping.\<close>

definition flip :: "heap \<Rightarrow> heap" where "flip h = heap_swap_survived (reset_fresh h)"

lemma flip_fields:
  "fresh (flip h) = (space_reset (fresh h))\<lparr>sp_clear := True\<rparr>" "survived (flip h) = future_survived h"
  "future_survived (flip h) = (space_reset (survived h))\<lparr>sp_clear := True\<rparr>" "old (flip h) = old h"
  "heap_mem (flip h) = heap_mem h" "mem_size (flip h) = mem_size h" "full_gc (flip h) = full_gc h"
  "old_map (flip h) = old_map h" "remembered_set (flip h) = remembered_set h"
  "old_base (flip h) = old_base h"
  "store (flip h) = clear_range (clear_range (store h) (sp_mem (fresh h)) (sp_size (fresh h)))
     (sp_mem (survived h)) (sp_size (survived h))"
  by (simp_all add: flip_def heap_swap_survived_def reset_fresh_def space_reset0_def Let_def)

lemma space_reset_simps [simp]:
  "sp_mem (space_reset sp) = sp_mem sp" "sp_size (space_reset sp) = sp_size sp"
  "in_space (space_reset sp) = in_space sp" "in_space (sp\<lparr>sp_clear := c\<rparr>) = in_space sp" "blocks (space_reset sp) = 0"
  "sp_pos (space_reset sp) = sp_mem sp" "free_mem (space_reset sp) = sp_size sp"
  by (auto simp: space_reset_def in_space_def fun_eq_iff)

lemma space_ok_reset: "8 dvd sp_mem sp \<Longrightarrow> space_ok (clear_range m (sp_mem sp) (sp_size sp)) ((space_reset sp)\<lparr>sp_clear := True\<rparr>)"
  by (auto simp: space_ok_def clear_range_Some)

lemma space_ok_empty_None:
  assumes "space_ok m sp" "blocks sp = 0" "in_space sp x" shows "m x = None"
proof (rule ccontr)
  assume "m x \<noteq> None"
  then obtain b where "m x = Some b" by blast
  from space_ok_block(5) [OF assms(1) this assms(3)] assms(2) show False by simp
qed

lemma flip_wf:
  assumes inv: "gc_inv h" and cl: "closed h" and rs: "remembered_set h = []"
  shows "heap_wf (flip h)" and "\<And>x. clean_obj h x \<Longrightarrow> valid_obj (flip h) x"
    and "\<And>p. clean_addr h p \<Longrightarrow> valid_addr (flip h) p \<and> hdr_type (flip h) p = hdr_type h p"
    and "\<And>a. heap_hdr (flip h) a \<longleftrightarrow> to_addr h a \<and> store h a \<noteq> None"
    and "\<And>a. to_addr h a \<Longrightarrow> store (flip h) a = store h a"
proof -
  let ?m = "store (flip h)" and ?f = "flip h"
  from inv have lay: "layout_ok h" and gr: "graph_ok h" by (auto simp: gc_inv_def)
  note l = lay [unfolded layout_ok_def]
  have apf: "apart (sp_mem (fresh h)) (sp_size (fresh h)) (sp_mem s) (sp_size s)
      \<and> apart (sp_mem (survived h)) (sp_size (survived h)) (sp_mem s) (sp_size s) \<and> space_ok (store h) s"
    if "s = future_survived h \<or> s = old h \<and> sp_mem (old h) \<noteq> 0" for s
    using that l by (auto simp: apart_spaces_def old_ok_def inside_def apart_def)
  have al: "8 dvd sp_mem (fresh h)" "8 dvd sp_mem (survived h)" using l by (auto simp: space_ok_def)
  have okt: "space_ok ?m s" and keep: "\<And>x. in_space s x \<Longrightarrow> ?m x = store h x"
    if s: "s = future_survived h \<or> s = old h \<and> sp_mem (old h) \<noteq> 0" for s
  proof -
    note a = apf [OF s]
    have ok1: "space_ok (clear_range (store h) (sp_mem (fresh h)) (sp_size (fresh h))) s"
      by (rule space_ok_clear) (use a in auto)
    show "space_ok ?m s" unfolding flip_fields by (rule space_ok_clear [OF ok1]) (use a in auto)
    fix x
    assume x: "in_space s x"
    show "?m x = store h x"
    proof (cases "store h x")
      case None
      then show ?thesis by (simp add: flip_fields clear_range_def)
    next
      case (Some b)
      have "clear_range (store h) (sp_mem (fresh h)) (sp_size (fresh h)) x = Some b"
        by (rule clear_range_keep [where sp = s]) (use a x Some in auto)
      then have "?m x = Some b"
        unfolding flip_fields
        using clear_range_keep [OF ok1, of "sp_mem (survived h)" "sp_size (survived h)" x b] a x by blast
      with Some show ?thesis by simp
    qed
  qed
  have okf: "space_ok ?m (fresh ?f)"
    unfolding flip_fields
    by (rule space_ok_clear [OF space_ok_reset [OF al(1)]])
      (use l in \<open>auto simp: apart_spaces_def apart_def\<close>)
  have oks: "space_ok ?m (future_survived ?f)"
    unfolding flip_fields by (rule space_ok_reset [OF al(2)])
  have none: "?m x = None" if "in_space (fresh h) x \<or> in_space (survived h) x" for x
    using that space_ok_empty_None [OF okf, of x] space_ok_empty_None [OF oks, of x] by (auto simp: flip_fields)
  have old0: "\<not> in_space (old h) x" if "sp_mem (old h) = 0" for x
    using that l by (auto simp: old_ok_def)
  show keep_to: "?m a = store h a" if "to_addr h a" for a
    using that keep [of "future_survived h" a] keep [of "old h" a] old0 [of a] by (auto simp: to_addr_def)
  show hdr: "heap_hdr ?f a \<longleftrightarrow> to_addr h a \<and> store h a \<noteq> None" for a
    using keep_to [of a] none [of a] unfolding heap_hdr_def from_addr_def to_addr_def flip_fields(1-4)
    by auto metis+
  show va: "valid_addr ?f p \<and> hdr_type ?f p = hdr_type h p" if "clean_addr h p" for p
    using that keep_to hdr by (auto simp: clean_addr_def valid_addr_def hdr_type_def heap_hdr_def)
  show vo: "valid_obj ?f x" if "clean_obj h x" for x
    using that va by (auto simp: clean_obj_def valid_obj_def clean_addr_def)
  have lay': "layout_ok ?f"
    using l okf oks okt [of "future_survived h"] okt [of "old h"]
    by (auto simp: layout_ok_def flip_fields inside_def apart_spaces_def apart_commute old_ok_def)
  have "graph_ok ?f"
    unfolding graph_ok_def
  proof (intro allI impI)
    fix a b
    assume a: "heap_hdr ?f a" "?m a = Some b"
    then have h: "to_addr h a" "store h a = Some b" using hdr keep_to by auto
    then have b: "block_ok h b" "\<not> forward (hdr b)" using gr by (auto simp: graph_ok_def heap_hdr_def)
    have "links_ok (clean_obj h) (clean_addr h) (payload b)"
      using cl h by (auto simp: closed_def clean_block_def)
    then have "links_ok (valid_obj ?f) (valid_addr ?f) (payload b)"
      by (rule links_ok_mono) (use va vo in auto)
    with b show "block_ok ?f b \<and> (to_addr ?f a \<longrightarrow> \<not> forward (hdr b))" by (simp add: block_ok_def)
  qed
  with lay' inv rs show "heap_wf ?f" by (simp add: heap_wf_def gc_inv_def flip_fields)
qed

text \<open>
  The main result: a minor collection of a well-formed thread accesses no memory it must not, and
  leaves a well-formed thread with an empty fresh space, or it stops because a space is full.
\<close>

lemma heap_gc_minor:
  assumes wf: "thread_wf t" and nf: "\<not> full_gc (heap t)"
  shows "safe (\<lambda>t'. thread_wf t' \<and> blocks (fresh (heap t')) = 0
      \<and> free_mem (fresh (heap t')) = sp_size (fresh (heap t'))) (heap_gc t)"
  unfolding heap_gc_def
proof (rule safe_bind [OF heap_gc_main_safe [OF wf nf]], elim conjE)
  fix t1
  assume t1: "gc_inv (heap t1)" "closed (heap t1)" "remembered_set (heap t1) = []"
    "\<forall>r. clean_root r t1" "op_stack_idx t1 \<le> length (opstack t1)" "env_root_ok t1"
  have nf1: "\<not> full_gc (heap t1)" using t1(1) by (simp add: gc_inv_def)
  let ?h = "flip (heap t1)"
  note fl = flip_wf [OF t1(1-3)]
  let ?k = "\<lambda>t5 :: vm_thread. (Inr (t5\<lparr>heap := (schedule_full (heap t5))\<lparr>gc_count := Suc (gc_count (heap t5))\<rparr>\<rparr>)
      :: vm_thread outcome)"
  let ?P = "\<lambda>t'. thread_wf t' \<and> blocks (fresh (heap t')) = 0
      \<and> free_mem (fresh (heap t')) = sp_size (fresh (heap t'))"
  have same: "heap_wf (h\<lparr>full_gc := f, gc_count := n\<rparr>) = heap_wf h"
    "valid_obj (h\<lparr>full_gc := f, gc_count := n\<rparr>) = valid_obj h"
    "valid_addr (h\<lparr>full_gc := f, gc_count := n\<rparr>) = valid_addr h"
    "hdr_type (h\<lparr>full_gc := f, gc_count := n\<rparr>) = hdr_type h"
    "settled (h\<lparr>full_gc := f, gc_count := n\<rparr>) = settled h" for h f n
  proof -
    let ?g = "h\<lparr>full_gc := f, gc_count := n\<rparr>"
    have t: "to_addr ?g = to_addr h" "from_addr ?g = from_addr h"
      by (auto simp: to_addr_def from_addr_def fun_eq_iff)
    have hh: "heap_hdr ?g = heap_hdr h" by (auto simp: heap_hdr_def t fun_eq_iff)
    show va: "valid_addr ?g = valid_addr h" by (auto simp: valid_addr_def hh fun_eq_iff)
    show vo: "valid_obj ?g = valid_obj h" by (auto simp: valid_obj_def va fun_eq_iff)
    have ca: "clean_addr ?g = clean_addr h" by (auto simp: clean_addr_def va t fun_eq_iff)
    show ht: "hdr_type ?g = hdr_type h" by (auto simp: hdr_type_def fun_eq_iff)
    show "settled ?g = settled h" by (simp add: settled_def hh)
    show "heap_wf ?g = heap_wf h"
      by (simp add: heap_wf_def graph_ok_def block_ok_def hh t va vo ca ht)
        (simp add: layout_ok_def old_ok_def inside_def)
  qed
  have roots: "valid_root r (t1\<lparr>heap := ?h\<rparr>)" for r
  proof -
    have "root_ok (clean_obj (heap t1)) (clean_addr (heap t1)) r t1" using t1(4) by (simp add: clean_root_def)
    then have "root_ok (valid_obj ?h) (valid_addr ?h) r t1"
      by (rule root_ok_mono) (use fl(2,3) in auto)
    then show ?thesis by (cases r) (auto simp: valid_root_def)
  qed
  have env: "th_env t1 \<noteq> 0 \<and> clean_addr (heap t1) (th_env t1) \<and> hdr_type ?h (th_env t1) = Some t_env"
    if "heap_env t1 \<noteq> 0"
    using that t1(6) t1(4) [rule_format, of R_Env] fl(3) by (auto simp: env_root_ok_def clean_root_def)
  have settled: "settled ?h"
    using fl(4,5) t1(1) unfolding settled_def by (metis gc_inv_def graph_ok_def heap_hdr_def)
  have fresh0: "blocks (fresh ?h) = 0" "free_mem (fresh ?h) = sp_size (fresh ?h)" by (simp_all add: flip_fields)
  have out: "safe ?P (?k (t1\<lparr>heap := ?h, th_objects := ob\<rparr>))" for ob
  proof -
    have sf: "(schedule_full ?h)\<lparr>gc_count := n\<rparr> = ?h\<lparr>full_gc := full_gc (schedule_full ?h), gc_count := n\<rparr>" for n
      by (simp add: schedule_full_def)
    have "valid_root r (t1\<lparr>th_objects := ob, heap := ?h\<lparr>full_gc := f, gc_count := n\<rparr>\<rparr>)" for r f n
      using roots [of r] by (cases r) (auto simp: valid_root_def same)
    then show ?thesis
      using t1(5) env fl(1) fresh0 settled by (simp add: sf thread_wf_def same env_root_ok_def)
  qed
  have after: "safe ?P (bindE (thread_after_gc (t1\<lparr>heap := ?h\<rparr>)) ?k)"
  proof (cases "heap_env t1 = 0")
    case True
    then show ?thesis using out [of "th_objects t1"] by (simp add: thread_after_gc_def)
  next
    case False
    from env [OF this] fl(3) have ve: "valid_addr ?h (th_env t1)" and ty: "hdr_type ?h (th_env t1) = Some t_env"
      by auto
    from ve ty obtain b where b: "store ?h (th_env t1 - 8) = Some b" "type_id (hdr b) = t_env"
        "heap_hdr ?h (th_env t1 - 8)" "8 \<le> th_env t1"
      by (auto simp: hdr_type_def valid_addr_def)
    from fl(1) b have bok: "block_ok ?h b" by (simp add: heap_wf_def graph_ok_def)
    moreover have "\<not> forward (hdr b)"
    proof -
      have "to_addr (heap t1) (th_env t1 - 8)" using b(3) fl(4) by blast
      with fl(5) b(1) have "store (heap t1) (th_env t1 - 8) = Some b" by simp
      with \<open>to_addr _ _\<close> t1(1) show ?thesis by (auto simp: gc_inv_def graph_ok_def heap_hdr_def)
    qed
    ultimately have "typed t_env (payload b)" using b(2) by (simp add: block_ok_def)
    then obtain e where "payload b = P_Env e" by (auto simp: typed_iff)
    with b have "thread_after_gc (t1\<lparr>heap := ?h\<rparr>) = Inr (t1\<lparr>heap := ?h, th_objects := In_Env (objects e)\<rparr>)"
      using False by (simp add: thread_after_gc_def HTYPE_def BHDR_SIZE_def)
    then show ?thesis using out by simp
  qed
  then show "safe ?P
    (bindE (if full_gc (heap t1)
            then bindE (heap_gc_old (heap t1)) (\<lambda>h.
                   bindE (heap_gc_main (t1\<lparr>heap := h\<lparr>full_gc := False\<rparr>\<rparr>)) (\<lambda>t2.
                     Inr (t2\<lparr>heap := (heap t2)\<lparr>old_map := None\<rparr>\<rparr>)))
            else Inr t1) (\<lambda>t3.
     let h4 = heap_swap_survived (reset_fresh (heap t3)) in bindE (thread_after_gc (t3\<lparr>heap := h4\<rparr>)) ?k))"
    using nf1 by (simp add: flip_def)
qed

end
