(* ===== verification/Gc_Graph.thy ===== *)
theory Gc_Graph
  imports Gc_Safety
begin

unbundle bit_operations_syntax

text \<open>
  A minor collection preserves the object graph: what the program can reach afterwards is a copy of what
  it could reach before, under an injective renaming of addresses. Every step of a collection keeps the
  relation \<open>tracks\<close> between the heap at the start and the current heap: each block is still there or
  forwarded to a copy, whose pointers follow the forwarding words or do not yet. At the end all pointers
  are clean, so all of them follow.
\<close>

section \<open>Forwarding words stay\<close>

lemma fwd_Some: "fwd h a = Some q \<longleftrightarrow> (\<exists>b. store h a = Some b \<and> forward (hdr b) \<and> payload b = P_Forward q)"
  by (auto simp: fwd_def split: option.splits payload.splits)

lemma fwd_to_addr:
  assumes "gc_inv h" and "to_addr h a" shows "fwd h a = None"
proof (cases "fwd h a")
  case (Some q)
  then obtain b where "store h a = Some b" "forward (hdr b)" by (auto simp: fwd_Some)
  with assms show ?thesis by (auto simp: gc_inv_def graph_ok_def heap_hdr_def)
qed simp

lemma fwd_clean:
  assumes "gc_inv h" and "heap_hdr h a" and "fwd h a = Some q"
  shows "clean_addr h q" and "PTR (MAKE_HEAP_PTR q) = q"
proof -
  from assms(3) obtain b where "store h a = Some b" "forward (hdr b)" "payload b = P_Forward q"
    by (auto simp: fwd_Some)
  with assms(1,2) show c: "clean_addr h q" by (auto simp: gc_inv_def graph_ok_def block_ok_def)
  with assms(1) show "PTR (MAKE_HEAP_PTR q) = q"
    by (auto simp: gc_inv_def clean_addr_def intro: PTR_heap_ptr)
qed

text \<open>What every step keeps.\<close>

definition stays :: "heap \<Rightarrow> heap \<Rightarrow> bool" where
  "stays h h' \<longleftrightarrow> (\<forall>a. from_addr h' a = from_addr h a) \<and> (\<forall>a. to_addr h a \<longrightarrow> to_addr h' a)
     \<and> (\<forall>a. heap_hdr h a \<longrightarrow> heap_hdr h' a)
     \<and> (\<forall>a q. heap_hdr h a \<longrightarrow> fwd h a = Some q \<longrightarrow> fwd h' a = Some q)"

lemma stays_refl: "stays h h" by (simp add: stays_def)

lemma stays_trans: "stays h h' \<Longrightarrow> stays h' h'' \<Longrightarrow> stays h h''" by (simp add: stays_def)

lemma ext_stays_parts:
  assumes "ext A h h'"
  shows "from_addr h' a = from_addr h a" "to_addr h a \<Longrightarrow> to_addr h' a" "heap_hdr h a \<Longrightarrow> heap_hdr h' a"
  using assms by (auto simp: ext_def from_addr_def to_addr_def in_space_def)

lemma move_facts:
  assumes inv: "gc_inv h" and mv: "moved h a b bf bc h' q" and b: "store h a = Some b"
    and from_a: "from_addr h a" and nf: "\<not> forward (hdr b)"
  shows "ext {} h h'" "store h q = None" "a \<noteq> q" "to_addr h' q" "\<not> to_addr h a"
    "store h' = (store h)(a \<mapsto> bf, q \<mapsto> bc)" "fwd h' a = Some (q + 8)" "fwd h a = None"
    "x \<noteq> a \<Longrightarrow> x \<noteq> q \<Longrightarrow> fwd h' x = fwd h x" "fwd h q = None"
proof -
  from inv have lay: "layout_ok h" by (simp add: gc_inv_def)
  have hh: "heap_hdr h a" using b from_a by (simp add: heap_hdr_def)
  from heap_hdr_space [OF lay hh] b obtain sp where "in_space sp a" "space_ok (store h) sp" by auto
  from space_ok_block [OF this(2) b this(1)] have dvd: "8 dvd hsize (hdr b)" by simp
  note f = moved_facts [OF mv lay b dvd]
  note s = moved_safe [OF mv inv b from_a nf]
  show e: "ext {} h h'" and "store h q = None" and ne: "a \<noteq> q" using f s by auto
  show "to_addr h' q" using ext_to_addr [OF e f(4)] .
  have "8 \<le> hsize (hdr b)" using inv hh b by (auto simp: gc_inv_def graph_ok_def block_ok_def)
  then show "\<not> to_addr h a" using payload_in_space(4) [OF lay b _ _ from_a] from_a by blast
  show st: "store h' = (store h)(a \<mapsto> bf, q \<mapsto> bc)" using mv by (simp add: moved_def)
  show "fwd h' a = Some (q + 8)" using mv ne by (simp add: fwd_def st moved_def)
  show "fwd h a = None" "fwd h q = None" using b nf f(2) by (simp_all add: fwd_def)
  show "x \<noteq> a \<Longrightarrow> x \<noteq> q \<Longrightarrow> fwd h' x = fwd h x" by (simp add: fwd_def st)
qed

lemma visit_facts:
  assumes inv: "gc_inv h" and b: "store h a = Some b" and to: "to_addr h a"
  shows "fwd (with_payload h a b pl) = fwd h" "\<not> forward (hdr b)"
proof -
  show nf: "\<not> forward (hdr b)" using inv b to by (auto simp: gc_inv_def graph_ok_def heap_hdr_def)
  show "fwd (with_payload h a b pl) = fwd h" using b nf by (auto simp: fwd_def fun_eq_iff)
qed

lemma forget_fwd [simp]: "fwd (forget h) = fwd h" "store (forget h) = store h"
  by (auto simp: fwd_def forget_def fun_eq_iff)

lemma gc_step_stays: "gc_step h h' \<Longrightarrow> stays h h'"
proof (induction rule: gc_step.induct)
  case (step_move h a b bf bc h' q)
  note m = move_facts [OF step_move]
  have "fwd h' x = Some p" if "fwd h x = Some p" for x p
    using that m(8,9,10) by (cases "x = a"; cases "x = q") auto
  then show ?case using ext_stays_parts [OF m(1)] by (simp add: stays_def)
next
  case (step_visit h a b pl)
  then show ?case
    using visit_facts(1) [OF step_visit(1-3)] with_payload_preds [OF step_visit(2)] by (simp add: stays_def)
next
  case (step_grow h h')
  then have "ext {} h h'" using old_on_demand_safe [OF step_grow(1)] by simp
  from ext_stays_parts [OF this] show ?case using step_grow(3) by (auto simp: stays_def fwd_def)
next
  case (step_forget h)
  then show ?case by (simp add: stays_def)
qed

lemma gc_steps_stays: "gc_steps h h' \<Longrightarrow> stays h h'"
  by (induction rule: rtranclp_induct) (auto intro: stays_refl stays_trans gc_step_stays)

lemma follows_stays: "stays h h' \<Longrightarrow> valid_obj h x \<Longrightarrow> follows h x y \<Longrightarrow> follows h' x y"
  by (auto simp: follows_def stays_def valid_obj_def valid_addr_def)

lemma follows_addr_stays:
  "stays h h' \<Longrightarrow> p = 0 \<or> valid_addr h p \<Longrightarrow> follows_addr h p q \<Longrightarrow> follows_addr h' p q"
  by (auto simp: follows_addr_def stays_def valid_addr_def)

lemma stays_valid: "stays h h' \<Longrightarrow> valid_addr h p \<Longrightarrow> valid_addr h' p"
    "stays h h' \<Longrightarrow> valid_obj h x \<Longrightarrow> valid_obj h' x"
  by (auto simp: stays_def valid_addr_def valid_obj_def)

lemma payload_follows_stays:
  assumes s: "stays h h'" and lk: "links_ok (valid_obj h) (valid_addr h) pl" and p: "payload_follows h pl pl'"
  shows "payload_follows h' pl pl'"
proof -
  have "list_all2 (follows h') (obj_slots pl) (obj_slots pl')"
    using p lk follows_stays [OF s]
    by (auto simp: payload_follows_def links_ok_def list_all2_conv_all_nth)
  moreover have "list_all2 (follows_addr h') (env_links pl) (env_links pl')"
    using p lk follows_addr_stays [OF s]
    by (auto simp: payload_follows_def links_ok_def list_all2_conv_all_nth)
  ultimately show ?thesis using p by (simp add: payload_follows_def)
qed

text \<open>A pointer that has followed does not move again.\<close>

lemma follows_twice:
  assumes inv: "gc_inv h" and v: "valid_obj h x" and "follows h x y" "follows h y z"
  shows "follows h x z"
proof (cases "y = x")
  case False
  with assms(3) obtain q where q: "IS_HEAP_PTR x" "fwd h (PTR x - 8) = Some q" "y = MAKE_HEAP_PTR q"
    by (auto simp: follows_def)
  have "heap_hdr h (PTR x - 8)" using v q(1) by (simp add: valid_obj_def valid_addr_def)
  note c = fwd_clean [OF inv this q(2)]
  have "fwd h (q - 8) = None" using c(1) by (intro fwd_to_addr [OF inv]) (simp add: clean_addr_def)
  then have "z = y" using assms(4) q(3) c(2) by (auto simp: follows_def)
  with assms(3) show ?thesis by simp
qed (use assms in simp)

lemma follows_addr_twice:
  assumes inv: "gc_inv h" and v: "p = 0 \<or> valid_addr h p" and "follows_addr h p q" "follows_addr h q r"
  shows "follows_addr h p r"
proof (cases "q = p")
  case False
  with assms(3) have q: "p \<noteq> 0" "fwd h (p - 8) = Some q" by (auto simp: follows_addr_def)
  have "heap_hdr h (p - 8)" using v q(1) by (simp add: valid_addr_def)
  note c = fwd_clean [OF inv this q(2)]
  have "fwd h (q - 8) = None" using c(1) by (intro fwd_to_addr [OF inv]) (simp add: clean_addr_def)
  then have "r = q" using assms(4) by (auto simp: follows_addr_def)
  with assms(3) show ?thesis by simp
qed (use assms in simp)

lemma payload_follows_twice:
  assumes inv: "gc_inv h" and lk: "links_ok (valid_obj h) (valid_addr h) pl"
    and "payload_follows h pl pl'" "payload_follows h pl' pl''"
  shows "payload_follows h pl pl''"
proof -
  have "list_all2 (follows h) (obj_slots pl) (obj_slots pl'')"
    using assms(3,4) lk follows_twice [OF inv]
    by (auto simp: payload_follows_def links_ok_def list_all2_conv_all_nth)
  moreover have "list_all2 (follows_addr h) (env_links pl) (env_links pl'')"
    using assms(3,4) lk follows_addr_twice [OF inv]
    by (auto simp: payload_follows_def links_ok_def list_all2_conv_all_nth)
  ultimately show ?thesis using assms(3,4) by (simp add: payload_follows_def)
qed

lemma payload_follows_fwd:
  assumes "fwd h' = fwd h" shows "payload_follows h' = payload_follows h"
proof -
  have "follows h' = follows h" "follows_addr h' = follows_addr h"
    by (simp_all add: follows_def follows_addr_def assms fun_eq_iff)
  then show ?thesis by (intro ext) (simp add: payload_follows_def)
qed

lemma payload_follows_refl [simp]: "payload_follows h pl pl"
  by (simp add: payload_follows_def follows_slots)

section \<open>Every block is tracked\<close>

text \<open>\<open>copy_of h b0 b\<close>: \<open>b\<close> is \<open>b0\<close> with pointers that follow or do not yet.\<close>

definition copy_of :: "heap \<Rightarrow> block \<Rightarrow> block \<Rightarrow> bool" where
  "copy_of h b0 b \<longleftrightarrow> type_id (hdr b) = type_id (hdr b0) \<and> hsize (hdr b) = hsize (hdr b0)
     \<and> \<not> forward (hdr b) \<and> payload_follows h (payload b0) (payload b)"

definition tracked :: "heap \<Rightarrow> heap \<Rightarrow> addr \<Rightarrow> block \<Rightarrow> bool" where
  "tracked h0 h a b0 \<longleftrightarrow>
     (case fwd h a of
        Some p \<Rightarrow> from_addr h0 a \<and> 8 \<le> p \<and> \<not> heap_hdr h0 (p - 8) \<and> to_addr h (p - 8)
          \<and> (\<exists>c. store h (p - 8) = Some c \<and> copy_of h b0 c)
      | None \<Rightarrow> (\<exists>b. store h a = Some b \<and> copy_of h b0 b \<and> (from_addr h0 a \<longrightarrow> payload b = payload b0)))"

definition tracks :: "heap \<Rightarrow> heap \<Rightarrow> bool" where
  "tracks h0 h \<longleftrightarrow> stays h0 h
     \<and> (\<forall>a b0. heap_hdr h0 a \<longrightarrow> store h0 a = Some b0 \<longrightarrow> tracked h0 h a b0)
     \<and> (\<forall>a a' p. heap_hdr h0 a \<longrightarrow> heap_hdr h0 a' \<longrightarrow> fwd h a = Some p \<longrightarrow> fwd h a' = Some p \<longrightarrow> a = a')"

lemma tracks_refl:
  assumes inv: "gc_inv h" and s: "settled h" shows "tracks h h"
proof -
  have no: "fwd h a = None" if "heap_hdr h a" for a
    using that s by (cases "fwd h a") (auto simp: settled_def fwd_Some)
  moreover have "tracked h h a b" if "heap_hdr h a" "store h a = Some b" for a b
    using that no [OF that(1)] s by (auto simp: tracked_def copy_of_def settled_def)
  ultimately show ?thesis by (auto simp: tracks_def stays_refl)
qed

lemma links_of_start:
  assumes "gc_inv h0" "settled h0" "heap_hdr h0 a" "store h0 a = Some b0"
  shows "links_ok (valid_obj h0) (valid_addr h0) (payload b0)"
  using assms by (auto simp: gc_inv_def graph_ok_def settled_def block_ok_def)

lemma links_later:
  assumes "stays h0 h" "links_ok (valid_obj h0) (valid_addr h0) pl"
  shows "links_ok (valid_obj h) (valid_addr h) pl"
  using assms(2) by (rule links_ok_mono) (use stays_valid [OF assms(1)] in auto)

lemma copy_of_stays:
  assumes "stays h h'" "links_ok (valid_obj h) (valid_addr h) (payload b0)" "copy_of h b0 b"
  shows "copy_of h' b0 b"
  using assms payload_follows_stays by (auto simp: copy_of_def)

lemma tracked_stays:
  assumes t: "tracked h0 h a b0" and s: "stays h h'" and a: "heap_hdr h a"
    and lk: "links_ok (valid_obj h) (valid_addr h) (payload b0)"
    and f: "fwd h' a = fwd h a"
    and blk: "\<And>x b. x = a \<or> to_addr h x \<Longrightarrow> store h x = Some b \<Longrightarrow> store h' x = Some b"
  shows "tracked h0 h' a b0"
proof (cases "fwd h a")
  case None
  then obtain b where "store h a = Some b" "copy_of h b0 b" "from_addr h0 a \<longrightarrow> payload b = payload b0"
    using t by (auto simp: tracked_def)
  then show ?thesis using None f blk [of a b] copy_of_stays [OF s lk] by (auto simp: tracked_def)
next
  case (Some p)
  then obtain c where c: "from_addr h0 a" "8 \<le> p" "\<not> heap_hdr h0 (p - 8)" "to_addr h (p - 8)"
      "store h (p - 8) = Some c" "copy_of h b0 c"
    using t by (auto simp: tracked_def)
  then have "store h' (p - 8) = Some c" "to_addr h' (p - 8)" using blk s by (auto simp: stays_def)
  then show ?thesis using Some f c copy_of_stays [OF s lk c(6)] by (auto simp: tracked_def)
qed

lemma gc_step_tracks:
  assumes st: "gc_step h h'" and tr: "tracks h0 h" and inv0: "gc_inv h0" and s0: "settled h0"
  shows "tracks h0 h'"
proof -
  note keep = gc_step_stays [OF st]
  have s: "stays h0 h" and td: "\<And>a b0. heap_hdr h0 a \<Longrightarrow> store h0 a = Some b0 \<Longrightarrow> tracked h0 h a b0"
    and inj: "\<And>a a' p. \<lbrakk>heap_hdr h0 a; heap_hdr h0 a'; fwd h a = Some p; fwd h a' = Some p\<rbrakk> \<Longrightarrow> a = a'"
    using tr unfolding tracks_def by blast+
  have hh: "heap_hdr h a" if "heap_hdr h0 a" for a using s that by (simp add: stays_def)
  have lk: "links_ok (valid_obj h) (valid_addr h) (payload b0)" if "heap_hdr h0 a" "store h0 a = Some b0" for a b0
    using links_later [OF s links_of_start [OF inv0 s0 that]] .
  have s': "stays h0 h'" using s keep by (rule stays_trans)
  from st show ?thesis
  proof cases
    case (step_move a b bf bc q)
    note m = move_facts [OF step_move]
    have mv: "payload bc = payload b" "\<not> forward (hdr bc)" "hsize (hdr bc) = hsize (hdr b)"
        "type_id (hdr bc) = type_id (hdr b)"
      using step_move(2) by (simp_all add: moved_def)
    have nq: "\<not> heap_hdr h q" using m(2) by (simp add: heap_hdr_def)
    then have "\<not> heap_hdr h0 q" using hh by blast
    note nq = nq this
    have t': "tracked h0 h' x b0" if x: "heap_hdr h0 x" "store h0 x = Some b0" for x b0
    proof (cases "x = a")
      case True
      have "from_addr h0 a" using step_move(4) s by (simp add: stays_def)
      moreover have "copy_of h b0 b" "payload b = payload b0"
        using td [OF x] m(8) step_move(3) calculation by (auto simp: tracked_def True)
      then have "copy_of h' b0 bc" using mv by (simp add: copy_of_def)
      ultimately show ?thesis using m(4,6,7) nq(2) True by (simp add: tracked_def)
    next
      case False
      have nx: "x \<noteq> q" using x(1) nq(2) by auto
      show ?thesis
        by (rule tracked_stays [OF td [OF x] keep hh [OF x(1)] lk [OF x] m(9) [OF False nx]])
          (use False nx m(2,5,6) in auto)
    qed
    have i': "x = y" if "heap_hdr h0 x" "heap_hdr h0 y" "fwd h' x = Some p" "fwd h' y = Some p" for x y p
    proof -
      have new: "fwd h z \<noteq> Some (q + 8)" if "heap_hdr h0 z" for z
      proof
        assume "fwd h z = Some (q + 8)"
        from fwd_clean(1) [OF step_move(1) hh [OF that] this] nq(1) show False
          by (simp add: clean_addr_def valid_addr_def)
      qed
      have "x \<noteq> q" "y \<noteq> q" using that(1,2) nq(2) by auto
      then have old: "z = a \<or> fwd h z = Some p" if "z = x \<or> z = y" for z
        using that \<open>fwd h' x = Some p\<close> \<open>fwd h' y = Some p\<close> m(9) [of z] by (cases "z = a") auto
      have "fwd h z \<noteq> Some p" if "a = x \<or> a = y" "z = x \<or> z = y" for z
        using that new \<open>heap_hdr h0 x\<close> \<open>heap_hdr h0 y\<close> \<open>fwd h' x = Some p\<close> \<open>fwd h' y = Some p\<close> m(7) by auto
      then show ?thesis using old [of x] old [of y] inj [OF that(1,2), of p] by blast
    qed
    show ?thesis using s' t' i' unfolding tracks_def by blast
  next
    case (step_visit a b pl)
    note v = visit_facts [OF step_visit(2-4)]
    have st': "store h' = (store h)(a \<mapsto> b\<lparr>payload := pl\<rparr>)" using step_visit(1) by simp
    have f: "fwd h' = fwd h" using v step_visit(1) by simp
    have fl: "payload_follows h' = payload_follows h" by (rule payload_follows_fwd [OF f])
    have cp: "copy_of h' b0 (b\<lparr>payload := pl\<rparr>)"
      if "copy_of h b0 b" "links_ok (valid_obj h) (valid_addr h) (payload b0)" for b0
      using that payload_follows_twice [OF step_visit(2) that(2) _ step_visit(5)] by (simp add: copy_of_def fl)
    have t': "tracked h0 h' x b0" if x: "heap_hdr h0 x" "store h0 x = Some b0" for x b0
    proof (cases "fwd h x")
      case None
      then obtain bx where bx: "store h x = Some bx" "copy_of h b0 bx" "from_addr h0 x \<longrightarrow> payload bx = payload b0"
        using td [OF x] by (auto simp: tracked_def)
      show ?thesis
      proof (cases "x = a")
        case True
        have "\<not> from_addr h a"
          using payload_in_space(4) [of h a b] step_visit(2-4) by (auto simp: gc_inv_def graph_ok_def heap_hdr_def block_ok_def)
        then have "\<not> from_addr h0 x" using s True by (simp add: stays_def)
        then show ?thesis
          using None bx cp [OF _ lk [OF x]] step_visit(3) True by (simp add: tracked_def f st')
      next
        case False
        then show ?thesis using None bx copy_of_stays [OF keep lk [OF x] bx(2)] by (auto simp: tracked_def f st')
      qed
    next
      case (Some p)
      then obtain c where c: "from_addr h0 x" "8 \<le> p" "\<not> heap_hdr h0 (p - 8)" "to_addr h (p - 8)"
          "store h (p - 8) = Some c" "copy_of h b0 c"
        using td [OF x] by (auto simp: tracked_def)
      have "to_addr h' (p - 8)" using c(4) keep by (simp add: stays_def)
      then show ?thesis
        using Some c cp [OF _ lk [OF x]] step_visit(3) copy_of_stays [OF keep lk [OF x] c(6)]
        by (cases "p - 8 = a") (auto simp: tracked_def f st')
    qed
    show ?thesis using s' t' inj unfolding tracks_def f by blast
  next
    case step_grow
    have same: "store h' x = store h x" if "heap_hdr h x" for x using step_grow(3) that .
    have f: "fwd h' x = fwd h x" if "heap_hdr h x" for x using same [OF that] by (simp add: fwd_def)
    have t': "tracked h0 h' x b0" if x: "heap_hdr h0 x" "store h0 x = Some b0" for x b0
      by (rule tracked_stays [OF td [OF x] keep hh [OF x(1)] lk [OF x] f [OF hh [OF x(1)]]])
        (use same hh [OF x(1)] in \<open>auto simp: heap_hdr_def\<close>)
    show ?thesis using s' t' inj f hh unfolding tracks_def by metis
  next
    case step_forget
    have fl: "payload_follows h' = payload_follows h"
      by (rule payload_follows_fwd) (simp add: step_forget)
    have t': "tracked h0 h' x b0" if x: "heap_hdr h0 x" "store h0 x = Some b0" for x b0
      using td [OF x] by (auto simp: tracked_def copy_of_def step_forget fl [unfolded step_forget] split: option.splits)
    show ?thesis using s' t' inj unfolding tracks_def step_forget by simp
  qed
qed

lemma gc_steps_track:
  assumes "gc_steps h0 h" and "gc_inv h0" and "settled h0"
  shows "tracks h0 h"
  using assms(1) by (induction rule: rtranclp_induct) (auto intro: tracks_refl gc_step_tracks assms(2,3))

section \<open>Roots\<close>

fun root_objs :: "root \<Rightarrow> vm_thread \<Rightarrow> obj list" where
  "root_objs R_Stack t = take (op_stack_idx t) (opstack t)"
| "root_objs R_Lib_Cache t = [lib_cache t]"
| "root_objs R_Handlers t = [exception_handlers t]"
| "root_objs R_Locals t = (case local_roots t of None \<Rightarrow> [] | Some xs \<Rightarrow> xs)"
| "root_objs _ t = []"

fun root_links :: "root \<Rightarrow> vm_thread \<Rightarrow> addr list" where
  "root_links R_Env t = [th_env t]"
| "root_links R_Closure t = [th_closure t]"
| "root_links _ t = []"

lemma root_ok_parts:
  "root_ok P Q r t \<longleftrightarrow> (\<forall>x \<in> set (root_objs r t). P x) \<and> (\<forall>q \<in> set (root_links r t). q = 0 \<or> Q q)"
  by (cases r; cases "local_roots t") auto

definition root_follows :: "heap \<Rightarrow> root \<Rightarrow> vm_thread \<Rightarrow> vm_thread \<Rightarrow> bool" where
  "root_follows h r t t' \<longleftrightarrow> list_all2 (follows h) (root_objs r t) (root_objs r t')
     \<and> list_all2 (follows_addr h) (root_links r t) (root_links r t')"

lemma root_follows_stays:
  assumes s: "stays h h'" and v: "root_ok (valid_obj h) (valid_addr h) r t" and f: "root_follows h r t t'"
  shows "root_follows h' r t t'"
  using f v follows_stays [OF s] follows_addr_stays [OF s]
  by (auto simp: root_follows_def root_ok_parts list_all2_conv_all_nth)

lemma root_follows_twice:
  assumes inv: "gc_inv h" and v: "root_ok (valid_obj h) (valid_addr h) r t"
    and f: "root_follows h r t t'" "root_follows h r t' t''"
  shows "root_follows h r t t''"
  using f v follows_twice [OF inv] follows_addr_twice [OF inv]
  by (auto simp: root_follows_def root_ok_parts list_all2_conv_all_nth)

lemma root_follows_same:
  "root_objs r t' = root_objs r t \<Longrightarrow> root_links r t' = root_links r t \<Longrightarrow> root_follows h r t t'"
  by (simp add: root_follows_def follows_slots)

lemma heap_mark_facts:
  assumes "heap_mark h x = Inr (h', x')" and "gc_inv h" and "valid_obj h x"
  shows "gc_inv h'" "ext {} h h'" "follows h' x x'"
  using heap_mark_safe [OF assms(2,3)] assms(1) by auto

lemma mark_env_facts:
  assumes "mark_env heap_mark h q = Inr (h', q')" and "gc_inv h" and "q = 0 \<or> valid_addr h q"
  shows "follows_addr h' q q'"
  using marker.mark_env_safe [OF assms(2,3)] assms(1) by auto

lemma ext_steps: "ext A h h' \<Longrightarrow> gc_steps h h'" by (simp add: ext_def)

lemma visit_list_follows:
  assumes "visit_list heap_mark h xs = Inr (h', xs')" and "gc_inv h" and "\<forall>x \<in> set xs. valid_obj h x"
  shows "list_all2 (follows h') xs xs'"
  using assms
proof (induction xs arbitrary: h xs')
  case (Cons x xs)
  then obtain h1 x1 xs1 where r: "heap_mark h x = Inr (h1, x1)" "visit_list heap_mark h1 xs = Inr (h', xs1)"
      "xs' = x1 # xs1"
    by (auto simp: bindE_Inr_iff)
  have vx: "valid_obj h x" using Cons.prems(3) by simp
  note m = heap_mark_facts [OF r(1) Cons.prems(2) vx]
  have v1: "\<forall>x \<in> set xs. valid_obj h1 x" using Cons.prems(3) ext_valid_obj [OF m(2)] by simp
  have "ext {} h1 h'" using marker.visit_list_safe [OF m(1) v1] r(2) by simp
  then have "stays h1 h'" by (intro gc_steps_stays ext_steps)
  then have "follows h' x x1" using follows_stays m(3) ext_valid_obj [OF m(2) vx] by blast
  then show ?case using Cons.IH [OF r(2) m(1) v1] r(3) by simp
qed simp

lemma visit_root_follows:
  assumes r: "visit_root heap_mark r t = Inr t1" and inv: "gc_inv (heap t)" and v: "valid_root r t"
    and idx: "op_stack_idx t \<le> length (opstack t)"
  shows "root_follows (heap t1) r' t t1"
proof (cases "r' = r")
  case True
  have vr: "\<forall>x \<in> set (root_objs r t). valid_obj (heap t) x" "\<forall>q \<in> set (root_links r t). q = 0 \<or> valid_addr (heap t) q"
    using v by (simp_all add: valid_root_def root_ok_parts)
  show ?thesis unfolding True
    using r inv vr idx visit_list_length
    by (cases r) (auto simp: bindE_Inr_iff root_follows_def split: option.splits
        dest: visit_list_follows heap_mark_facts(3) mark_env_facts)
next
  case False
  then show ?thesis using r idx
    by (intro root_follows_same; cases r; cases r')
      (auto simp: bindE_Inr_iff split: option.splits dest!: visit_list_length)
qed

lemma visit_roots_follow:
  assumes "visit_roots heap_mark rs t = Inr t'" and "gc_inv (heap t)" and "\<forall>r. valid_root r t"
    and "op_stack_idx t \<le> length (opstack t)"
  shows "gc_inv (heap t') \<and> gc_steps (heap t) (heap t') \<and> (\<forall>r. root_follows (heap t') r t t')"
  using assms
proof (induction rs arbitrary: t)
  case Nil
  then show ?case by (simp add: root_follows_same)
next
  case (Cons r0 rs)
  then obtain t1 where t1: "visit_root heap_mark r0 t = Inr t1" "visit_roots heap_mark rs t1 = Inr t'"
    by (auto simp: bindE_Inr_iff)
  have v0: "valid_root r0 t" using Cons.prems(3) by simp
  have s: "gc_inv (heap t1)" "ext {} (heap t) (heap t1)" "clean_root r0 t1" "other_roots r0 t t1"
    using marker.visit_root_step [OF Cons.prems(2) v0 Cons.prems(4)] t1(1) by auto
  have vt: "root_ok (valid_obj (heap t1)) (valid_addr (heap t1)) r t" for r
    using Cons.prems(3) [rule_format, of r] unfolding valid_root_def
    by (rule root_ok_mono) (use s(2) in \<open>auto intro: ext_valid_obj ext_valid_addr\<close>)
  have v1: "valid_root r t1" for r
  proof (cases "r = r0")
    case True
    have "root_ok (valid_obj (heap t1)) (valid_addr (heap t1)) r0 t1"
      using s(3) unfolding clean_root_def
      by (rule root_ok_mono) (auto simp: clean_obj_def clean_addr_def)
    then show ?thesis using True by (simp add: valid_root_def)
  next
    case False
    then show ?thesis using vt [of r] s(4) by (simp add: valid_root_def other_roots_def)
  qed
  have idx1: "op_stack_idx t1 \<le> length (opstack t1)" using s(4) Cons.prems(4) by (simp add: other_roots_def)
  have ih: "gc_steps (heap t1) (heap t')" and inv': "gc_inv (heap t')" and ihr: "\<And>r. root_follows (heap t') r t1 t'"
    using Cons.IH [OF t1(2) s(1) _ idx1] v1 by blast+
  note st = gc_steps_stays [OF ih]
  have "root_follows (heap t') r t t'" for r
  proof (rule root_follows_twice [OF inv' _ _ ihr])
    show "root_ok (valid_obj (heap t')) (valid_addr (heap t')) r t"
      by (rule root_ok_mono [OF vt [of r]]) (use stays_valid [OF st] in auto)
    show "root_follows (heap t') r t t1"
      by (rule root_follows_stays [OF st vt visit_root_follows [OF t1(1) Cons.prems(2) v0 Cons.prems(4)]])
  qed
  moreover have "gc_steps (heap t) (heap t')" using ext_steps [OF s(2)] ih by simp
  ultimately show ?case using inv' by blast
qed

section \<open>The end of the collection\<close>

lemma heap_gc_main_follows:
  assumes main: "heap_gc_main t = Inr t'" and wf: "thread_wf t" and nf: "\<not> full_gc (heap t)"
  shows "gc_steps (heap t) (heap t') \<and> (\<forall>r. root_follows (heap t') r t t')"
proof -
  have inv: "gc_inv (heap t)" using wf nf by (simp add: thread_wf_def gc_inv_wf)
  from main obtain t1 h1 h2 i a h3 where m: "thread_get_roots heap_mark t = Inr t1"
      "(if full_gc (heap t1) then Inr (heap t1) else heap_scan_old (heap t1)) = Inr h1"
      "scan_references h1 0 (sp_mem (future_survived h1)) = Inr (h2, i, a)" "drain h2 i a = Inr h3"
      "t' = t1\<lparr>heap := h3\<rparr>"
    by (auto simp: heap_gc_main_def bindE_Inr_iff)
  have r: "gc_inv (heap t1)" "gc_steps (heap t) (heap t1)" "\<And>r. root_follows (heap t1) r t t1"
    using visit_roots_follow [OF m(1) [unfolded thread_get_roots_def] inv] wf by (auto simp: thread_wf_def)
  have o: "gc_inv h1" "keeps (heap t1) h1" "old_covered h1"
    using heap_scan_old_safe [OF r(1)] m(2) r(1) by (auto simp: gc_inv_def)
  have sc: "scanned h1 0 (sp_mem (future_survived h1))" by (simp add: scanned_def all_clean_def)
  have s: "gc_inv h2" "keeps h1 h2" "old_covered h2" "scanned h2 i a" "i = blocks (future_survived h2)"
    using scan_references_safe [OF o(1) sc] m(3) o(3) by auto
  have "keeps h2 h3" using drain_safe [OF s(1,3,4)] m(4) s(5) by auto
  then have st: "gc_steps (heap t1) h3" using o(2) s(2) by (auto simp: keeps_def)
  note k = gc_steps_stays [OF st]
  have "root_follows h3 r t (t1\<lparr>heap := h3\<rparr>)" for r
  proof -
    have "root_ok (valid_obj (heap t)) (valid_addr (heap t)) r t"
      using wf by (simp add: thread_wf_def valid_root_def)
    then have "root_ok (valid_obj (heap t1)) (valid_addr (heap t1)) r t"
      by (rule root_ok_mono) (use stays_valid [OF gc_steps_stays [OF r(2)]] in auto)
    from root_follows_stays [OF k this r(3)] have f: "root_follows h3 r t t1" .
    have "root_objs r (t1\<lparr>heap := h3\<rparr>) = root_objs r t1" "root_links r (t1\<lparr>heap := h3\<rparr>) = root_links r t1"
      by (cases r; simp)+
    with f show ?thesis by (simp add: root_follows_def)
  qed
  then show ?thesis using m(5) r(2) st by simp
qed

text \<open>
  Renaming of pointers, what a thread reaches, and the statement that two threads have the same graph.
  Addresses are those that the program sees, of the payload behind the header.
\<close>

definition rename_obj :: "(addr \<Rightarrow> addr) \<Rightarrow> obj \<Rightarrow> obj" where
  "rename_obj f x = (if IS_HEAP_PTR x then MAKE_HEAP_PTR (f (PTR x)) else x)"

inductive reaches :: "vm_thread \<Rightarrow> addr \<Rightarrow> bool" for t where
  root_obj: "x \<in> set (root_objs r t) \<Longrightarrow> IS_HEAP_PTR x \<Longrightarrow> reaches t (PTR x)"
| root_link: "q \<in> set (root_links r t) \<Longrightarrow> q \<noteq> 0 \<Longrightarrow> reaches t q"
| slot: "\<lbrakk>reaches t p; HTYPE (store (heap t)) p = Some b; x \<in> set (obj_slots (payload b)); IS_HEAP_PTR x\<rbrakk> \<Longrightarrow>
    reaches t (PTR x)"
| link: "\<lbrakk>reaches t p; HTYPE (store (heap t)) p = Some b; q \<in> set (env_links (payload b)); q \<noteq> 0\<rbrakk> \<Longrightarrow>
    reaches t q"

definition same_graph :: "(addr \<Rightarrow> addr) \<Rightarrow> vm_thread \<Rightarrow> vm_thread \<Rightarrow> bool" where
  "same_graph f t t' \<longleftrightarrow> f 0 = 0 \<and> inj_on f {p. reaches t p}
     \<and> (\<forall>r. root_objs r t' = map (rename_obj f) (root_objs r t) \<and> root_links r t' = map f (root_links r t))
     \<and> (\<forall>p. reaches t p \<longrightarrow> (\<exists>b b'. HTYPE (store (heap t)) p = Some b \<and> HTYPE (store (heap t')) (f p) = Some b'
          \<and> type_id (hdr b') = type_id (hdr b) \<and> hsize (hdr b') = hsize (hdr b)
          \<and> shape (payload b') = shape (payload b)
          \<and> obj_slots (payload b') = map (rename_obj f) (obj_slots (payload b))
          \<and> env_links (payload b') = map f (env_links (payload b)) \<and> homed (f p) (payload b')))"

definition renaming :: "heap \<Rightarrow> addr \<Rightarrow> addr" where
  "renaming h p = (if p = 0 then 0 else case fwd h (p - 8) of Some q \<Rightarrow> q | None \<Rightarrow> p)"

lemma word_tag_split: "((x :: u64) AND - 8) OR (x AND 7) = x"
proof -
  have "(x AND - 8) OR (x AND 7) = x AND (- 8 OR 7)" by (simp only: bit.conj_disj_distrib)
  also have "(- 8 OR 7 :: u64) = - 1" by simp
  finally show ?thesis by simp
qed

lemma MAKE_HEAP_PTR_PTR: "IS_HEAP_PTR x \<Longrightarrow> MAKE_HEAP_PTR (PTR x) = x"
proof -
  assume "IS_HEAP_PTR x"
  then have t: "x AND 7 = 1" by (simp add: is_tag_defs GET_TAG_def TAG_MASK_def tag_defs)
  have "MAKE_HEAP_PTR (PTR x) = (x AND - 8) OR 1"
    by (simp add: MAKE_HEAP_PTR_def MAKE_TAGGED_PTR_def PTR_def SET_TAG_def UNSET_TAG_def TAG_UNMASK_eq tag_defs
        and.assoc)
  with word_tag_split [of x] t show ?thesis by simp
qed

lemma clean_follow:
  assumes inv: "gc_inv h" and v: "valid_addr h p" and f: "follows_addr h p q" and c: "q = 0 \<or> clean_addr h q"
  shows "q = renaming h p" and "clean_addr h q"
proof -
  have p: "8 \<le> p" "heap_hdr h (p - 8)" using v by (auto simp: valid_addr_def)
  have "q = renaming h p \<and> clean_addr h q"
  proof (cases "q = p")
    case True
    then have cp: "clean_addr h p" using c p by auto
    then have "fwd h (p - 8) = None" by (intro fwd_to_addr [OF inv]) (simp add: clean_addr_def)
    then show ?thesis using True cp p by (simp add: renaming_def)
  next
    case False
    then have "fwd h (p - 8) = Some q" using f by (simp add: follows_addr_def)
    then show ?thesis using fwd_clean(1) [OF inv p(2)] p(1) by (auto simp: renaming_def)
  qed
  then show "q = renaming h p" "clean_addr h q" by auto
qed

lemma clean_follow_obj:
  assumes inv: "gc_inv h" and v: "valid_obj h x" and f: "follows h x y" and c: "clean_obj h y"
  shows "y = rename_obj (renaming h) x" and "IS_HEAP_PTR x \<Longrightarrow> clean_addr h (renaming h (PTR x))"
proof -
  have "y = rename_obj (renaming h) x \<and> (IS_HEAP_PTR x \<longrightarrow> clean_addr h (renaming h (PTR x)))"
  proof (cases "IS_HEAP_PTR x")
    case True
    then have va: "valid_addr h (PTR x)" using v by (simp add: valid_obj_def)
    then have p: "8 \<le> PTR x" "heap_hdr h (PTR x - 8)" by (auto simp: valid_addr_def)
    show ?thesis
    proof (cases "y = x")
      case True
      then have "clean_addr h (PTR x)" using c \<open>IS_HEAP_PTR x\<close> va by (simp add: clean_obj_def clean_addr_def)
      from clean_follow [OF inv va _ disjI2 [OF this]] show ?thesis
        using True \<open>IS_HEAP_PTR x\<close> \<open>clean_addr h (PTR x)\<close> by (simp add: rename_obj_def MAKE_HEAP_PTR_PTR)
    next
      case False
      then obtain q where q: "fwd h (PTR x - 8) = Some q" "y = MAKE_HEAP_PTR q" using f by (auto simp: follows_def)
      then show ?thesis
        using fwd_clean(1) [OF inv p(2) q(1)] p(1) True by (auto simp: renaming_def rename_obj_def)
    qed
  next
    case False
    then show ?thesis using f by (simp add: follows_def rename_obj_def)
  qed
  then show "y = rename_obj (renaming h) x" "IS_HEAP_PTR x \<Longrightarrow> clean_addr h (renaming h (PTR x))" by auto
qed

lemma clean_follow_list:
  assumes inv: "gc_inv h" and v: "\<forall>x \<in> set xs. valid_obj h x" and f: "list_all2 (follows h) xs ys"
    and c: "\<forall>y \<in> set ys. clean_obj h y"
  shows "ys = map (rename_obj (renaming h)) xs"
    and "\<forall>x \<in> set xs. IS_HEAP_PTR x \<longrightarrow> clean_addr h (renaming h (PTR x))"
  using f v c
  by (induction xs ys rule: list_all2_induct) (auto dest: clean_follow_obj [OF inv])

lemma clean_follow_links:
  assumes inv: "gc_inv h" and v: "\<forall>q \<in> set qs. q = 0 \<or> valid_addr h q" and f: "list_all2 (follows_addr h) qs rs"
    and c: "\<forall>q \<in> set rs. q = 0 \<or> clean_addr h q"
  shows "rs = map (renaming h) qs" and "\<forall>q \<in> set qs. q \<noteq> 0 \<longrightarrow> clean_addr h (renaming h q)"
proof -
  have one: "r = renaming h q \<and> (q \<noteq> 0 \<longrightarrow> clean_addr h (renaming h q))"
    if "q = 0 \<or> valid_addr h q" "follows_addr h q r" "r = 0 \<or> clean_addr h r" for q r
    using that clean_follow [OF inv, of q r] by (cases "q = 0") (auto simp: follows_addr_def renaming_def)
  have "rs = map (renaming h) qs \<and> (\<forall>q \<in> set qs. q \<noteq> 0 \<longrightarrow> clean_addr h (renaming h q))"
    using f v c
  proof (induction qs rs rule: list_all2_induct)
    case (Cons q qs r rs)
    then have "r = renaming h q \<and> (q \<noteq> 0 \<longrightarrow> clean_addr h (renaming h q))" by (intro one) simp_all
    then show ?case using Cons by simp
  qed simp
  then show "rs = map (renaming h) qs" "\<forall>q \<in> set qs. q \<noteq> 0 \<longrightarrow> clean_addr h (renaming h q)" by auto
qed

section \<open>The graph is the same\<close>

lemma tracks_copy:
  assumes tr: "tracks h0 h" and v: "valid_addr h0 p"
  obtains b c where "store h0 (p - 8) = Some b" "store h (renaming h p - 8) = Some c" "copy_of h b c"
proof -
  from v obtain b where p: "8 \<le> p" "heap_hdr h0 (p - 8)" "store h0 (p - 8) = Some b"
    by (auto simp: valid_addr_def heap_hdr_def)
  then have "tracked h0 h (p - 8) b" using tr by (simp add: tracks_def)
  then show thesis using p that by (auto simp: tracked_def renaming_def split: option.splits)
qed

lemma tracks_renaming_eq:
  assumes tr: "tracks h0 h" and v: "valid_addr h0 p" "valid_addr h0 q" and e: "renaming h p = renaming h q"
  shows "p = q"
proof -
  from v have p: "8 \<le> p" "heap_hdr h0 (p - 8)" and q: "8 \<le> q" "heap_hdr h0 (q - 8)"
    by (auto simp: valid_addr_def)
  have new: "\<not> heap_hdr h0 (r - 8)" if x: "heap_hdr h0 x" and f: "fwd h x = Some r" for x r
  proof -
    obtain b where "store h0 x = Some b" using x by (auto simp: heap_hdr_def)
    then have "tracked h0 h x b" using tr x by (simp add: tracks_def)
    then show ?thesis using f by (simp add: tracked_def)
  qed
  show ?thesis
  proof (cases "fwd h (p - 8)")
    case None
    then show ?thesis using e p q new by (cases "fwd h (q - 8)") (auto simp: renaming_def)
  next
    case (Some r)
    then have "fwd h (q - 8) = Some r" using e p q new by (cases "fwd h (q - 8)") (auto simp: renaming_def)
    then have "p - 8 = q - 8" using tr p q Some unfolding tracks_def by blast
    then show ?thesis using p q by simp
  qed
qed

text \<open>What a finished collection knows of a block whose copy is clean.\<close>

lemma copied_block:
  assumes inv: "gc_inv h" and cl: "closed h" and st: "stays h0 h"
    and lk: "links_ok (valid_obj h0) (valid_addr h0) (payload b)"
    and c: "store h a = Some c" "copy_of h b c" "to_addr h a"
  shows "obj_slots (payload c) = map (rename_obj (renaming h)) (obj_slots (payload b))"
    and "env_links (payload c) = map (renaming h) (env_links (payload b))"
    and "\<lbrakk>x \<in> set (obj_slots (payload b)); IS_HEAP_PTR x\<rbrakk> \<Longrightarrow> clean_addr h (renaming h (PTR x))"
    and "\<lbrakk>q \<in> set (env_links (payload b)); q \<noteq> 0\<rbrakk> \<Longrightarrow> clean_addr h (renaming h q)"
    and "homed (a + 8) (payload c)"
proof -
  have cb: "clean_block h a" using cl c by (simp add: closed_def)
  then show "homed (a + 8) (payload c)" using c(1) by (simp add: clean_block_def BHDR_SIZE_def)
  from cb have cc: "\<forall>x \<in> set (obj_slots (payload c)). clean_obj h x"
      "\<forall>q \<in> set (env_links (payload c)). q = 0 \<or> clean_addr h q"
    using c(1) by (auto simp: clean_block_def links_ok_def)
  have v: "\<forall>x \<in> set (obj_slots (payload b)). valid_obj h x"
      "\<forall>q \<in> set (env_links (payload b)). q = 0 \<or> valid_addr h q"
    using links_later [OF st lk] by (auto simp: links_ok_def)
  have f: "list_all2 (follows h) (obj_slots (payload b)) (obj_slots (payload c))"
      "list_all2 (follows_addr h) (env_links (payload b)) (env_links (payload c))"
    using c(2) by (auto simp: copy_of_def payload_follows_def)
  note o = clean_follow_list [OF inv v(1) f(1) cc(1)]
  note l = clean_follow_links [OF inv v(2) f(2) cc(2)]
  show "obj_slots (payload c) = map (rename_obj (renaming h)) (obj_slots (payload b))"
    "env_links (payload c) = map (renaming h) (env_links (payload b))" using o l by auto
  show "\<lbrakk>x \<in> set (obj_slots (payload b)); IS_HEAP_PTR x\<rbrakk> \<Longrightarrow> clean_addr h (renaming h (PTR x))"
    using o(2) by blast
  show "\<lbrakk>q \<in> set (env_links (payload b)); q \<noteq> 0\<rbrakk> \<Longrightarrow> clean_addr h (renaming h q)" using l(2) by blast
qed

lemma heap_gc_main_graph:
  assumes wf: "thread_wf t" and nf: "\<not> full_gc (heap t)" and main: "heap_gc_main t = Inr t1"
  defines "h \<equiv> heap t1" and "f \<equiv> renaming (heap t1)"
  shows "\<forall>r. root_objs r t1 = map (rename_obj f) (root_objs r t) \<and> root_links r t1 = map f (root_links r t)"
    and "reaches t p \<Longrightarrow> valid_addr (heap t) p \<and> clean_addr h (f p)"
    and "reaches t p \<Longrightarrow> \<exists>b c. HTYPE (store (heap t)) p = Some b \<and> HTYPE (store h) (f p) = Some c
          \<and> copy_of h b c \<and> obj_slots (payload c) = map (rename_obj f) (obj_slots (payload b))
          \<and> env_links (payload c) = map f (env_links (payload b)) \<and> homed (f p) (payload c)"
    and "inj_on f {p. reaches t p}"
proof -
  have s: "gc_inv h" "closed h" "\<And>r. clean_root r t1"
    using heap_gc_main_safe [OF wf nf] main by (auto simp: h_def)
  have fo: "gc_steps (heap t) h" "\<And>r. root_follows h r t t1"
    using heap_gc_main_follows [OF main wf nf] by (auto simp: h_def)
  have inv0: "gc_inv (heap t)" and set0: "settled (heap t)" using wf nf by (auto simp: thread_wf_def gc_inv_wf)
  have tr: "tracks (heap t) h" by (rule gc_steps_track [OF fo(1) inv0 set0])
  have st: "stays (heap t) h" using tr by (simp add: tracks_def)
  have v0: "\<forall>x \<in> set (root_objs r t). valid_obj (heap t) x"
      "\<forall>q \<in> set (root_links r t). q = 0 \<or> valid_addr (heap t) q" for r
    using wf by (auto simp: thread_wf_def valid_root_def root_ok_parts)
  then have v: "\<forall>x \<in> set (root_objs r t). valid_obj h x"
      "\<forall>q \<in> set (root_links r t). q = 0 \<or> valid_addr h q" for r
    using stays_valid [OF st] by blast+
  have c: "\<forall>x \<in> set (root_objs r t1). clean_obj h x"
      "\<forall>q \<in> set (root_links r t1). q = 0 \<or> clean_addr h q" for r
    using s(3) [of r] by (auto simp: clean_root_def root_ok_parts h_def)
  have ro: "list_all2 (follows h) (root_objs r t) (root_objs r t1)"
      "list_all2 (follows_addr h) (root_links r t) (root_links r t1)" for r
    using fo(2) [of r] by (auto simp: root_follows_def)
  note o = clean_follow_list [OF s(1) v(1) ro(1) c(1)]
  note l = clean_follow_links [OF s(1) v(2) ro(2) c(2)]
  have f: "f = renaming h" by (simp add: f_def h_def)
  show "\<forall>r. root_objs r t1 = map (rename_obj f) (root_objs r t) \<and> root_links r t1 = map f (root_links r t)"
    using o(1) l(1) f by simp
  have blk: "\<exists>b c. store (heap t) (p - 8) = Some b \<and> store h (f p - 8) = Some c \<and> copy_of h b c
      \<and> links_ok (valid_obj (heap t)) (valid_addr (heap t)) (payload b) \<and> to_addr h (f p - 8)"
    if p: "valid_addr (heap t) p" "clean_addr h (f p)" for p
  proof -
    obtain b c where bc: "store (heap t) (p - 8) = Some b" "store h (f p - 8) = Some c" "copy_of h b c"
      using tracks_copy [OF tr p(1)] f by blast
    have "heap_hdr (heap t) (p - 8)" using p(1) by (simp add: valid_addr_def)
    from links_of_start [OF inv0 set0 this bc(1)] bc p(2) show ?thesis by (auto simp: clean_addr_def)
  qed
  show re: "valid_addr (heap t) p \<and> clean_addr h (f p)" if "reaches t p" for p
    using that
  proof (induction rule: reaches.induct)
    case (root_obj x r)
    then show ?case using v0(1) [of r] o(2) [of r] f by (auto simp: valid_obj_def)
  next
    case (root_link q r)
    then show ?case using v0(2) [of r] l(2) [of r] f by auto
  next
    case (slot p b x)
    from slot(5) obtain c where c: "store (heap t) (p - 8) = Some b" "store h (f p - 8) = Some c" "copy_of h b c"
        "links_ok (valid_obj (heap t)) (valid_addr (heap t)) (payload b)" "to_addr h (f p - 8)"
      using blk [of p] slot(2) by (auto simp: HTYPE_def BHDR_SIZE_def split: if_splits)
    show ?case
      using copied_block(3) [OF s(1,2) st c(4,2,3,5) slot(3,4)] c(4) slot(3,4) f
      by (auto simp: links_ok_def valid_obj_def)
  next
    case (link p b q)
    from link(5) obtain c where c: "store (heap t) (p - 8) = Some b" "store h (f p - 8) = Some c" "copy_of h b c"
        "links_ok (valid_obj (heap t)) (valid_addr (heap t)) (payload b)" "to_addr h (f p - 8)"
      using blk [of p] link(2) by (auto simp: HTYPE_def BHDR_SIZE_def split: if_splits)
    show ?case
      using copied_block(4) [OF s(1,2) st c(4,2,3,5) link(3,4)] c(4) link(3,4) f
      by (auto simp: links_ok_def)
  qed
  show "\<exists>b c. HTYPE (store (heap t)) p = Some b \<and> HTYPE (store h) (f p) = Some c
      \<and> copy_of h b c \<and> obj_slots (payload c) = map (rename_obj f) (obj_slots (payload b))
      \<and> env_links (payload c) = map f (env_links (payload b)) \<and> homed (f p) (payload c)" if p: "reaches t p" for p
  proof -
    from blk re [OF p] obtain b c where bc: "store (heap t) (p - 8) = Some b" "store h (f p - 8) = Some c"
        "copy_of h b c" "links_ok (valid_obj (heap t)) (valid_addr (heap t)) (payload b)" "to_addr h (f p - 8)"
      by blast
    from copied_block(1,2,5) [OF s(1,2) st bc(4,2,3,5)] bc re [OF p] show ?thesis
      by (simp add: HTYPE_def BHDR_SIZE_def f clean_addr_def valid_addr_def)
  qed
  show "inj_on f {p. reaches t p}"
    using tracks_renaming_eq [OF tr] re f by (auto intro!: inj_onI)
qed

text \<open>The rest of a minor collection moves nothing that a pointer can see.\<close>

lemma thread_after_gc_objects: "thread_after_gc t = Inr t' \<Longrightarrow> \<exists>ob. t' = t\<lparr>th_objects := ob\<rparr>"
  by (cases t) (auto simp: thread_after_gc_def bindE_Inr_iff split: if_splits)

lemma heap_gc_of_main:
  assumes gc: "heap_gc t = Inr t'" and main: "heap_gc_main t = Inr t1" and nf: "\<not> full_gc (heap t1)"
  shows "store (heap t') = store (flip (heap t1))" and "root_objs r t' = root_objs r t1"
    and "root_links r t' = root_links r t1"
proof -
  from gc main nf obtain t5 where t5: "thread_after_gc (t1\<lparr>heap := flip (heap t1)\<rparr>) = Inr t5"
      "t' = t5\<lparr>heap := (schedule_full (heap t5))\<lparr>gc_count := Suc (gc_count (heap t5))\<rparr>\<rparr>"
    by (auto simp: heap_gc_def bindE_Inr_iff flip_def Let_def)
  from thread_after_gc_objects [OF t5(1)] obtain ob where "t5 = t1\<lparr>heap := flip (heap t1), th_objects := ob\<rparr>"
    by auto
  then have t': "t' = t1\<lparr>th_objects := ob,
      heap := (schedule_full (flip (heap t1)))\<lparr>gc_count := Suc (gc_count (flip (heap t1)))\<rparr>\<rparr>"
    by (simp add: t5(2))
  show "store (heap t') = store (flip (heap t1))" by (simp add: t' schedule_full_def)
  show "root_objs r t' = root_objs r t1" "root_links r t' = root_links r t1" by (cases r; simp add: t')+
qed

text \<open>A collection is a renaming of the addresses, all of which fit a pointer.\<close>

lemma heap_gc_renames:
  assumes wf: "thread_wf t" and nf: "\<not> full_gc (heap t)" and gc: "heap_gc t = Inr t'"
  shows "\<exists>f. same_graph f t t' \<and> (\<forall>p. reaches t p \<longrightarrow> PTR (MAKE_HEAP_PTR (f p)) = f p)"
proof -
  from gc obtain t1 where t1: "heap_gc_main t = Inr t1" by (auto simp: heap_gc_def bindE_Inr_iff)
  have s: "gc_inv (heap t1)" "closed (heap t1)" "remembered_set (heap t1) = []"
    using heap_gc_main_safe [OF wf nf] t1 by auto
  then have "\<not> full_gc (heap t1)" by (simp add: gc_inv_def)
  note g = heap_gc_of_main [OF gc t1 this]
  let ?f = "renaming (heap t1)"
  note m = heap_gc_main_graph [OF wf nf t1]
  have cl: "clean_addr (heap t1) (?f p)" if "reaches t p" for p using m(2) [OF that] by simp
  have "\<exists>b b'. HTYPE (store (heap t)) p = Some b \<and> HTYPE (store (heap t')) (?f p) = Some b'
      \<and> type_id (hdr b') = type_id (hdr b) \<and> hsize (hdr b') = hsize (hdr b)
      \<and> shape (payload b') = shape (payload b)
      \<and> obj_slots (payload b') = map (rename_obj ?f) (obj_slots (payload b))
      \<and> env_links (payload b') = map ?f (env_links (payload b)) \<and> homed (?f p) (payload b')" if p: "reaches t p" for p
  proof -
    have "to_addr (heap t1) (?f p - 8)" using cl [OF p] by (simp add: clean_addr_def)
    then have "HTYPE (store (heap t')) (?f p) = HTYPE (store (heap t1)) (?f p)"
      using flip_wf(5) [OF s] by (simp add: HTYPE_def BHDR_SIZE_def g(1))
    with m(3) [OF p] show ?thesis by (auto simp: copy_of_def payload_follows_def)
  qed
  then have "same_graph ?f t t'"
    using m(1,4) g(2,3) by (simp add: same_graph_def renaming_def)
  moreover have "PTR (MAKE_HEAP_PTR (?f p)) = ?f p" if "reaches t p" for p
    using cl [OF that] s(1) by (auto simp: gc_inv_def clean_addr_def intro: PTR_heap_ptr)
  ultimately show ?thesis by blast
qed

lemma heap_gc_graph:
  assumes "thread_wf t" and "\<not> full_gc (heap t)" and "heap_gc t = Inr t'"
  shows "\<exists>f. same_graph f t t'"
  using heap_gc_renames [OF assms] by blast

end
