(* ===== verification/Heap_Init.thy ===== *)
theory Heap_Init
  imports Gc_Graph
begin

text \<open>
  A thread fresh from \<^verbatim>\<open>vm_thread_init\<close> satisfies the invariant of the collector, so the safety
  of a collection applies from the start of the machine.
\<close>

section \<open>The initial heap\<close>

text \<open>
  What \<^verbatim>\<open>malloc\<close> guarantees of the two regions of a heap: aligned, inside the address space,
  and apart from each other.
\<close>

definition regions_ok :: "addr \<Rightarrow> addr \<Rightarrow> bool" where
  "regions_ok mem old_mem \<longleftrightarrow> 8 \<le> mem \<and> 8 dvd mem \<and> mem + (FRESH_SIZE + SURVIVED_SIZE * 2) < 2 ^ 64
     \<and> 8 \<le> old_mem \<and> 8 dvd old_mem \<and> old_mem + OLD_SIZE < 2 ^ 64
     \<and> apart old_mem OLD_SIZE mem (FRESH_SIZE + SURVIVED_SIZE * 2)"

lemmas size_defs = FRESH_SIZE_def SURVIVED_SIZE_def OLD_SIZE_def

definition init_space :: "addr \<Rightarrow> nat \<Rightarrow> space" where
  "init_space mem sz = \<lparr>sp_mem = mem, sp_pos = mem, sp_size = sz, free_mem = sz, blocks = 0, sp_clear = True\<rparr>"

lemma init_space_simps [simp]:
  "sp_mem (init_space mem sz) = mem" "sp_size (init_space mem sz) = sz" "blocks (init_space mem sz) = 0"
  "sp_pos (init_space mem sz) = mem" "free_mem (init_space mem sz) = sz" "sp_clear (init_space mem sz)"
  by (simp_all add: init_space_def)

lemma space_init_eq: "space_init m no_space mem sz = (clear_range m mem sz, init_space mem sz)"
  by (simp add: space_init_def space_reset0_def space_reset_def no_space_def init_space_def)

lemma heap_init_eq:
  "heap_init m mem old_mem =
     \<lparr>store = clear_range (clear_range (clear_range m mem FRESH_SIZE) (mem + FRESH_SIZE) SURVIVED_SIZE)
        (mem + FRESH_SIZE + SURVIVED_SIZE) SURVIVED_SIZE,
      heap_mem = mem, mem_size = FRESH_SIZE + SURVIVED_SIZE * 2,
      fresh = init_space mem FRESH_SIZE, survived = init_space (mem + FRESH_SIZE) SURVIVED_SIZE,
      future_survived = init_space (mem + FRESH_SIZE + SURVIVED_SIZE) SURVIVED_SIZE, old = no_space,
      remembered_set = [], full_gc = False, old_map = None, gc_count = 0, old_base = old_mem\<rparr>"
  by (simp add: heap_init_def space_init_eq Let_def)

lemma space_ok_cleared:
  assumes "8 dvd mem" shows "space_ok (clear_range m mem sz) (init_space mem sz)"
  using assms by (auto simp: space_ok_def clear_range_Some)

lemma heap_init_wf:
  assumes r: "regions_ok mem old_mem"
  shows "heap_wf (heap_init m mem old_mem)" and "\<not> full_gc (heap_init m mem old_mem)"
    and "\<not> heap_hdr (heap_init m mem old_mem) a"
proof -
  let ?h = "heap_init m mem old_mem"
  let ?a = "mem + FRESH_SIZE" and ?b = "mem + FRESH_SIZE + SURVIVED_SIZE"
  have al: "8 dvd ?a" "8 dvd ?b"
    using r by (auto simp: regions_ok_def size_defs intro!: dvd_add)
  have ok: "space_ok (store ?h) (fresh ?h)" "space_ok (store ?h) (survived ?h)"
      "space_ok (store ?h) (future_survived ?h)"
    using r al unfolding heap_init_eq
    by (auto simp: regions_ok_def apart_def intro!: space_ok_clear space_ok_cleared)
  have none: "store ?h x = None"
    if "in_space (fresh ?h) x \<or> in_space (survived ?h) x \<or> in_space (future_survived ?h) x" for x
    using that ok space_ok_empty_None by (metis (no_types, opaque_lifting) heap_init_eq heap.select_convs(4-6) init_space_simps(3))
  show nohdr: "\<not> heap_hdr ?h a" for a
  proof
    assume "heap_hdr ?h a"
    then have "store ?h a \<noteq> None" and "from_addr ?h a \<or> to_addr ?h a" by (auto simp: heap_hdr_def)
    moreover have "\<not> in_space (old ?h) a" by (simp add: heap_init_eq)
    ultimately show False using none [of a] by (auto simp: from_addr_def to_addr_def)
  qed
  have "layout_ok ?h"
    using r ok by (auto simp: layout_ok_def regions_ok_def heap_init_eq inside_def apart_spaces_def apart_def
        old_ok_def no_space_def size_defs)
  moreover have "graph_ok ?h" using nohdr by (simp add: graph_ok_def)
  ultimately show "heap_wf ?h" by (simp add: heap_wf_def heap_init_eq)
  show "\<not> full_gc ?h" by (simp add: heap_init_eq)
qed

lemma valid_obj_const [simp]: "valid_obj h cnull" "valid_obj h cvoid" "valid_obj h (CIF b)"
    "valid_obj h ceof" "valid_obj h (MAKE_FIXNUM v)" "valid_obj h (MAKE_CHAR v)"
    "valid_obj h (MAKE_FUNC a)" "valid_obj h (MAKE_CONST_PTR a)"
  by (auto simp: valid_obj_def is_tag_defs CIF_def tag_defs)

lemma thread_init_wf:
  assumes "regions_ok mem old_mem"
  shows "thread_wf (vm_thread_init m mem old_mem stack)"
proof -
  have "valid_root r (vm_thread_init m mem old_mem stack)" for r
    by (cases r) (simp_all add: valid_root_def vm_thread_init_def)
  then show ?thesis
    using heap_init_wf [OF assms]
    by (simp add: thread_wf_def vm_thread_init_def env_root_ok_def settled_def)
qed

section \<open>Properties\<close>

text \<open>
  C2: A minor collection is safe. From any thread whose heap is laid out, typed and closed under
  its pointers, and whose roots are valid, \<^verbatim>\<open>heap_gc\<close> never reads or writes memory it must not
  (no \<open>Undefined\<close> outcome, and no run that goes on for ever): it stops with the code's own "out of memory"
  when the survivors do not fit, or returns a thread that satisfies the same invariant, with an empty
  fresh space.
\<close>

theorem minor_collection_safe:
  assumes "thread_wf t" and "\<not> full_gc (heap t)"
  shows "case heap_gc t of
      Inl e \<Rightarrow> e = Fatal ''out of memory''
    | Inr t' \<Rightarrow> thread_wf t' \<and> blocks (fresh (heap t')) = 0
        \<and> free_mem (fresh (heap t')) = sp_size (fresh (heap t'))"
  using heap_gc_minor [OF assms] by (auto simp: safe_def split: sum.splits)

text \<open>
  C16: The thread that \<^verbatim>\<open>vm_thread_init\<close> sets up satisfies the collector's invariant, whatever
  the memory held before, for any two regions that \<^verbatim>\<open>malloc\<close> may return.
\<close>

theorem initial_thread_wf:
  assumes "regions_ok mem old_mem"
  shows "thread_wf (vm_thread_init m mem old_mem stack)
    \<and> \<not> full_gc (heap (vm_thread_init m mem old_mem stack))"
  using thread_init_wf [OF assms] heap_init_wf(2) [OF assms] by (simp add: vm_thread_init_def)

text \<open>
  C1: A minor collection preserves the object graph. There is a renaming of addresses, injective on the
  objects that the thread reaches from its roots (the live part of the stack, the environment, the closure,
  the library cache, the handlers and the local roots, through every pointer of every object), such that
  after \<^verbatim>\<open>heap_gc\<close> every root holds the renamed pointer, and at the new address of each
  reached object there is an object of the same type, size and contents whose pointers are the renamed
  pointers, in the same order, and whose interior pointer (to its slots, characters or bytes) points into
  itself. So no object that is in use is lost, duplicated, merged with another or
  changed, although objects move one by one and pointers are forwarded piecemeal: from the roots, by the
  scan of the whole old space, and by the scans of the objects just moved. No full collection may be pending.
\<close>

theorem minor_collection_preserves_graph:
  assumes "thread_wf t" and "\<not> full_gc (heap t)" and "heap_gc t = Inr t'"
  shows "\<exists>f. same_graph f t t'"
  by (rule heap_gc_graph [OF assms])

lemma regions_example: "regions_ok 65536 1048576"
  by (simp add: regions_ok_def size_defs apart_def)

lemma initial_gc_no_fatal:
  "heap_gc (vm_thread_init (\<lambda>_. None) 65536 1048576 (replicate 512 0)) \<noteq> Inl (Fatal ''out of memory'')"
  by (simp add: heap_gc_def heap_gc_main_def vm_thread_init_def thread_get_roots_def mark_env_def
      heap_mark_def is_tag_defs tag_defs heap_init_eq heap_scan_old_def no_space_def
      scan_old_from.simps scan_references.simps drain.simps thread_after_gc_def
      heap_swap_survived_def reset_fresh_def space_reset0_def schedule_full_def Let_def)

theorem initial_thread_wf_witness:
  "thread_wf (vm_thread_init (\<lambda>_. None) 65536 1048576 (replicate 512 0))"
  using initial_thread_wf [OF regions_example] by blast

theorem minor_collection_safe_witness:
  "\<exists>t'. heap_gc (vm_thread_init (\<lambda>_. None) 65536 1048576 (replicate 512 0)) = Inr t' \<and> thread_wf t'"
proof -
  let ?t = "vm_thread_init (\<lambda>_. None) 65536 1048576 (replicate 512 0)"
  have t: "thread_wf ?t" "\<not> full_gc (heap ?t)"
    using thread_init_wf [OF regions_example] heap_init_wf(2) [OF regions_example]
    by (simp_all add: vm_thread_init_def)
  have "heap_gc ?t \<noteq> Inl (Fatal ''out of memory'')" by (rule initial_gc_no_fatal)
  with minor_collection_safe [OF t] show ?thesis by (cases "heap_gc ?t") auto
qed

text \<open>The renamed graph of the first collection of a machine.\<close>

theorem minor_collection_preserves_graph_witness:
  "\<exists>t' f. heap_gc (vm_thread_init (\<lambda>_. None) 65536 1048576 (replicate 512 0)) = Inr t'
     \<and> same_graph f (vm_thread_init (\<lambda>_. None) 65536 1048576 (replicate 512 0)) t'"
proof -
  let ?t = "vm_thread_init (\<lambda>_. None) 65536 1048576 (replicate 512 0)"
  have t: "thread_wf ?t" "\<not> full_gc (heap ?t)"
    using thread_init_wf [OF regions_example] heap_init_wf(2) [OF regions_example]
    by (simp_all add: vm_thread_init_def)
  have "heap_gc ?t \<noteq> Inl (Fatal ''out of memory'')" by (rule initial_gc_no_fatal)
  then obtain t' where "heap_gc ?t = Inr t'"
    using heap_gc_minor [OF t] by (cases "heap_gc ?t") (auto simp: safe_def)
  with minor_collection_preserves_graph [OF t] show ?thesis by blast
qed

end
