(* ===== verification/Alloc_Safety.thy ===== *)
theory Alloc_Safety
  imports Heap_Init Native
begin

unbundle bit_operations_syntax

text \<open>
  Allocation keeps the collector's invariant. \<^verbatim>\<open>heap_alloc\<close> hands out a cleared block that is not yet
  an object; filling it with a payload of its type whose pointers are valid makes the thread
  well-formed again. A collection on the way keeps the shape of the thread: how many values are on
  the operand stack and in the protected locals.
\<close>

section \<open>The shape of a thread\<close>

definition same_shape :: "vm_thread \<Rightarrow> vm_thread \<Rightarrow> bool" where
  "same_shape t t' \<longleftrightarrow> op_stack_idx t' = op_stack_idx t \<and> op_stack_size t' = op_stack_size t
     \<and> length (opstack t') = length (opstack t)
     \<and> map_option length (local_roots t') = map_option length (local_roots t)
     \<and> heap_env t' = heap_env t \<and> th_func t' = th_func t \<and> th_bindmap t' = th_bindmap t
     \<and> tramp_func t' = tramp_func t \<and> tramp_argc t' = tramp_argc t
     \<and> (heap_env t = 0 \<longrightarrow> th_objects t' = th_objects t)"

lemma same_shape_refl [simp]: "same_shape t t"
  by (simp add: same_shape_def)

lemma same_shape_trans: "same_shape t t' \<Longrightarrow> same_shape t' t'' \<Longrightarrow> same_shape t t''"
  by (simp add: same_shape_def)

lemma same_shape_heap [simp]:
  "same_shape t (t'\<lparr>heap := h\<rparr>) = same_shape t t'" "same_shape (t\<lparr>heap := h\<rparr>) t' = same_shape t t'"
  by (simp_all add: same_shape_def)

lemma visit_root_shape:
  "visit_root vs r t = Inr t' \<Longrightarrow> op_stack_idx t \<le> length (opstack t) \<Longrightarrow> same_shape t t'"
  by (cases r) (auto simp: bindE_Inr_iff same_shape_def split: option.splits dest!: visit_list_length)

lemma visit_roots_shape:
  "visit_roots vs rs t = Inr t' \<Longrightarrow> op_stack_idx t \<le> length (opstack t) \<Longrightarrow> same_shape t t'"
proof (induction rs arbitrary: t)
  case (Cons r rs)
  then obtain t1 where t1: "visit_root vs r t = Inr t1" "visit_roots vs rs t1 = Inr t'"
    by (auto simp: bindE_Inr_iff)
  from visit_root_shape [OF t1(1) Cons.prems(2)] have s: "same_shape t t1" .
  then have "op_stack_idx t1 \<le> length (opstack t1)" using Cons.prems(2) by (simp add: same_shape_def)
  from Cons.IH [OF t1(2) this] s show ?case by (auto intro: same_shape_trans)
qed simp

lemma heap_gc_main_shape:
  "heap_gc_main t = Inr t' \<Longrightarrow> op_stack_idx t \<le> length (opstack t) \<Longrightarrow> same_shape t t'"
  using visit_roots_shape by (fastforce simp: heap_gc_main_def thread_get_roots_def bindE_Inr_iff
      simp del: visit_roots.simps)

lemma thread_after_gc_shape: "thread_after_gc t = Inr t' \<Longrightarrow> same_shape t t'"
  by (auto simp: thread_after_gc_def bindE_Inr_iff same_shape_def split: if_splits)

lemma heap_gc_shape:
  assumes "heap_gc t = Inr t'" and idx: "op_stack_idx t \<le> length (opstack t)"
  shows "same_shape t t'"
proof -
  from assms(1) obtain t1 t3 t5 where
    1: "heap_gc_main t = Inr t1" and
    3: "(if full_gc (heap t1)
         then bindE (heap_gc_old (heap t1)) (\<lambda>h. bindE (heap_gc_main (t1\<lparr>heap := h\<lparr>full_gc := False\<rparr>\<rparr>)) (\<lambda>t2.
                Inr (t2\<lparr>heap := (heap t2)\<lparr>old_map := None\<rparr>\<rparr>))) else Inr t1) = Inr t3" and
    5: "thread_after_gc (t3\<lparr>heap := heap_swap_survived (reset_fresh (heap t3))\<rparr>) = Inr t5" and
    e: "t' = t5\<lparr>heap := (schedule_full (heap t5))\<lparr>gc_count := Suc (gc_count (heap t5))\<rparr>\<rparr>"
    by (auto simp: heap_gc_def bindE_Inr_iff Let_def)
  have s1: "same_shape t t1" by (rule heap_gc_main_shape [OF 1 idx])
  then have idx1: "op_stack_idx t1 \<le> length (opstack t1)" using idx by (simp add: same_shape_def)
  have "same_shape t1 t3"
  proof (cases "full_gc (heap t1)")
    case True
    with 3 obtain h t2 where "heap_gc_main (t1\<lparr>heap := h\<lparr>full_gc := False\<rparr>\<rparr>) = Inr t2"
        "t3 = t2\<lparr>heap := (heap t2)\<lparr>old_map := None\<rparr>\<rparr>"
      by (auto simp: bindE_Inr_iff)
    with heap_gc_main_shape [of "t1\<lparr>heap := h\<lparr>full_gc := False\<rparr>\<rparr>" t2] idx1 show ?thesis by simp
  qed (use 3 in simp)
  moreover have "same_shape t3 t5" using thread_after_gc_shape [OF 5] by simp
  ultimately show ?thesis using s1 e by (auto intro: same_shape_trans)
qed

section \<open>A new block\<close>

definition zero_block :: "u16 \<Rightarrow> nat \<Rightarrow> block" where
  "zero_block tid sz = \<lparr>hdr = \<lparr>type_id = tid, forward = False, generation = 0, remembered = False,
     hsize = sz\<rparr>, payload = P_Zero\<rparr>"

definition round8 :: "nat \<Rightarrow> nat" where "round8 n = (n + 7) div 8 * 8"

text \<open>The thread with a block of type \<open>tid\<close> and \<open>sz\<close> bytes at the end of the fresh space.\<close>

definition alloc_at :: "vm_thread \<Rightarrow> u16 \<Rightarrow> nat \<Rightarrow> vm_thread" where
  "alloc_at t tid sz =
     (let h = heap t; sp = fresh h
      in t\<lparr>heap := h\<lparr>store := (store h)(sp_pos sp \<mapsto> zero_block tid sz),
            fresh := sp\<lparr>sp_pos := sp_pos sp + 8 + sz, free_mem := free_mem sp - (sz + 8),
                        blocks := Suc (blocks sp)\<rparr>\<rparr>\<rparr>)"

lemma zero_block_simps [simp]:
  "hsize (hdr (zero_block tid sz)) = sz" "type_id (hdr (zero_block tid sz)) = tid"
  "payload (zero_block tid sz) = P_Zero" "\<not> forward (hdr (zero_block tid sz))"
  "blen (zero_block tid sz) = sz + 8"
  by (simp_all add: zero_block_def blen_def BHDR_SIZE_def)

lemma round8_simps [simp]: "8 dvd round8 n" "n \<le> round8 n"
  by (simp_all add: round8_def)

lemma round8_less: "round8 n < n + 8"
  unfolding round8_def by linarith

lemma scast_of_nat_31: "n < 2 ^ 31 \<Longrightarrow> unat (scast (of_nat n :: 32 word) :: u64) = n"
proof -
  assume n: "n < 2 ^ 31"
  then have "sint (of_nat n :: 32 word) = int n"
    by (simp add: signed_of_nat signed_take_bit_int_eq_self)
  then have "scast (of_nat n :: 32 word) = (of_nat n :: u64)"
    by (metis of_int_of_nat_eq scast_eq)
  then show ?thesis using n by (simp add: unsigned_of_nat take_bit_nat_eq_self_iff)
qed

lemma fresh_facts:
  assumes "thread_wf t"
  shows "space_ok (store (heap t)) (fresh (heap t))" and "sp_size (fresh (heap t)) \<le> 2 ^ 32"
    and "free_mem (fresh (heap t)) \<le> sp_size (fresh (heap t))" and "sp_clear (fresh (heap t))"
proof -
  show ok: "space_ok (store (heap t)) (fresh (heap t))" and "sp_size (fresh (heap t)) \<le> 2 ^ 32" and "sp_clear (fresh (heap t))"
    using assms by (auto simp: thread_wf_def heap_wf_def layout_ok_def)
  then have "run (store (heap t)) (sp_mem (fresh (heap t))) (blocks (fresh (heap t))) (sp_pos (fresh (heap t)))"
      and "sp_pos (fresh (heap t)) + free_mem (fresh (heap t)) = sp_mem (fresh (heap t)) + sp_size (fresh (heap t))"
    by (auto simp: space_ok_def)
  then show "free_mem (fresh (heap t)) \<le> sp_size (fresh (heap t))"
    using run_bounds by fastforce
qed

lemma alloc_fresh_wf:
  assumes wf: "thread_wf t" and n: "n < 2 ^ 31"
  shows "alloc_fresh t (of_nat n) tid =
    (if free_mem (fresh (heap t)) < round8 n + 8 then None
     else Some (alloc_at t tid (round8 n), sp_pos (fresh (heap t)) + 8))"
proof -
  let ?sp = "fresh (heap t)"
  note f = fresh_facts [OF wf]
  have "unat (scast (of_nat n :: 32 word) :: u64) < 2 ^ 64 - 15" using n by (simp add: scast_of_nat_31)
  note c = space_alloc_cases [OF this f(2,3), of "store (heap t)" tid, unfolded scast_of_nat_31 [OF n] if_P [OF f(4)],
      folded round8_def zero_block_def]
  show ?thesis
  proof (cases "free_mem ?sp < round8 n + 8")
    case True
    then show ?thesis using c by (simp add: alloc_fresh_def)
  next
    case False
    then have "put_block (store (heap t)) (sp_pos ?sp) (zero_block tid (round8 n)) =
        (store (heap t))(sp_pos ?sp \<mapsto> zero_block tid (round8 n))"
      by (intro space_ok_append(1) [OF f(1)]) simp_all
    with False c show ?thesis by (simp add: alloc_fresh_def alloc_at_def Let_def)
  qed
qed

text \<open>
  \<^verbatim>\<open>heap_alloc\<close>: without a collection the block is put into the given thread, with one into a
  well-formed thread of the same shape.
\<close>

definition allotted :: "vm_thread \<Rightarrow> nat \<Rightarrow> u16 \<Rightarrow> vm_thread \<times> addr \<Rightarrow> vm_thread \<Rightarrow> bool" where
  "allotted t n tid r t0 \<longleftrightarrow> thread_wf t0 \<and> same_shape t t0 \<and> round8 n + 8 \<le> free_mem (fresh (heap t0))
     \<and> r = (alloc_at t0 tid (round8 n), sp_pos (fresh (heap t0)) + 8)
     \<and> (if round8 n + 8 \<le> free_mem (fresh (heap t)) then t0 = t else heap_gc t = Inr t0)"

lemma heap_alloc_safe:
  assumes wf: "thread_wf t" and nf: "\<not> full_gc (heap t)" and n: "n < 2 ^ 31"
  shows "safe (\<lambda>r. \<exists>t0. allotted t n tid r t0) (heap_alloc t (of_nat n) tid)"
proof (cases "free_mem (fresh (heap t)) < round8 n + 8")
  case False
  then show ?thesis using wf n by (simp add: heap_alloc_def alloc_fresh_wf allotted_def)
next
  case True
  have "safe (\<lambda>r. \<exists>t0. allotted t n tid r t0)
      (bindE (heap_gc t) (\<lambda>t1. case alloc_fresh t1 (of_nat n) tid of
         Some r \<Rightarrow> Inr r | None \<Rightarrow> Inl (Fatal ''out of memory'')))"
  proof (cases "heap_gc t")
    case (Inl e)
    then show ?thesis using heap_gc_minor [OF wf nf] by simp
  next
    case (Inr t1)
    have t1: "thread_wf t1" using heap_gc_minor [OF wf nf] Inr by simp
    have "same_shape t t1" using heap_gc_shape [OF Inr] wf by (simp add: thread_wf_def)
    with t1 True have a: "allotted t n tid (alloc_at t1 tid (round8 n), sp_pos (fresh (heap t1)) + 8) t1"
      if "\<not> free_mem (fresh (heap t1)) < round8 n + 8"
      using that Inr by (simp add: allotted_def)
    then show ?thesis
      using Inr alloc_fresh_wf [OF t1 n, of tid] by auto
  qed
  then show ?thesis using True wf n by (simp add: heap_alloc_def alloc_fresh_wf)
qed

section \<open>Filling the new block\<close>

lemma set_object_alloc_at:
  "set_object (alloc_at t tid sz) (sp_pos (fresh (heap t)) + 8) pl =
     t\<lparr>heap := (heap t)\<lparr>store := (store (heap t))(sp_pos (fresh (heap t)) \<mapsto> (zero_block tid sz)\<lparr>payload := pl\<rparr>),
        fresh := fresh (heap (alloc_at t tid sz))\<rparr>\<rparr>"
  by (simp add: set_object_def set_store_def set_payload_def alloc_at_def Let_def BHDR_SIZE_def)

text \<open>
  A thread with one more object at the end of its fresh space. Valid pointers stay valid, and the new
  object's pointer is one.
\<close>

lemma new_object_heap:
  fixes h :: heap
  defines "sp \<equiv> fresh h"
  assumes wf: "heap_wf h" and fits: "sz + 8 \<le> free_mem sp" and sz: "8 dvd sz" "8 \<le> sz"
    and ty: "typed tid pl" and lk: "links_ok (valid_obj h) (valid_addr h) pl"
  defines "b \<equiv> (zero_block tid sz)\<lparr>payload := pl\<rparr>"
  defines "h' \<equiv> h\<lparr>store := (store h)(sp_pos sp \<mapsto> b),
     fresh := sp\<lparr>sp_pos := sp_pos sp + 8 + sz, free_mem := free_mem sp - (sz + 8), blocks := Suc (blocks sp)\<rparr>\<rparr>"
  shows "heap_wf h'" and "\<And>p. valid_addr h p \<Longrightarrow> valid_addr h' p \<and> hdr_type h' p = hdr_type h p"
    and "valid_addr h' (sp_pos sp + 8)" and "hdr_type h' (sp_pos sp + 8) = Some tid"
    and "store h (sp_pos sp) = None" and "8 dvd sp_pos sp + 8" and "sp_pos sp + 8 < 2 ^ 64"
    and "settled h \<Longrightarrow> settled h'" and "\<And>a. heap_hdr h' a \<longleftrightarrow> heap_hdr h a \<or> a = sp_pos sp"
proof -
  let ?m = "store h" and ?p = "sp_pos sp"
  have lay: "layout_ok h" and gr: "graph_ok h" and om: "old_map h = None"
    and rs: "\<forall>a \<in> set (remembered_set h). in_space (old h) a \<and> ?m a \<noteq> None"
    using wf by (auto simp: heap_wf_def)
  note l = lay [unfolded layout_ok_def]
  have ok: "space_ok ?m sp" using l by (simp add: sp_def)
  have b: "hsize (hdr b) = sz" "blen b = sz + 8" "type_id (hdr b) = tid" "\<not> forward (hdr b)" "payload b = pl"
    by (simp_all add: b_def)
  have sp': "fresh h' = sp\<lparr>sp_pos := ?p + blen b, free_mem := free_mem sp - blen b, blocks := Suc (blocks sp)\<rparr>"
    by (simp add: h'_def b)
  note app = space_ok_append [OF ok, of b, unfolded b, OF sz(1) fits]
  show none: "?m ?p = None" by (rule app(3))
  have run: "run ?m (sp_mem sp) (blocks sp) ?p" and al: "8 dvd sp_mem sp"
    and lend: "?p + free_mem sp = sp_mem sp + sp_size sp" using ok by (auto simp: space_ok_def)
  have start: "sp_mem sp \<le> ?p" using run_bounds [OF run] by simp
  have "8 dvd ?p" using run_aligned [OF run al] .
  then show "8 dvd ?p + 8" by simp
  have ins: "inside h sp" using l by (simp add: sp_def)
  then show "?p + 8 < 2 ^ 64" using lend fits l by (simp add: inside_def)
  have infr: "in_space sp ?p" using start lend fits by (simp add: in_space_def)
  have same: "in_space (fresh h') = in_space sp" "survived h' = survived h"
      "future_survived h' = future_survived h" "old h' = old h" "heap_mem h' = heap_mem h"
      "mem_size h' = mem_size h" "old_base h' = old_base h" "store h' = ?m(?p \<mapsto> b)"
      "old_map h' = old_map h" "remembered_set h' = remembered_set h"
    by (auto simp: h'_def in_space_def fun_eq_iff)
  have fr: "from_addr h' = from_addr h" "to_addr h' = to_addr h"
    by (auto simp: from_addr_def to_addr_def same sp_def fun_eq_iff)
  show hh: "heap_hdr h' a \<longleftrightarrow> heap_hdr h a \<or> a = ?p" for a
    using infr by (auto simp: heap_hdr_def fr same from_addr_def sp_def)
  show va: "valid_addr h' p \<and> hdr_type h' p = hdr_type h p" if "valid_addr h p" for p
  proof -
    from that have "8 \<le> p" "heap_hdr h (p - 8)" by (auto simp: valid_addr_def)
    moreover from this have "p - 8 \<noteq> ?p" using none by (auto simp: heap_hdr_def)
    ultimately show ?thesis by (simp add: valid_addr_def hh hdr_type_def same)
  qed
  show vn: "valid_addr h' (?p + 8)" by (simp add: valid_addr_def hh)
  show "hdr_type h' (?p + 8) = Some tid" by (simp add: hdr_type_def same b)
  show "settled h'" if "settled h"
    using that b hh none by (auto simp: settled_def same split: if_splits)
  have vo: "valid_obj h' x" if "valid_obj h x" for x using that va by (auto simp: valid_obj_def)
  have ca: "clean_addr h' q" if "clean_addr h q" for q using that va by (auto simp: clean_addr_def fr)
  have frame: "space_ok (?m(?p \<mapsto> b)) s" if "space_ok ?m s" "apart (sp_mem sp) (sp_size sp) (sp_mem s) (sp_size s)" for s
    by (rule space_ok_frame [OF that(1)])
      (use that(2) start lend fits none in \<open>auto simp: overlap_def apart_def b\<close>)
  have "layout_ok h'"
    using l app(2) sp' frame [of "survived h"] frame [of "future_survived h"] frame [of "old h"] ins
    by (auto simp: layout_ok_def same inside_def apart_spaces_def old_ok_def sp_def apart_def b)
  moreover have "graph_ok h'"
    unfolding graph_ok_def
  proof (intro allI impI)
    fix a c
    assume a: "heap_hdr h' a" "store h' a = Some c"
    show "block_ok h' c \<and> (to_addr h' a \<longrightarrow> \<not> forward (hdr c))"
    proof (cases "a = ?p")
      case True
      with a have "c = b" by (simp add: same)
      moreover have "links_ok (valid_obj h') (valid_addr h') pl"
        by (rule links_ok_mono [OF lk]) (use va vo in auto)
      ultimately show ?thesis using b sz ty by (simp add: block_ok_def)
    next
      case False
      with a hh have h: "heap_hdr h a" "?m a = Some c" by (auto simp: same)
      then have bo: "block_ok h c" "to_addr h a \<longrightarrow> \<not> forward (hdr c)" using gr by (auto simp: graph_ok_def)
      have "block_ok h' c"
      proof (cases "forward (hdr c)")
        case True
        with bo(1) obtain q where q: "payload c = P_Forward q" "clean_addr h q"
            "hdr_type h q = Some (type_id (hdr c))" "8 \<le> hsize (hdr c)"
          by (auto simp: block_ok_def)
        moreover have "hdr_type h' q = hdr_type h q" using q(2) va by (auto simp: clean_addr_def)
        ultimately show ?thesis using True ca by (auto simp: block_ok_def)
      next
        case False
        with bo(1) have "links_ok (valid_obj h) (valid_addr h) (payload c)" by (simp add: block_ok_def)
        then have "links_ok (valid_obj h') (valid_addr h') (payload c)"
          by (rule links_ok_mono) (use va vo in auto)
        with False bo(1) show ?thesis by (simp add: block_ok_def)
      qed
      with bo(2) show ?thesis by (simp add: fr)
    qed
  qed
  moreover have "?m a \<noteq> None \<longrightarrow> store h' a \<noteq> None" for a by (simp add: same)
  ultimately show "heap_wf h'" using om rs by (simp add: heap_wf_def same)
qed

text \<open>The thread with the new object, and what holds of it.\<close>

definition new_object :: "vm_thread \<Rightarrow> u16 \<Rightarrow> nat \<Rightarrow> payload \<Rightarrow> vm_thread" where
  "new_object t tid sz pl = set_object (alloc_at t tid sz) (sp_pos (fresh (heap t)) + 8) pl"

abbreviation new_addr :: "vm_thread \<Rightarrow> addr" where "new_addr t \<equiv> sp_pos (fresh (heap t)) + 8"

lemma new_object_simps [simp]:
  "op_stack_idx (new_object t tid sz pl) = op_stack_idx t" "opstack (new_object t tid sz pl) = opstack t"
  "op_stack_size (new_object t tid sz pl) = op_stack_size t" "th_env (new_object t tid sz pl) = th_env t"
  "local_roots (new_object t tid sz pl) = local_roots t" "heap_env (new_object t tid sz pl) = heap_env t"
  "th_closure (new_object t tid sz pl) = th_closure t" "lib_cache (new_object t tid sz pl) = lib_cache t"
  "exception_handlers (new_object t tid sz pl) = exception_handlers t"
  "full_gc (heap (new_object t tid sz pl)) = full_gc (heap t)"
  "th_func (new_object t tid sz pl) = th_func t" "th_bindmap (new_object t tid sz pl) = th_bindmap t"
  "tramp_func (new_object t tid sz pl) = tramp_func t" "tramp_argc (new_object t tid sz pl) = tramp_argc t"
  "th_objects (new_object t tid sz pl) = th_objects t"
  by (simp_all add: new_object_def set_object_alloc_at)

lemma alloc_at_simps [simp]:
  "op_stack_idx (alloc_at t tid sz) = op_stack_idx t" "opstack (alloc_at t tid sz) = opstack t"
  "op_stack_size (alloc_at t tid sz) = op_stack_size t" "th_env (alloc_at t tid sz) = th_env t"
  "local_roots (alloc_at t tid sz) = local_roots t" "heap_env (alloc_at t tid sz) = heap_env t"
  "exception_handlers (alloc_at t tid sz) = exception_handlers t" "th_func (alloc_at t tid sz) = th_func t"
  by (simp_all add: alloc_at_def Let_def)

lemma new_object_shape [simp]: "same_shape t (new_object t0 tid sz pl) = same_shape t t0"
  by (simp add: same_shape_def)

lemma alloc_at_HTYPE:
  "HTYPE (mem_of (alloc_at t tid sz)) (new_addr t) = Some (zero_block tid sz)"
  by (simp add: HTYPE_def BHDR_SIZE_def alloc_at_def Let_def)

lemma new_object_HTYPE:
  "HTYPE (mem_of (new_object t tid sz pl)) (new_addr t) = Some ((zero_block tid sz)\<lparr>payload := pl\<rparr>)"
  by (simp add: HTYPE_def BHDR_SIZE_def new_object_def set_object_alloc_at)

text \<open>What an object of a well-formed thread looks like, and what stays of it.\<close>

lemma new_object_wf:
  assumes wf: "thread_wf t" and fits: "sz + 8 \<le> free_mem (fresh (heap t))" and sz: "8 dvd sz" "8 \<le> sz"
    and ty: "typed tid pl" and lk: "links_ok (valid_obj (heap t)) (valid_addr (heap t)) pl"
  defines "t' \<equiv> new_object t tid sz pl"
  shows "thread_wf t'" and "valid_addr (heap t') (new_addr t)"
    and "\<And>p. valid_addr (heap t) p \<Longrightarrow> valid_addr (heap t') p \<and> hdr_type (heap t') p = hdr_type (heap t) p"
    and "\<And>x. valid_obj (heap t) x \<Longrightarrow> valid_obj (heap t') x"
    and "valid_obj (heap t') (MAKE_HEAP_PTR (new_addr t))"
    and "PTR (MAKE_HEAP_PTR (new_addr t)) = new_addr t"
    and "\<And>a b. store (heap t) a = Some b \<Longrightarrow> store (heap t') a = Some b"
    and "\<And>a. heap_hdr (heap t') a \<longleftrightarrow> heap_hdr (heap t) a \<or> a = sp_pos (fresh (heap t))"
proof -
  let ?sp = "fresh (heap t)"
  have hw: "heap_wf (heap t)" using wf by (simp add: thread_wf_def)
  note n = new_object_heap [OF hw fits sz ty lk]
  have h': "heap t' = (heap t)\<lparr>store := (store (heap t))(sp_pos ?sp \<mapsto> (zero_block tid sz)\<lparr>payload := pl\<rparr>),
      fresh := ?sp\<lparr>sp_pos := sp_pos ?sp + 8 + sz, free_mem := free_mem ?sp - (sz + 8), blocks := Suc (blocks ?sp)\<rparr>\<rparr>"
    by (simp add: t'_def new_object_def set_object_alloc_at) (simp add: alloc_at_def Let_def)
  note n = n [folded h']
  show va: "valid_addr (heap t') p \<and> hdr_type (heap t') p = hdr_type (heap t) p" if "valid_addr (heap t) p" for p
    by (rule n(2) [OF that])
  show vo: "valid_obj (heap t') x" if "valid_obj (heap t) x" for x
    using that va by (auto simp: valid_obj_def)
  show "valid_addr (heap t') (new_addr t)" by (rule n(3))
  then show "valid_obj (heap t') (MAKE_HEAP_PTR (new_addr t))"
    and "PTR (MAKE_HEAP_PTR (new_addr t)) = new_addr t"
    using n(6,7) by (simp_all add: valid_obj_def)
  show "heap_hdr (heap t') a \<longleftrightarrow> heap_hdr (heap t) a \<or> a = sp_pos ?sp" for a by (rule n(9))
  show "store (heap t') a = Some b" if "store (heap t) a = Some b" for a b
    using that n(5) by (auto simp: h')
  have "valid_root r t'" for r
  proof -
    have "root_ok (valid_obj (heap t)) (valid_addr (heap t)) r t"
      using wf by (simp add: thread_wf_def valid_root_def)
    then have "root_ok (valid_obj (heap t')) (valid_addr (heap t')) r t"
      by (rule root_ok_mono) (use va vo in auto)
    then show ?thesis by (cases r) (auto simp: valid_root_def t'_def)
  qed
  moreover have "env_root_ok t'"
  proof (cases "heap_env t = 0")
    case False
    with wf have "valid_addr (heap t) (th_env t)"
      by (auto simp: thread_wf_def env_root_ok_def valid_root_def dest: spec [of _ R_Env])
    with va False wf show ?thesis by (auto simp: env_root_ok_def thread_wf_def t'_def)
  qed (simp add: env_root_ok_def t'_def)
  ultimately show "thread_wf t'" using wf n(1,8) by (simp add: thread_wf_def t'_def)
qed

section \<open>Constructors\<close>

text \<open>
  The result of a constructor that made an object of type \<open>tid\<close> with payload \<open>pl\<close>: some thread \<open>t0\<close> of
  the same shape, the given one unless a collection ran, with the new object.
\<close>

definition built :: "vm_thread \<Rightarrow> u16 \<Rightarrow> nat \<Rightarrow> (vm_thread \<Rightarrow> payload \<Rightarrow> bool) \<Rightarrow> vm_thread \<times> addr \<Rightarrow> bool" where
  "built t tid n P r \<longleftrightarrow> (\<exists>t0 pl. thread_wf t0 \<and> same_shape t t0 \<and> round8 n + 8 \<le> free_mem (fresh (heap t0))
     \<and> r = (new_object t0 tid (round8 n) pl, new_addr t0) \<and> typed tid pl
     \<and> links_ok (valid_obj (heap t0)) (valid_addr (heap t0)) pl \<and> P t0 pl
     \<and> (if round8 n + 8 \<le> free_mem (fresh (heap t)) then t0 = t else heap_gc t = Inr t0))"

lemma heap_alloc_build:
  assumes wf: "thread_wf t" and nf: "\<not> full_gc (heap t)" and n: "8 \<le> n" "n < 2 ^ 31"
    and k: "\<And>t0. \<lbrakk>thread_wf t0; same_shape t t0; round8 n + 8 \<le> free_mem (fresh (heap t0));
      if round8 n + 8 \<le> free_mem (fresh (heap t)) then t0 = t else heap_gc t = Inr t0\<rbrakk> \<Longrightarrow>
      safe Q (f (alloc_at t0 tid (round8 n), new_addr t0))"
  shows "safe Q (bindE (heap_alloc t (of_nat n) tid) f)"
  by (rule safe_bind [OF heap_alloc_safe [OF wf nf n(2)]]) (use k in \<open>auto simp: allotted_def\<close>)

lemma built_wf:
  assumes "built t tid n P (t', p)" and "8 \<le> n"
  shows "thread_wf t'" "same_shape t t'" "valid_addr (heap t') p" "valid_obj (heap t') (MAKE_HEAP_PTR p)"
    "PTR (MAKE_HEAP_PTR p) = p" "IS_TYPE (mem_of t') (MAKE_HEAP_PTR p) tid = Inr True"
proof -
  from assms(1) obtain t0 pl where b: "thread_wf t0" "same_shape t t0" "round8 n + 8 \<le> free_mem (fresh (heap t0))"
      "t' = new_object t0 tid (round8 n) pl" "p = new_addr t0" "typed tid pl"
      "links_ok (valid_obj (heap t0)) (valid_addr (heap t0)) pl"
    by (auto simp: built_def)
  have "8 \<le> round8 n" using assms(2) round8_simps(2) [of n] by linarith
  note w = new_object_wf [OF b(1,3) round8_simps(1) this b(6,7)]
  show "thread_wf t'" "same_shape t t'" "valid_addr (heap t') p" "valid_obj (heap t') (MAKE_HEAP_PTR p)"
      "PTR (MAKE_HEAP_PTR p) = p"
    using w b by simp_all
  show "IS_TYPE (mem_of t') (MAKE_HEAP_PTR p) tid = Inr True"
    unfolding b(4,5) by (simp add: IS_TYPE_def w(6) new_object_HTYPE)
qed

end
