(* ===== verification/Gc_Const.thy ===== *)
theory Gc_Const
  imports Gc_Graph
begin

text \<open>
  Constants and the collector. Pointers to constants lead outside the heap; a collection neither writes
  there nor makes such a pointer, so whatever set of constants the objects of a thread refer to, they
  still refer to it, unchanged, after the collection. The invariant of the interpreter is assembled here:
  a well-formed thread whose constants are well-formed and whose interior pointers are up to date.
\<close>

section \<open>Memory away from the heap\<close>

definition old_start :: "heap \<Rightarrow> addr" where
  "old_start h = (if sp_mem (old h) = 0 then old_base h else sp_mem (old h))"

definition old_extent :: "heap \<Rightarrow> nat" where
  "old_extent h = (if sp_mem (old h) = 0 then OLD_SIZE else sp_size (old h))"

definition away :: "heap \<Rightarrow> addr \<Rightarrow> nat \<Rightarrow> bool" where
  "away h a n \<longleftrightarrow> apart a n (heap_mem h) (mem_size h) \<and> apart a n (old_start h) (old_extent h)"

text \<open>\<open>remote h h'\<close>: the step from \<open>h\<close> to \<open>h'\<close> keeps the regions and all blocks away from them.\<close>

definition remote :: "heap \<Rightarrow> heap \<Rightarrow> bool" where
  "remote h h' \<longleftrightarrow> heap_mem h' = heap_mem h \<and> mem_size h' = mem_size h \<and> old_start h' = old_start h
     \<and> old_extent h' = old_extent h
     \<and> (\<forall>a b. store h a = Some b \<longrightarrow> away h a (blen b) \<longrightarrow> store h' a = Some b)"

lemma remote_refl [simp]: "remote h h" by (simp add: remote_def)

lemma remote_away: "remote h h' \<Longrightarrow> away h' = away h"
  by (simp add: remote_def away_def fun_eq_iff)

lemma remote_trans: "remote h h' \<Longrightarrow> remote h' h'' \<Longrightarrow> remote h h''"
  using remote_away [of h h'] by (auto simp: remote_def)

text \<open>The headers of the heap lie in its regions.\<close>

lemma hdr_not_away:
  assumes lay: "layout_ok h" and b: "from_addr h a \<or> to_addr h a" and n: "0 < n"
  shows "\<not> away h a n"
proof -
  have i: "inside h (fresh h)" "inside h (survived h)" "inside h (future_survived h)" "old_ok h"
    using lay by (auto simp: layout_ok_def)
  have o: "sp_mem (old h) \<noteq> 0" if "in_space (old h) a"
    using i(4) that by (auto simp: old_ok_def split: if_splits)
  from b consider "in_space (fresh h) a" | "in_space (survived h) a" | "in_space (future_survived h) a"
    | "in_space (old h) a" by (auto simp: from_addr_def to_addr_def)
  then show ?thesis
  proof cases
    case 4
    then show ?thesis using o n by (auto simp: away_def apart_def old_start_def old_extent_def in_space_def)
  qed (use i n in \<open>auto simp: away_def apart_def inside_def in_space_def\<close>)
qed

lemma old_on_demand_remote:
  assumes "old_on_demand h = Inr h'" and "gc_inv h" shows "remote h h'"
proof (cases "sp_mem (old h) = 0")
  case True
  then have "old h = no_space" "8 \<le> old_base h" using assms(2) by (auto simp: gc_inv_def layout_ok_def old_ok_def)
  then have "h' = h\<lparr>store := clear_range (store h) (old_base h) OLD_SIZE, old := \<lparr>sp_mem = old_base h,
      sp_pos = old_base h, sp_size = OLD_SIZE, free_mem = OLD_SIZE, blocks = 0, sp_clear = True\<rparr>\<rparr>"
    using assms(1) True
    by (simp add: old_on_demand_def space_init_def space_reset0_def space_reset_def no_space_def)
  then show ?thesis
    using True \<open>8 \<le> old_base h\<close>
    by (auto simp: remote_def old_start_def old_extent_def away_def clear_range_Some apart_def overlap_def)
qed (use assms in \<open>simp add: old_on_demand_def\<close>)

lemma gc_step_remote: "gc_step h h' \<Longrightarrow> remote h h'"
proof (induction rule: gc_step.induct)
  case (step_move h a b bf bc h' q)
  note m = move_facts [OF step_move]
  note mv = step_move(2) [unfolded moved_def]
  have lay: "layout_ok h" using step_move(1) by (simp add: gc_inv_def)
  from mv have "old_start h' = old_start h" "old_extent h' = old_extent h"
    by (auto simp: old_start_def old_extent_def)
  moreover have "store h' x = Some c" if "store h x = Some c" "away h x (blen c)" for x c
  proof -
    have "x \<noteq> a" using hdr_not_away [OF lay disjI1 [OF step_move(4)] blen_pos] that(2) by blast
    moreover have "x \<noteq> q" using m(2) that(1) by auto
    ultimately show ?thesis using m(6) that(1) by simp
  qed
  ultimately show ?case using mv by (simp add: remote_def)
next
  case (step_visit h a b pl)
  then have "\<not> away h a n" if "0 < n" for n
    using hdr_not_away that by (auto simp: gc_inv_def)
  then show ?case
    using step_visit(2) by (auto simp: remote_def old_start_def old_extent_def)
next
  case (step_grow h h')
  then show ?case by (intro old_on_demand_remote)
next
  case (step_forget h)
  then show ?case by (simp add: remote_def forget_def old_start_def old_extent_def)
qed

lemma gc_steps_remote: "gc_steps h h' \<Longrightarrow> remote h h'"
  by (induction rule: rtranclp_induct) (auto intro: remote_trans gc_step_remote)

section \<open>Which constants a heap refers to\<close>

definition refers :: "addr set \<Rightarrow> obj \<Rightarrow> bool" where
  "refers C x \<longleftrightarrow> (IS_CONST_PTR x \<longrightarrow> PTR x \<in> C)"

definition refers_all :: "addr set \<Rightarrow> heap \<Rightarrow> bool" where
  "refers_all C h \<longleftrightarrow> (\<forall>a b. heap_hdr h a \<longrightarrow> store h a = Some b \<longrightarrow> (\<forall>x \<in> set (obj_slots (payload b)). refers C x))"

lemma refers_heap_ptr [simp]: "refers C (MAKE_HEAP_PTR p)"
  by (simp add: refers_def is_tag_defs)

lemma refers_follows: "follows h x y \<Longrightarrow> refers C x \<Longrightarrow> refers C y"
  by (auto simp: follows_def)

lemma refers_list:
  "list_all2 (follows h) xs ys \<Longrightarrow> \<forall>x \<in> set xs. refers C x \<Longrightarrow> \<forall>y \<in> set ys. refers C y"
  by (induction rule: list_all2_induct) (auto intro: refers_follows)

text \<open>Which headers are new.\<close>

lemma moved_hdr:
  assumes inv: "gc_inv h" and mv: "moved h a b bf bc h' q" and b: "store h a = Some b"
    and from_a: "from_addr h a" and nf: "\<not> forward (hdr b)" and x: "heap_hdr h' x" "x \<noteq> a" "x \<noteq> q"
  shows "heap_hdr h x"
proof -
  have hh: "heap_hdr h a" using b from_a by (simp add: heap_hdr_def)
  have lay: "layout_ok h" using inv by (simp add: gc_inv_def)
  then obtain sp where "in_space sp a" "space_ok (store h) sp" using heap_hdr_space [OF lay hh] by blast
  from space_ok_block [OF this(2) b this(1)] have "8 dvd hsize (hdr b)" by simp
  note f = moved_facts(5,6) [OF mv lay b this]
  have "from_addr h' x = from_addr h x" using mv by (simp add: from_addr_def moved_def)
  moreover have "to_addr h' x = to_addr h x" using f by (simp add: to_addr_def)
  ultimately show ?thesis using x mv by (simp add: heap_hdr_def moved_def)
qed

lemma grow_hdr:
  assumes inv: "gc_inv h" and g: "old_on_demand h = Inr h'" and a: "heap_hdr h' a"
  shows "heap_hdr h a"
proof -
  have "ext {} h h'" using old_on_demand_safe [OF inv] g by simp
  then have e: "fresh h' = fresh h" "survived h' = survived h"
      "\<exists>new. remembered_set h' = remembered_set h @ new \<and> (\<forall>a. in_space (old h') a \<longrightarrow> store h' a \<noteq> None \<longrightarrow>
             in_space (old h) a \<and> store h a \<noteq> None \<or> a \<in> set new)"
    unfolding ext_def by blast+
  have k: "remembered_set h' = remembered_set h" "future_survived h' = future_survived h"
    using g by (auto simp: old_on_demand_def Let_def split: if_splits prod.splits)
  with e have "in_space (old h') a \<Longrightarrow> store h' a \<noteq> None \<Longrightarrow> in_space (old h) a \<and> store h a \<noteq> None" by auto
  moreover have "store h' a \<noteq> None \<Longrightarrow> store h a \<noteq> None"
    using g by (auto simp: old_on_demand_def Let_def space_init_def space_reset0_def clear_range_def
        split: if_splits option.splits)
  ultimately show ?thesis
    using a e k by (auto simp: heap_hdr_def from_addr_def to_addr_def)
qed

lemma gc_step_refers: "gc_step h h' \<Longrightarrow> refers_all C h \<Longrightarrow> refers_all C h'"
proof (induction rule: gc_step.induct)
  case (step_move h a b bf bc h' q)
  note m = move_facts [OF step_move(1-5)]
  note mv = step_move(2) [unfolded moved_def]
  have hh: "heap_hdr h a" using step_move(3,4) by (simp add: heap_hdr_def)
  then show ?case
    using moved_hdr [OF step_move(1-5)] step_move(6) mv m(6) step_move(3) by (auto simp: refers_all_def split: if_splits)
next
  case (step_visit h a b pl)
  have "\<forall>x \<in> set (obj_slots pl). refers C x"
    using refers_list [of h "obj_slots (payload b)"] step_visit
    by (auto simp: payload_follows_def refers_all_def heap_hdr_def)
  then show ?case
    using step_visit by (auto simp: refers_all_def with_payload_preds)
next
  case (step_grow h h')
  then show ?case using grow_hdr [OF step_grow(1,2)] step_grow(3,4) unfolding refers_all_def by metis
next
  case (step_forget h)
  then show ?case by (simp add: refers_all_def heap_hdr_def)
qed

lemma gc_steps_refers: "gc_steps h h' \<Longrightarrow> refers_all C h \<Longrightarrow> refers_all C h'"
  by (induction rule: rtranclp_induct) (auto intro: gc_step_refers)

section \<open>Interior pointers and environment links\<close>

definition homes_ok :: "heap \<Rightarrow> bool" where
  "homes_ok h \<longleftrightarrow> (\<forall>a b. heap_hdr h a \<longrightarrow> store h a = Some b \<longrightarrow> homed (a + BHDR_SIZE) (payload b))"

fun has_env :: "payload \<Rightarrow> bool" where
  "has_env (P_Closure c) \<longleftrightarrow> clo_env c \<noteq> 0"
| "has_env _ \<longleftrightarrow> True"

text \<open>Links lead to environments, and closures have one.\<close>

definition links_typed :: "heap \<Rightarrow> bool" where
  "links_typed h \<longleftrightarrow> (\<forall>a b. heap_hdr h a \<longrightarrow> store h a = Some b \<longrightarrow>
     (\<forall>q \<in> set (env_links (payload b)). q \<noteq> 0 \<longrightarrow> hdr_type h q = Some t_env) \<and> has_env (payload b))"

lemma follows_addr_type:
  assumes inv: "gc_inv h" and f: "follows_addr h p q" and v: "p \<noteq> 0 \<longrightarrow> valid_addr h p"
  shows "p \<noteq> 0 \<Longrightarrow> q \<noteq> 0 \<and> hdr_type h q = hdr_type h p" and "p = 0 \<Longrightarrow> q = 0"
proof -
  show "q = 0" if "p = 0" using f that by (simp add: follows_addr_def)
  show "q \<noteq> 0 \<and> hdr_type h q = hdr_type h p" if "p \<noteq> 0"
  proof (cases "q = p")
    case False
    then have q: "fwd h (p - 8) = Some q" using f by (simp add: follows_addr_def)
    then obtain b where b: "store h (p - 8) = Some b" "forward (hdr b)" "payload b = P_Forward q"
      by (auto simp: fwd_Some)
    have hh: "heap_hdr h (p - 8)" using v that by (simp add: valid_addr_def)
    then have "hdr_type h q = Some (type_id (hdr b))" using inv b by (auto simp: gc_inv_def graph_ok_def block_ok_def)
    moreover have "q \<noteq> 0" using fwd_clean(1) [OF inv hh q] by (auto simp: clean_addr_def valid_addr_def)
    ultimately show ?thesis using b(1) by (simp add: hdr_type_def)
  qed (use that in simp)
qed

lemma has_env_shape:
  assumes "shape pl' = shape pl" and "has_env pl"
    and "\<And>p q. \<lbrakk>env_links pl = [p]; env_links pl' = [q]; p \<noteq> 0\<rbrakk> \<Longrightarrow> q \<noteq> 0"
  shows "has_env pl'"
proof (cases pl')
  case (P_Closure c')
  with assms(1) obtain c where "pl = P_Closure c" by (cases pl) (simp_all split: if_splits)
  with P_Closure assms(2,3) show ?thesis by simp
qed simp_all

lemma gc_step_types:
  assumes st: "gc_step h h'" and v: "valid_addr h p"
  shows "hdr_type h' p = hdr_type h p"
  using st
proof cases
  case (step_move a b bf bc q)
  then have "ext {} h h'" using moved_safe by blast
  then show ?thesis using v by (simp add: ext_def types_kept_def)
next
  case (step_visit a b pl)
  then show ?thesis using with_payload_preds by simp
next
  case step_grow
  then show ?thesis using v by (simp add: valid_addr_def hdr_type_def)
next
  case step_forget
  then show ?thesis by (simp add: hdr_type_def)
qed

lemma gc_steps_types:
  assumes "gc_steps h h'" and "valid_addr h p" shows "hdr_type h' p = hdr_type h p"
  using assms(1)
proof (induction rule: rtranclp_induct)
  case (step h1 h2)
  have "valid_addr h1 p" using stays_valid(1) [OF gc_steps_stays [OF step(1)] assms(2)] .
  then show ?case using gc_step_types [OF step(2)] step(3) by simp
qed simp

lemma gc_step_links: "gc_step h h' \<Longrightarrow> links_typed h \<Longrightarrow> links_typed h'"
proof -
  assume st: "gc_step h h'" and lt: "links_typed h"
  note types = gc_step_types [OF st]
  have vl: "p \<noteq> 0 \<longrightarrow> valid_addr h p" if "gc_inv h" "heap_hdr h a" "store h a = Some b" "p \<in> set (env_links (payload b))"
    for a b p
  proof -
    from that have bo: "block_ok h b" by (auto simp: gc_inv_def graph_ok_def)
    show ?thesis
    proof (cases "forward (hdr b)")
      case True
      then show ?thesis using bo that(4) by (auto simp: block_ok_def)
    next
      case False
      then show ?thesis using bo that(4) by (auto simp: block_ok_def links_ok_def)
    qed
  qed
  have old: "(\<forall>q \<in> set (env_links (payload b)). q \<noteq> 0 \<longrightarrow> hdr_type h' q = Some t_env) \<and> has_env (payload b)"
    if "gc_inv h" "heap_hdr h a" "store h a = Some b" for a b
    using lt that vl [OF that] types by (auto simp: links_typed_def)
  from st show ?thesis
  proof cases
    case (step_move a b bf bc q)
    note m = move_facts [OF step_move]
    note mv = step_move(2) [unfolded moved_def]
    have hh: "heap_hdr h a" using step_move(3,4) by (simp add: heap_hdr_def)
    have "(\<forall>q \<in> set (env_links (payload c)). q \<noteq> 0 \<longrightarrow> hdr_type h' q = Some t_env) \<and> has_env (payload c)"
      if c: "heap_hdr h' x" "store h' x = Some c" for x c
    proof (cases "x = a \<or> x = q")
      case True
      then show ?thesis using c m(3,6) mv old [OF step_move(1) hh step_move(3)] by auto
    next
      case False
      then have "store h x = Some c" using c(2) m(6) by auto
      moreover have "heap_hdr h x" using moved_hdr [OF step_move] c(1) False by blast
      ultimately show ?thesis using old [OF step_move(1)] by blast
    qed
    then show ?thesis by (simp add: links_typed_def)
  next
    case (step_visit a b pl)
    have hh: "heap_hdr h a" using step_visit(3,4) by (simp add: heap_hdr_def)
    have f: "list_all2 (follows_addr h) (env_links (payload b)) (env_links pl)" "shape pl = shape (payload b)"
      using step_visit(5) by (auto simp: payload_follows_def)
    have t: "q \<noteq> 0 \<longrightarrow> hdr_type h q = Some t_env" if "q \<in> set (env_links pl)" for q
    proof -
      from f(1) that obtain p where p: "p \<in> set (env_links (payload b))" "follows_addr h p q"
        by (metis in_set_conv_nth list_all2_conv_all_nth)
      then show ?thesis
        using follows_addr_type [OF step_visit(2) p(2) vl [OF step_visit(2) hh step_visit(3) p(1)]] lt hh step_visit(3)
        by (cases "p = 0") (auto simp: links_typed_def)
    qed
    have "has_env pl"
    proof (rule has_env_shape [OF f(2)])
      show "has_env (payload b)" using lt hh step_visit(3) by (simp add: links_typed_def)
      show "q \<noteq> 0" if "env_links (payload b) = [p]" "env_links pl = [q]" "p \<noteq> 0" for p q
        using follows_addr_type [OF step_visit(2) _ vl [OF step_visit(2) hh step_visit(3)], of p q] f(1) that by simp
    qed
    then show ?thesis
      using step_visit lt t by (auto simp: links_typed_def with_payload_preds)
  next
    case step_grow
    then show ?thesis using old grow_hdr [OF step_grow(1,2)] unfolding links_typed_def by metis
  next
    case step_forget
    then show ?thesis using lt by (simp add: links_typed_def heap_hdr_def hdr_type_def)
  qed
qed

lemma gc_steps_links: "gc_steps h h' \<Longrightarrow> links_typed h \<Longrightarrow> links_typed h'"
  by (induction rule: rtranclp_induct) (auto intro: gc_step_links)

end
