(* ===== verification/Thread_Sound.thy ===== *)
theory Thread_Sound
  imports Alloc_Safety Gc_Const
begin

text \<open>
  The invariant of a running thread: \<open>thread_ok C t\<close>, where \<open>C\<close> is the set of constants that the program
  refers to. A collection keeps it, and so does every constructor of an object.
\<close>

section \<open>The invariant\<close>

text \<open>A constant refers to constants only.\<close>

definition const_block :: "addr set \<Rightarrow> addr \<Rightarrow> block \<Rightarrow> bool" where
  "const_block C p b \<longleftrightarrow> \<not> forward (hdr b) \<and> (type_id (hdr b) = t_symbol \<or> typed (type_id (hdr b)) (payload b))
     \<and> (\<forall>x \<in> set (obj_slots (payload b)). \<not> IS_HEAP_PTR x \<and> refers C x) \<and> env_links (payload b) = []
     \<and> homed p (payload b)"

definition consts_ok :: "addr set \<Rightarrow> heap \<Rightarrow> bool" where
  "consts_ok C h \<longleftrightarrow> (\<forall>p \<in> C. \<exists>b. 8 \<le> p \<and> store h (p - 8) = Some b \<and> away h (p - 8) (blen b) \<and> const_block C p b)"

text \<open>The current environment is one. The locals are in it when the running function says so.\<close>

definition env_ok :: "vm_thread \<Rightarrow> bool" where
  "env_ok t \<longleftrightarrow> (th_env t \<noteq> 0 \<longrightarrow> hdr_type (heap t) (th_env t) = Some t_env)"

definition locals_home :: "vm_thread \<Rightarrow> bool" where
  "locals_home t \<longleftrightarrow> (heap_env t \<noteq> 0 \<longrightarrow> th_objects t = In_Env (th_env t + sizeof_env))"

lemma locals_home_update [simp]:
  "locals_home (t\<lparr>heap := h\<rparr>) = locals_home t" "locals_home (t\<lparr>opstack := st\<rparr>) = locals_home t"
  "locals_home (t\<lparr>op_stack_idx := i\<rparr>) = locals_home t" "locals_home (t\<lparr>local_roots := ls\<rparr>) = locals_home t"
  "locals_home (t\<lparr>exception_handlers := x\<rparr>) = locals_home t"
  "locals_home (new_object t tid sz pl) = locals_home t"
  by (simp_all add: locals_home_def)

definition heap_ok :: "addr set \<Rightarrow> heap \<Rightarrow> bool" where
  "heap_ok C h \<longleftrightarrow> consts_ok C h \<and> refers_all C h \<and> homes_ok h \<and> links_typed h"

definition thread_ok :: "addr set \<Rightarrow> vm_thread \<Rightarrow> bool" where
  "thread_ok C t \<longleftrightarrow> thread_wf t \<and> heap_ok C (heap t) \<and> env_ok t
     \<and> (\<forall>r. \<forall>x \<in> set (root_objs r t). refers C x) \<and> length (opstack t) = op_stack_size t
     \<and> op_stack_idx t < op_stack_size t"

text \<open>A value that the thread may hold.\<close>

definition value_ok :: "addr set \<Rightarrow> vm_thread \<Rightarrow> obj \<Rightarrow> bool" where
  "value_ok C t x \<longleftrightarrow> valid_obj (heap t) x \<and> refers C x"

section \<open>Collection\<close>

lemma remote_consts: "remote h h' \<Longrightarrow> consts_ok C h \<Longrightarrow> consts_ok C h'"
  using remote_away [of h h'] by (fastforce simp: consts_ok_def remote_def)

lemma flip_remote:
  assumes "gc_inv h" shows "remote h (flip h)"
proof -
  have i: "inside h (fresh h)" "inside h (survived h)" using assms by (auto simp: gc_inv_def layout_ok_def)
  have "store (flip h) a = Some b" if "store h a = Some b" "away h a (blen b)" for a b
    using that i by (auto simp: flip_fields clear_range_Some away_def apart_def overlap_def inside_def)
  then show ?thesis by (simp add: remote_def flip_fields old_start_def old_extent_def)
qed

text \<open>The heap after a minor collection, up to its counters.\<close>

lemma heap_ok_flags [simp]: "heap_ok C (h\<lparr>full_gc := f, gc_count := n\<rparr>) = heap_ok C h"
proof -
  let ?h = "h\<lparr>full_gc := f, gc_count := n\<rparr>"
  have "heap_hdr ?h = heap_hdr h" by (auto simp: heap_hdr_def to_addr_def from_addr_def fun_eq_iff)
  moreover have "away ?h = away h" by (auto simp: away_def old_start_def old_extent_def fun_eq_iff)
  moreover have "hdr_type ?h = hdr_type h" by (auto simp: hdr_type_def fun_eq_iff)
  ultimately show ?thesis
    by (simp add: heap_ok_def consts_ok_def refers_all_def homes_ok_def links_typed_def)
qed

lemma collected_heap_ok:
  assumes st: "gc_steps h0 h" and inv: "gc_inv h" and cl: "closed h" and rs: "remembered_set h = []"
    and ok: "heap_ok C h0"
  shows "heap_ok C (flip h)"
proof -
  note fl = flip_wf [OF inv cl rs]
  have "consts_ok C (flip h)"
    using ok remote_consts [OF remote_trans [OF gc_steps_remote [OF st] flip_remote [OF inv]]]
    by (simp add: heap_ok_def)
  moreover have "refers_all C h" "links_typed h"
    using gc_steps_refers [OF st] gc_steps_links [OF st] ok by (auto simp: heap_ok_def)
  note this
  moreover have hh: "heap_hdr h a \<and> store h a = Some b \<and> clean_block h a"
    if "heap_hdr (flip h) a" "store (flip h) a = Some b" for a b
  proof -
    have "to_addr h a" using fl(4) that(1) by blast
    then show ?thesis using fl(5) that cl by (auto simp: heap_hdr_def closed_def)
  qed
  ultimately have c: "consts_ok C (flip h)" "refers_all C (flip h)" and hm: "homes_ok (flip h)"
    unfolding refers_all_def homes_ok_def by (blast, blast) (auto simp: clean_block_def dest!: hh)
  have "hdr_type (flip h) q = Some t_env"
    if a: "heap_hdr (flip h) a" "store (flip h) a = Some b" and q: "q \<in> set (env_links (payload b))" "q \<noteq> 0" for a b q
  proof -
    have "clean_addr h q" using hh [OF a] q by (auto simp: clean_block_def links_ok_def)
    then show ?thesis using fl(3) \<open>links_typed h\<close> hh [OF a] q by (auto simp: links_typed_def)
  qed
  moreover have "has_env (payload b)" if "heap_hdr (flip h) a" "store (flip h) a = Some b" for a b
    using hh [OF that] \<open>links_typed h\<close> by (auto simp: links_typed_def)
  ultimately have "links_typed (flip h)" unfolding links_typed_def by blast
  with c hm show ?thesis by (simp add: heap_ok_def)
qed

lemma collect_ok:
  assumes ok: "thread_ok C t" and nf: "\<not> full_gc (heap t)" and gc: "heap_gc t = Inr t'"
  shows "thread_ok C t'" and "same_shape t t'" and "th_env t' = 0 \<longleftrightarrow> th_env t = 0" and "locals_home t'"
proof -
  have wf: "thread_wf t" using ok by (simp add: thread_ok_def)
  then show sh: "same_shape t t'" using heap_gc_shape [OF gc] by (simp add: thread_wf_def)
  have wf': "thread_wf t'" using heap_gc_minor [OF wf nf] gc by simp
  from gc obtain t1 where t1: "heap_gc_main t = Inr t1" by (auto simp: heap_gc_def bindE_Inr_iff)
  have s: "gc_inv (heap t1)" "closed (heap t1)" "remembered_set (heap t1) = []" "\<And>r. clean_root r t1"
    using heap_gc_main_safe [OF wf nf] t1 by auto
  have fo: "gc_steps (heap t) (heap t1)" "\<And>r. root_follows (heap t1) r t t1"
    using heap_gc_main_follows [OF t1 wf nf] by auto
  have nf1: "\<not> full_gc (heap t1)" using s(1) by (simp add: gc_inv_def)
  let ?h = "flip (heap t1)"
  from gc t1 nf1 obtain t5 where t5: "thread_after_gc (t1\<lparr>heap := ?h\<rparr>) = Inr t5"
      "t' = t5\<lparr>heap := (schedule_full (heap t5))\<lparr>gc_count := Suc (gc_count (heap t5))\<rparr>\<rparr>"
    by (auto simp: heap_gc_def bindE_Inr_iff flip_def Let_def)
  from thread_after_gc_objects [OF t5(1)] obtain ob where ob: "t5 = t1\<lparr>heap := ?h, th_objects := ob\<rparr>" by auto
  have "(schedule_full ?h)\<lparr>gc_count := n\<rparr> = ?h\<lparr>full_gc := full_gc (schedule_full ?h), gc_count := n\<rparr>" for n
    by (simp add: schedule_full_def)
  then have "t' = t1\<lparr>th_objects := ob,
      heap := ?h\<lparr>full_gc := full_gc (schedule_full ?h), gc_count := Suc (gc_count ?h)\<rparr>\<rparr>"
    using t5(2) ob by simp
  then obtain f n where t': "t' = t1\<lparr>th_objects := ob, heap := ?h\<lparr>full_gc := f, gc_count := n\<rparr>\<rparr>" by blast
  have hok: "heap_ok C ?h"
    using ok by (intro collected_heap_ok [OF fo(1) s(1-3)]) (simp add: thread_ok_def)
  have env: "follows_addr (heap t1) (th_env t) (th_env t1)" using fo(2) [of R_Env] by (simp add: root_follows_def)
  have "th_env t \<noteq> 0 \<longrightarrow> valid_addr (heap t1) (th_env t)"
    using wf stays_valid [OF gc_steps_stays [OF fo(1)]]
    by (auto simp: thread_wf_def valid_root_def dest: spec [of _ R_Env])
  note ft = follows_addr_type [OF s(1) env this]
  show z: "th_env t' = 0 \<longleftrightarrow> th_env t = 0" using ft by (cases "th_env t = 0") (auto simp: t')
  have roots: "\<forall>x \<in> set (root_objs r t'). refers C x" for r
  proof -
    have "root_objs r t' = root_objs r t1" by (cases r) (simp_all add: t')
    moreover have "list_all2 (follows (heap t1)) (root_objs r t) (root_objs r t1)"
      using fo(2) [of r] by (simp add: root_follows_def)
    note refers_list [OF this, of C]
    ultimately show ?thesis using ok by (simp add: thread_ok_def)
  qed
  note fl = flip_wf [OF s(1-3)]
  have ve: "th_env t1 \<noteq> 0 \<longrightarrow> clean_addr (heap t1) (th_env t1)"
    using s(4) [of R_Env] by (auto simp: clean_root_def)
  have hd: "hdr_type (heap t') = hdr_type ?h" by (simp add: t' hdr_type_def fun_eq_iff)
  have ty: "hdr_type (heap t') (th_env t') = Some t_env" if "th_env t' \<noteq> 0"
  proof -
    have n: "th_env t \<noteq> 0" using that z by simp
    then have "valid_addr (heap t) (th_env t)"
      using wf by (auto simp: thread_wf_def valid_root_def dest: spec [of _ R_Env])
    then have "hdr_type (heap t1) (th_env t1) = hdr_type (heap t) (th_env t)"
      using ft(1) [OF n] gc_steps_types [OF fo(1)] by simp
    then have "hdr_type (heap t1) (th_env t1) = Some t_env" using ok n by (simp add: thread_ok_def env_ok_def)
    then show ?thesis using fl(3) ve that unfolding hd by (auto simp: t')
  qed
  have obj: "th_objects t' = In_Env (th_env t' + sizeof_env)" if he: "heap_env t' \<noteq> 0"
  proof -
    have "env_root_ok t1" using heap_gc_main_safe [OF wf nf] t1 by auto
    then have n: "th_env t1 \<noteq> 0" using he by (simp add: env_root_ok_def t')
    then have v: "8 \<le> th_env t1" "heap_hdr ?h (th_env t1 - 8)" using fl(3) ve by (auto simp: valid_addr_def)
    from t5(1) he obtain b p where b: "store ?h (th_env t1 - 8) = Some b" "env_objects_of (payload b) = Some p"
        "ob = In_Env p"
      using v(1) ob by (auto simp: thread_after_gc_def bindE_Inr_iff t' HTYPE_def BHDR_SIZE_def dest!: arg_cong [where f = th_objects])
    then obtain e where "payload b = P_Env e" "objects e = p" by (cases "payload b") auto
    moreover have "homed (th_env t1 - 8 + BHDR_SIZE) (payload b)"
      using hok v(2) b(1) by (simp add: heap_ok_def homes_ok_def)
    ultimately show ?thesis using v(1) b(3) by (simp add: t' BHDR_SIZE_def)
  qed
  have "length (opstack t') = op_stack_size t'" "op_stack_idx t' < op_stack_size t'"
    using ok sh by (simp_all add: thread_ok_def same_shape_def)
  moreover have "heap_ok C (heap t')" using hok by (simp add: t')
  ultimately show "thread_ok C t'"
    using wf' roots ty by (simp add: thread_ok_def env_ok_def)
  show "locals_home t'" using obj by (simp add: locals_home_def)
qed

section \<open>New objects\<close>

lemma same_roots:
  "root_objs r (new_object t tid sz pl) = root_objs r t" "root_links r (new_object t tid sz pl) = root_links r t"
  by (cases r; simp)+

lemma new_object_ok:
  assumes ok: "thread_ok C t" and fits: "sz + 8 \<le> free_mem (fresh (heap t))" and sz: "8 dvd sz" "8 \<le> sz"
    and ty: "typed tid pl" and lk: "links_ok (value_ok C t) (\<lambda>q. valid_addr (heap t) q \<and> hdr_type (heap t) q = Some t_env) pl"
    and hm: "homed (new_addr t) pl" and he: "has_env pl"
  defines "t' \<equiv> new_object t tid sz pl"
  shows "thread_ok C t'" and "\<And>x. value_ok C t x \<Longrightarrow> value_ok C t' x"
    and "value_ok C t' (MAKE_HEAP_PTR (new_addr t))" and "PTR (MAKE_HEAP_PTR (new_addr t)) = new_addr t"
    and "HTYPE (mem_of t') (new_addr t) = Some ((zero_block tid sz)\<lparr>payload := pl\<rparr>)"
    and "\<And>p b. HTYPE (mem_of t) p = Some b \<Longrightarrow> HTYPE (mem_of t') p = Some b"
    and "\<And>p. valid_addr (heap t) p \<Longrightarrow> valid_addr (heap t') p \<and> hdr_type (heap t') p = hdr_type (heap t) p"
proof -
  have wf: "thread_wf t" using ok by (simp add: thread_ok_def)
  have lk': "links_ok (valid_obj (heap t)) (valid_addr (heap t)) pl"
    using lk by (auto simp: links_ok_def value_ok_def)
  note n = new_object_wf [OF wf fits sz ty lk', folded t'_def]
  let ?a = "sp_pos (fresh (heap t))"
  have h': "heap t' = (heap t)\<lparr>store := (store (heap t))(?a \<mapsto> (zero_block tid sz)\<lparr>payload := pl\<rparr>),
      fresh := fresh (heap (alloc_at t tid sz))\<rparr>"
    by (simp add: t'_def new_object_def set_object_alloc_at)
  show vo: "value_ok C t' x" if "value_ok C t x" for x using that n(4) by (simp add: value_ok_def)
  show "value_ok C t' (MAKE_HEAP_PTR (new_addr t))" "PTR (MAKE_HEAP_PTR (new_addr t)) = new_addr t"
    using n(5,6) by (simp_all add: value_ok_def)
  show "HTYPE (mem_of t') (new_addr t) = Some ((zero_block tid sz)\<lparr>payload := pl\<rparr>)"
    unfolding t'_def by (rule new_object_HTYPE)
  show "HTYPE (mem_of t') p = Some b" if "HTYPE (mem_of t) p = Some b" for p b
    using that n(7) by (simp add: HTYPE_def split: if_splits)
  show ht: "valid_addr (heap t') p \<and> hdr_type (heap t') p = hdr_type (heap t) p" if "valid_addr (heap t) p" for p
    using n(3) [OF that] .
  have rm: "remote (heap t) (heap t')"
    using n(7) by (auto simp: remote_def h' old_start_def old_extent_def)
  have old: "heap_hdr (heap t) a \<and> store (heap t) a = Some b \<or> a = ?a \<and> payload b = pl"
    if "heap_hdr (heap t') a" "store (heap t') a = Some b" for a b
    using that n(8) [of a] by (auto simp: h' split: if_splits)
  have "refers_all C (heap t')"
    using ok lk old unfolding refers_all_def thread_ok_def heap_ok_def links_ok_def value_ok_def by metis
  moreover have "homes_ok (heap t')"
    using ok hm old unfolding homes_ok_def thread_ok_def heap_ok_def by (metis BHDR_SIZE_def)
  moreover have "links_typed (heap t')"
    unfolding links_typed_def
  proof (intro allI impI)
    fix a b
    assume a: "heap_hdr (heap t') a" "store (heap t') a = Some b"
    show "(\<forall>q\<in>set (env_links (payload b)). q \<noteq> 0 \<longrightarrow> hdr_type (heap t') q = Some t_env) \<and> has_env (payload b)"
    proof (cases "a = ?a \<and> payload b = pl")
      case True
      then show ?thesis using lk he ht by (auto simp: links_ok_def)
    next
      case False
      then have o: "heap_hdr (heap t) a" "store (heap t) a = Some b" using old [OF a] by auto
      then have "block_ok (heap t) b" "\<not> forward (hdr b)"
        using wf by (auto simp: thread_wf_def heap_wf_def graph_ok_def settled_def)
      then have "\<forall>q\<in>set (env_links (payload b)). q = 0 \<or> valid_addr (heap t) q"
        by (simp add: block_ok_def links_ok_def)
      then show ?thesis using ok o ht by (auto simp: thread_ok_def heap_ok_def links_typed_def)
    qed
  qed
  moreover have "consts_ok C (heap t')"
    using ok remote_consts [OF rm] by (simp add: thread_ok_def heap_ok_def)
  ultimately have "heap_ok C (heap t')" by (simp add: heap_ok_def)
  moreover have "env_ok t'"
  proof -
    have "th_env t \<noteq> 0 \<longrightarrow> valid_addr (heap t) (th_env t)"
      using wf by (auto simp: thread_wf_def valid_root_def dest: spec [of _ R_Env])
    then show ?thesis using ok ht by (auto simp: thread_ok_def env_ok_def t'_def)
  qed
  ultimately show "thread_ok C t'"
    using n(1) ok same_roots by (simp add: thread_ok_def t'_def)
qed

end
