(* ===== verification/Vm_Sound.thy ===== *)
theory Vm_Sound
  imports Thread_Sound Interp
begin

text \<open>
  The operations of the interpreter on a thread that satisfies the invariant: they return a thread that
  satisfies it, or stop with one of the code's own fatal errors, and never access memory they must not.
\<close>

section \<open>Defined outcomes\<close>

text \<open>\<open>defined P m\<close>: the operation returns with \<open>P\<close>, or aborts with a message.\<close>

definition defined :: "('a \<Rightarrow> bool) \<Rightarrow> 'a outcome \<Rightarrow> bool" where
  "defined P m = (case m of Inr y \<Rightarrow> P y | Inl e \<Rightarrow> \<exists>msg. e = Fatal msg)"

lemma defined_simps [simp]:
  "defined P (Inr y) = P y"
  "defined P (Inl e) \<longleftrightarrow> (\<exists>msg. e = Fatal msg)"
  by (simp_all add: defined_def)

lemma defined_bind: "defined P m \<Longrightarrow> (\<And>y. P y \<Longrightarrow> defined Q (f y)) \<Longrightarrow> defined Q (bindE m f)"
  by (cases m) auto

lemma defined_mono: "defined P m \<Longrightarrow> (\<And>y. P y \<Longrightarrow> Q y) \<Longrightarrow> defined Q m"
  by (cases m) auto

lemma safe_defined: "safe P m \<Longrightarrow> defined P m"
  by (cases m) auto

section \<open>Changes that leave the heap alone\<close>

lemma thread_ok_roots:
  assumes ok: "thread_ok C t" and h: "heap t' = heap t"
    and r: "\<And>r. root_ok (value_ok C t) (valid_addr (heap t)) r t'"
    and e: "th_env t' \<noteq> 0 \<longrightarrow> hdr_type (heap t) (th_env t') = Some t_env"
    and l: "heap_env t' \<noteq> 0 \<longrightarrow> th_env t' \<noteq> 0"
    and s: "length (opstack t') = op_stack_size t'" "op_stack_idx t' < op_stack_size t'"
  shows "thread_ok C t'"
proof -
  have "valid_root r t'" for r
    using r [of r] unfolding valid_root_def h by (rule root_ok_mono) (auto simp: value_ok_def)
  moreover have "\<forall>x \<in> set (root_objs r t'). refers C x" for r
    using r [of r] by (auto simp: root_ok_parts value_ok_def)
  moreover have "env_root_ok t'" using e l h by (auto simp: env_root_ok_def)
  ultimately show ?thesis
    using ok h e l s by (simp add: thread_ok_def thread_wf_def env_ok_def)
qed

lemma thread_okE:
  assumes "thread_ok C t"
  shows "root_ok (value_ok C t) (valid_addr (heap t)) r t" "length (opstack t) = op_stack_size t"
    "op_stack_idx t < op_stack_size t" "th_env t \<noteq> 0 \<longrightarrow> hdr_type (heap t) (th_env t) = Some t_env"
    "heap_env t \<noteq> 0 \<longrightarrow> th_env t \<noteq> 0"
    "thread_wf t" "heap_ok C (heap t)" "heap_wf (heap t)" "settled (heap t)"
  using assms
  by (auto simp: thread_ok_def thread_wf_def valid_root_def root_ok_parts value_ok_def env_ok_def env_root_ok_def)

text \<open>The operand stack.\<close>

lemma stack_values:
  assumes "thread_ok C t" and "i < op_stack_idx t"
  shows "value_ok C t (opstack t ! i)" and "i < length (opstack t)"
proof -
  have i: "op_stack_idx t < length (opstack t)" using thread_okE(2,3) [OF assms(1)] by simp
  then have "opstack t ! i \<in> set (take (op_stack_idx t) (opstack t))"
    using assms(2) by (auto simp: in_set_conv_nth intro!: exI [of _ i])
  then show "value_ok C t (opstack t ! i)"
    using thread_okE(1) [OF assms(1), of R_Stack] by simp
  show "i < length (opstack t)" using i assms(2) by simp
qed

lemma set_stack_ok:
  assumes ok: "thread_ok C t" and st: "length st = op_stack_size t" "i < op_stack_size t"
    and v: "\<forall>x \<in> set (take i st). value_ok C t x"
  shows "thread_ok C (t\<lparr>opstack := st, op_stack_idx := i\<rparr>)"
proof (rule thread_ok_roots [OF ok])
  fix r
  show "root_ok (value_ok C t) (valid_addr (heap t)) r (t\<lparr>opstack := st, op_stack_idx := i\<rparr>)"
    using thread_okE(1) [OF ok, of r] v by (cases r) auto
qed (use thread_okE [OF ok] st in auto)

lemma value_ok_heap: "heap t' = heap t \<Longrightarrow> value_ok C t' = value_ok C t"
  by (simp add: value_ok_def fun_eq_iff)

lemma value_ok_update [simp]:
  "value_ok C (t\<lparr>opstack := st\<rparr>) = value_ok C t" "value_ok C (t\<lparr>op_stack_idx := i\<rparr>) = value_ok C t"
  "value_ok C (t\<lparr>local_roots := ls\<rparr>) = value_ok C t"
  by (rule value_ok_heap, simp)+

text \<open>What changes is the operand stack.\<close>

definition only_stack :: "vm_thread \<Rightarrow> vm_thread \<Rightarrow> bool" where
  "only_stack t t' \<longleftrightarrow> (\<exists>st i. t' = t\<lparr>opstack := st, op_stack_idx := i\<rparr>)"

lemma push_ok:
  assumes ok: "thread_ok C t" and v: "value_ok C t x"
  shows "defined (\<lambda>t'. thread_ok C t' \<and> t' = t\<lparr>opstack := (opstack t)[op_stack_idx t := x], op_stack_idx := Suc (op_stack_idx t)\<rparr>
    \<and> Suc (op_stack_idx t) < op_stack_size t) (STACK_PUSH t x)"
proof (cases "op_stack_idx t = op_stack_size t - 1")
  case False
  note e = thread_okE [OF ok]
  have n: "Suc (op_stack_idx t) < op_stack_size t" using False e(3) by simp
  have "\<forall>y \<in> set (take (Suc (op_stack_idx t)) ((opstack t)[op_stack_idx t := x])). value_ok C t y"
    using v e(1) [of R_Stack] e(2,3) by (simp add: take_Suc_conv_app_nth)
  from set_stack_ok [OF ok _ n this] e(2) n False show ?thesis by (simp add: STACK_PUSH_def)
qed (simp add: STACK_PUSH_def)

lemma pop_ok:
  assumes ok: "thread_ok C t"
  shows "defined (\<lambda>(t', x). thread_ok C t' \<and> value_ok C t x \<and> t' = t\<lparr>op_stack_idx := op_stack_idx t - 1\<rparr>
    \<and> 0 < op_stack_idx t \<and> x = opstack t ! (op_stack_idx t - 1)) (STACK_POP t)"
proof (cases "op_stack_idx t = 0")
  case False
  note e = thread_okE [OF ok]
  have "set (take (op_stack_idx t - 1) (opstack t)) \<subseteq> set (take (op_stack_idx t) (opstack t))"
    by (rule set_take_subset_set_take) simp
  then have "\<forall>y \<in> set (take (op_stack_idx t - 1) (opstack t)). value_ok C t y" using e(1) [of R_Stack] by auto
  from set_stack_ok [OF ok e(2) _ this] e(3) stack_values(1) [OF ok, of "op_stack_idx t - 1"] False
  show ?thesis by (simp add: STACK_POP_def)
qed (simp add: STACK_POP_def)

lemma write_stack_ok:
  assumes ok: "thread_ok C t" and v: "value_ok C t x" and i: "i < op_stack_size t"
  shows "defined (\<lambda>t'. thread_ok C t' \<and> t' = t\<lparr>opstack := (opstack t)[i := x]\<rparr>) (write_stack t i x)"
proof -
  note e = thread_okE [OF ok]
  have "\<forall>y \<in> set (take (op_stack_idx t) ((opstack t)[i := x])). value_ok C t y"
  proof
    fix y assume "y \<in> set (take (op_stack_idx t) ((opstack t)[i := x]))"
    then have "y \<in> set ((take (op_stack_idx t) (opstack t))[i := x])" by (simp add: take_update_swap)
    then have "y \<in> insert x (set (take (op_stack_idx t) (opstack t)))" by (rule set_update_subset_insert [THEN subsetD])
    then show "value_ok C t y" using v e(1) [of R_Stack] by auto
  qed
  from set_stack_ok [OF ok _ e(3) this] e(2) i show ?thesis by (simp add: write_stack_def)
qed

section \<open>Protected locals\<close>

lemma locals_ok:
  assumes ok: "thread_ok C t" and v: "\<forall>xs. ls = Some xs \<longrightarrow> (\<forall>x \<in> set xs. value_ok C t x)"
  shows "thread_ok C (t\<lparr>local_roots := ls\<rparr>)"
proof (rule thread_ok_roots [OF ok])
  fix r
  show "root_ok (value_ok C t) (valid_addr (heap t)) r (t\<lparr>local_roots := ls\<rparr>)"
    using thread_okE(1) [OF ok, of r] v by (cases r) auto
qed (use thread_okE [OF ok] in auto)

lemma value_ok_consts [simp]:
  "value_ok C t cnull" "value_ok C t cvoid" "value_ok C t (CIF b)" "value_ok C t (MAKE_FIXNUM v)"
  "value_ok C t (MAKE_CHAR v)" "value_ok C t (MAKE_FUNC p)" "value_ok C t ceof"
  by (simp_all add: value_ok_def) (simp_all add: refers_def is_tag_defs CIF_def tag_defs)

lemma define_locals_ok: "thread_ok C t \<Longrightarrow> thread_ok C (define_locals n t)"
  unfolding define_locals_def by (rule locals_ok) auto

lemma clear_locals_ok: "thread_ok C t \<Longrightarrow> thread_ok C (clear_locals t)"
  unfolding clear_locals_def by (rule locals_ok) auto

lemma set_local_ok: "thread_ok C t \<Longrightarrow> value_ok C t x \<Longrightarrow> thread_ok C (set_local i x t)"
  unfolding set_local_def
  using thread_okE(1) [of C t R_Locals] by (intro locals_ok) (auto dest: set_update_subset_insert [THEN subsetD])

lemma locals_home_roots [simp]:
  "locals_home (define_locals n t) = locals_home t" "locals_home (clear_locals t) = locals_home t"
  "locals_home (set_local i x t) = locals_home t" "th_func (clear_locals t) = th_func t"
  by (simp_all add: define_locals_def clear_locals_def set_local_def)

section \<open>What values point to\<close>

lemma value_block:
  assumes ok: "thread_ok C t" and v: "value_ok C t x" and p: "IS_HEAP_PTR x \<or> IS_CONST_PTR x"
  obtains b where "HTYPE (mem_of t) (PTR x) = Some b" "\<not> forward (hdr b)"
    "type_id (hdr b) = t_symbol \<or> typed (type_id (hdr b)) (payload b)"
    "\<forall>y \<in> set (obj_slots (payload b)). value_ok C t y" "homed (PTR x) (payload b)"
    "\<forall>q \<in> set (env_links (payload b)). q = 0 \<or> valid_addr (heap t) q"
    "has_env (payload b)"
proof -
  note e = thread_okE [OF ok]
  from e(7) have ho: "consts_ok C (heap t)" "refers_all C (heap t)" "homes_ok (heap t)" "links_typed (heap t)"
    by (auto simp: heap_ok_def)
  show ?thesis
  proof (cases "IS_HEAP_PTR x")
    case True
    then have va: "8 \<le> PTR x" "heap_hdr (heap t) (PTR x - 8)"
      using v by (auto simp: value_ok_def valid_obj_def valid_addr_def)
    then obtain b where b: "store (heap t) (PTR x - 8) = Some b" by (auto simp: heap_hdr_def)
    have nf: "\<not> forward (hdr b)" using e(9) va b by (simp add: settled_def)
    then have bo: "typed (type_id (hdr b)) (payload b)" "links_ok (valid_obj (heap t)) (valid_addr (heap t)) (payload b)"
      using e(8) va b by (auto simp: heap_wf_def graph_ok_def block_ok_def)
    have "\<forall>y \<in> set (obj_slots (payload b)). value_ok C t y"
      using bo(2) ho(2) va b by (auto simp: value_ok_def refers_all_def links_ok_def)
    moreover have "homed (PTR x) (payload b)" using ho(3) va b by (auto simp: homes_ok_def BHDR_SIZE_def)
    moreover have "HTYPE (mem_of t) (PTR x) = Some b" using va b by (simp add: HTYPE_def BHDR_SIZE_def)
    moreover have "has_env (payload b)" using ho(4) va b by (simp add: links_typed_def)
    ultimately show ?thesis using that nf bo by (auto simp: links_ok_def)
  next
    case False
    then have "PTR x \<in> C" using p v by (simp add: value_ok_def refers_def)
    then obtain b where b: "8 \<le> PTR x" "store (heap t) (PTR x - 8) = Some b" "const_block C (PTR x) b"
      using ho(1) by (auto simp: consts_ok_def)
    moreover have "has_env (payload b)" using b(3) by (cases "payload b") (auto simp: const_block_def)
    ultimately show ?thesis
      using that by (auto simp: const_block_def HTYPE_def BHDR_SIZE_def value_ok_def valid_obj_def)
  qed
qed

lemma IS_TYPE_ok:
  assumes "thread_ok C t" and "value_ok C t x"
  shows "\<exists>q. IS_TYPE (mem_of t) x tid = Inr q"
proof (cases "IS_HEAP_PTR x \<or> IS_CONST_PTR x")
  case True
  from value_block [OF assms this] obtain b where "HTYPE (mem_of t) (PTR x) = Some b" by metis
  then show ?thesis using True by (simp add: IS_TYPE_def)
qed (auto simp: IS_TYPE_def)

text \<open>A value that tests as a pair, a string, and so on, has the fields of one.\<close>

lemma IS_TYPE_typed:
  assumes ok: "thread_ok C t" and v: "value_ok C t x" and ty: "IS_TYPE (mem_of t) x tid = Inr True" "tid \<noteq> t_symbol"
  obtains b where "HTYPE (mem_of t) (PTR x) = Some b" "typed tid (payload b)" "type_id (hdr b) = tid"
    "\<forall>y \<in> set (obj_slots (payload b)). value_ok C t y" "homed (PTR x) (payload b)"
    "\<forall>q \<in> set (env_links (payload b)). q = 0 \<or> valid_addr (heap t) q" "has_env (payload b)"
proof -
  have p: "IS_HEAP_PTR x \<or> IS_CONST_PTR x" using ty(1) by (auto simp: IS_TYPE_def split: if_splits)
  from value_block [OF ok v p] obtain b where b: "HTYPE (mem_of t) (PTR x) = Some b"
    "type_id (hdr b) = t_symbol \<or> typed (type_id (hdr b)) (payload b)"
    "\<forall>y \<in> set (obj_slots (payload b)). value_ok C t y" "homed (PTR x) (payload b)"
    "\<forall>q \<in> set (env_links (payload b)). q = 0 \<or> valid_addr (heap t) q" "has_env (payload b)"
    by metis
  moreover have "type_id (hdr b) = tid" using ty b(1) p by (simp add: IS_TYPE_def)
  ultimately show ?thesis using that ty(2) by auto
qed

lemma pair_ok:
  assumes "thread_ok C t" and "value_ok C t x" and "IS_PAIR (mem_of t) x = Inr True"
  obtains q l n where "pair_at (mem_of t) x = Inr q" "value_ok C t (car q)" "value_ok C t (cdr q)"
    "pair_list q = Some l" "pair_length q = Some n"
proof -
  have ne: "t_pair \<noteq> t_symbol" by (simp add: type_id_defs)
  from IS_TYPE_typed [OF assms(1,2) assms(3) [unfolded IS_PAIR_def] ne] obtain b where
    b: "HTYPE (mem_of t) (PTR x) = Some b" "typed t_pair (payload b)"
    "\<forall>y \<in> set (obj_slots (payload b)). value_ok C t y"
    by metis
  then obtain q where "payload b = P_Pair q" "pair_list q \<noteq> None" "pair_length q \<noteq> None" by (auto simp: typed_iff)
  with b that show ?thesis by (auto simp: pair_at_def)
qed

lemma IS_FUNC_ok:
  assumes "thread_ok C t" and "value_ok C t x" shows "\<exists>q. IS_FUNC (mem_of t) x = Inr q"
  using IS_TYPE_ok [OF assms, of t_closure] IS_TYPE_ok [OF assms, of t_cont]
  by (auto simp: IS_FUNC_def)

lemma IS_LIST_ok:
  assumes "thread_ok C t" and "value_ok C t x" shows "\<exists>q. IS_LIST (mem_of t) x = Inr q"
proof -
  from IS_TYPE_ok [OF assms, of t_pair] obtain p where p: "IS_PAIR (mem_of t) x = Inr p" by (auto simp: IS_PAIR_def)
  show ?thesis
  proof (cases p)
    case True
    with pair_ok [OF assms] p obtain q l where "pair_at (mem_of t) x = Inr q" "pair_list q = Some l" by metis
    with p True show ?thesis by (simp add: IS_LIST_def)
  qed (use p in \<open>simp add: IS_LIST_def\<close>)
qed

lemma type_test_ok:
  assumes "thread_ok C t" and "value_ok C t x" shows "defined (\<lambda>_. True) (type_test (mem_of t) n x)"
proof -
  have "defined (\<lambda>_. True) m" if "\<exists>q. m = Inr q" for m :: "bool outcome" using that by auto
  then show ?thesis
    using IS_TYPE_ok [OF assms] IS_FUNC_ok [OF assms] IS_LIST_ok [OF assms]
    by (auto simp: type_test_def IS_PAIR_def IS_SYMBOL_def IS_STRUCT_def IS_STRING_def IS_BYTEVECTOR_def)
qed

section \<open>Constructors on the heap\<close>

text \<open>The thread that the new object goes into: the given one, or the one after a collection.\<close>

definition source :: "vm_thread \<Rightarrow> nat \<Rightarrow> vm_thread \<Rightarrow> bool" where
  "source t n t0 \<longleftrightarrow> (if round8 n + 8 \<le> free_mem (fresh (heap t)) then t0 = t else heap_gc t = Inr t0)"

definition grown :: "addr set \<Rightarrow> vm_thread \<Rightarrow> vm_thread \<Rightarrow> bool" where
  "grown C t t' \<longleftrightarrow> thread_ok C t' \<and> same_shape t t' \<and> (th_env t' = 0 \<longleftrightarrow> th_env t = 0)
     \<and> (locals_home t \<longrightarrow> locals_home t')"

lemma grown_trans: "grown C t t' \<Longrightarrow> grown C t' t'' \<Longrightarrow> grown C t t''"
  by (auto simp: grown_def intro: same_shape_trans)

lemma alloc_then:
  assumes ok: "thread_ok C t" and nf: "\<not> full_gc (heap t)" and n: "8 \<le> n" "n < 2 ^ 31"
    and k: "\<And>t0. \<lbrakk>grown C t t0; round8 n + 8 \<le> free_mem (fresh (heap t0)); source t n t0\<rbrakk> \<Longrightarrow>
      defined Q (f (alloc_at t0 tid (round8 n), new_addr t0))"
  shows "defined Q (bindE (heap_alloc t (of_nat n) tid) f)"
proof (rule defined_bind [OF safe_defined [OF heap_alloc_safe [OF _ nf n(2)]]])
  show "thread_wf t" by (rule thread_okE [OF ok])
  fix r
  assume "\<exists>t0. allotted t n tid r t0"
  then obtain t0 where a: "allotted t n tid r t0" by blast
  then have s: "source t n t0" by (simp add: allotted_def source_def)
  then have "grown C t t0"
    using collect_ok [OF ok nf] ok by (auto simp: source_def grown_def split: if_splits)
  with a s k [of t0] show "defined Q (f r)" by (simp add: allotted_def)
qed

lemma ucast_of_nat_32 [simp]: "(ucast (of_nat n :: u64) :: 32 word) = of_nat n"
  by (rule bit_word_eqI) (auto simp: bit_simps)

lemma heap_allocator_simps [simp]:
  "allocator_alloc heap_allocator t (of_nat n) tid = heap_alloc t (of_nat n) tid"
  "al_mem heap_allocator = (\<lambda>t. store (heap t))" "al_set heap_allocator = set_store" "al_id heap_allocator = TAG_PTR"
  by (simp_all add: allocator_alloc_def heap_allocator_def heap_allocator_alloc_def)

lemma finish_object:
  "set_store ((mem_of (alloc_at t tid sz))(sp_pos (fresh (heap t)) \<mapsto> (zero_block tid sz)\<lparr>payload := pl\<rparr>)) (alloc_at t tid sz)
     = new_object t tid sz pl"
  by (simp add: new_object_def set_object_alloc_at) (simp add: set_store_def alloc_at_def Let_def)

text \<open>A pointer to a value that survives the allocation: a stack cell, a protected local.\<close>

definition reads_value :: "addr set \<Rightarrow> vm_thread \<Rightarrow> (vm_thread \<Rightarrow> obj outcome) \<Rightarrow> bool" where
  "reads_value C t rd \<longleftrightarrow> (\<forall>t0. thread_ok C t0 \<longrightarrow> same_shape t t0 \<longrightarrow>
     (\<exists>x. value_ok C t0 x \<and> rd t0 = Inr x \<and> (\<forall>tid sz. rd (alloc_at t0 tid sz) = Inr x)))"

lemma reads_value_stack: "i < op_stack_idx t \<Longrightarrow> reads_value C t (stack_at i)"
  using stack_values by (fastforce simp: reads_value_def same_shape_def stack_at_def)

lemma reads_value_local:
  assumes "local_roots t = Some ls" "i < length ls" shows "reads_value C t (get_local i)"
  unfolding reads_value_def
proof (intro allI impI)
  fix t0 assume t0: "thread_ok C t0" "same_shape t t0"
  then obtain ls0 where l: "local_roots t0 = Some ls0" "length ls0 = length ls" using assms by (auto simp: same_shape_def)
  then have "value_ok C t0 (ls0 ! i)" using thread_okE(1) [OF t0(1), of R_Locals] assms(2) by simp
  with l assms(2) show "\<exists>x. value_ok C t0 x \<and> get_local i t0 = Inr x \<and> (\<forall>tid sz. get_local i (alloc_at t0 tid sz) = Inr x)"
    by (simp add: get_local_def)
qed

text \<open>The block being made does not disturb the blocks that are there.\<close>

lemma alloc_at_keeps:
  assumes ok: "thread_ok C t" and fits: "sz + 8 \<le> free_mem (fresh (heap t))" "8 dvd sz"
    and "HTYPE (mem_of t) p = Some b"
  shows "HTYPE (mem_of (alloc_at t tid sz)) p = Some b"
proof -
  have "space_ok (store (heap t)) (fresh (heap t))" using fresh_facts(1) thread_okE(6) [OF ok] .
  from space_ok_append(3) [OF this, of "zero_block tid sz"] fits
  have "store (heap t) (sp_pos (fresh (heap t))) = None" by simp
  then show ?thesis using assms(4) by (auto simp: HTYPE_def alloc_at_def Let_def split: if_splits)
qed

lemma cons_flags_ok:
  assumes ok: "thread_ok C t" and fits: "sz + 8 \<le> free_mem (fresh (heap t))" "8 dvd sz" and v: "value_ok C t d"
  shows "\<exists>l n. cons_flags (mem_of (alloc_at t tid sz)) (Some False, Some 0) d = Inr (Some l, Some n)
    \<and> cons_flags (mem_of t) (Some False, Some 0) d = Inr (Some l, Some n)"
proof -
  let ?m = "mem_of (alloc_at t tid sz)"
  note k = alloc_at_keeps [OF ok fits, of _ _ tid]
  from IS_TYPE_ok [OF ok v, of t_pair] obtain p where p: "IS_PAIR (mem_of t) d = Inr p" by (auto simp: IS_PAIR_def)
  have p': "IS_PAIR ?m d = Inr p"
    using p k [of "PTR d"] by (auto simp: IS_PAIR_def IS_TYPE_def bindE_Inr_iff split: if_splits)
  show ?thesis
  proof (cases "IS_NULL d")
    case False
    show ?thesis
    proof (cases p)
      case True
      with pair_ok [OF ok v] p obtain q l n where q: "pair_at (mem_of t) d = Inr q" "pair_list q = Some l"
          "pair_length q = Some n"
        by metis
      have "pair_at ?m d = Inr q" using q(1) k [of "PTR d"] by (auto simp: pair_at_def bindE_Inr_iff)
      then show ?thesis using False True p p' q by (cases l) (auto simp: cons_flags_def)
    qed (use False p p' in \<open>auto simp: cons_flags_def\<close>)
  qed (auto simp: cons_flags_def intro: exI [of _ True])
qed

lemma round8_24 [simp]: "round8 24 = 24" "round8 16 = 16" "round8 8 = 8" by (simp_all add: round8_def)

text \<open>What \<^verbatim>\<open>_cons\<close> does after the allocation.\<close>

definition fill_pair ::
  "(vm_thread \<Rightarrow> obj outcome) \<Rightarrow> (vm_thread \<Rightarrow> obj outcome) \<Rightarrow> vm_thread \<times> addr \<Rightarrow> (vm_thread \<times> obj) outcome" where
  "fill_pair a d = (\<lambda>(s1, p). bindE (deref (HTYPE (mem_of s1) p) ''new pair'') (\<lambda>b. bindE (a s1) (\<lambda>aa. bindE (d s1) (\<lambda>da.
     bindE (cons_flags (mem_of s1) (initial_flags (payload b)) da) (\<lambda>(l, n).
       Inr (set_store ((mem_of s1)(p - BHDR_SIZE \<mapsto> b\<lparr>payload := P_Pair \<lparr>car = aa, cdr = da, pair_list = l, pair_length = n\<rparr>\<rparr>)) s1,
            MAKE_TAGGED_PTR p TAG_PTR))))))"

lemma cons_fill: "cons heap_allocator t a d = bindE (heap_alloc t (of_nat sizeof_pair) t_pair) (fill_pair a d)"
  by (simp add: cons_def fill_pair_def)

definition new_pair :: "vm_thread \<Rightarrow> obj \<Rightarrow> obj \<Rightarrow> bool \<Rightarrow> 31 word \<Rightarrow> vm_thread" where
  "new_pair t xa xd l n = new_object t t_pair 24 (P_Pair \<lparr>car = xa, cdr = xd, pair_list = Some l, pair_length = Some n\<rparr>)"

lemma pair_built:
  assumes ok: "thread_ok C t" and fits: "32 \<le> free_mem (fresh (heap t))"
    and v: "value_ok C t xa" "value_ok C t xd"
    and rd: "a (alloc_at t t_pair 24) = Inr xa" "d (alloc_at t t_pair 24) = Inr xd"
  obtains l n where "fill_pair a d (alloc_at t t_pair 24, new_addr t) = Inr (new_pair t xa xd l n, MAKE_HEAP_PTR (new_addr t))"
    "cons_flags (mem_of t) (Some False, Some 0) xd = Inr (Some l, Some n)"
    "thread_ok C (new_pair t xa xd l n)" "value_ok C (new_pair t xa xd l n) (MAKE_HEAP_PTR (new_addr t))"
    "\<And>x. value_ok C t x \<Longrightarrow> value_ok C (new_pair t xa xd l n) x"
proof -
  have fits': "24 + 8 \<le> free_mem (fresh (heap t))" using fits by simp
  from cons_flags_ok [OF ok fits' _ v(2), of t_pair] obtain l n where
    fl: "cons_flags (mem_of (alloc_at t t_pair 24)) (Some False, Some 0) xd = Inr (Some l, Some n)"
      "cons_flags (mem_of t) (Some False, Some 0) xd = Inr (Some l, Some n)"
    by auto
  let ?pl = "P_Pair \<lparr>car = xa, cdr = xd, pair_list = Some l, pair_length = Some n\<rparr>"
  have "typed t_pair ?pl" by simp
  moreover have "links_ok (value_ok C t) (\<lambda>q. valid_addr (heap t) q \<and> hdr_type (heap t) q = Some t_env) ?pl"
    using v by (simp add: links_ok_def)
  ultimately have nw: "thread_ok C (new_pair t xa xd l n)" "value_ok C (new_pair t xa xd l n) (MAKE_HEAP_PTR (new_addr t))"
      "\<And>x. value_ok C t x \<Longrightarrow> value_ok C (new_pair t xa xd l n) x"
    using new_object_ok(1-3) [OF ok fits', of t_pair ?pl] by (simp_all add: new_pair_def)
  have "fill_pair a d (alloc_at t t_pair 24, new_addr t) = Inr (new_pair t xa xd l n, MAKE_HEAP_PTR (new_addr t))"
    using rd fl by (simp add: fill_pair_def alloc_at_HTYPE finish_object BHDR_SIZE_def MAKE_HEAP_PTR_def new_pair_def)
  with that nw fl(2) show ?thesis by blast
qed

lemma new_pair_simps [simp]:
  "op_stack_idx (new_pair t x y l n) = op_stack_idx t" "opstack (new_pair t x y l n) = opstack t"
  "op_stack_size (new_pair t x y l n) = op_stack_size t" "th_env (new_pair t x y l n) = th_env t"
  "local_roots (new_pair t x y l n) = local_roots t" "heap_env (new_pair t x y l n) = heap_env t"
  "th_func (new_pair t x y l n) = th_func t" "th_bindmap (new_pair t x y l n) = th_bindmap t"
  "full_gc (heap (new_pair t x y l n)) = full_gc (heap t)" "locals_home (new_pair t x y l n) = locals_home t"
  "same_shape t0 (new_pair t x y l n) = same_shape t0 t"
  by (simp_all add: new_pair_def)

definition consed :: "addr set \<Rightarrow> vm_thread \<Rightarrow> (vm_thread \<Rightarrow> obj outcome) \<Rightarrow> (vm_thread \<Rightarrow> obj outcome) \<Rightarrow> vm_thread \<times> obj \<Rightarrow> bool" where
  "consed C t a d r \<longleftrightarrow> (\<exists>t0 xa xd l n. grown C t t0 \<and> source t sizeof_pair t0 \<and> a t0 = Inr xa \<and> d t0 = Inr xd
     \<and> value_ok C t0 xa \<and> value_ok C t0 xd \<and> 32 \<le> free_mem (fresh (heap t0))
     \<and> cons_flags (mem_of t0) (Some False, Some 0) xd = Inr (Some l, Some n)
     \<and> r = (new_pair t0 xa xd l n, MAKE_HEAP_PTR (new_addr t0))
     \<and> grown C t (fst r) \<and> value_ok C (fst r) (snd r))"

lemma cons_ok:
  assumes ok: "thread_ok C t" and nf: "\<not> full_gc (heap t)" and a: "reads_value C t a" and d: "reads_value C t d"
  shows "defined (consed C t a d) (cons heap_allocator t a d)"
  unfolding cons_fill sizeof_pair_def
proof (rule alloc_then [OF ok nf], simp, simp, unfold round8_24)
  fix t0
  assume t0: "grown C t t0" "24 + 8 \<le> free_mem (fresh (heap t0))" "source t 24 t0"
  then have ok0: "thread_ok C t0" and sh: "same_shape t t0" by (auto simp: grown_def)
  from a ok0 sh obtain xa where xa: "value_ok C t0 xa" "a t0 = Inr xa" "\<And>tid sz. a (alloc_at t0 tid sz) = Inr xa"
    unfolding reads_value_def by blast
  from d ok0 sh obtain xd where xd: "value_ok C t0 xd" "d t0 = Inr xd" "\<And>tid sz. d (alloc_at t0 tid sz) = Inr xd"
    unfolding reads_value_def by blast
  have "32 \<le> free_mem (fresh (heap t0))" using t0(2) by simp
  from pair_built [where a = a and d = d, OF ok0 this xa(1) xd(1) xa(3) [of t_pair 24] xd(3) [of t_pair 24]] obtain l n where
    f: "fill_pair a d (alloc_at t0 t_pair 24, new_addr t0) = Inr (new_pair t0 xa xd l n, MAKE_HEAP_PTR (new_addr t0))"
      "cons_flags (mem_of t0) (Some False, Some 0) xd = Inr (Some l, Some n)"
      "thread_ok C (new_pair t0 xa xd l n)" "value_ok C (new_pair t0 xa xd l n) (MAKE_HEAP_PTR (new_addr t0))"
    by metis
  have "grown C t (new_pair t0 xa xd l n)" using f(3) t0(1) by (simp add: grown_def)
  with t0 xa xd f have "consed C t a d (new_pair t0 xa xd l n, MAKE_HEAP_PTR (new_addr t0))"
    unfolding consed_def sizeof_pair_def by auto
  then show "defined (consed C t a d) (fill_pair a d (alloc_at t0 t_pair 24, new_addr t0))" using f(1) by simp
qed

text \<open>
  The other constructors: an object of type \<open>tid\<close> with a payload that depends on the thread after the
  allocation.
\<close>

definition made :: "addr set \<Rightarrow> vm_thread \<Rightarrow> nat \<Rightarrow> u16 \<Rightarrow> (vm_thread \<Rightarrow> payload) \<Rightarrow> vm_thread \<times> addr \<Rightarrow> bool" where
  "made C t n tid pl r \<longleftrightarrow> (\<exists>t0. grown C t t0 \<and> source t n t0 \<and> round8 n + 8 \<le> free_mem (fresh (heap t0))
     \<and> r = (new_object t0 tid (round8 n) (pl t0), new_addr t0)
     \<and> grown C t (fst r) \<and> value_ok C (fst r) (MAKE_HEAP_PTR (snd r)) \<and> PTR (MAKE_HEAP_PTR (snd r)) = snd r
     \<and> valid_addr (heap (fst r)) (snd r) \<and> hdr_type (heap (fst r)) (snd r) = Some tid
     \<and> HTYPE (mem_of (fst r)) (snd r) = Some ((zero_block tid (round8 n))\<lparr>payload := pl t0\<rparr>))"

lemma made_I:
  assumes t0: "grown C t t0" "source t n t0" "round8 n + 8 \<le> free_mem (fresh (heap t0))" and n: "8 \<le> n"
    and ty: "typed tid (pl t0)"
    and lk: "links_ok (value_ok C t0) (\<lambda>q. valid_addr (heap t0) q \<and> hdr_type (heap t0) q = Some t_env) (pl t0)"
    and hm: "homed (new_addr t0) (pl t0)" and he: "has_env (pl t0)"
  shows "made C t n tid pl (new_object t0 tid (round8 n) (pl t0), new_addr t0)"
proof -
  have ok0: "thread_ok C t0" using t0(1) by (simp add: grown_def)
  have "8 \<le> round8 n" using n round8_simps(2) [of n] by linarith
  note w = new_object_ok [OF ok0 t0(3) round8_simps(1) this ty lk hm he]
  have "grown C t (new_object t0 tid (round8 n) (pl t0))" using w(1) t0(1) by (simp add: grown_def)
  moreover have "IS_HEAP_PTR (MAKE_HEAP_PTR (new_addr t0))" by simp
  then have "valid_addr (heap (new_object t0 tid (round8 n) (pl t0))) (new_addr t0)"
    using w(3,4) by (simp add: value_ok_def valid_obj_def)
  moreover have "hdr_type (heap (new_object t0 tid (round8 n) (pl t0))) (new_addr t0) = Some tid"
    using w(5) by (simp add: hdr_type_def HTYPE_def BHDR_SIZE_def)
  ultimately show ?thesis using t0 w(3-5) by (auto simp: made_def)
qed

lemma env_fields:
  assumes ok: "thread_ok C t" and n: "th_env t \<noteq> 0"
  shows "valid_addr (heap t) (th_env t)" "hdr_type (heap t) (th_env t) = Some t_env"
  using thread_okE(1) [OF ok, of R_Env] thread_okE(4) [OF ok] n by auto

lemma closure_new_ok:
  assumes ok: "thread_ok C t" and nf: "\<not> full_gc (heap t)" and e: "th_env t \<noteq> 0" and b: "bmc < 2 ^ 27"
  shows "defined (\<lambda>(t', x). \<exists>p. x = MAKE_HEAP_PTR p \<and>
      made C t (sizeof_closure + bmc * sizeof_obj) t_closure (\<lambda>t0. P_Closure \<lparr>clo_env = th_env t0, clo_func = fp\<rparr>) (t', p))
    (closure_new t fp bmc)"
  unfolding closure_new_def
proof (rule alloc_then [OF ok nf])
  show n: "8 \<le> sizeof_closure + bmc * sizeof_obj" "sizeof_closure + bmc * sizeof_obj < 2 ^ 31"
    using b by (simp_all add: sizeof_closure_def sizeof_obj_def)
  let ?n = "sizeof_closure + bmc * sizeof_obj"
  let ?pl = "\<lambda>t0. P_Closure \<lparr>clo_env = th_env t0, clo_func = fp\<rparr>"
  fix t0
  assume t0: "grown C t t0" "round8 ?n + 8 \<le> free_mem (fresh (heap t0))" "source t ?n t0"
  then have ok0: "thread_ok C t0" and e0: "th_env t0 \<noteq> 0" using e by (auto simp: grown_def)
  have "made C t ?n t_closure ?pl (new_object t0 t_closure (round8 ?n) (?pl t0), new_addr t0)"
    by (rule made_I [OF t0(1,3,2) n(1)]) (use env_fields [OF ok0 e0] e0 in \<open>auto simp: links_ok_def\<close>)
  then show "defined (\<lambda>(t', x). \<exists>p. x = MAKE_HEAP_PTR p \<and> made C t ?n t_closure ?pl (t', p))
      ((\<lambda>(t1, p). Inr (set_object t1 p (P_Closure \<lparr>clo_env = th_env t1, clo_func = fp\<rparr>), MAKE_HEAP_PTR p))
        (alloc_at t0 t_closure (round8 ?n), new_addr t0))"
    by (auto simp: new_object_def)
qed

text \<open>A new environment under a parent that is one of the current thread.\<close>

lemma env_new_ok:
  assumes ok: "thread_ok C t" and nf: "\<not> full_gc (heap t)" and sz: "0 \<le> sz" "sz < 2 ^ 27"
    and par: "\<And>t0. grown C t t0 \<Longrightarrow> parent t0 = 0 \<or> valid_addr (heap t0) (parent t0) \<and> hdr_type (heap t0) (parent t0) = Some t_env"
    and al: "\<And>t0 tid n. parent (alloc_at t0 tid n) = parent t0"
      "\<And>t0 h. parent (t0\<lparr>heap := h\<rparr>) = parent t0"
  shows "defined (made C t (sizeof_env + sizeof_obj * nat sz) t_env
      (\<lambda>t0. P_Env \<lparr>prev = parent t0, env_size = sz, depth = dep, objects = new_addr t0 + sizeof_env,
              env_slots = replicate (nat sz) 0\<rparr>))
    (env_new t parent sz dep)"
proof -
  let ?n = "sizeof_env + sizeof_obj * nat sz"
  let ?pl = "\<lambda>t0. P_Env \<lparr>prev = parent t0, env_size = sz, depth = dep, objects = new_addr t0 + sizeof_env,
              env_slots = replicate (nat sz) 0\<rparr>"
  have n: "8 \<le> ?n" "?n < 2 ^ 31" using sz by (simp_all add: sizeof_env_def sizeof_obj_def nat_less_iff)
  have req: "of_nat sizeof_env + of_nat sizeof_obj * of_int sz = (of_nat ?n :: 32 word)"
    using sz(1) by (simp add: of_nat_nat)
  have zero: "value_ok C t0 0" for t0
  proof -
    have "MAKE_FIXNUM 0 = 0" by (simp add: MAKE_FIXNUM_def ADD_TAG_def tag_defs)
    then show ?thesis using value_ok_consts(4) [of C t0 0] by simp
  qed
  show ?thesis
    unfolding env_new_def heap_alloc0_def bindE_assoc req
  proof (rule alloc_then [OF ok nf n])
    fix t0
    assume t0: "grown C t t0" "round8 ?n + 8 \<le> free_mem (fresh (heap t0))" "source t ?n t0"
    have md: "made C t ?n t_env ?pl (new_object t0 t_env (round8 ?n) (?pl t0), new_addr t0)"
      by (rule made_I [OF t0(1,3,2) n(1)])
        (use par [OF t0(1)] zero sz in \<open>auto simp: links_ok_def\<close>)
    let ?t1 = "alloc_at t0 t_env (round8 ?n)"
    have z: "set_payload (mem_of ?t1) (new_addr t0 - BHDR_SIZE) P_Zero = mem_of ?t1"
      using alloc_at_HTYPE [of t0 t_env "round8 ?n"]
      by (auto simp: set_payload_def HTYPE_def BHDR_SIZE_def zero_block_def fun_eq_iff split: if_splits)
    have rm: "room (zero_block t_env (round8 ?n)) sizeof_env sizeof_obj (nat sz) = nat sz"
    proof -
      have "nat sz * 8 \<le> round8 ?n - 24" 
        unfolding sizeof_env_def sizeof_obj_def using round8_simps(2) [of "24 + 8 * nat sz"] by linarith
      then have "nat sz \<le> (round8 ?n - 24) div 8" by (simp add: less_eq_div_iff_mult_less_eq)
      then show ?thesis by (simp add: room_def sizeof_env_def sizeof_obj_def)
    qed
    have same: "?t1\<lparr>heap := (heap ?t1)\<lparr>store := mem_of ?t1\<rparr>\<rparr> = ?t1" by simp
    show "defined (made C t ?n t_env ?pl)
       ((\<lambda>x. bindE (case x of (t1, p) \<Rightarrow> Inr (t1\<lparr>heap := (heap t1)\<lparr>store := set_payload (mem_of t1) (p - BHDR_SIZE) P_Zero\<rparr>\<rparr>, p))
          (\<lambda>(t1, p). bindE (deref (HTYPE (mem_of t1) p) ''new env'') (\<lambda>b.
             Inr (set_object t1 p (P_Env \<lparr>prev = parent t1, env_size = sz, depth = dep, objects = p + sizeof_env,
               env_slots = replicate (room b sizeof_env sizeof_obj (nat sz)) 0\<rparr>), p))))
        (?t1, new_addr t0))"
      using md by (simp add: z same alloc_at_HTYPE rm al new_object_def)
  qed
qed

end
