(* ===== verification/Vm_Safety.thy ===== *)
theory Vm_Safety
  imports Vm_Sound
begin

text \<open>
  The interpreter keeps the invariant of its thread: the opcodes, entering a function, raising an
  exception, and dispatching.
\<close>

section \<open>Writing into an environment\<close>

lemma update_slots_ok:
  assumes ok: "thread_ok C t" and va: "valid_addr (heap t) p" and b: "HTYPE (mem_of t) p = Some b" "payload b = P_Env e"
    and sl: "length sl = length (env_slots e)" "\<forall>x \<in> set sl. value_ok C t x"
  defines "t' \<equiv> set_object t p (P_Env (e\<lparr>env_slots := sl\<rparr>))"
  shows "thread_ok C t'" and "same_shape t t'" and "value_ok C t' = value_ok C t"
    and "valid_addr (heap t') = valid_addr (heap t)" and "hdr_type (heap t') = hdr_type (heap t)"
    and "\<exists>h. t' = t\<lparr>heap := h\<rparr>"
proof -
  note e = thread_okE [OF ok]
  define a where "a = p - 8"
  define pl where "pl = P_Env (e\<lparr>env_slots := sl\<rparr>)"
  have a: "store (heap t) a = Some b" "heap_hdr (heap t) a" "a + 8 = p" "8 \<le> p"
    using va b(1) by (auto simp: a_def valid_addr_def HTYPE_def BHDR_SIZE_def)
  have t': "t' = t\<lparr>heap := with_payload (heap t) a b pl\<rparr>"
    using a by (simp add: t'_def pl_def set_object_def set_store_def set_payload_def BHDR_SIZE_def a_def with_payload_def)
  then show "\<exists>h. t' = t\<lparr>heap := h\<rparr>" by blast
  note pr = with_payload_preds [OF a(1), of pl]
  have gr: "graph_ok (heap t)" "layout_ok (heap t)" using e(8) by (auto simp: heap_wf_def)
  have nf: "\<not> forward (hdr b)" using e(9) a by (simp add: settled_def)
  then have bo: "typed (type_id (hdr b)) (payload b)" "links_ok (valid_obj (heap t)) (valid_addr (heap t)) (payload b)"
    using gr(1) a by (auto simp: graph_ok_def block_ok_def)
  have ty: "typed (type_id (hdr b)) pl" using bo(1) b(2) sl(1) by (simp add: pl_def)
  have lk: "links_ok (valid_obj (heap t)) (valid_addr (heap t)) pl"
    using bo(2) b(2) sl(2) by (simp add: pl_def links_ok_def value_ok_def)
  note w = with_payload_wf [OF gr(2,1) a(1,2) nf ty lk]
  have "heap_wf (heap t')" using e(8) w a(1) by (auto simp: heap_wf_def t')
  moreover have "settled (heap t')" using e(9) a nf by (auto simp: settled_def t' pr)
  moreover have "root_ok P Q r t' = root_ok P Q r t" for P Q r by (cases r; simp add: t')
  then have "valid_root r t'" for r using e(6) by (simp add: valid_root_def t' pr thread_wf_def)
  ultimately have wf: "thread_wf t'"
    using e(6) by (simp add: thread_wf_def env_root_ok_def t' pr)
  have away: "away (heap t') = away (heap t)" by (auto simp: away_def old_start_def old_extent_def t' fun_eq_iff)
  have ho: "consts_ok C (heap t)" "refers_all C (heap t)" "homes_ok (heap t)" "links_typed (heap t)"
    using e(7) by (auto simp: heap_ok_def)
  have "store (heap t') (q - 8) = store (heap t) (q - 8)" if "q \<in> C" for q
  proof -
    from ho(1) that obtain c where "away (heap t) (q - 8) (blen c)" by (auto simp: consts_ok_def)
    then have "q - 8 \<noteq> a" using hdr_not_away [OF gr(2) _ blen_pos] a(2) by (auto simp: heap_hdr_def)
    then show ?thesis by (simp add: t')
  qed
  then have "consts_ok C (heap t')" using ho(1) by (simp add: consts_ok_def away)
  moreover have cs: "x = a \<and> c = b\<lparr>payload := pl\<rparr> \<or> heap_hdr (heap t) x \<and> store (heap t) x = Some c"
    if "heap_hdr (heap t') x" "store (heap t') x = Some c" for x c
    using that by (auto simp: t' pr split: if_splits)
  have "refers_all C (heap t')"
    unfolding refers_all_def
  proof (intro allI impI)
    fix x c assume "heap_hdr (heap t') x" "store (heap t') x = Some c"
    from cs [OF this] show "\<forall>y \<in> set (obj_slots (payload c)). refers C y"
      using ho(2) sl(2) by (auto simp: refers_all_def pl_def value_ok_def)
  qed
  moreover have "homes_ok (heap t')"
    unfolding homes_ok_def
  proof (intro allI impI)
    fix x c assume "heap_hdr (heap t') x" "store (heap t') x = Some c"
    moreover have "homed (a + BHDR_SIZE) pl" using ho(3) a b(2) by (auto simp: homes_ok_def pl_def)
    ultimately show "homed (x + BHDR_SIZE) (payload c)" using cs [of x c] ho(3) by (auto simp: homes_ok_def)
  qed
  moreover have "links_typed (heap t')"
    unfolding links_typed_def
  proof (intro allI impI)
    fix x c assume "heap_hdr (heap t') x" "store (heap t') x = Some c"
    moreover have "env_links pl = env_links (payload b)" "has_env pl = has_env (payload b)" by (simp_all add: pl_def b(2))
    moreover have "hdr_type (heap t') = hdr_type (heap t)" by (simp add: t' pr)
    ultimately show "(\<forall>q\<in>set (env_links (payload c)). q \<noteq> 0 \<longrightarrow> hdr_type (heap t') q = Some t_env) \<and> has_env (payload c)"
      using cs [of x c] ho(4) a(1,2) by (auto simp: links_typed_def)
  qed
  ultimately have "heap_ok C (heap t')" by (simp add: heap_ok_def)
  moreover have "root_objs r t' = root_objs r t" for r by (cases r) (simp_all add: t')
  moreover have "env_ok t'" using ok by (simp add: thread_ok_def env_ok_def t' pr)
  ultimately show "thread_ok C t'" using wf ok by (simp add: thread_ok_def t')
  show "same_shape t t'" by (simp add: t' same_shape_def)
  show "value_ok C t' = value_ok C t" by (auto simp: value_ok_def t' pr fun_eq_iff)
  show "valid_addr (heap t') = valid_addr (heap t)" "hdr_type (heap t') = hdr_type (heap t)" by (simp_all add: t' pr)
qed

section \<open>Strings\<close>

lemma string_ok:
  assumes ok: "thread_ok C t" and nf: "\<not> full_gc (heap t)" and n: "length s < 2 ^ 30"
  shows "defined (\<lambda>(t', x). \<exists>p. x = MAKE_HEAP_PTR p \<and> made C t (sizeof_string + Suc (length s)) t_string
      (\<lambda>t0. P_String \<lparr>str = new_addr t0 + sizeof_string, str_size = int (Suc (length s)), allocated = True,
              chars = s @ [0]\<rparr>) (t', p))
    (string_new heap_allocator t src s True)"
proof -
  let ?n = "sizeof_string + Suc (length s)"
  let ?pl = "\<lambda>t0. P_String \<lparr>str = new_addr t0 + sizeof_string, str_size = int (Suc (length s)), allocated = True,
              chars = s @ [0]\<rparr>"
  have n': "8 \<le> ?n" "?n < 2 ^ 31" using n by (simp_all add: sizeof_string_def)
  show ?thesis
    unfolding string_new_def Let_def heap_allocator_simps if_True
  proof (rule alloc_then [OF ok nf n'])
    fix t0
    assume t0: "grown C t t0" "round8 ?n + 8 \<le> free_mem (fresh (heap t0))" "source t ?n t0"
    have "made C t ?n t_string ?pl (new_object t0 t_string (round8 ?n) (?pl t0), new_addr t0)"
      by (rule made_I [OF t0(1,3,2) n'(1)]) (auto simp: links_ok_def)
    then show "defined (\<lambda>(t', x). \<exists>p. x = MAKE_HEAP_PTR p \<and> made C t ?n t_string ?pl (t', p))
      ((\<lambda>(s1, p). bindE (deref (HTYPE (mem_of s1) p) ''new string'') (\<lambda>b.
          Inr (set_store ((mem_of s1)(p - BHDR_SIZE \<mapsto> b\<lparr>payload := P_String \<lparr>str = p + sizeof_string,
                 str_size = int (Suc (length s)), allocated = True, chars = s @ [0]\<rparr>\<rparr>)) s1,
               MAKE_TAGGED_PTR p TAG_PTR)))
        (alloc_at t0 t_string (round8 ?n), new_addr t0))"
      by (simp add: alloc_at_HTYPE finish_object BHDR_SIZE_def) (auto simp: MAKE_HEAP_PTR_def)
  qed
qed

section \<open>Opcodes\<close>

text \<open>The invariant holds, the running function is the same, and the locals are still where they belong.\<close>

definition keeps_ok :: "addr set \<Rightarrow> vm_thread \<Rightarrow> vm_thread \<Rightarrow> bool" where
  "keeps_ok C t t' \<longleftrightarrow> thread_ok C t' \<and> th_func t' = th_func t \<and> (locals_home t \<longrightarrow> locals_home t')"

lemma keeps_push:
  assumes "keeps_ok C t t1" and "value_ok C t1 x" shows "defined (keeps_ok C t) (STACK_PUSH t1 x)"
  by (rule defined_mono [OF push_ok [of C t1 x]]) (use assms in \<open>auto simp: keeps_ok_def\<close>)

lemma pop_keeps:
  assumes ok: "thread_ok C t"
    and k: "\<And>t1 x. \<lbrakk>keeps_ok C t t1; value_ok C t1 x; t1 = t\<lparr>op_stack_idx := op_stack_idx t - 1\<rparr>;
      0 < op_stack_idx t; x = opstack t ! (op_stack_idx t - 1)\<rbrakk> \<Longrightarrow> defined P (f (t1, x))"
  shows "defined P (bindE (STACK_POP t) f)"
  by (rule defined_bind [OF pop_ok [OF ok]]) (auto simp: keeps_ok_def intro!: k)

lemma fetch_keeps:
  assumes ok: "thread_ok C t"
    and k: "\<And>t2 a b. \<lbrakk>keeps_ok C t t2; value_ok C t2 a; value_ok C t2 b; a = opstack t ! (op_stack_idx t - 2);
      b = opstack t ! (op_stack_idx t - 1)\<rbrakk> \<Longrightarrow> defined P (f (t2, a, b))"
  shows "defined P (bindE (FETCH_AB t) f)"
  unfolding FETCH_AB_def bindE_assoc
proof (rule pop_keeps [OF ok], unfold prod.case bindE_assoc)
  fix t1 x
  assume 1: "keeps_ok C t t1" "value_ok C t1 x" "t1 = t\<lparr>op_stack_idx := op_stack_idx t - 1\<rparr>"
    "x = opstack t ! (op_stack_idx t - 1)"
  then have "thread_ok C t1" by (simp add: keeps_ok_def)
  then show "defined P (bindE (STACK_POP t1) (\<lambda>xa. bindE (case xa of (t2, a) \<Rightarrow> Inr (t2, a, x)) f))"
  proof (rule pop_keeps)
    fix t2 a
    assume "keeps_ok C t1 t2" "value_ok C t2 a" "t2 = t1\<lparr>op_stack_idx := op_stack_idx t1 - 1\<rparr>"
      "a = opstack t1 ! (op_stack_idx t1 - 1)"
    with 1 have "defined P (f (t2, a, x))"
      by (intro k) (auto simp: keeps_ok_def numeral_2_eq_2)
    then show "defined P (bindE (case (t2, a) of (t2, a) \<Rightarrow> Inr (t2, a, x)) f)" by simp
  qed
qed

lemma IS_TYPE_env:
  assumes "thread_ok C t" and "value_ok C t x" and "IS_TYPE (mem_of t) x t_env = Inr True"
  obtains e b where "HTYPE (mem_of t) (PTR x) = Some b" "payload b = P_Env e"
    "\<forall>y \<in> set (env_slots e). value_ok C t y" "objects e = PTR x + sizeof_env"
proof -
  have "t_env \<noteq> t_symbol" by (simp add: type_id_defs)
  from IS_TYPE_typed [OF assms this] obtain b where b: "HTYPE (mem_of t) (PTR x) = Some b" "typed t_env (payload b)"
    "\<forall>y \<in> set (obj_slots (payload b)). value_ok C t y" "homed (PTR x) (payload b)"
    by metis
  then obtain e where "payload b = P_Env e" by (auto simp: typed_iff)
  with b that show ?thesis by auto
qed

text \<open>An environment slot that exists, at the pointer \<open>p\<close> to the slots.\<close>

definition slot_ready :: "vm_thread \<Rightarrow> addr \<Rightarrow> int \<Rightarrow> bool" where
  "slot_ready t p j \<longleftrightarrow> sizeof_env \<le> p \<and> valid_addr (heap t) (p - sizeof_env) \<and>
     (case env_at (mem_of t) (p - sizeof_env) of
        Inr e \<Rightarrow> 0 \<le> j \<and> nat j < length (env_slots e)
      | Inl _ \<Rightarrow> False)"

lemma slot_readyE:
  assumes ok: "thread_ok C t" and r: "slot_ready t p j"
  obtains e b where "slots_at (mem_of t) p = Inr e" "HTYPE (mem_of t) (p - sizeof_env) = Some b" "payload b = P_Env e"
    "valid_addr (heap t) (p - sizeof_env)" "0 \<le> j" "nat j < length (env_slots e)"
    "\<forall>x \<in> set (env_slots e). value_ok C t x"
proof -
  from r obtain e where e: "sizeof_env \<le> p" "valid_addr (heap t) (p - sizeof_env)" "env_at (mem_of t) (p - sizeof_env) = Inr e"
      "0 \<le> j" "nat j < length (env_slots e)"
    by (auto simp: slot_ready_def split: sum.splits)
  then obtain b where b: "HTYPE (mem_of t) (p - sizeof_env) = Some b" "payload b = P_Env e"
    by (auto simp: env_at_def bindE_Inr_iff deref_def split: option.splits elim!: env_of.elims)
  have p: "PTR (MAKE_HEAP_PTR (p - sizeof_env)) = p - sizeof_env"
    using PTR_heap_ptr [OF _ e(2)] thread_okE(8) [OF ok] by (auto simp: heap_wf_def)
  have "value_ok C t (MAKE_HEAP_PTR (p - sizeof_env))"
    using p e(2) by (simp add: value_ok_def valid_obj_def)
  from value_block [OF ok this] obtain c where "HTYPE (mem_of t) (p - sizeof_env) = Some c"
      "\<forall>x \<in> set (obj_slots (payload c)). value_ok C t x"
    unfolding p by (metis IS_HEAP_PTR_MAKE)
  with b have "\<forall>x \<in> set (env_slots e). value_ok C t x" by simp
  with e b that show ?thesis by (simp add: slots_at_def)
qed

lemma read_slot_ok:
  assumes "thread_ok C t" and "slot_ready t p j"
  shows "\<exists>x. read_slot (mem_of t) p j = Inr x \<and> value_ok C t x"
proof -
  from slot_readyE [OF assms] obtain e where e: "slots_at (mem_of t) p = Inr e" "0 \<le> j" "nat j < length (env_slots e)"
      "\<forall>x \<in> set (env_slots e). value_ok C t x"
    by metis
  then have "read_slot (mem_of t) p j = Inr (env_slots e ! nat j)" by (simp add: read_slot_def)
  moreover have "env_slots e ! nat j \<in> set (env_slots e)" using e(3) by simp
  ultimately show ?thesis using e(4) by auto
qed

lemma write_slots_ok:
  assumes ok: "thread_ok C t" and r: "slot_ready t p (j + int (length xs) - 1)" "xs \<noteq> []" "0 \<le> j"
    and v: "\<forall>x \<in> set xs. value_ok C t x"
  shows "\<exists>t'. write_slots t p j xs = Inr t' \<and> thread_ok C t' \<and> same_shape t t' \<and> value_ok C t' = value_ok C t
    \<and> valid_addr (heap t') = valid_addr (heap t) \<and> hdr_type (heap t') = hdr_type (heap t) \<and> (\<exists>h. t' = t\<lparr>heap := h\<rparr>)"
proof -
  from slot_readyE [OF ok] r obtain e b where e: "slots_at (mem_of t) p = Inr e"
      "HTYPE (mem_of t) (p - sizeof_env) = Some b" "payload b = P_Env e" "valid_addr (heap t) (p - sizeof_env)"
      "nat (j + int (length xs) - 1) < length (env_slots e)" "\<forall>x \<in> set (env_slots e). value_ok C t x"
    by metis
  have n: "nat j + length xs \<le> length (env_slots e)" using e(5) r(2,3) by (cases xs) auto
  have v': "\<forall>x \<in> set (splice (nat j) xs (env_slots e)). value_ok C t x"
    using v e(6) by (auto simp: splice_def dest: in_set_takeD in_set_dropD)
  have l: "length (splice (nat j) xs (env_slots e)) = length (env_slots e)" using n by (simp add: splice_def)
  note u = update_slots_ok [OF ok e(4,2,3) l v']
  show ?thesis using u e(1) n r(3) by (simp add: write_slots_def)
qed

lemma write_slot_ok:
  assumes ok: "thread_ok C t" and r: "slot_ready t p j" and v: "value_ok C t x"
  shows "\<exists>t'. write_slots t p j [x] = Inr t' \<and> keeps_ok C t t'"
proof -
  have "0 \<le> j" using r by (auto simp: slot_ready_def split: sum.splits)
  with write_slots_ok [OF ok, of p j "[x]"] r v show ?thesis by (auto simp: keeps_ok_def)
qed

text \<open>The locals: on the operand stack or in an environment.\<close>

definition local_ready :: "vm_thread \<Rightarrow> nat \<Rightarrow> int \<Rightarrow> bool" where
  "local_ready t m i = (case th_objects t of
     On_Stack n \<Rightarrow> 0 \<le> int n + i \<and> nat (int n + i) < m | In_Env p \<Rightarrow> slot_ready t p i)"

lemma load_local_ok:
  assumes ok: "thread_ok C t" and r: "local_ready t (op_stack_idx t) i"
  shows "\<exists>x. load_local t i = Inr x \<and> value_ok C t x"
proof (cases "th_objects t")
  case (On_Stack n)
  then have "0 \<le> int n + i" "nat (int n + i) < op_stack_idx t" using r by (auto simp: local_ready_def)
  with stack_values [OF ok this(2)] On_Stack show ?thesis by (simp add: load_local_def stack_at_def)
next
  case (In_Env p)
  then show ?thesis using read_slot_ok [OF ok, of p i] r by (simp add: local_ready_def load_local_def)
qed

lemma set_local_slot_ok:
  assumes ok: "thread_ok C t" and r: "local_ready t (op_stack_size t) i" and v: "value_ok C t x"
  shows "defined (keeps_ok C t) (set_local_slot t i x)"
proof (cases "th_objects t")
  case (On_Stack n)
  then have n: "0 \<le> int n + i" "nat (int n + i) < op_stack_size t" using r by (auto simp: local_ready_def)
  from On_Stack n(1) have "set_local_slot t i x = write_stack t (nat (int n + i)) x" by (simp add: set_local_slot_def)
  with defined_mono [OF write_stack_ok [OF ok v n(2)]] show ?thesis by (simp add: keeps_ok_def)
next
  case (In_Env p)
  then show ?thesis using write_slot_ok [OF ok _ v, of p i] r by (auto simp: local_ready_def set_local_slot_def)
qed

text \<open>A binding: the operand stack at the bindmap holds the environment it is in.\<close>

definition bind_ready :: "vm_thread \<Rightarrow> func_t \<Rightarrow> int \<Rightarrow> bool" where
  "bind_ready t func i \<longleftrightarrow> 0 \<le> i \<and> nat i < length (f_bindings func) \<and>
     (case th_bindmap t of None \<Rightarrow> False | Some bm \<Rightarrow>
        let k = int bm + b_up (f_bindings func ! nat i); x = opstack t ! nat k
        in 0 \<le> k \<and> nat k < op_stack_idx t \<and> IS_HEAP_PTR x \<and> IS_TYPE (mem_of t) x t_env = Inr True
           \<and> slot_ready t (PTR x + sizeof_env) (b_idx (f_bindings func ! nat i)))"

lemma bind_env_ok:
  assumes ok: "thread_ok C t" and r: "bind_ready t func i"
  obtains e j where "bind_env t func i = Inr (e, j)" "slot_ready t (objects e) j"
proof -
  from r obtain bm k x where r': "0 \<le> i" "nat i < length (f_bindings func)" "th_bindmap t = Some bm"
      "k = int bm + b_up (f_bindings func ! nat i)" "0 \<le> k" "nat k < op_stack_idx t" "x = opstack t ! nat k"
      "IS_TYPE (mem_of t) x t_env = Inr True" "slot_ready t (PTR x + sizeof_env) (b_idx (f_bindings func ! nat i))"
    by (auto simp: bind_ready_def Let_def split: option.splits)
  have v: "value_ok C t x" "nat k < length (opstack t)" using stack_values [OF ok r'(6)] r'(7) by simp_all
  from IS_TYPE_env [OF ok v(1) r'(8)] obtain e b where e: "HTYPE (mem_of t) (PTR x) = Some b" "payload b = P_Env e"
      "objects e = PTR x + sizeof_env"
    by metis
  then have "env_at (mem_of t) (PTR x) = Inr e" by (simp add: env_at_def)
  then have "bind_env t func i = Inr (e, b_idx (f_bindings func ! nat i))"
    using r' v(2) by (simp add: bind_env_def stack_at_def)
  with that e(3) r'(9) show ?thesis by simp
qed

lemma load_bind_ok:
  assumes ok: "thread_ok C t" and r: "bind_ready t func i" shows "defined (keeps_ok C t) (load_bind func i t)"
proof -
  from bind_env_ok [OF ok r] obtain e j where b: "bind_env t func i = Inr (e, j)" "slot_ready t (objects e) j" .
  with read_slot_ok [OF ok b(2)] obtain x where "read_slot (mem_of t) (objects e) j = Inr x" "value_ok C t x" by blast
  then show ?thesis using b(1) keeps_push [of C t t x] ok by (simp add: load_bind_def keeps_ok_def)
qed

lemma slot_ready_idx [simp]: "slot_ready (t\<lparr>op_stack_idx := i\<rparr>) p j = slot_ready t p j"
  by (simp add: slot_ready_def)

lemma local_ready_idx [simp]: "local_ready (t\<lparr>op_stack_idx := i\<rparr>) n j = local_ready t n j"
  by (simp add: local_ready_def split: locals_ptr.split)

lemma set_bind_ok:
  assumes ok: "thread_ok C t" and r: "bind_ready t func i" shows "defined (keeps_ok C t) (set_bind func i t)"
proof -
  from bind_env_ok [OF ok r] obtain e j where b: "bind_env t func i = Inr (e, j)" "slot_ready t (objects e) j" .
  have "defined (keeps_ok C t) (bindE (STACK_POP t) (\<lambda>(t1, x). write_slots t1 (objects e) j [x]))"
  proof (rule pop_keeps [OF ok])
    fix t1 x
    assume t1: "keeps_ok C t t1" "value_ok C t1 x" "t1 = t\<lparr>op_stack_idx := op_stack_idx t - 1\<rparr>"
    then have "slot_ready t1 (objects e) j" "thread_ok C t1" using b(2) by (simp_all add: keeps_ok_def)
    with write_slot_ok [OF this(2,1) t1(2)] t1(1)
    show "defined (keeps_ok C t) (case (t1, x) of (t1, x) \<Rightarrow> write_slots t1 (objects e) j [x])"
      by (auto simp: keeps_ok_def)
  qed
  then show ?thesis using b(1) by (simp add: set_bind_def)
qed

text \<open>Creation of pairs and closures.\<close>

lemma grown_keeps: "grown C t t' \<Longrightarrow> keeps_ok C t t'"
  by (simp add: grown_def keeps_ok_def same_shape_def)

lemma cons_target_ok:
  assumes ok: "thread_ok C t" and nf: "\<not> full_gc (heap t)" shows "defined (keeps_ok C t) (cons_target t)"
  unfolding cons_target_def
proof (rule pop_keeps [OF define_locals_ok [OF ok]], unfold prod.case)
  fix t1 b
  assume t1: "keeps_ok C (define_locals 2 t) t1" "value_ok C t1 b"
    "t1 = (define_locals 2 t)\<lparr>op_stack_idx := op_stack_idx (define_locals 2 t) - 1\<rparr>"
  then have ok1: "thread_ok C (set_local 1 b t1)" by (simp add: keeps_ok_def set_local_ok)
  show "defined (keeps_ok C t) (bindE (STACK_POP (set_local 1 b t1)) (\<lambda>(t2, a).
      bindE (cons heap_allocator (set_local 0 a t2) (get_local 0) (get_local 1)) (\<lambda>(t3, x).
      bindE (STACK_PUSH t3 x) (\<lambda>t4. Inr (clear_locals t4)))))"
  proof (rule pop_keeps [OF ok1], unfold prod.case)
    fix t2 a
    assume t2: "keeps_ok C (set_local 1 b t1) t2" "value_ok C t2 a"
      "t2 = (set_local 1 b t1)\<lparr>op_stack_idx := op_stack_idx (set_local 1 b t1) - 1\<rparr>"
    let ?t = "set_local 0 a t2"
    have ok2: "thread_ok C ?t" using t2 by (simp add: keeps_ok_def set_local_ok)
    have nf2: "\<not> full_gc (heap ?t)" using nf t1(3) t2(3) by (simp add: set_local_def define_locals_def)
    have l: "local_roots ?t = Some [a, b]" using t1(3) t2(3) by (simp add: set_local_def define_locals_def numeral_2_eq_2)
    have f: "th_func ?t = th_func t" using t1(3) t2(3) by (simp add: set_local_def define_locals_def)
    show "defined (keeps_ok C t) (bindE (cons heap_allocator ?t (get_local 0) (get_local 1)) (\<lambda>(t3, x).
        bindE (STACK_PUSH t3 x) (\<lambda>t4. Inr (clear_locals t4))))"
    proof (rule defined_bind [OF cons_ok [OF ok2 nf2 reads_value_local [OF l] reads_value_local [OF l]]])
      fix r
      assume "consed C ?t (get_local 0) (get_local 1) r"
      then have r: "grown C ?t (fst r)" "value_ok C (fst r) (snd r)" by (auto simp: consed_def)
      have "locals_home ?t = locals_home t" using t1(3) t2(3) by simp
      with grown_keeps [OF r(1)] f have k: "keeps_ok C t (fst r)" by (simp add: keeps_ok_def)
      show "defined (keeps_ok C t) (case r of (t3, x) \<Rightarrow> bindE (STACK_PUSH t3 x) (\<lambda>t4. Inr (clear_locals t4)))"
        unfolding case_prod_beta
        by (rule defined_bind [OF keeps_push [OF k r(2)]])
          (auto simp: keeps_ok_def clear_locals_ok)
    qed simp_all
  qed
qed

lemma load_closure_ok:
  assumes ok: "thread_ok C t" and nf: "\<not> full_gc (heap t)" and e: "th_env t \<noteq> 0" and b: "bmc < 2 ^ 27"
  shows "defined (keeps_ok C t) (bindE (closure_new t fp bmc) (\<lambda>(t1, x). STACK_PUSH t1 x))"
  by (rule defined_bind [OF closure_new_ok [OF assms]])
    (auto simp: made_def split: prod.splits intro!: keeps_push grown_keeps)

text \<open>
  What the compiler must see to for one opcode: indices in range, an environment to close over, a defined
  arithmetic result, and, since \<^verbatim>\<open>OP_BIT_NOT\<close> pushes an untagged word, that this word is no pointer.
\<close>

definition arith_ready :: "opcode \<Rightarrow> u64 \<Rightarrow> u64 \<Rightarrow> bool" where
  "arith_ready op a b =
     (case op of
        OP_MUL \<Rightarrow> - (2 ^ 63) \<le> sint a * sint b \<and> sint a * sint b < 2 ^ 63
      | OP_DIV \<Rightarrow> b \<noteq> 0
      | OP_MOD \<Rightarrow> b \<noteq> 0
      | _ \<Rightarrow> op \<in> {OP_ADD, OP_SUB, OP_BIT_AND, OP_BIT_IOR, OP_BIT_XOR})"

definition simple_ready :: "vm \<Rightarrow> func_t \<Rightarrow> opcode \<Rightarrow> int \<Rightarrow> bool" where
  "simple_ready v func op i =
     (let t = thread v; n = op_stack_idx t; top = opstack t ! (n - 1) in
      case op of
        LOAD_LOCAL \<Rightarrow> local_ready t n i
      | SET_LOCAL \<Rightarrow> local_ready t (op_stack_size t) i
      | LOAD_BIND \<Rightarrow> bind_ready t func i
      | SET_BIND \<Rightarrow> bind_ready t func i
      | LOAD_CONST \<Rightarrow> (case module_of v func of Inr md \<Rightarrow> 0 \<le> i \<and> nat i < length (mod_consts md) | Inl _ \<Rightarrow> False)
      | LOAD_FUNC \<Rightarrow> (case module_of v func of Inr md \<Rightarrow> 0 \<le> i \<and> nat i < length (mod_functions md) | Inl _ \<Rightarrow> False)
      | LOAD_CLOSURE \<Rightarrow> th_env t \<noteq> 0 \<and>
          (case module_func v func i of
             Inr p \<Rightarrow> (case interp_at (modules v) p of Some nf \<Rightarrow> bmcount nf < 2 ^ 27 | None \<Rightarrow> False)
           | Inl _ \<Rightarrow> False)
      | OP_BIT_NOT \<Rightarrow> \<not> IS_HEAP_PTR (NOT (FIXNUM top)) \<and> \<not> IS_CONST_PTR (NOT (FIXNUM top))
      | PUSH_BOOL \<Rightarrow> True | PUSH_NULL \<Rightarrow> True | OP_NOT \<Rightarrow> True | OP_EQ_PTR \<Rightarrow> True | OP_EQ \<Rightarrow> True | OP_GT \<Rightarrow> True
      | OP_LT \<Rightarrow> True | OP_CONS \<Rightarrow> True | OP_TYPE_TEST \<Rightarrow> True
      | _ \<Rightarrow> arith_ready op (FIXNUM (opstack t ! (n - 2))) (FIXNUM top))"

text \<open>The constants of every module are among those the thread may refer to.\<close>

definition consts_in :: "addr set \<Rightarrow> module_t list \<Rightarrow> bool" where
  "consts_in C mds \<longleftrightarrow> (\<forall>md \<in> set mds. \<forall>x \<in> set (mod_consts md). \<not> IS_HEAP_PTR x \<and> refers C x)"

lemma arith_ready_Inr: "arith_ready op a b \<Longrightarrow> \<exists>c. arith op a b = Inr c"
  by (cases op) (auto simp: arith_ready_def long_mul_def Let_def)

lemma binary_ok:
  assumes ok: "thread_ok C t" and k: "\<exists>x. f (opstack t ! (op_stack_idx t - 2)) (opstack t ! (op_stack_idx t - 1)) = Inr x"
    and v: "\<And>a b x t. f a b = Inr x \<Longrightarrow> value_ok C t x"
  shows "defined (keeps_ok C t) (bindE (FETCH_AB t) (\<lambda>(t1, a, b). bindE (f a b) (STACK_PUSH t1)))"
proof (rule fetch_keeps [OF ok], unfold prod.case)
  fix t2 a b
  assume t2: "keeps_ok C t t2" "a = opstack t ! (op_stack_idx t - 2)" "b = opstack t ! (op_stack_idx t - 1)"
  then obtain x where x: "f a b = Inr x" using k by auto
  then show "defined (keeps_ok C t) (bindE (f a b) (STACK_PUSH t2))"
    using keeps_push [OF t2(1) v [OF x]] by simp
qed

lemma simple_target_ok:
  assumes ok: "thread_ok C (thread v)" and nf: "\<not> full_gc (heap (thread v))" and cs: "consts_in C (modules v)"
    and r: "simple_ready v func op i"
  shows "defined (keeps_ok C (thread v)) (simple_target v func op i (thread v))"
proof -
  let ?t = "thread v"
  have self: "keeps_ok C ?t ?t" using ok by (simp add: keeps_ok_def)
  note push = keeps_push [OF self]
  note bin = binary_ok [OF ok]
  have arith: "defined (keeps_ok C ?t) (arith_target op ?t)"
    if "arith_ready op (FIXNUM (opstack ?t ! (op_stack_idx ?t - 2))) (FIXNUM (opstack ?t ! (op_stack_idx ?t - 1)))"
  proof -
    let ?f = "\<lambda>a b. bindE (arith op (FIXNUM a) (FIXNUM b)) (\<lambda>c. Inr (MAKE_FIXNUM c))"
    have "arith_target op ?t = bindE (FETCH_AB ?t) (\<lambda>(t1, a, b). bindE (?f a b) (STACK_PUSH t1))"
      by (simp add: arith_target_def bindE_assoc)
    moreover have "defined (keeps_ok C ?t) (bindE (FETCH_AB ?t) (\<lambda>(t1, a, b). bindE (?f a b) (STACK_PUSH t1)))"
      by (rule bin) (use arith_ready_Inr [OF that] in \<open>auto simp: bindE_Inr_iff\<close>)
    ultimately show ?thesis by simp
  qed
  have cmp: "defined (keeps_ok C ?t) (compare_target op ?t)"
    unfolding compare_target_def by (rule fetch_keeps [OF ok]) (auto intro!: keeps_push)
  have eqp: "defined (keeps_ok C ?t) (eq_ptr_target ?t)"
    unfolding eq_ptr_target_def by (rule fetch_keeps [OF ok]) (auto intro!: keeps_push)
  have no: "defined (keeps_ok C ?t) (not_target ?t)"
    unfolding not_target_def by (rule pop_keeps [OF ok]) (auto intro!: keeps_push)
  have tt: "defined (keeps_ok C ?t) (type_test_target i ?t)"
    unfolding type_test_target_def
  proof (rule pop_keeps [OF ok], unfold prod.case)
    fix t1 x
    assume t1: "keeps_ok C ?t t1" "value_ok C t1 x"
    then have "defined (\<lambda>_. True) (type_test (mem_of t1) i x)" by (intro type_test_ok [of C]) (simp_all add: keeps_ok_def)
    then show "defined (keeps_ok C ?t) (bindE (type_test (mem_of t1) i x) (\<lambda>b. STACK_PUSH t1 (CIF b)))"
      by (rule defined_bind) (rule keeps_push [OF t1(1)], simp)
  qed
  have sl: "defined (keeps_ok C ?t) (bindE (STACK_POP ?t) (\<lambda>(t1, x). set_local_slot t1 i x))"
    if "local_ready ?t (op_stack_size ?t) i"
  proof (rule pop_keeps [OF ok], unfold prod.case)
    fix t1 x
    assume t1: "keeps_ok C ?t t1" "value_ok C t1 x" "t1 = ?t\<lparr>op_stack_idx := op_stack_idx ?t - 1\<rparr>"
    then have "thread_ok C t1" "local_ready t1 (op_stack_size t1) i" using that by (simp_all add: keeps_ok_def)
    from defined_mono [OF set_local_slot_ok [OF this t1(2)]] t1(1)
    show "defined (keeps_ok C ?t) (set_local_slot t1 i x)" by (simp add: keeps_ok_def)
  qed
  have bn: "defined (keeps_ok C ?t) (bit_not_target ?t)"
    if "\<not> IS_HEAP_PTR (NOT (FIXNUM (opstack ?t ! (op_stack_idx ?t - 1))))"
      "\<not> IS_CONST_PTR (NOT (FIXNUM (opstack ?t ! (op_stack_idx ?t - 1))))"
    unfolding bit_not_target_def
    by (rule pop_keeps [OF ok]) (use that in \<open>auto simp: value_ok_def valid_obj_def refers_def intro!: keeps_push\<close>)
  have ll: "defined (keeps_ok C ?t) (bindE (load_local ?t i) (STACK_PUSH ?t))" if "local_ready ?t (op_stack_idx ?t) i"
    using load_local_ok [OF ok that] push by auto
  have md: "md \<in> set (modules v)" if "module_of v func = Inr md" for md
    using that by (auto simp: module_of_def split: if_splits)
  have lc: "defined (keeps_ok C ?t) (bindE (load_const v func i) (STACK_PUSH ?t))" if "simple_ready v func LOAD_CONST i"
  proof -
    from that obtain md where m: "module_of v func = Inr md" "0 \<le> i" "nat i < length (mod_consts md)"
      by (auto simp: simple_ready_def Let_def split: sum.splits)
    then have "mod_consts md ! nat i \<in> set (mod_consts md)" by simp
    then have "value_ok C ?t (mod_consts md ! nat i)"
      using cs md [OF m(1)] by (auto simp: consts_in_def value_ok_def valid_obj_def)
    then show ?thesis using m push by (simp add: load_const_def)
  qed
  show ?thesis
    using r arith cmp eqp no tt sl bn ll lc push load_bind_ok [OF ok] set_bind_ok [OF ok] cons_target_ok [OF ok nf]
      load_closure_ok [OF ok nf]
    by (cases op)
      (auto simp: simple_target_def simple_ready_def Let_def module_func_def split: sum.splits option.splits)
qed

section \<open>Exceptions\<close>

text \<open>
  The message must fit without a collection: the handler is read through a pointer that a collection does
  not update.
\<close>

definition raise_ready :: "vm_thread \<Rightarrow> cstring \<Rightarrow> bool" where
  "raise_ready t msg \<longleftrightarrow>
     round8 (sizeof_string + Suc (length (take 255 msg))) + 8 \<le> free_mem (fresh (heap t))"

lemma handlers_ok:
  assumes ok: "thread_ok C t" and v: "value_ok C t x" shows "thread_ok C (t\<lparr>exception_handlers := x\<rparr>)"
proof (rule thread_ok_roots [OF ok])
  fix r
  show "root_ok (value_ok C t) (valid_addr (heap t)) r (t\<lparr>exception_handlers := x\<rparr>)"
    using thread_okE(1) [OF ok, of r] v by (cases r) auto
qed (use thread_okE [OF ok] in auto)

lemma handlers_value: "thread_ok C t \<Longrightarrow> value_ok C t (exception_handlers t)"
  using thread_okE(1) [of C t R_Handlers] by simp

text \<open>Either there is no handler, or the handler, the message and the exit continuation are pushed.\<close>

definition handler_pushed :: "addr set \<Rightarrow> vm_thread \<Rightarrow> vm_thread \<times> int \<Rightarrow> bool" where
  "handler_pushed C t r \<longleftrightarrow> keeps_ok C t (fst r) \<and>
     (snd r = 0 \<and> fst r = t \<or> snd r = 2 \<and> op_stack_idx (fst r) = op_stack_idx t + 3)"

lemma push_value:
  assumes "thread_ok C t1" and "value_ok C t1 x" and "\<And>t2. \<lbrakk>thread_ok C t2; th_func t2 = th_func t1; value_ok C t2 = value_ok C t1;
      mem_of t2 = mem_of t1; op_stack_idx t2 = Suc (op_stack_idx t1);
      exception_handlers t2 = exception_handlers t1; locals_home t2 = locals_home t1\<rbrakk> \<Longrightarrow> defined P (f t2)"
  shows "defined P (bindE (STACK_PUSH t1 x) f)"
  by (rule defined_bind [OF push_ok [OF assms(1,2)]]) (auto intro!: assms(3))

lemma push_exception_handler_ok:
  assumes ok: "thread_ok C t" and nf: "\<not> full_gc (heap t)" and r: "raise_ready t msg"
  shows "defined (handler_pushed C t) (push_exception_handler t msg)"
proof -
  let ?eh = "exception_handlers t"
  have self: "handler_pushed C t (t, 0)" using ok by (simp add: handler_pushed_def keeps_ok_def)
  have veh: "value_ok C t ?eh" by (rule handlers_value [OF ok])
  from IS_TYPE_ok [OF ok veh, of t_pair] obtain p where p: "IS_PAIR (mem_of t) ?eh = Inr p" by (auto simp: IS_PAIR_def)
  show ?thesis
  proof (cases p)
    case False
    then show ?thesis using p self by (simp add: push_exception_handler_def)
  next
    case True
    then obtain q where q: "pair_at (mem_of t) ?eh = Inr q" "value_ok C t (car q)" "value_ok C t (cdr q)"
      using pair_ok [OF ok veh] p by metis
    from IS_FUNC_ok [OF ok q(2)] obtain f where f: "IS_FUNC (mem_of t) (car q) = Inr f" by blast
    show ?thesis
    proof (cases f)
      case False
      then show ?thesis using p True q f self by (simp add: push_exception_handler_def)
    next
      case F: True
      have "defined (handler_pushed C t) (bindE (string_new heap_allocator t 0 (take 255 msg) True) (\<lambda>(t1, ob).
          bindE (STACK_PUSH t1 (MAKE_FUNC vm_exit_nt)) (\<lambda>t2. bindE (STACK_PUSH t2 ob) (\<lambda>t3.
          bindE (pair_at (mem_of t3) ?eh) (\<lambda>q. bindE (STACK_PUSH t3 (car q)) (\<lambda>t4.
            Inr (t4\<lparr>exception_handlers := cdr q\<rparr>, 2)))))))"
      proof (rule defined_bind [OF string_ok [OF ok nf]])
        show "length (take 255 msg) < 2 ^ 30" by simp
        fix y
        let ?n = "sizeof_string + Suc (length (take 255 msg))"
        let ?pl = "\<lambda>t0 :: vm_thread. P_String \<lparr>str = new_addr t0 + sizeof_string,
          str_size = int (Suc (length (take 255 msg))), allocated = True, chars = take 255 msg @ [0]\<rparr>"
        assume y: "case y of (t', x) \<Rightarrow> \<exists>p. x = MAKE_HEAP_PTR p \<and> made C t ?n t_string ?pl (t', p)"
        then obtain t1 p' where y': "y = (t1, MAKE_HEAP_PTR p')" "made C t ?n t_string ?pl (t1, p')" by auto
        then have t1: "t1 = new_object t t_string (round8 ?n) (?pl t)" "grown C t t1" "value_ok C t1 (MAKE_HEAP_PTR p')"
          using r by (auto simp: made_def source_def raise_ready_def)
        have sz: "8 \<le> round8 ?n" using round8_simps(2) [of ?n] by (simp only: sizeof_string_def)
        have old: "value_ok C t1 x" "HTYPE (mem_of t1) a = Some b" if "value_ok C t x" "HTYPE (mem_of t) a = Some b" for x a b
          using new_object_ok(2,6) [OF ok _ round8_simps(1) sz, of t_string "?pl t"] r that
          by (auto simp: t1(1) raise_ready_def links_ok_def)
        have pa: "pair_at (mem_of t1) ?eh = Inr q"
        proof -
          from q(1) obtain b where "HTYPE (mem_of t) (PTR ?eh) = Some b" "pair_of (payload b) = Some q"
            by (auto simp: pair_at_def bindE_Inr_iff)
          with old(2) [OF q(2)] show ?thesis by (simp add: pair_at_def)
        qed
        from q(1) obtain b0 where b0: "HTYPE (mem_of t) (PTR ?eh) = Some b0" by (auto simp: pair_at_def bindE_Inr_iff)
        note vq = old(1) [OF q(2) b0] old(1) [OF q(3) b0]
        have k1: "thread_ok C t1" "th_func t1 = th_func t" "op_stack_idx t1 = op_stack_idx t"
            "locals_home t1 = locals_home t"
          using t1(1,2) by (simp_all add: grown_def)
        show "defined (handler_pushed C t) (case y of (t1, ob) \<Rightarrow>
          bindE (STACK_PUSH t1 (MAKE_FUNC vm_exit_nt)) (\<lambda>t2. bindE (STACK_PUSH t2 ob) (\<lambda>t3.
          bindE (pair_at (mem_of t3) ?eh) (\<lambda>q. bindE (STACK_PUSH t3 (car q)) (\<lambda>t4.
            Inr (t4\<lparr>exception_handlers := cdr q\<rparr>, 2))))))"
          unfolding y'(1) prod.case
          by (rule push_value [OF k1(1)], simp, rule push_value, assumption, simp add: t1(3), simp add: pa,
              rule push_value, assumption, simp add: vq,
              simp add: handler_pushed_def keeps_ok_def handlers_ok vq k1)
      qed
      then show ?thesis using p True q f F by (simp add: push_exception_handler_def Let_def)
    qed
  qed
qed

section \<open>The machine\<close>

text \<open>The invariant of the machine; the running function and the function to dispatch to exist.\<close>

definition vm_ok :: "addr set \<Rightarrow> vm \<Rightarrow> bool" where
  "vm_ok C v \<longleftrightarrow> thread_ok C (thread v) \<and> consts_in C (modules v) \<and>
     (case ctl v of
        Run \<Rightarrow> interp_at (modules v) (th_func (thread v)) \<noteq> None \<and> locals_home (thread v)
      | Dispatch fp n \<Rightarrow> value_ok C (thread v) fp
      | Halted \<Rightarrow> True)"

lemma vm_ok_pc [simp]: "vm_ok C (v\<lparr>pc := n\<rparr>) = vm_ok C v"
  by (simp add: vm_ok_def split: control.split)

lemma raise_ok:
  assumes ok: "thread_ok C (thread v)" "consts_in C (modules v)" and nf: "\<not> full_gc (heap (thread v))"
    and r: "raise_ready (thread v) msg"
  shows "defined (\<lambda>v'. vm_ok C v' \<and> modules v' = modules v
      \<and> (ctl v' = Halted \<or> (\<exists>fp. ctl v' = Dispatch fp 2 \<and> 2 \<le> op_stack_idx (thread v')))) (raise v msg)"
  unfolding raise_def
proof (rule defined_bind [OF push_exception_handler_ok [OF ok(1) nf r]])
  fix y
  assume y: "handler_pushed C (thread v) y"
  then have k: "thread_ok C (fst y)" by (simp add: handler_pushed_def keeps_ok_def)
  show "defined (\<lambda>v'. vm_ok C v' \<and> modules v' = modules v
      \<and> (ctl v' = Halted \<or> (\<exists>fp. ctl v' = Dispatch fp 2 \<and> 2 \<le> op_stack_idx (thread v')))) (case y of (t, op_arg) \<Rightarrow>
      if op_arg = 0 then Inr (v\<lparr>thread := t, ctl := Halted\<rparr>)
      else bindE (STACK_POP t) (\<lambda>(t1, fp). Inr (v\<lparr>thread := t1, ctl := Dispatch fp op_arg\<rparr>)))"
  proof (cases "snd y = 0")
    case True
    then show ?thesis using k ok(2) by (simp add: case_prod_beta vm_ok_def)
  next
    case False
    then have n: "snd y = 2" "op_stack_idx (fst y) = op_stack_idx (thread v) + 3" using y by (auto simp: handler_pushed_def)
    have "defined (\<lambda>v'. vm_ok C v' \<and> modules v' = modules v
      \<and> (ctl v' = Halted \<or> (\<exists>fp. ctl v' = Dispatch fp 2 \<and> 2 \<le> op_stack_idx (thread v'))))
      (bindE (STACK_POP (fst y)) (\<lambda>(t1, fp). Inr (v\<lparr>thread := t1, ctl := Dispatch fp 2\<rparr>)))"
      by (rule pop_keeps [OF k]) (use ok(2) n in \<open>auto simp: vm_ok_def keeps_ok_def\<close>)
    then show ?thesis using n by (simp add: case_prod_beta)
  qed
qed

definition field_ready :: "vm_thread \<Rightarrow> string \<Rightarrow> bool" where
  "field_ready t who \<longleftrightarrow> IS_PAIR (mem_of t) (opstack t ! (op_stack_idx t - 1)) = Inr True
     \<or> raise_ready t (cstr (who @ '': expected pair''))"

lemma field_target_ok:
  assumes ok: "vm_ok C v" "ctl v = Run" and nf: "\<not> full_gc (heap (thread v))" and r: "field_ready (thread v) who"
    and sel: "sel = car \<or> sel = cdr"
  shows "defined (vm_ok C) (field_target sel who v)"
  unfolding field_target_def
proof (rule pop_keeps, unfold prod.case)
  show ok0: "thread_ok C (thread v)" using ok by (simp add: vm_ok_def)
  fix t1 a
  assume t1: "keeps_ok C (thread v) t1" "value_ok C t1 a"
    "t1 = (thread v)\<lparr>op_stack_idx := op_stack_idx (thread v) - 1\<rparr>" "a = opstack (thread v) ! (op_stack_idx (thread v) - 1)"
  then have ok1: "thread_ok C t1" by (simp add: keeps_ok_def)
  from IS_TYPE_ok [OF ok1 t1(2), of t_pair] obtain p where p: "IS_PAIR (mem_of t1) a = Inr p" by (auto simp: IS_PAIR_def)
  have self: "keeps_ok C (thread v) t1" by (rule t1(1))
  show "defined (vm_ok C) (bindE (IS_PAIR (mem_of t1) a) (\<lambda>p.
      if \<not> p then raise (v\<lparr>thread := t1\<rparr>) (cstr (who @ '': expected pair''))
      else bindE (pair_at (mem_of t1) a) (\<lambda>q. bindE (STACK_PUSH t1 (sel q)) (\<lambda>t2. Inr (v\<lparr>thread := t2\<rparr>)))))"
  proof (cases p)
    case True
    then obtain q where q: "pair_at (mem_of t1) a = Inr q" "value_ok C t1 (car q)" "value_ok C t1 (cdr q)"
      using pair_ok [OF ok1 t1(2)] p by metis
    then have "value_ok C t1 (sel q)" using sel by auto
    from keeps_push [OF self this] have "defined (vm_ok C) (bindE (STACK_PUSH t1 (sel q)) (\<lambda>t2. Inr (v\<lparr>thread := t2\<rparr>)))"
      by (rule defined_bind) (use ok in \<open>auto simp: vm_ok_def keeps_ok_def\<close>)
    then show ?thesis using True p q by simp
  next
    case False
    then have "raise_ready (thread v) (cstr (who @ '': expected pair''))" using r p t1(3,4) by (simp add: field_ready_def)
    then have "raise_ready t1 (cstr (who @ '': expected pair''))" using t1(3) by (simp add: raise_ready_def)
    from defined_mono [OF raise_ok [of C "v\<lparr>thread := t1\<rparr>", simplified, OF ok1 _ _ this]] ok nf t1(3)
    have "defined (vm_ok C) (raise (v\<lparr>thread := t1\<rparr>) (cstr (who @ '': expected pair'')))" by (simp add: vm_ok_def)
    then show ?thesis using False p by simp
  qed
qed

text \<open>Jumps stay in the code, counted in words.\<close>

definition op_ready :: "vm \<Rightarrow> func_t \<Rightarrow> opcode \<Rightarrow> int \<Rightarrow> bool" where
  "op_ready v func op i =
     (case op of
        JUMP_IF_FALSE \<Rightarrow> 0 \<le> int (pc v) + i * 2
      | JUMP_FORWARD \<Rightarrow> 0 \<le> int (pc v) + i * 2
      | FUNC_CALL \<Rightarrow> True
      | OP_CAR \<Rightarrow> field_ready (thread v) ''car''
      | OP_CDR \<Rightarrow> field_ready (thread v) ''cdr''
      | _ \<Rightarrow> simple_ready v func op i)"

lemma vm_ok_with_thread:
  assumes "vm_ok C v" "ctl v = Run" and "defined (keeps_ok C (thread v)) (f (thread v))"
  shows "defined (vm_ok C) (with_thread v f)"
  unfolding with_thread_def
  by (rule defined_bind [OF assms(3)]) (use assms(1,2) in \<open>auto simp: vm_ok_def keeps_ok_def\<close>)

lemma exec_opcode_ok:
  assumes ok: "vm_ok C v" "ctl v = Run" and nf: "\<not> full_gc (heap (thread v))" and r: "op_ready v func op i"
  shows "defined (vm_ok C) (exec_opcode v func op i)"
proof -
  have t: "thread_ok C (thread v)" "consts_in C (modules v)" using ok by (auto simp: vm_ok_def)
  have j: "defined (vm_ok C) (jump w i)" if "vm_ok C w" "pc w = pc v" "0 \<le> int (pc v) + i * 2" for w
    using that by (simp add: jump_def Let_def)
  have jif: "defined (vm_ok C) (bindE (STACK_POP (thread v)) (\<lambda>(t, x).
      if IS_FALSE x then jump (v\<lparr>thread := t\<rparr>) i else Inr (v\<lparr>thread := t\<rparr>)))" if "0 \<le> int (pc v) + i * 2"
    by (rule pop_keeps [OF t(1)]) (use ok that in \<open>auto simp: vm_ok_def keeps_ok_def intro!: j\<close>)
  have call: "defined (vm_ok C) (bindE (STACK_POP (thread v)) (\<lambda>(t, fp). Inr (v\<lparr>thread := t, ctl := Dispatch fp i\<rparr>)))"
    by (rule pop_keeps [OF t(1)]) (use ok in \<open>auto simp: vm_ok_def keeps_ok_def\<close>)
  note simp = vm_ok_with_thread [OF ok, of "simple_target v func op i", OF simple_target_ok [OF t(1) nf t(2)]]
  note fields = field_target_ok [OF ok nf, of "''car''" car] field_target_ok [OF ok nf, of "''cdr''" cdr]
  show ?thesis
    using r j [OF ok(1)] jif call simp fields by (cases op) (simp_all add: exec_opcode_def op_ready_def)
qed

text \<open>The opcode at the program counter exists and is ready.\<close>

definition run_ready :: "vm \<Rightarrow> bool" where
  "run_ready v =
     (case cur_func v of
        Inl _ \<Rightarrow> False
      | Inr func \<Rightarrow> pc v + 1 < length (f_opcode func) \<and>
          (case decode_op (f_opcode func ! pc v) of
             None \<Rightarrow> False
           | Some op \<Rightarrow> op_ready (v\<lparr>pc := pc v + 2\<rparr>) func op (sint (f_opcode func ! (pc v + 1)))))"

lemma run_step_ok:
  assumes ok: "vm_ok C v" "ctl v = Run" and nf: "\<not> full_gc (heap (thread v))" and r: "run_ready v"
  shows "defined (vm_ok C) (run_step v)"
proof -
  from r obtain func op where f: "cur_func v = Inr func" "pc v + 1 < length (f_opcode func)"
      "decode_op (f_opcode func ! pc v) = Some op"
      "op_ready (v\<lparr>pc := pc v + 2\<rparr>) func op (sint (f_opcode func ! (pc v + 1)))"
    by (auto simp: run_ready_def split: sum.splits option.splits)
  have "vm_ok C (v\<lparr>pc := pc v + 2\<rparr>)" using ok by simp
  from exec_opcode_ok [OF this _ _ f(4)] ok nf f show ?thesis by (simp add: run_step_def)
qed

end
