(* ===== verification/Vm_Calls.thy ===== *)
theory Vm_Calls
  imports Vm_Safety
begin

text \<open>
  Entering a function on a thread that satisfies the invariant: the rest list, the placement of the
  arguments, and the bindmap.
\<close>

section \<open>Registers that are no roots\<close>

lemma thread_ok_regs [simp]:
  "thread_ok C (t\<lparr>th_func := p\<rparr>) = thread_ok C t" "thread_ok C (t\<lparr>th_bindmap := bm\<rparr>) = thread_ok C t"
  "thread_ok C (t\<lparr>th_objects := ob\<rparr>) = thread_ok C t" "thread_ok C (t\<lparr>tramp_argc := k\<rparr>) = thread_ok C t"
  "thread_ok C (t\<lparr>tramp_func := x\<rparr>) = thread_ok C t"
proof -
  have "valid_root r (t\<lparr>th_func := p\<rparr>) = valid_root r t" "valid_root r (t\<lparr>th_bindmap := bm\<rparr>) = valid_root r t"
      "valid_root r (t\<lparr>th_objects := ob\<rparr>) = valid_root r t" "valid_root r (t\<lparr>tramp_argc := k\<rparr>) = valid_root r t"
      "valid_root r (t\<lparr>tramp_func := x\<rparr>) = valid_root r t" for r
    by (cases r; simp add: valid_root_def)+
  moreover have "root_objs r (t\<lparr>th_func := p\<rparr>) = root_objs r t" "root_objs r (t\<lparr>th_bindmap := bm\<rparr>) = root_objs r t"
      "root_objs r (t\<lparr>th_objects := ob\<rparr>) = root_objs r t" "root_objs r (t\<lparr>tramp_argc := k\<rparr>) = root_objs r t"
      "root_objs r (t\<lparr>tramp_func := x\<rparr>) = root_objs r t" for r
    by (cases r; simp)+
  ultimately show "thread_ok C (t\<lparr>th_func := p\<rparr>) = thread_ok C t" "thread_ok C (t\<lparr>th_bindmap := bm\<rparr>) = thread_ok C t"
      "thread_ok C (t\<lparr>th_objects := ob\<rparr>) = thread_ok C t" "thread_ok C (t\<lparr>tramp_argc := k\<rparr>) = thread_ok C t"
      "thread_ok C (t\<lparr>tramp_func := x\<rparr>) = thread_ok C t"
    by (simp_all add: thread_ok_def thread_wf_def env_root_ok_def env_ok_def)
qed

lemma value_ok_regs [simp]:
  "value_ok C (t\<lparr>th_func := p\<rparr>) = value_ok C t" "value_ok C (t\<lparr>th_bindmap := bm\<rparr>) = value_ok C t"
  "value_ok C (t\<lparr>th_objects := ob\<rparr>) = value_ok C t" "value_ok C (t\<lparr>th_env := e\<rparr>) = value_ok C t"
  "value_ok C (t\<lparr>th_closure := c\<rparr>) = value_ok C t" "value_ok C (t\<lparr>heap_env := k\<rparr>) = value_ok C t"
  "value_ok C (t\<lparr>tramp_func := x\<rparr>) = value_ok C t" "value_ok C (t\<lparr>tramp_argc := n\<rparr>) = value_ok C t"
  "value_ok C (t\<lparr>exception_handlers := y\<rparr>) = value_ok C t" "value_ok C (t\<lparr>lib_cache := z\<rparr>) = value_ok C t"
  by (rule value_ok_heap, simp)+

text \<open>The environment register and where the locals are.\<close>

lemma env_reg_ok:
  assumes ok: "thread_ok C t" and e: "e = 0 \<or> valid_addr (heap t) e \<and> hdr_type (heap t) e = Some t_env"
    and c: "c = 0 \<or> valid_addr (heap t) c" and k: "k \<noteq> 0 \<longrightarrow> e \<noteq> 0"
  shows "thread_ok C (t\<lparr>th_env := e, th_closure := c, heap_env := k\<rparr>)"
proof (rule thread_ok_roots [OF ok])
  fix r
  show "root_ok (value_ok C t) (valid_addr (heap t)) r (t\<lparr>th_env := e, th_closure := c, heap_env := k\<rparr>)"
    using thread_okE(1) [OF ok, of r] e c by (cases r) auto
qed (use thread_okE(2,3) [OF ok] e k in auto)

lemma th_env_valid:
  assumes "thread_ok C t"
  shows "th_env t = 0 \<or> valid_addr (heap t) (th_env t) \<and> hdr_type (heap t) (th_env t) = Some t_env"
    and "th_closure t = 0 \<or> valid_addr (heap t) (th_closure t)"
  using thread_okE(1) [OF assms, of R_Env] thread_okE(1) [OF assms, of R_Closure] thread_okE(4) [OF assms] by auto

lemma heap_env_ok:
  assumes ok: "thread_ok C t" and k: "k \<noteq> 0 \<longrightarrow> th_env t \<noteq> 0" shows "thread_ok C (t\<lparr>heap_env := k\<rparr>)"
  using env_reg_ok [OF ok th_env_valid [OF ok] k] by simp

section \<open>The rest list\<close>

lemma heap_alloc_room:
  assumes "thread_ok C t" and "n < 2 ^ 31" and "round8 n + 8 \<le> free_mem (fresh (heap t))"
  shows "heap_alloc t (of_nat n) tid = Inr (alloc_at t tid (round8 n), new_addr t)"
  using alloc_fresh_wf [OF thread_okE(6) [OF assms(1)] assms(2), of tid] assms(3) by (simp add: heap_alloc_def)

lemma new_pair_free [simp]: "free_mem (fresh (heap (new_pair t x y l n))) = free_mem (fresh (heap t)) - 32"
  by (simp add: new_pair_def new_object_def set_object_alloc_at) (simp add: alloc_at_def Let_def)

lemma new_pair_only_heap: "\<exists>h. new_pair t x y l n = t\<lparr>heap := h\<rparr>"
  by (simp add: new_pair_def new_object_def set_object_alloc_at) blast

text \<open>While there is room, \<^verbatim>\<open>list\<close> takes its elements from the stack whether or not they are roots.\<close>

definition only_heap :: "vm_thread \<Rightarrow> vm_thread \<Rightarrow> bool" where
  "only_heap t t' \<longleftrightarrow> t' = t\<lparr>heap := heap t', local_roots := local_roots t'\<rparr>"

lemma only_heap_I: "t' = t\<lparr>heap := h, local_roots := ls\<rparr> \<Longrightarrow> only_heap t t'"
  by (simp add: only_heap_def)

lemma only_heap_fields:
  assumes "only_heap t t'"
  shows "op_stack_idx t' = op_stack_idx t" "opstack t' = opstack t" "op_stack_size t' = op_stack_size t"
    "th_env t' = th_env t" "th_func t' = th_func t" "th_bindmap t' = th_bindmap t" "tramp_func t' = tramp_func t"
  by (subst assms [unfolded only_heap_def], simp)+

lemma only_heap_trans:
  assumes "only_heap t t1" "only_heap t1 t2" shows "only_heap t t2"
proof -
  have "t2 = t\<lparr>heap := heap t1, local_roots := local_roots t1\<rparr>\<lparr>heap := heap t2, local_roots := local_roots t2\<rparr>"
    using assms unfolding only_heap_def by metis
  then show ?thesis by (simp add: only_heap_def)
qed

lemma list_loop_ok:
  assumes "thread_ok C t" and "local_roots t = Some [l]" and "32 * i \<le> free_mem (fresh (heap t))"
    and "\<forall>j<i. a + j < length (opstack t) \<and> value_ok C t (opstack t ! (a + j))"
  shows "\<exists>t' l'. list_loop i (\<lambda>j. stack_at (a + j)) t = Inr t' \<and> thread_ok C t' \<and> only_heap t t'
    \<and> local_roots t' = Some [l'] \<and> full_gc (heap t') = full_gc (heap t)"
  using assms
proof (induction i arbitrary: t l)
  case 0
  moreover have "only_heap t t" by (simp add: only_heap_def)
  ultimately show ?case by simp
next
  case (Suc i)
  have vi: "value_ok C t (opstack t ! (a + i))" "a + i < length (opstack t)" using Suc.prems(4) by auto
  have vl: "value_ok C t l" using thread_okE(1) [OF Suc.prems(1), of R_Locals] Suc.prems(2) by simp
  have fits: "32 \<le> free_mem (fresh (heap t))" using Suc.prems(3) by simp
  have rd: "stack_at (a + i) (alloc_at t t_pair 24) = Inr (opstack t ! (a + i))"
      "get_local 0 (alloc_at t t_pair 24) = Inr l"
    using vi(2) Suc.prems(2) by (simp_all add: stack_at_def get_local_def)
  from pair_built [where a = "stack_at (a + i)" and d = "get_local 0", OF Suc.prems(1) fits vi(1) vl rd] obtain f n where
    p: "fill_pair (stack_at (a + i)) (get_local 0) (alloc_at t t_pair 24, new_addr t) =
        Inr (new_pair t (opstack t ! (a + i)) l f n, MAKE_HEAP_PTR (new_addr t))"
      "thread_ok C (new_pair t (opstack t ! (a + i)) l f n)"
      "value_ok C (new_pair t (opstack t ! (a + i)) l f n) (MAKE_HEAP_PTR (new_addr t))"
      "\<And>x. value_ok C t x \<Longrightarrow> value_ok C (new_pair t (opstack t ! (a + i)) l f n) x"
    by metis
  let ?t1 = "new_pair t (opstack t ! (a + i)) l f n"
  let ?t2 = "set_local 0 (MAKE_HEAP_PTR (new_addr t)) ?t1"
  have "cons heap_allocator t (stack_at (a + i)) (get_local 0) = Inr (?t1, MAKE_HEAP_PTR (new_addr t))"
    using heap_alloc_room [OF Suc.prems(1), of 24 t_pair] fits p(1) by (simp add: cons_fill sizeof_pair_def)
  then have step: "list_loop (Suc i) (\<lambda>j. stack_at (a + j)) t = list_loop i (\<lambda>j. stack_at (a + j)) ?t2" by simp
  have ok2: "thread_ok C ?t2" by (rule set_local_ok [OF p(2,3)])
  have l2: "local_roots ?t2 = Some [MAKE_HEAP_PTR (new_addr t)]" using Suc.prems(2) by (simp add: set_local_def)
  have v2: "value_ok C ?t2 = value_ok C ?t1" by (simp add: set_local_def)
  have f2: "fresh (heap ?t2) = fresh (heap ?t1)" "opstack ?t2 = opstack t" "full_gc (heap ?t2) = full_gc (heap t)"
    by (simp_all add: set_local_def)
  have "32 * i \<le> free_mem (fresh (heap ?t2))" using Suc.prems(3) by (simp add: f2)
  moreover have "\<forall>j<i. a + j < length (opstack ?t2) \<and> value_ok C ?t2 (opstack ?t2 ! (a + j))"
    using Suc.prems(4) p(4) by (simp add: f2 v2)
  ultimately obtain t' l' where "list_loop i (\<lambda>j. stack_at (a + j)) ?t2 = Inr t'" "thread_ok C t'" "only_heap ?t2 t'"
      "local_roots t' = Some [l']" "full_gc (heap t') = full_gc (heap t)"
    using Suc.IH [OF ok2 l2] f2(3) by auto
  moreover have "only_heap t ?t2"
  proof -
    obtain h where "?t1 = t\<lparr>heap := h\<rparr>" using new_pair_only_heap by blast
    then show ?thesis by (intro only_heap_I) (simp add: set_local_def)
  qed
  ultimately show ?case using step by (auto intro: only_heap_trans)
qed

lemma list_of_args_ok:
  assumes ok: "thread_ok C t" and n: "0 \<le> n" "32 * nat n \<le> free_mem (fresh (heap t))"
    and v: "\<forall>j < nat n. a + j < length (opstack t) \<and> value_ok C t (opstack t ! (a + j))"
  shows "\<exists>t' x. list_of_args (\<lambda>j. stack_at (a + j)) n t = Inr (t', x) \<and> thread_ok C t' \<and> only_heap t t'
    \<and> value_ok C t' x \<and> full_gc (heap t') = full_gc (heap t)"
proof -
  let ?t0 = "set_local 0 cnull (define_locals 1 t)"
  have l: "local_roots ?t0 = Some [cnull]" by (simp add: set_local_def define_locals_def)
  have ok0: "thread_ok C ?t0" by (intro set_local_ok define_locals_ok ok) simp
  have s: "fresh (heap ?t0) = fresh (heap t)" "opstack ?t0 = opstack t" "value_ok C ?t0 = value_ok C t" "full_gc (heap ?t0) = full_gc (heap t)"
    by (simp_all add: set_local_def define_locals_def)
  from list_loop_ok [OF ok0 l, of "nat n" a] n v obtain t' l' where
    t': "list_loop (nat n) (\<lambda>j. stack_at (a + j)) ?t0 = Inr t'" "thread_ok C t'" "only_heap ?t0 t'"
      "local_roots t' = Some [l']" "full_gc (heap t') = full_gc (heap t)"
    unfolding s by blast
  have "value_ok C t' l'" using thread_okE(1) [OF t'(2), of R_Locals] t'(4) by simp
  then have "value_ok C (clear_locals t') l'" by (simp add: clear_locals_def)
  moreover have "only_heap t ?t0" by (simp add: only_heap_def set_local_def define_locals_def)
  then have "only_heap t (clear_locals t')"
    by (rule only_heap_trans [OF only_heap_trans [OF _ t'(3)]]) (simp add: only_heap_def clear_locals_def)
  moreover have "full_gc (heap (clear_locals t')) = full_gc (heap t)" using t'(5) by (simp add: clear_locals_def)
  moreover have "list_of_args (\<lambda>j. stack_at (a + j)) n t = Inr (clear_locals t', l')"
    using t'(1,4) by (simp add: list_of_args_def get_local_def)
  ultimately show ?thesis using clear_locals_ok [OF t'(2)] by blast
qed

text \<open>
  The surplus arguments are off the stack while the list is made, so there must be room for it: a
  collection would not update them.
\<close>

definition swallow_ready :: "vm_thread \<Rightarrow> func_t \<Rightarrow> int \<Rightarrow> bool" where
  "swallow_ready t func n \<longleftrightarrow> 0 \<le> n \<and> n \<le> int (op_stack_idx t) \<and>
     (f_swallow func \<longrightarrow> int (f_argc func) \<le> n \<and> 32 * nat (n - int (f_argc func)) \<le> free_mem (fresh (heap t)))"

definition taken :: "func_t \<Rightarrow> int \<Rightarrow> int" where
  "taken func n = (if f_swallow func then int (f_argc func) + 1 else n)"

lemma swallow_args_ok:
  assumes ok: "thread_ok C t" and r: "swallow_ready t func n"
  shows "defined (\<lambda>(t', m). thread_ok C t' \<and> m = taken func n \<and> 0 \<le> m \<and> m \<le> int (op_stack_idx t')
      \<and> th_func t' = th_func t \<and> th_bindmap t' = th_bindmap t \<and> th_env t' = th_env t
      \<and> full_gc (heap t') = full_gc (heap t)) (swallow_args t func n)"
proof (cases "f_swallow func \<and> n \<noteq> int (f_argc func)")
  case True
  define i where "i = n - int (f_argc func)"
  have i: "0 < i" "i \<le> int (op_stack_idx t)" "32 * nat i \<le> free_mem (fresh (heap t))" "i = n - int (f_argc func)"
      "n \<le> int (op_stack_idx t)"
    using r True by (auto simp: swallow_ready_def i_def)
  define a where "a = nat (int (op_stack_idx t) - i)"
  have a: "args_base t i = Inr a" "a \<le> op_stack_idx t" "int a = int (op_stack_idx t) - i" using i(1,2)
    by (auto simp: args_base_def Let_def a_def)
  let ?t = "t\<lparr>op_stack_idx := a\<rparr>"
  note e = thread_okE [OF ok]
  have "set (take a (opstack t)) \<subseteq> set (take (op_stack_idx t) (opstack t))" by (rule set_take_subset_set_take [OF a(2)])
  then have "\<forall>x \<in> set (take a (opstack t)). value_ok C t x" using e(1) [of R_Stack] by auto
  from set_stack_ok [OF ok e(2) _ this] a(2) e(3) have ok1: "thread_ok C ?t" by simp
  have "\<forall>j < nat i. a + j < length (opstack ?t) \<and> value_ok C ?t (opstack ?t ! (a + j))"
    using stack_values [OF ok] a(3) i(1) by auto
  from list_of_args_ok [OF ok1 _ _ this] i(1,3) obtain t' x where
    l: "list_of_args (\<lambda>j. stack_at (a + j)) i ?t = Inr (t', x)" "thread_ok C t'" "only_heap ?t t'" "value_ok C t' x"
      "full_gc (heap t') = full_gc (heap t)"
    by auto
  note oh = only_heap_fields [OF l(3)]
  have "swallow_args t func n = bindE (STACK_PUSH t' x) (\<lambda>t2. Inr (t2, n - (i - 1)))"
    using True a(1) l(1) i(1) by (simp add: swallow_args_def Let_def i(4) [symmetric])
  moreover have "defined (\<lambda>(t', m). thread_ok C t' \<and> m = taken func n \<and> 0 \<le> m \<and> m \<le> int (op_stack_idx t')
      \<and> th_func t' = th_func t \<and> th_bindmap t' = th_bindmap t \<and> th_env t' = th_env t
      \<and> full_gc (heap t') = full_gc (heap t)) (bindE (STACK_PUSH t' x) (\<lambda>t2. Inr (t2, n - (i - 1))))"
    by (rule defined_bind [OF push_ok [OF l(2,4)]])
      (use oh l(5) a(3) i True in \<open>auto simp: taken_def\<close>)
  ultimately show ?thesis by simp
next
  case False
  have "defined (\<lambda>(t', m). thread_ok C t' \<and> m = taken func n \<and> 0 \<le> m \<and> m \<le> int (op_stack_idx t')
      \<and> th_func t' = th_func t \<and> th_bindmap t' = th_bindmap t \<and> th_env t' = th_env t
      \<and> full_gc (heap t') = full_gc (heap t)) (bindE (STACK_PUSH t cnull) (\<lambda>t1. Inr (t1, n + 1)))" if "f_swallow func"
    by (rule defined_bind [OF push_ok [OF ok]])
      (use False that r in \<open>auto simp: swallow_ready_def taken_def\<close>)
  then show ?thesis using False ok r by (auto simp: swallow_args_def taken_def swallow_ready_def)
qed

section \<open>The arguments\<close>

text \<open>An environment for the locals must be large enough for the arguments.\<close>

definition place_ready :: "func_t \<Rightarrow> int \<Rightarrow> bool" where
  "place_ready func n \<longleftrightarrow> (f_heap_env func \<noteq> 0 \<longrightarrow> n \<le> env_sz func \<and> 0 \<le> env_sz func \<and> env_sz func < 2 ^ 27)"

lemma read_stack_ok:
  assumes ok: "thread_ok C t" and n: "a + n \<le> op_stack_idx t"
  obtains xs where "read_stack t a n = Inr xs" "length xs = n" "\<forall>x \<in> set xs. value_ok C t x"
    "xs = take n (drop a (opstack t))"
proof -
  note e = thread_okE [OF ok]
  let ?xs = "take n (drop a (opstack t))"
  have "?xs = take n (drop a (take (op_stack_idx t) (opstack t)))"
    using n by (simp add: drop_take min_def)
  then have "set ?xs \<subseteq> set (take (op_stack_idx t) (opstack t))" by (metis order_trans set_drop_subset set_take_subset)
  then have "\<forall>x \<in> set ?xs. value_ok C t x" using e(1) [of R_Stack] by auto
  with that e(2,3) n show ?thesis by (simp add: read_stack_def)
qed

definition placed :: "addr set \<Rightarrow> vm_thread \<Rightarrow> func_t \<Rightarrow> vm_thread \<Rightarrow> bool" where
  "placed C t func t' \<longleftrightarrow> thread_ok C (t'\<lparr>heap_env := f_heap_env func\<rparr>) \<and> th_func t' = th_func t
     \<and> th_bindmap t' = th_bindmap t \<and> locals_home (t'\<lparr>heap_env := f_heap_env func\<rparr>)"

lemma made_env:
  assumes m: "made C t n t_env pl (t1, p)"
  shows "thread_ok C t1" "th_func t1 = th_func t" "th_bindmap t1 = th_bindmap t" "op_stack_idx t1 = op_stack_idx t"
    "p \<noteq> 0" "valid_addr (heap t1) p" "hdr_type (heap t1) p = Some t_env"
  using m by (auto simp: made_def grown_def same_shape_def valid_addr_def)

lemma place_args_ok:
  assumes ok: "thread_ok C t" and nf: "\<not> full_gc (heap t)" and n: "0 \<le> n" "n \<le> int (op_stack_idx t)"
    and r: "place_ready func n"
  shows "defined (placed C t func) (place_args t func n)"
proof -
  define a where "a = nat (int (op_stack_idx t) - n)"
  have a: "args_base t n = Inr a" "a + nat n = op_stack_idx t" using n by (auto simp: args_base_def Let_def a_def)
  note e = thread_okE [OF ok]
  show ?thesis
  proof (cases "f_heap_env func = 0")
    case False
    then have sz: "n \<le> env_sz func" "0 \<le> env_sz func" "env_sz func < 2 ^ 27" using r by (auto simp: place_ready_def)
    let ?k = "\<lambda>(t1, p). let t2 = t1\<lparr>th_env := p, th_objects := In_Env (p + sizeof_env)\<rparr> in
         if n \<noteq> 0 then bindE (read_stack t2 a (nat n)) (\<lambda>xs.
             write_slots (t2\<lparr>op_stack_idx := 0\<rparr>) (p + sizeof_env) 0 xs)
         else Inr t2"
    have par: "th_env t0 = 0 \<or> valid_addr (heap t0) (th_env t0) \<and> hdr_type (heap t0) (th_env t0) = Some t_env"
      if "grown C t t0" for t0
      by (rule th_env_valid(1) [of C]) (use that in \<open>simp add: grown_def\<close>)
    have "defined (placed C t func) (bindE (env_new t th_env (env_sz func) (f_depth func)) ?k)"
    proof (rule defined_bind [OF env_new_ok [OF ok nf sz(2,3) par]])
      fix y
      let ?pl = "\<lambda>t0. P_Env \<lparr>prev = th_env t0, env_size = env_sz func, depth = f_depth func,
        objects = new_addr t0 + sizeof_env, env_slots = replicate (nat (env_sz func)) 0\<rparr>"
      assume y: "made C t (sizeof_env + sizeof_obj * nat (env_sz func)) t_env ?pl y"
      obtain t1 p where yp: "y = (t1, p)" by (cases y)
      note m = made_env [OF y [unfolded yp]]
      have "thread_ok C (t1\<lparr>th_env := p\<rparr>)"
        using env_reg_ok [OF m(1) _ th_env_valid(2) [OF m(1)], of p "heap_env t1"] m(5-7) by simp
      then have ok2: "thread_ok C (t1\<lparr>th_env := p, th_objects := In_Env (p + sizeof_env)\<rparr>)" (is "thread_ok C ?t2")
        by (simp only: thread_ok_regs)
      have pl: "placed C t func t'" if "thread_ok C t'" "th_env t' = p" "th_objects t' = In_Env (p + sizeof_env)"
          "th_func t' = th_func t1" "th_bindmap t' = th_bindmap t1" for t'
        using that m(2,3,5) heap_env_ok [OF that(1)] by (simp add: placed_def locals_home_def)
      show "defined (placed C t func) (?k y)"
      proof (cases "n = 0")
        case True
        then show ?thesis using pl [OF ok2] by (simp add: yp)
      next
        case False
        have "a + nat n \<le> op_stack_idx ?t2" using a(2) m(4) by simp
        from read_stack_ok [OF ok2 this] obtain xs where xs: "read_stack ?t2 a (nat n) = Inr xs" "length xs = nat n"
            "\<forall>x \<in> set xs. value_ok C ?t2 x"
          by metis
        let ?t3 = "?t2\<lparr>op_stack_idx := 0\<rparr>"
        have ok3: "thread_ok C ?t3"
          using set_stack_ok [OF ok2 thread_okE(2) [OF ok2], of 0] thread_okE(3) [OF ok2] by simp
        have v3: "\<forall>x \<in> set xs. value_ok C ?t3 x" using xs(3) by simp
        have "env_at (mem_of t1) p = Inr (the (env_of (?pl t0)))"
          if "HTYPE (mem_of t1) p = Some ((zero_block t_env z)\<lparr>payload := ?pl t0\<rparr>)" for t0 z
          using that by (simp add: env_at_def)
        then obtain t0 where "env_at (mem_of t1) p = Inr (the (env_of (?pl t0)))"
          using y unfolding yp made_def by fastforce
        then have sr: "slot_ready ?t3 (p + sizeof_env) (0 + int (length xs) - 1)"
          using m(6) sz xs(2) False n by (simp add: slot_ready_def nat_less_iff)
        have ne: "xs \<noteq> []" using xs(2) False n by auto
        from write_slots_ok [OF ok3 sr ne _ v3] obtain t4 h where
          "write_slots ?t3 (p + sizeof_env) 0 xs = Inr t4" "thread_ok C t4" "t4 = ?t3\<lparr>heap := h\<rparr>"
          by blast
        then show ?thesis using pl [of t4] xs(1) False by (simp add: yp)
      qed
    qed simp_all
    then show ?thesis using False a(1) by (simp add: place_args_def)
  next
    case True
    have pl: "placed C t func t'"
      if st: "t' = t\<lparr>opstack := st, op_stack_idx := i, th_objects := ob\<rparr>" "length st = op_stack_size t"
        "i < op_stack_size t" "\<forall>x \<in> set (take i st). value_ok C t x" for t' st ob i
    proof -
      have "thread_ok C t'" using set_stack_ok [OF ok st(2-4)] unfolding st(1) by (simp only: thread_ok_regs)
      then have "thread_ok C (t'\<lparr>heap_env := 0\<rparr>)" by (rule heap_env_ok) simp
      then show ?thesis using True by (simp add: placed_def locals_home_def st(1))
    qed
    have "a + nat n \<le> op_stack_idx t" using a(2) by simp
    from read_stack_ok [OF ok this] obtain xs where xs: "read_stack t a (nat n) = Inr xs" "length xs = nat n"
        "\<forall>x \<in> set xs. value_ok C t x"
      by metis
    have "placed C t func (t\<lparr>opstack := splice 0 xs (opstack t), th_objects := On_Stack 0, op_stack_idx := nat n\<rparr>)"
      by (rule pl [where st = "splice 0 xs (opstack t)" and i = "nat n" and ob = "On_Stack 0"])
        (use xs e(2,3) n in \<open>auto simp: splice_def\<close>)
    moreover have "placed C t func (t\<lparr>th_objects := On_Stack a\<rparr>)"
      by (rule pl [where st = "opstack t" and i = "op_stack_idx t" and ob = "On_Stack a"])
        (use e(1) [of R_Stack] e(2,3) in simp_all)
    ultimately show ?thesis using True a(1) xs(1) by (simp add: place_args_def)
  qed
qed

section \<open>The bindmap\<close>

lemma env_display_valid:
  assumes ok: "thread_ok C t"
  shows "env_display m p i = Some y \<Longrightarrow> m = mem_of t \<Longrightarrow> valid_addr (heap t) p \<Longrightarrow> hdr_type (heap t) p = Some t_env \<Longrightarrow>
    y = Inr q \<Longrightarrow> valid_addr (heap t) q \<and> hdr_type (heap t) q = Some t_env"
proof (induction rule: env_display.raw_induct [rotated, consumes 1, case_names step])
  case (step f m p i y)
  note ho = thread_okE(7-9) [OF ok]
  note m = step(3)
  from step(2,6) obtain e where e: "env_at (mem_of t) p = Inr e"
      "(if i = depth e then Some (Inr p) else if prev e = 0 then Some (Inl (Fatal ''null env''))
        else f m (prev e) i) = Some y"
    by (auto simp flip: m split: sum.splits)
  show ?case
  proof (cases "i = depth e")
    case True
    then show ?thesis using e(2) step(4-6) by auto
  next
    case False
    then have n: "prev e \<noteq> 0" "f m (prev e) i = Some y" using e(2) step(6) by (auto split: if_splits)
    from step(4) have a: "8 \<le> p" "heap_hdr (heap t) (p - 8)" by (auto simp: valid_addr_def)
    from e(1) obtain b where b: "store (heap t) (p - 8) = Some b" "payload b = P_Env e"
      by (auto simp: env_at_def HTYPE_def BHDR_SIZE_def bindE_Inr_iff split: if_splits elim!: env_of.elims)
    then have "block_ok (heap t) b" "\<not> forward (hdr b)"
      using ho(2,3) a by (auto simp: heap_wf_def graph_ok_def settled_def)
    then have "valid_addr (heap t) (prev e)" using b(2) n(1) by (simp add: block_ok_def links_ok_def)
    moreover have "hdr_type (heap t) (prev e) = Some t_env"
      using ho(1) a b n(1) by (auto simp: heap_ok_def links_typed_def)
    ultimately show ?thesis using step(1) [OF n(2) m] step(6) by simp
  qed
qed

text \<open>
  The bindmap goes on top of the operand stack; every environment it refers to must be on the chain of the
  current one.
\<close>

definition bindmap_ready :: "vm_thread \<Rightarrow> func_t \<Rightarrow> bool" where
  "bindmap_ready t func \<longleftrightarrow> th_env t \<noteq> 0 \<and> bmcount func \<le> length (f_bindmap func)
     \<and> op_stack_idx t + bmcount func < op_stack_size t
     \<and> (\<forall>d \<in> set (take (bmcount func) (f_bindmap func)).
          \<not> isl (display_env (mem_of t) (th_env t) d))"

lemma not_isl: "\<not> isl x \<longleftrightarrow> (\<exists>q. x = Inr q)"
  by (cases x) auto

lemma display_env_ok:
  assumes ok: "thread_ok C t" and e: "th_env t \<noteq> 0" and d: "display_env (mem_of t) (th_env t) d = Inr q"
  shows "value_ok C t (MAKE_HEAP_PTR q)"
proof -
  from d have "env_display (mem_of t) (th_env t) d = Some (Inr q)" by (auto simp: display_env_def split: option.splits)
  from env_display_valid [OF ok this refl _ _ refl] th_env_valid(1) [OF ok] e have v: "valid_addr (heap t) q" by auto
  have "layout_ok (heap t)" using thread_okE(8) [OF ok] by (simp add: heap_wf_def)
  from PTR_heap_ptr [OF this v] v show ?thesis by (simp add: value_ok_def valid_obj_def)
qed

lemma bindmap_loop_ok:
  assumes "thread_ok C (t\<lparr>op_stack_idx := i\<rparr>)" and "i + length ds < op_stack_size t" and "th_env t \<noteq> 0"
    and "\<forall>d \<in> set ds. \<exists>q. display_env (mem_of t) (th_env t) d = Inr q"
  shows "\<exists>st. bindmap_loop ds i t = Inr (t\<lparr>opstack := st\<rparr>) \<and> thread_ok C (t\<lparr>opstack := st, op_stack_idx := i + length ds\<rparr>)"
  using assms
proof (induction ds arbitrary: i t)
  case Nil
  then show ?case by (auto intro!: exI [of _ "opstack t"])
next
  case (Cons d ds)
  let ?t = "t\<lparr>op_stack_idx := i\<rparr>"
  note e = thread_okE [OF Cons.prems(1)]
  from Cons.prems(4) obtain q where q: "display_env (mem_of t) (th_env t) d = Inr q" by auto
  have v: "value_ok C ?t (MAKE_HEAP_PTR q)"
    using display_env_ok [OF Cons.prems(1), of d q] Cons.prems(3) q by simp
  let ?st = "(opstack t)[i := MAKE_HEAP_PTR q]"
  have w: "write_stack t i (MAKE_HEAP_PTR q) = Inr (t\<lparr>opstack := ?st\<rparr>)"
    using e(2) Cons.prems(2) by (simp add: write_stack_def)
  have "\<forall>y \<in> set (take (Suc i) ?st). value_ok C ?t y"
    using v e(1) [of R_Stack] e(2) Cons.prems(2) by (simp add: take_Suc_conv_app_nth)
  from set_stack_ok [OF Cons.prems(1) _ _ this] e(2) Cons.prems(2)
  have "thread_ok C (t\<lparr>opstack := ?st, op_stack_idx := Suc i\<rparr>)" by simp
  from Cons.IH [where t = "t\<lparr>opstack := ?st\<rparr>" and i = "Suc i"] this Cons.prems(2-4) obtain st where
    "bindmap_loop ds (Suc i) (t\<lparr>opstack := ?st\<rparr>) = Inr (t\<lparr>opstack := st\<rparr>)"
    "thread_ok C (t\<lparr>opstack := st, op_stack_idx := i + length (d # ds)\<rparr>)"
    by auto
  then show ?case using q w by auto
qed

lemma enter_bindmap_ok:
  assumes ok: "thread_ok C t" and lh: "locals_home t"
    and r: "bcount func \<noteq> 0 \<and> th_bindmap t = None \<longrightarrow> bindmap_ready t func"
  shows "\<exists>t'. enter_bindmap t func = Inr t' \<and> thread_ok C t' \<and> th_func t' = th_func t \<and> locals_home t'"
proof (cases "bcount func \<noteq> 0 \<and> th_bindmap t = None")
  case True
  then have b: "th_env t \<noteq> 0" "bmcount func \<le> length (f_bindmap func)" "op_stack_idx t + bmcount func < op_stack_size t"
      "\<forall>d \<in> set (take (bmcount func) (f_bindmap func)). \<exists>q. display_env (mem_of t) (th_env t) d = Inr q"
    using r by (auto simp: bindmap_ready_def not_isl)
  let ?t = "t\<lparr>th_bindmap := Some (op_stack_idx t), op_stack_idx := op_stack_idx t + bmcount func\<rparr>"
  have "thread_ok C (?t\<lparr>op_stack_idx := op_stack_idx t\<rparr>)"
  proof -
    have "?t\<lparr>op_stack_idx := op_stack_idx t\<rparr> = t\<lparr>th_bindmap := Some (op_stack_idx t)\<rparr>" by simp
    then show ?thesis using ok by (simp only: thread_ok_regs)
  qed
  from bindmap_loop_ok [OF this, of "take (bmcount func) (f_bindmap func)"] b obtain st where
    st: "bindmap_loop (take (bmcount func) (f_bindmap func)) (op_stack_idx t) ?t = Inr (?t\<lparr>opstack := st\<rparr>)"
      "thread_ok C (?t\<lparr>opstack := st, op_stack_idx := op_stack_idx t + bmcount func\<rparr>)"
    by auto
  moreover have "?t\<lparr>opstack := st, op_stack_idx := op_stack_idx t + bmcount func\<rparr> = ?t\<lparr>opstack := st\<rparr>" by simp
  ultimately have "thread_ok C (?t\<lparr>opstack := st\<rparr>)" by (simp only:)
  with st(1)
  show ?thesis using True b(2) lh by (simp add: enter_bindmap_def bindmap_init_def Let_def locals_home_def)
next
  case False
  then have "enter_bindmap t func = Inr t" by (simp only: enter_bindmap_def if_False)
  then show ?thesis using ok lh by blast
qed

section \<open>Entering a function\<close>

definition enter_ready :: "vm_thread \<Rightarrow> addr \<Rightarrow> func_t \<Rightarrow> int \<Rightarrow> bool" where
  "enter_ready t fp func n \<longleftrightarrow> swallow_ready t func n \<and> place_ready func (taken func n) \<and>
     (bcount func = 0 \<or> th_bindmap t \<noteq> None \<or>
        (case bindE (swallow_args (t\<lparr>th_func := fp\<rparr>) func n) (\<lambda>(t1, m). place_args t1 func m) of
           Inr t2 \<Rightarrow> bindmap_ready t2 func
         | Inl _ \<Rightarrow> True))"

lemma enter_interp_ok:
  assumes ok: "thread_ok C t" and nf: "\<not> full_gc (heap t)" and r: "enter_ready t fp func n"
  shows "defined (\<lambda>t'. thread_ok C t' \<and> th_func t' = fp \<and> locals_home t') (enter_interp t fp func n)"
proof -
  let ?t = "t\<lparr>th_func := fp\<rparr>"
  have ok0: "thread_ok C ?t" using ok by simp
  have r': "swallow_ready ?t func n" "place_ready func (taken func n)"
    using r by (auto simp: enter_ready_def swallow_ready_def)
  note sw = swallow_args_ok [OF ok0 r'(1)]
  show ?thesis
  proof (cases "swallow_args ?t func n")
    case (Inl x)
    then show ?thesis using sw by (simp add: enter_interp_def)
  next
    case (Inr y)
    obtain t1 m where y: "y = (t1, m)" by (cases y)
    have t1: "thread_ok C t1" "m = taken func n" "0 \<le> m" "m \<le> int (op_stack_idx t1)" "th_func t1 = fp"
        "th_bindmap t1 = th_bindmap t" "\<not> full_gc (heap t1)"
      using sw Inr y nf by auto
    note pl = place_args_ok [OF t1(1,7,3,4) r'(2) [folded t1(2)]]
    show ?thesis
    proof (cases "place_args t1 func m")
      case (Inl x)
      then show ?thesis using pl Inr y by (simp add: enter_interp_def)
    next
      case p: (Inr t2)
      then have t2: "placed C t1 func t2" using pl by simp
      let ?t2 = "t2\<lparr>heap_env := f_heap_env func\<rparr>"
      have "thread_ok C ?t2" "locals_home ?t2" "th_bindmap t2 = th_bindmap t" "th_func t2 = fp"
        using t2 t1 by (auto simp: placed_def)
      moreover have "bcount func \<noteq> 0 \<and> th_bindmap ?t2 = None \<longrightarrow> bindmap_ready ?t2 func"
        using r Inr y p calculation(3) by (auto simp: enter_ready_def bindmap_ready_def)
      ultimately obtain t3 where "enter_bindmap ?t2 func = Inr t3" "thread_ok C t3" "th_func t3 = fp" "locals_home t3"
        using enter_bindmap_ok [of C ?t2 func] by auto
      then show ?thesis using Inr y p by (simp add: enter_interp_def)
    qed
  qed
qed

end
