(* ===== verification/Vm_Natives.thy ===== *)
theory Vm_Natives
  imports Vm_Calls
begin

text \<open>
  The contract between the interpreter and the built-in functions, as a locale: on a thread that satisfies
  the invariant, with its arguments on the operand stack, a function returns a thread that satisfies it,
  and reports an error only before it has changed anything. It is interpreted on the built-in functions
  whose arguments cannot make them leave an object or a space.
\<close>

section \<open>The contract\<close>

definition native_post :: "addr set \<Rightarrow> vm_thread \<Rightarrow> vm_thread \<times> rc \<Rightarrow> bool" where
  "native_post C t r \<longleftrightarrow> thread_ok C (fst r) \<and> value_ok C (fst r) (tramp_func (fst r))
     \<and> op_stack_idx t \<le> op_stack_idx (fst r) \<and> (snd r = RC_ERROR \<longrightarrow> fst r = t)"

definition native_pre :: "addr set \<Rightarrow> vm_thread \<Rightarrow> nat \<Rightarrow> int \<Rightarrow> bool" where
  "native_pre C t argv argc \<longleftrightarrow> thread_ok C t \<and> \<not> full_gc (heap t) \<and> 1 \<le> argc
     \<and> int argv + argc \<le> int (op_stack_idx t) \<and> tramp_func t = 0"

locale safe_native =
  fixes f :: "vm_thread \<Rightarrow> nat \<Rightarrow> int \<Rightarrow> native_result"
    and fargc :: int
    and room :: "vm_thread \<Rightarrow> int \<Rightarrow> bool"
  assumes native_safe: "native_pre C t argv argc \<Longrightarrow> fargc < argc \<Longrightarrow> room t argc \<Longrightarrow>
    defined (native_post C t) (f t argv argc)"
begin

text \<open>The continuation of the call is still below the results.\<close>

lemma continuation_kept:
  assumes "native_pre C t argv argc" "fargc < argc" "room t argc" and r: "f t argv argc = Inr (t', r)"
  shows "thread_ok C t'" "value_ok C t' (opstack t' ! argv)" "argv < length (opstack t')"
    "value_ok C t' (tramp_func t')" "r = RC_ERROR \<Longrightarrow> t' = t"
proof -
  have p: "native_post C t (t', r)" using native_safe [OF assms(1-3)] r by simp
  then show ok: "thread_ok C t'" "value_ok C t' (tramp_func t')" "r = RC_ERROR \<Longrightarrow> t' = t"
    by (auto simp: native_post_def)
  have "argv < op_stack_idx t'" using p assms(1) by (auto simp: native_post_def native_pre_def)
  with stack_values [OF ok(1)] show "value_ok C t' (opstack t' ! argv)" "argv < length (opstack t')" by auto
qed

end

section \<open>Steps that the functions share\<close>

lemma value_zero: "value_ok C t 0"
proof -
  have "MAKE_FIXNUM 0 = 0" by (simp add: MAKE_FIXNUM_def ADD_TAG_def tag_defs)
  then show ?thesis using value_ok_consts(4) [of C t 0] by simp
qed

lemma return_ok:
  assumes p: "native_pre C t argv argc" and ok: "thread_ok C t1" "value_ok C t1 x" "tramp_func t1 = 0"
    "op_stack_idx t \<le> op_stack_idx t1"
  shows "defined (native_post C t) (RETURN_OBJ t1 x)"
  unfolding RETURN_OBJ_def
  by (rule defined_bind [OF push_ok [OF ok(1,2)]]) (use ok in \<open>auto simp: native_post_def value_zero\<close>)

lemma error_ok: "native_pre C t argv argc \<Longrightarrow> native_post C t (t, r)"
  by (simp add: native_post_def native_pre_def value_zero)

lemma return_value:
  assumes p: "native_pre C t argv argc" and v: "value_ok C t x"
  shows "defined (native_post C t) (RETURN_OBJ t x)"
  by (rule return_ok [OF p]) (use p v in \<open>simp_all add: native_pre_def\<close>)

lemma arg_ok:
  assumes p: "native_pre C t argv argc" and n: "int (i - argv) < argc" "argv \<le> i"
    and k: "\<And>x. \<lbrakk>stack_at i t = Inr x; value_ok C t x\<rbrakk> \<Longrightarrow> defined P (g x)"
  shows "defined P (bindE (stack_at i t) g)"
proof -
  have "i < op_stack_idx t" "thread_ok C t" using p n by (auto simp: native_pre_def)
  with stack_values [OF this(2,1)] k [of "opstack t ! i"] show ?thesis by (simp add: stack_at_def)
qed

lemma assert_ok:
  assumes p: "native_pre C t argv argc" and c: "\<exists>b. c = Inr b" and k: "c = Inr True \<Longrightarrow> defined (native_post C t) m"
  shows "defined (native_post C t) (SAFE_ASSERT t c m)"
  using c k error_ok [OF p, of RC_ERROR] by (auto simp: SAFE_ASSERT_def)

section \<open>The functions\<close>

named_theorems native_defs \<open>definitions that the proofs of the contract unfold\<close>

lemmas [native_defs] = RETURN_FIXNUM_def RETURN_CHAR_def RETURN_BOOL_def
  native_call_nullary_def native_call_unary_def native_call_binary_def native_call_variadic_def
  vm_exit_def get_void_def get_eof_def char_to_integer_def integer_to_char_def

interpretation exit_n: safe_native "native_call_nullary vm_exit" 0 "\<lambda>t n. True"
  by unfold_locales (auto simp: native_defs intro: error_ok)

interpretation void_n: safe_native "native_call_nullary get_void" 0 "\<lambda>t n. True"
  by unfold_locales (auto simp: native_defs intro!: return_value)

interpretation eof_n: safe_native "native_call_nullary get_eof" 0 "\<lambda>t n. True"
  by unfold_locales (auto simp: native_defs intro!: return_value)

interpretation char_n: safe_native "native_call_unary char_to_integer" 1 "\<lambda>t n. True"
  by unfold_locales (auto simp: native_defs intro!: arg_ok assert_ok return_value)

interpretation int_n: safe_native "native_call_unary integer_to_char" 1 "\<lambda>t n. True"
  by unfold_locales (auto simp: native_defs intro!: arg_ok assert_ok return_value)

text \<open>Objects of a type that the function has tested.\<close>

lemma native_pre_ok: "native_pre C t argv argc \<Longrightarrow> thread_ok C t"
  by (simp add: native_pre_def)

lemma type_of_ok: "native_pre C t argv argc \<Longrightarrow> value_ok C t x \<Longrightarrow> \<exists>b. IS_TYPE (mem_of t) x tid = Inr b"
  by (rule IS_TYPE_ok) (auto simp: native_pre_def)

lemma pair_arg:
  assumes p: "native_pre C t argv argc" and v: "value_ok C t x" and ty: "IS_PAIR (mem_of t) x = Inr True"
    and k: "\<And>q l n. \<lbrakk>pair_list q = Some l; pair_length q = Some n; value_ok C t (car q); value_ok C t (cdr q)\<rbrakk> \<Longrightarrow>
      defined P (g q)"
  shows "defined P (bindE (pair_at (mem_of t) x) g)"
  using pair_ok [OF native_pre_ok [OF p] v ty] k by (metis bindE_simps(2))

lemma string_arg:
  assumes p: "native_pre C t argv argc" and v: "value_ok C t x" and ty: "IS_STRING (mem_of t) x = Inr True"
    and k: "\<And>s. defined P (g s)"
  shows "defined P (bindE (string_at (mem_of t) x) g)"
proof -
  have "t_string \<noteq> t_symbol" by (simp add: type_id_defs)
  from IS_TYPE_typed [OF native_pre_ok [OF p] v ty [unfolded IS_STRING_def] this] obtain b where
    "HTYPE (mem_of t) (PTR x) = Some b" "typed t_string (payload b)" by metis
  then show ?thesis using k by (auto simp: string_at_def typed_iff)
qed

lemma struct_arg:
  assumes p: "native_pre C t argv argc" and v: "value_ok C t x" and ty: "IS_STRUCT (mem_of t) x = Inr True"
    and k: "\<And>s. \<lbrakk>struct_size s = int (length (field_slots s)); \<forall>y \<in> set (field_slots s). value_ok C t y;
      fields_at (mem_of t) (struct_fields s) = Inr s\<rbrakk> \<Longrightarrow> defined P (g s)"
  shows "defined P (bindE (struct_at (mem_of t) x) g)"
proof -
  have "t_struct \<noteq> t_symbol" by (simp add: type_id_defs)
  from IS_TYPE_typed [OF native_pre_ok [OF p] v ty [unfolded IS_STRUCT_def] this] obtain b where
    b: "HTYPE (mem_of t) (PTR x) = Some b" "typed t_struct (payload b)" "\<forall>y \<in> set (obj_slots (payload b)). value_ok C t y"
      "homed (PTR x) (payload b)"
    by metis
  then obtain s where s: "payload b = P_Struct s" "struct_size s = int (length (field_slots s))" by (auto simp: typed_iff)
  have "PTR (MAKE_HEAP_PTR (PTR x)) = PTR x" by (intro PTR_MAKE_simps PTR_aligned PTR_bound)
  then have "fields_at (mem_of t) (struct_fields s) = Inr s"
    using b s by (simp add: fields_at_def struct_at_def)
  then show ?thesis using k b s by (simp add: struct_at_def)
qed

lemma bytevector_arg:
  assumes p: "native_pre C t argv argc" and v: "value_ok C t x"
  shows "\<exists>b. IS_BYTEVECTOR (mem_of t) x = Inr b"
  using type_of_ok [OF p v] by (simp add: IS_BYTEVECTOR_def)

lemma type_tests_ok:
  assumes p: "native_pre C t argv argc" and v: "value_ok C t x"
  shows "\<exists>b. IS_PAIR (mem_of t) x = Inr b" "\<exists>b. IS_STRING (mem_of t) x = Inr b" "\<exists>b. IS_STRUCT (mem_of t) x = Inr b"
    "\<exists>b. IS_BYTEVECTOR (mem_of t) x = Inr b" "\<exists>b. IS_FUNC (mem_of t) x = Inr b" "\<exists>b. IS_TYPE (mem_of t) x tid = Inr b"
  using type_of_ok [OF p v] IS_FUNC_ok [OF native_pre_ok [OF p] v]
  by (simp_all add: IS_PAIR_def IS_STRING_def IS_STRUCT_def IS_BYTEVECTOR_def)

interpretation bv_n: safe_native "native_call_unary is_bytevector" 1 "\<lambda>t n. True"
proof unfold_locales
  fix C t argv argc
  assume p: "native_pre C t argv argc" "1 < argc"
  have "defined (native_post C t) (bindE (IS_BYTEVECTOR (mem_of t) x) (\<lambda>b. RETURN_OBJ t (CIF b)))"
    if "value_ok C t x" for x using type_tests_ok(4) [OF p(1) that] return_value [OF p(1), of "CIF _"] by auto
  then show "defined (native_post C t) (native_call_unary is_bytevector t argv argc)"
    using p by (auto simp: native_defs is_bytevector_def intro!: arg_ok)
qed

interpretation string_length_n: safe_native "native_call_unary string_length" 1 "\<lambda>t n. True"
  by unfold_locales
    (auto simp: native_defs string_length_def type_tests_ok intro!: arg_ok assert_ok string_arg return_value)

interpretation struct_size_n: safe_native "native_call_unary struct_size_native" 1 "\<lambda>t n. True"
  by unfold_locales
    (auto simp: native_defs struct_size_native_def type_tests_ok intro!: arg_ok assert_ok struct_arg return_value)

interpretation struct_ref_n: safe_native "native_call_binary struct_ref" 2 "\<lambda>t n. True"
proof unfold_locales
  fix C t argv argc
  assume p: "native_pre C t argv argc" "2 < argc"
  have "defined (native_post C t) (bindE (read_field (mem_of t) (struct_fields s) i) (RETURN_OBJ t))"
    if "struct_size s = int (length (field_slots s))" "\<forall>y \<in> set (field_slots s). value_ok C t y"
      "fields_at (mem_of t) (struct_fields s) = Inr s" "0 \<le> i" "i < struct_size s" for s i
  proof -
    have "nat i < length (field_slots s)" using that(1,4,5) by simp
    then show ?thesis using that return_value [OF p(1)] by (simp add: read_field_def)
  qed
  then show "defined (native_post C t) (native_call_binary struct_ref t argv argc)"
    using p by (auto simp: native_defs struct_ref_def Let_def type_tests_ok intro!: arg_ok assert_ok struct_arg)
qed

interpretation length_n: safe_native "native_call_unary list_length" 1 "\<lambda>t n. True"
proof unfold_locales
  fix C t argv argc
  assume p: "native_pre C t argv argc" "1 < argc"
  let ?g = "\<lambda>x q. SAFE_ASSERT t (deref (pair_list q) ''indeterminate list flag'')
     (bindE (deref (pair_length q) ''indeterminate length'') (\<lambda>n. RETURN_FIXNUM t (ucast n)))"
  have "defined (native_post C t) (bindE (IS_PAIR (mem_of t) x) (\<lambda>b.
      if b then bindE (pair_at (mem_of t) x) (?g x) else Inr (t, RC_ERROR)))" if v: "value_ok C t x" for x
  proof -
    from type_tests_ok(1) [OF p(1) v] obtain b where b: "IS_PAIR (mem_of t) x = Inr b" by blast
    have "defined (native_post C t) (bindE (pair_at (mem_of t) x) (?g x))" if "b"
      by (rule pair_arg [OF p(1) v])
        (use b that in \<open>auto simp: native_defs intro!: assert_ok [OF p(1)] return_value [OF p(1)]\<close>)
    then show ?thesis using b error_ok [OF p(1)] by auto
  qed
  then show "defined (native_post C t) (native_call_unary list_length t argv argc)"
    using p by (auto simp: native_defs list_length_def intro!: arg_ok return_value)
qed

text \<open>The two registers.\<close>

lemma lib_cache_ok:
  assumes ok: "thread_ok C t" and v: "value_ok C t x" shows "thread_ok C (t\<lparr>lib_cache := x\<rparr>)"
proof (rule thread_ok_roots [OF ok])
  fix r
  show "root_ok (value_ok C t) (valid_addr (heap t)) r (t\<lparr>lib_cache := x\<rparr>)"
    using thread_okE(1) [OF ok, of r] v by (cases r) auto
qed (use thread_okE [OF ok] in auto)

lemma registers_value: "native_pre C t argv argc \<Longrightarrow> value_ok C t (exception_handlers t) \<and> value_ok C t (lib_cache t)"
  using thread_okE(1) [of C t R_Handlers] thread_okE(1) [of C t R_Lib_Cache] by (auto simp: native_pre_def)

interpretation handlers_n: safe_native "native_call_variadic exception_handlers_native" 0 "\<lambda>t n. True"
proof unfold_locales
  fix C t argv argc
  assume p: "native_pre C t argv argc"
  have "defined (native_post C t) (RETURN_OBJ (t\<lparr>exception_handlers := x\<rparr>) cvoid)" if "value_ok C t x" for x
    by (rule return_ok [OF p]) (use p that in \<open>auto simp: native_pre_def intro: handlers_ok\<close>)
  moreover have "\<exists>b. bindE (IS_PAIR (mem_of t) x) (\<lambda>p. Inr (p \<or> IS_NULL x)) = Inr b" if "value_ok C t x" for x
    using type_tests_ok(1) [OF p that] by auto
  ultimately show "defined (native_post C t) (native_call_variadic exception_handlers_native t argv argc)"
    using p registers_value [OF p]
    by (auto simp: native_defs exception_handlers_native_def intro!: arg_ok assert_ok return_value)
qed

interpretation library_cache_n: safe_native "native_call_variadic library_cache" 0 "\<lambda>t n. True"
proof unfold_locales
  fix C t argv argc
  assume p: "native_pre C t argv argc"
  have "defined (native_post C t) (RETURN_OBJ (t\<lparr>lib_cache := x\<rparr>) cvoid)" if "value_ok C t x" for x
    by (rule return_ok [OF p]) (use p that in \<open>auto simp: native_pre_def intro: lib_cache_ok\<close>)
  then show "defined (native_post C t) (native_call_variadic library_cache t argv argc)"
    using p registers_value [OF p]
    by (auto simp: native_defs library_cache_def type_tests_ok intro!: arg_ok assert_ok return_value)
qed

interpretation list_n: safe_native "native_call_variadic list_native" 0 "\<lambda>t n. 32 * nat (n - 1) \<le> free_mem (fresh (heap t))"
proof unfold_locales
  fix C t argv argc
  assume p: "native_pre C t argv argc" "32 * nat (argc - 1) \<le> free_mem (fresh (heap t))"
  then have ok: "thread_ok C t" and n: "0 \<le> argc - 1" by (auto simp: native_pre_def)
  have "\<forall>j < nat (argc - 1). argv + 1 + j < length (opstack t) \<and> value_ok C t (opstack t ! (argv + 1 + j))"
    using stack_values [OF ok] p(1) by (auto simp: native_pre_def)
  from list_of_args_ok [OF ok n p(2) this] obtain t' x where
    l: "list_of_args (\<lambda>j. stack_at (argv + 1 + j)) (argc - 1) t = Inr (t', x)" "thread_ok C t'" "only_heap t t'" "value_ok C t' x"
    by blast
  note f = only_heap_fields [OF l(3)]
  have "defined (native_post C t) (RETURN_OBJ t' x)"
    by (rule return_ok [OF p(1) l(2,4)]) (use p(1) f in \<open>simp_all add: native_pre_def\<close>)
  then show "defined (native_post C t) (native_call_variadic list_native t argv argc)"
    using l(1) by (simp add: native_defs list_native_def)
qed

section \<open>Control\<close>

lemma continuation_ok:
  assumes ok: "thread_ok C t" and nf: "\<not> full_gc (heap t)" and i: "i < op_stack_idx t"
  shows "defined (\<lambda>(t', x). \<exists>p. x = MAKE_HEAP_PTR p \<and>
      made C t sizeof_continuation t_cont (\<lambda>t0. P_Cont \<lparr>cont_func = opstack t0 ! i\<rparr>) (t', p))
    (continuation_new t i)"
  unfolding continuation_new_def
proof (rule alloc_then [OF ok nf])
  show n: "8 \<le> sizeof_continuation" "sizeof_continuation < 2 ^ 31" by (simp_all add: sizeof_continuation_def)
  let ?pl = "\<lambda>t0. P_Cont \<lparr>cont_func = opstack t0 ! i\<rparr>"
  fix t0
  assume t0: "grown C t t0" "round8 sizeof_continuation + 8 \<le> free_mem (fresh (heap t0))" "source t sizeof_continuation t0"
  then have ok0: "thread_ok C t0" "i < op_stack_idx t0" using i by (auto simp: grown_def same_shape_def)
  note v = stack_values [OF this]
  have "made C t sizeof_continuation t_cont ?pl (new_object t0 t_cont (round8 sizeof_continuation) (?pl t0), new_addr t0)"
    by (rule made_I [OF t0(1,3,2) n(1)]) (use v in \<open>auto simp: links_ok_def\<close>)
  then show "defined (\<lambda>(t', x). \<exists>p. x = MAKE_HEAP_PTR p \<and> made C t sizeof_continuation t_cont ?pl (t', p))
      ((\<lambda>(t1, p). bindE (stack_at i t1) (\<lambda>f. Inr (set_object t1 p (P_Cont \<lparr>cont_func = f\<rparr>), MAKE_HEAP_PTR p)))
        (alloc_at t0 t_cont (round8 sizeof_continuation), new_addr t0))"
    using v(2) by (auto simp: new_object_def stack_at_def)
qed

text \<open>A thread with more on its operand stack than at the call.\<close>

lemma finish_control:
  assumes p: "native_pre C t argv argc" "1 < argc" and ok: "thread_ok C t3" and idx: "op_stack_idx t \<le> op_stack_idx t3"
  shows "defined (native_post C t) (bindE (stack_at (argv + 1) t3) (\<lambda>f. Inr (t3\<lparr>tramp_argc := k, tramp_func := f\<rparr>, RC_OK)))"
    and "defined (native_post C t) (bindE (stack_at (argv + 1) t3) (\<lambda>f. Inr (t3\<lparr>tramp_func := f, tramp_argc := k\<rparr>, RC_OK)))"
proof -
  have "argv + 1 < op_stack_idx t3" using p idx by (auto simp: native_pre_def)
  from stack_values [OF ok this] ok idx
  show "defined (native_post C t) (bindE (stack_at (argv + 1) t3) (\<lambda>f. Inr (t3\<lparr>tramp_argc := k, tramp_func := f\<rparr>, RC_OK)))"
    and "defined (native_post C t) (bindE (stack_at (argv + 1) t3) (\<lambda>f. Inr (t3\<lparr>tramp_func := f, tramp_argc := k\<rparr>, RC_OK)))"
    by (auto simp: stack_at_def native_post_def)
qed

interpretation call_cc_n: safe_native "native_call_variadic call_cc" 1 "\<lambda>t n. True"
proof unfold_locales
  fix C t argv argc
  assume p: "native_pre C t argv argc" "1 < argc"
  then have ok: "thread_ok C t" "\<not> full_gc (heap t)" "argv < op_stack_idx t" by (auto simp: native_pre_def)
  have k: "defined (native_post C t) (bindE (STACK_PUSH t k) (\<lambda>t1. bindE (continuation_new t1 argv) (\<lambda>(t2, c).
        bindE (STACK_PUSH t2 c) (\<lambda>t3. bindE (stack_at (argv + 1) t3) (\<lambda>f'.
          Inr (t3\<lparr>tramp_argc := 2, tramp_func := f'\<rparr>, RC_OK))))))" if v: "value_ok C t k" for k
  proof (rule defined_bind [OF push_ok [OF ok(1) v]])
    fix t1
    assume "thread_ok C t1 \<and> t1 = t\<lparr>opstack := (opstack t)[op_stack_idx t := k], op_stack_idx := Suc (op_stack_idx t)\<rparr>
      \<and> Suc (op_stack_idx t) < op_stack_size t"
    then have t1: "thread_ok C t1" "\<not> full_gc (heap t1)" "argv < op_stack_idx t1" "op_stack_idx t1 = Suc (op_stack_idx t)"
      using ok by auto
    show "defined (native_post C t) (bindE (continuation_new t1 argv) (\<lambda>(t2, c).
        bindE (STACK_PUSH t2 c) (\<lambda>t3. bindE (stack_at (argv + 1) t3) (\<lambda>f'.
          Inr (t3\<lparr>tramp_argc := 2, tramp_func := f'\<rparr>, RC_OK)))))"
    proof (rule defined_bind [OF continuation_ok [OF t1(1-3)]])
      fix y
      assume y: "case y of (t', x) \<Rightarrow> \<exists>p. x = MAKE_HEAP_PTR p \<and>
        made C t1 sizeof_continuation t_cont (\<lambda>t0. P_Cont \<lparr>cont_func = opstack t0 ! argv\<rparr>) (t', p)"
      then obtain t2 c where t2: "y = (t2, c)" "thread_ok C t2" "value_ok C t2 c" "op_stack_idx t2 = op_stack_idx t1"
        by (auto simp: made_def grown_def same_shape_def)
      show "defined (native_post C t) (case y of (t2, c) \<Rightarrow> bindE (STACK_PUSH t2 c) (\<lambda>t3. bindE (stack_at (argv + 1) t3) (\<lambda>f'.
          Inr (t3\<lparr>tramp_argc := 2, tramp_func := f'\<rparr>, RC_OK))))"
        unfolding t2(1) prod.case
        by (rule defined_bind [OF push_ok [OF t2(2,3)]], rule finish_control(1) [OF p])
          (use t1(4) t2(4) in auto)
    qed
  qed
  show "defined (native_post C t) (native_call_variadic call_cc t argv argc)"
    unfolding native_defs call_cc_def
    by (intro arg_ok [OF p(1)] assert_ok [OF p(1)] k type_tests_ok(5) [OF p(1)]) (use p in auto)
qed

lemma apply_loop_ok:
  assumes "thread_ok C t" and "value_ok C t x" and "IS_TYPE (mem_of t) x t_pair = Inr True"
    and "op_stack_size t \<le> op_stack_idx t + n" and "0 < n"
  shows "defined (\<lambda>(t', k). thread_ok C t' \<and> op_stack_idx t \<le> op_stack_idx t') (apply_loop n t x cargc)"
  using assms
proof (induction n arbitrary: t x cargc)
  case (Suc n)
  from pair_ok [OF Suc.prems(1,2)] Suc.prems(3) obtain q where
    q: "pair_at (mem_of t) x = Inr q" "value_ok C t (car q)" "value_ok C t (cdr q)"
    by (metis IS_PAIR_def)
  have "defined (\<lambda>(t', k). thread_ok C t' \<and> op_stack_idx t \<le> op_stack_idx t')
    (bindE (STACK_PUSH t (car q)) (\<lambda>t1. bindE (IS_TYPE (mem_of t1) (cdr q) t_pair) (\<lambda>more.
       if more then apply_loop n t1 (cdr q) (cargc + 1) else Inr (t1, cargc + 1))))"
  proof (rule defined_bind [OF push_ok [OF Suc.prems(1) q(2)]])
    fix t1
    assume t1: "thread_ok C t1 \<and> t1 = t\<lparr>opstack := (opstack t)[op_stack_idx t := car q], op_stack_idx := Suc (op_stack_idx t)\<rparr>
      \<and> Suc (op_stack_idx t) < op_stack_size t"
    then have ok1: "thread_ok C t1" "value_ok C t1 (cdr q)" "op_stack_idx t1 = Suc (op_stack_idx t)"
        "op_stack_size t1 = op_stack_size t"
      using q(3) by auto
    from IS_TYPE_ok [OF ok1(1,2), of t_pair] obtain m where m: "IS_TYPE (mem_of t1) (cdr q) t_pair = Inr m" by blast
    show "defined (\<lambda>(t', k). thread_ok C t' \<and> op_stack_idx t \<le> op_stack_idx t')
      (bindE (IS_TYPE (mem_of t1) (cdr q) t_pair) (\<lambda>more.
       if more then apply_loop n t1 (cdr q) (cargc + 1) else Inr (t1, cargc + 1)))"
    proof (cases m)
      case True
      have "op_stack_size t1 \<le> op_stack_idx t1 + n" "0 < n" using Suc.prems(4) t1 ok1(3,4) by auto
      from Suc.IH [OF ok1(1,2) _ this, of "cargc + 1"] m True ok1(3) show ?thesis
        by (auto intro: defined_mono)
    qed (use m ok1 in simp)
  qed
  then show ?case using q(1) by simp
qed simp

interpretation apply_n: safe_native "native_call_variadic apply_native" 2 "\<lambda>t n. True"
proof unfold_locales
  fix C t argv argc
  assume p: "native_pre C t argv argc" "2 < argc"
  then have ok: "thread_ok C t" by (simp add: native_pre_def)
  have k: "defined (native_post C t) (bindE (STACK_PUSH t k) (\<lambda>t1. bindE (apply_loop (Suc (op_stack_size t1)) t1 l 1) (\<lambda>(t2, cargc).
      bindE (stack_at (argv + 1) t2) (\<lambda>f'. Inr (t2\<lparr>tramp_func := f', tramp_argc := cargc\<rparr>, RC_OK)))))"
    if v: "value_ok C t k" "value_ok C t l" "IS_TYPE (mem_of t) l t_pair = Inr True" for k l
  proof (rule defined_bind [OF push_ok [OF ok v(1)]])
    fix t1
    assume "thread_ok C t1 \<and> t1 = t\<lparr>opstack := (opstack t)[op_stack_idx t := k], op_stack_idx := Suc (op_stack_idx t)\<rparr>
      \<and> Suc (op_stack_idx t) < op_stack_size t"
    then have t1: "thread_ok C t1" "value_ok C t1 l" "IS_TYPE (mem_of t1) l t_pair = Inr True"
        "op_stack_idx t1 = Suc (op_stack_idx t)"
      using v by auto
    show "defined (native_post C t) (bindE (apply_loop (Suc (op_stack_size t1)) t1 l 1) (\<lambda>(t2, cargc).
      bindE (stack_at (argv + 1) t2) (\<lambda>f'. Inr (t2\<lparr>tramp_func := f', tramp_argc := cargc\<rparr>, RC_OK))))"
      by (rule defined_bind [OF apply_loop_ok [OF t1(1-3)]])
        (use t1(4) p finish_control(2) [OF p(1)] in \<open>auto simp del: apply_loop.simps\<close>)
  qed
  show "defined (native_post C t) (native_call_variadic apply_native t argv argc)"
    unfolding native_defs apply_native_def
    by (intro arg_ok [OF p(1)] assert_ok [OF p(1)] k type_tests_ok(5,6) [OF p(1)]) (use p in auto)
qed

end
