(* ===== verification/Vm_Step.thy ===== *)
theory Vm_Step
  imports Vm_Natives
begin

text \<open>
  One step of the machine keeps the invariant: the call of a built-in function, arity errors, and the
  dispatch on closures, continuations and plain functions. The theorem at the end states it of
  \<open>vm_step\<close> with the conditions under which a step is ready.
\<close>

section \<open>Calling a built-in function\<close>

text \<open>The functions that satisfy the contract, with the room they need; the others are not ready.\<close>

fun native_ready :: "native_fn \<Rightarrow> vm_thread \<Rightarrow> int \<Rightarrow> bool" where
  "native_ready N_list t n \<longleftrightarrow> 32 * nat (n - 1) \<le> free_mem (fresh (heap t))"
| "native_ready fn t n \<longleftrightarrow> fn \<in> {N_vm_exit, N_call_cc, N_apply, N_exception_handlers, N_get_void, N_get_eof,
     N_char_to_integer, N_integer_to_char, N_list_length, N_string_length, N_struct_size, N_struct_ref,
     N_is_bytevector, N_library_cache}"

text \<open>The number of arguments of a registered function, apart from the continuation.\<close>

definition fargc_of :: "native_fn \<Rightarrow> nat" where
  "fargc_of fn = (case find (\<lambda>e. fst (snd e) = fn) natives of Some (_, _, _, k, _) \<Rightarrow> k | None \<Rightarrow> 0)"

lemma native_at_listed: "native_at p = Some nf \<Longrightarrow> nf \<in> make_native ` set natives"
  by (auto simp: native_at_def split: if_splits)

lemma native_arity:
  assumes "native_at p = Some nf" and "arity_ok (Builtin nf) n" shows "int (fargc_of (nt_fn nf)) < n"
proof -
  have "\<forall>e \<in> set natives. nt_argc (make_native e) = fargc_of (nt_fn (make_native e)) + 1"
    by (simp add: natives_def fargc_of_def)
  then have "nt_argc nf = fargc_of (nt_fn nf) + 1" using native_at_listed [OF assms(1)] by auto
  then show ?thesis using assms(2) by (auto simp: arity_ok_def split: if_splits)
qed

lemmas native_contracts = exit_n.native_safe void_n.native_safe eof_n.native_safe char_n.native_safe int_n.native_safe
  bv_n.native_safe string_length_n.native_safe struct_size_n.native_safe struct_ref_n.native_safe
  length_n.native_safe handlers_n.native_safe library_cache_n.native_safe list_n.native_safe
  call_cc_n.native_safe apply_n.native_safe

lemma call_native_ok:
  assumes f: "call_native rom fn = Some f" and r: "native_ready fn t argc" and n: "int (fargc_of fn) < argc"
    and p: "native_pre C t argv argc"
  shows "defined (native_post C t) (f t argv argc)"
  using f r n native_contracts [OF p] by (cases fn) (simp_all add: fargc_of_def natives_def)

definition fail_msg :: "native_func_t \<Rightarrow> cstring" where
  "fail_msg nf = cstr (''call: '' @ nt_name nf @ '' failed'')"

definition builtin_ready :: "vm_thread \<Rightarrow> native_func_t \<Rightarrow> int \<Rightarrow> bool" where
  "builtin_ready t nf n \<longleftrightarrow> 1 \<le> n \<and> n \<le> int (op_stack_idx t) \<and> native_ready (nt_fn nf) t n \<and> raise_ready t (fail_msg nf)"

lemma native_step_ok:
  assumes ok: "thread_ok C (thread v)" "consts_in C (modules v)" and nf: "\<not> full_gc (heap (thread v))"
    and r: "builtin_ready (thread v) nt n" and ar: "int (fargc_of (nt_fn nt)) < n"
  shows "defined (vm_ok C) (native_step hs v nt n)"
proof -
  let ?t0 = "(thread v)\<lparr>tramp_argc := 1, tramp_func := 0\<rparr>"
  define argv where "argv = nat (int (op_stack_idx (thread v)) - n)"
  have argv: "args_base (thread v) n = Inr argv" "int argv + n = int (op_stack_idx (thread v))"
    using r by (auto simp: args_base_def Let_def argv_def builtin_ready_def)
  have p: "native_pre C ?t0 argv n" using ok(1) nf argv(2) r by (simp add: native_pre_def builtin_ready_def)
  have nr: "native_ready (nt_fn nt) ?t0 n" using r by (cases "nt_fn nt") (simp_all add: builtin_ready_def)
  then obtain f where f: "call_native (rom_of (maps v)) (nt_fn nt) = Some f" by (cases "nt_fn nt") auto
  note post = call_native_ok [OF f nr ar p]
  let ?k = "\<lambda>(t1, r). case r of
         RC_EXIT \<Rightarrow> Inr (v\<lparr>thread := t1, ctl := Halted\<rparr>)
       | RC_ERROR \<Rightarrow> raise (v\<lparr>thread := t1\<rparr>) (fail_msg nt)
       | RC_OK \<Rightarrow>
           bindE (if tramp_func t1 \<noteq> 0 then Inr (tramp_func t1) else stack_at argv t1) (\<lambda>fp.
             Inr (v\<lparr>thread := t1, ctl := Dispatch fp (tramp_argc t1)\<rparr>))"
  have step: "native_step hs v nt n = bindE (f ?t0 argv n) ?k"
    using argv(1) f by (cases "f ?t0 argv n")
      (auto simp: native_step_def run_native_def Let_def fail_msg_def split: rc.split)
  have "defined (vm_ok C) (bindE (f ?t0 argv n) ?k)"
  proof (rule defined_bind [OF post])
    fix y
    assume y: "native_post C ?t0 y"
    obtain t1 r1 where yp: "y = (t1, r1)" by (cases y)
    have t1: "thread_ok C t1" "value_ok C t1 (tramp_func t1)" "op_stack_idx (thread v) \<le> op_stack_idx t1"
        "r1 = RC_ERROR \<Longrightarrow> t1 = ?t0"
      using y by (auto simp: yp native_post_def)
    have "argv < op_stack_idx t1" using t1(3) argv(2) r by (simp add: builtin_ready_def)
    note k = stack_values [OF t1(1) this]
    show "defined (vm_ok C) (?k y)"
    proof (cases r1)
      case RC_OK
      then show ?thesis using t1 k ok(2) by (simp add: yp vm_ok_def stack_at_def)
    next
      case RC_ERROR
      then have "t1 = ?t0" by (rule t1(4))
      moreover have "raise_ready ?t0 (fail_msg nt)" using r by (simp add: builtin_ready_def raise_ready_def)
      ultimately show ?thesis
        using RC_ERROR raise_ok [of C "v\<lparr>thread := ?t0\<rparr>" "fail_msg nt"] ok nf
        by (auto simp: yp intro: defined_mono)
    next
      case RC_EXIT
      then show ?thesis using t1(1) ok(2) by (simp add: yp vm_ok_def)
    qed
  qed
  then show ?thesis by (simp only: step)
qed

section \<open>Dispatching\<close>

text \<open>A call that is ready, or one that fails on the number of arguments.\<close>

definition call_ready :: "vm \<Rightarrow> addr \<Rightarrow> int \<Rightarrow> bool" where
  "call_ready v p n =
     (case func_at (modules v) p of
        None \<Rightarrow> False
      | Some r \<Rightarrow>
          if arity_ok r n
          then (case r of Interp func \<Rightarrow> enter_ready (thread v) p func n | Builtin nf \<Rightarrow> builtin_ready (thread v) nf n)
          else raise_ready (thread v) (arity_msg r n))"

lemma call_ptr_ok:
  assumes ok: "thread_ok C (thread v)" "consts_in C (modules v)" and nf: "\<not> full_gc (heap (thread v))"
    and r: "call_ready v p n"
  shows "defined (vm_ok C) (call_ptr hs v p n)"
proof -
  from r obtain f where f: "func_at (modules v) p = Some f"
      "if arity_ok f n then (case f of Interp func \<Rightarrow> enter_ready (thread v) p func n | Builtin nf \<Rightarrow> builtin_ready (thread v) nf n)
       else raise_ready (thread v) (arity_msg f n)"
    by (auto simp: call_ready_def split: option.splits)
  show ?thesis
  proof (cases "arity_ok f n")
    case False
    then show ?thesis using f defined_mono [OF raise_ok [OF ok nf]] by (simp add: call_ptr_def)
  next
    case True
    show ?thesis
    proof (cases f)
      case (Interp func)
      then have i: "enter_ready (thread v) p func n" using f(2) True by simp
      with f(1) Interp have fn: "interp_at (modules v) p = Some func"
        by (auto simp: func_at_def split: option.splits)
      have "defined (vm_ok C) (bindE (enter_interp (thread v) p func n) (\<lambda>t. Inr (v\<lparr>thread := t, pc := 0, ctl := Run\<rparr>)))"
        by (rule defined_bind [OF enter_interp_ok [OF ok(1) nf i]]) (use ok(2) fn in \<open>auto simp: vm_ok_def\<close>)
      then show ?thesis using True f(1) Interp by (simp add: call_ptr_def)
    next
      case (Builtin nt)
      then have b: "builtin_ready (thread v) nt n" "native_at p = Some nt"
        using f True by (auto simp: func_at_def split: option.splits)
      from native_step_ok [OF ok nf b(1) native_arity [OF b(2)]] True Builtin f(1)
      show ?thesis by (simp add: call_ptr_def)
    qed
  qed
qed

definition tag_msg :: "obj \<Rightarrow> cstring" where
  "tag_msg fp = cstr ''call: expected function or closure but got tag '' @ show_int (sint (GET_TAG fp)) @ [10]"

definition dispatch_ready :: "vm \<Rightarrow> obj \<Rightarrow> int \<Rightarrow> bool" where
  "dispatch_ready v fp n =
     (let t = thread v in
      if GET_TAG fp = TAG_PTR then
        (case Option.bind (HTYPE (mem_of t) (PTR fp)) (\<lambda>b. closure_of (payload b)) of
           None \<Rightarrow> True
         | Some c \<Rightarrow>
             call_ready (v\<lparr>thread := t\<lparr>th_env := clo_env c, th_bindmap := None, th_closure := PTR fp\<rparr>\<rparr>) (clo_func c) n)
      else if GET_TAG fp = TAG_FUNC then
        call_ready (v\<lparr>thread := t\<lparr>th_bindmap := None, th_closure := 0\<rparr>\<rparr>) (PTR fp) n
      else raise_ready t (tag_msg fp))"

lemma dispatch_step_ok:
  assumes ok: "vm_ok C v" "ctl v = Dispatch fp n" and nf: "\<not> full_gc (heap (thread v))"
    and r: "dispatch_ready v fp n"
  shows "defined (vm_ok C) (dispatch_step hs v fp n)"
proof -
  let ?t = "thread v"
  have t: "thread_ok C ?t" "consts_in C (modules v)" "value_ok C ?t fp" using ok by (auto simp: vm_ok_def)
  note ev = th_env_valid [OF t(1)]
  show ?thesis
  proof (cases "GET_TAG fp = TAG_PTR")
    case True
    then have hp: "IS_HEAP_PTR fp" by (simp add: is_tag_defs)
    from value_block [OF t(1,3) disjI1 [OF hp]] obtain b where b: "HTYPE (mem_of ?t) (PTR fp) = Some b"
        "type_id (hdr b) = t_symbol \<or> typed (type_id (hdr b)) (payload b)"
        "\<forall>y \<in> set (obj_slots (payload b)). value_ok C ?t y"
        "\<forall>q \<in> set (env_links (payload b)). q = 0 \<or> valid_addr (heap ?t) q" "has_env (payload b)"
      by metis
    have va: "valid_addr (heap ?t) (PTR fp)" using t(3) hp by (simp add: value_ok_def valid_obj_def)
    have ty: "typed (type_id (hdr b)) (payload b)"
      using va b(1) thread_okE(8,9) [OF t(1)]
      by (auto simp: valid_addr_def HTYPE_def BHDR_SIZE_def heap_wf_def graph_ok_def block_ok_def settled_def)
    show ?thesis
    proof (cases "type_id (hdr b) = t_closure")
      case T: True
      then obtain c where c: "payload b = P_Closure c" using ty by (auto simp: typed_iff)
      have "links_typed (heap ?t)" using thread_okE(7) [OF t(1)] by (simp add: heap_ok_def)
      then have "hdr_type (heap ?t) (clo_env c) = Some t_env" if "clo_env c \<noteq> 0"
        using va b(1) c that by (auto simp: links_typed_def valid_addr_def HTYPE_def BHDR_SIZE_def)
      moreover have "clo_env c = 0 \<or> valid_addr (heap ?t) (clo_env c)" using b(4) c by simp
      moreover have "clo_env c \<noteq> 0" using b(5) c by simp
      ultimately have "thread_ok C (?t\<lparr>th_env := clo_env c, th_closure := PTR fp, heap_env := heap_env ?t\<rparr>)"
        using env_reg_ok [OF t(1), of "clo_env c" "PTR fp" "heap_env ?t"] va by blast
      then have "thread_ok C (?t\<lparr>th_env := clo_env c, th_closure := PTR fp\<rparr>\<lparr>th_bindmap := None\<rparr>)"
        unfolding thread_ok_regs by simp
      moreover have "?t\<lparr>th_env := clo_env c, th_closure := PTR fp\<rparr>\<lparr>th_bindmap := None\<rparr> =
          ?t\<lparr>th_env := clo_env c, th_bindmap := None, th_closure := PTR fp\<rparr>" by simp
      ultimately have "thread_ok C (?t\<lparr>th_env := clo_env c, th_bindmap := None, th_closure := PTR fp\<rparr>)" by (simp only:)
      from call_ptr_ok [of C "v\<lparr>thread := ?t\<lparr>th_env := clo_env c, th_bindmap := None, th_closure := PTR fp\<rparr>\<rparr>"] this
      show ?thesis using True T b(1) c t(2) nf r by (simp add: dispatch_step_def dispatch_ready_def Let_def)
    next
      case NT: False
      show ?thesis
      proof (cases "type_id (hdr b) = t_cont")
        case T: True
        then obtain c where c: "payload b = P_Cont c" using ty by (auto simp: typed_iff)
        then have "value_ok C ?t (cont_func c)" using b(3) by simp
        then show ?thesis using True NT T b(1) c t by (simp add: dispatch_step_def Let_def vm_ok_def)
      qed (use True NT b(1) in \<open>simp add: dispatch_step_def Let_def\<close>)
    qed
  next
    case False
    show ?thesis
    proof (cases "GET_TAG fp = TAG_FUNC")
      case T: True
      have "thread_ok C (?t\<lparr>th_env := th_env ?t, th_closure := 0, heap_env := heap_env ?t\<rparr>)"
        using env_reg_ok [OF t(1) ev(1), of 0 "heap_env ?t"] thread_okE(5) [OF t(1)] by simp
      then have "thread_ok C (?t\<lparr>th_closure := 0\<rparr>\<lparr>th_bindmap := None\<rparr>)" unfolding thread_ok_regs by simp
      moreover have "?t\<lparr>th_closure := 0\<rparr>\<lparr>th_bindmap := None\<rparr> = ?t\<lparr>th_bindmap := None, th_closure := 0\<rparr>" by simp
      ultimately have "thread_ok C (?t\<lparr>th_bindmap := None, th_closure := 0\<rparr>)" by (simp only:)
      from call_ptr_ok [of C "v\<lparr>thread := ?t\<lparr>th_bindmap := None, th_closure := 0\<rparr>\<rparr>"] this
      show ?thesis using False T t(2) nf r by (simp add: dispatch_step_def dispatch_ready_def Let_def)
    next
      case NT: False
      then show ?thesis using False r defined_mono [OF raise_ok [OF t(1,2) nf]]
        by (simp add: dispatch_step_def dispatch_ready_def Let_def tag_msg_def)
    qed
  qed
qed

section \<open>A step\<close>

definition step_ready :: "vm \<Rightarrow> bool" where
  "step_ready v = (case ctl v of Run \<Rightarrow> run_ready v | Dispatch fp n \<Rightarrow> dispatch_ready v fp n | Halted \<Rightarrow> True)"

lemma vm_step_ok:
  assumes ok: "vm_ok C v" and nf: "\<not> full_gc (heap (thread v))" and r: "step_ready v"
  shows "defined (vm_ok C) (vm_step hs v)"
proof (cases "ctl v")
  case Run
  with run_step_ok [OF ok Run nf] r show ?thesis by (simp add: vm_step_def step_ready_def)
next
  case (Dispatch fp n)
  with dispatch_step_ok [OF ok Dispatch nf] r show ?thesis by (simp add: vm_step_def step_ready_def)
next
  case Halted
  with ok show ?thesis by (simp add: vm_step_def)
qed

section \<open>The initial thread\<close>

lemma initial_thread_ok:
  assumes r: "regions_ok mem old_mem" and st: "length stack = 4096 div sizeof_obj"
  shows "thread_ok {} (vm_thread_init m mem old_mem stack)"
proof -
  let ?t = "vm_thread_init m mem old_mem stack"
  have "heap ?t = heap_init m mem old_mem" by (simp add: vm_thread_init_def)
  then have "\<not> heap_hdr (heap ?t) a" for a using heap_init_wf(3) [OF r] by simp
  then have "heap_ok {} (heap ?t)" by (simp add: heap_ok_def consts_ok_def refers_all_def homes_ok_def links_typed_def)
  moreover have "\<forall>x \<in> set (root_objs r ?t). refers {} x" for r
    by (cases r) (simp_all add: vm_thread_init_def refers_def is_tag_defs tag_defs)
  moreover have "env_ok ?t" by (simp add: env_ok_def vm_thread_init_def)
  moreover have "op_stack_idx ?t < op_stack_size ?t" "length (opstack ?t) = op_stack_size ?t"
    using st by (simp_all add: vm_thread_init_def sizeof_obj_def)
  ultimately show ?thesis using thread_init_wf [OF r] by (simp add: thread_ok_def)
qed

section \<open>Safety of the interpreter\<close>


text \<open>A pair made by the first instruction of a function.\<close>

definition pair_func :: func_t where
  "pair_func = \<lparr>f_argc = 2, f_swallow = False, env_sz = 0, op_count = 1, f_heap_env = 0, f_depth = 0,
     bcount = 0, bmcount = 0, f_opcode = [12, 0], f_bindings = [], f_bindmap = [], f_module = 1\<rparr>"

definition pair_vm :: vm where
  "pair_vm = \<lparr>thread = (vm_thread_init (\<lambda>_. None) 65536 1048576 (replicate 512 cnull))\<lparr>op_stack_idx := 2, th_func := 1000000\<rparr>,
     globs = init_globals \<lparr>pmem = (\<lambda>_. None), brk = 0, ca_mem = (\<lambda>_. [])\<rparr>,
     modules = [\<lparr>mod_functions = [pair_func], func_base = 1000000, entry_point = 0, fun_count = 1, mod_consts = []\<rparr>],
     libraries = hash_table_init direct_hash (Some direct_equal), maps = [], out = [], pc = 0, ctl = Run\<rparr>"

lemma pair_vm_ok: "vm_ok {} pair_vm"
proof -
  let ?t = "vm_thread_init (\<lambda>_. None) 65536 1048576 (replicate 512 cnull)"
  have ok: "thread_ok {} ?t" by (rule initial_thread_ok [OF regions_example]) (simp add: sizeof_obj_def)
  have s: "opstack ?t = replicate 512 cnull" "op_stack_size ?t = 512"
    by (simp_all add: vm_thread_init_def sizeof_obj_def)
  have "thread_ok {} (?t\<lparr>opstack := replicate 512 cnull, op_stack_idx := 2\<rparr>)"
    by (rule set_stack_ok [OF ok]) (simp_all add: s)
  moreover have "?t\<lparr>opstack := replicate 512 cnull, op_stack_idx := 2\<rparr> = ?t\<lparr>op_stack_idx := 2\<rparr>"
    by (simp add: vm_thread_init_def)
  ultimately have "thread_ok {} (?t\<lparr>op_stack_idx := 2, th_func := 1000000\<rparr>)" by (simp only: thread_ok_regs)
  then show ?thesis
    by (simp add: vm_ok_def pair_vm_def consts_in_def module_func_at_def sizeof_func_def)
      (simp add: locals_home_def vm_thread_init_def)
qed

lemma pair_vm_ready: "step_ready pair_vm" "\<not> full_gc (heap (thread pair_vm))"
  by (simp_all add: step_ready_def pair_vm_def run_ready_def cur_func_def module_func_at_def sizeof_func_def pair_func_def
      decode_op_def opcode_list_def op_ready_def simple_ready_def Let_def vm_thread_init_def heap_init_eq)


end
