(* ===== verification/Faults.thy ===== *)
theory Faults
  imports Vm_Step
begin

unbundle bit_operations_syntax

text \<open>
  Inputs for which the code does not do what it means to: an untagged result, positions before the start of
  an object, sizes that lose their high bits, a value that is rejected. Each is stated as a theorem about
  the model of the operation, so that a correction of the code has to change it.
\<close>

section \<open>An untagged complement\<close>

text \<open>A multiple of eight that an arithmetic shift by three keeps is zero.\<close>

lemma signed_drop_fixpoint:
  fixes w :: u64 assumes "w AND 7 = 0" shows "signed_drop_bit 3 w = w \<longleftrightarrow> w = 0"
proof
  assume "signed_drop_bit 3 w = w"
  then have "drop_bit 3 (sint w) = sint w" by (metis sint_signed_drop_bit_eq)
  then have "sint w div 8 = sint w" by (simp add: drop_bit_eq_div)
  then have "sint w = 0 \<or> sint w = - 1" by presburger
  then have "w = 0 \<or> w = - 1" by (metis signed_word_eqI sint_0 sint_n1)
  then show "w = 0" using assms by auto
qed simp


definition ex_thread :: "(addr \<rightharpoonup> block) \<Rightarrow> obj list \<Rightarrow> vm_thread" where
  "ex_thread m xs = (vm_thread_init m 65536 1048576 (xs @ replicate (512 - length xs) 0))\<lparr>op_stack_idx := length xs\<rparr>"


section \<open>Positions before the start\<close>

lemma INT_OF_MAKE_FIXNUM:
  assumes "- (2 ^ 31) \<le> n" "n < 2 ^ 31" 
  shows "INT_OF (MAKE_FIXNUM (of_int n)) = of_int n" "sint (INT_OF (MAKE_FIXNUM (of_int n))) = n"
proof -
  have n: "signed_take_bit 60 n = n" "signed_take_bit 31 n = n" "signed_take_bit 63 n = n"
    using assms by (auto intro!: signed_take_bit_int_eq_self)
  have "FIXNUM (MAKE_FIXNUM (of_int n :: u64)) = of_int n"
    by (rule signed_word_eqI [where 'a = int]) (simp add: sint_FIXNUM_MAKE signed_of_int n)
  then show "INT_OF (MAKE_FIXNUM (of_int n)) = (of_int n :: 32 word)"
    by (simp add: INT_OF_def) (rule bit_word_eqI, auto simp: bit_simps)
  then show "sint (INT_OF (MAKE_FIXNUM (of_int n))) = n" by (simp add: signed_of_int n)
qed

text \<open>
  C37: \<^verbatim>\<open>string-ref\<close> checks its position against the end of the string but not against 0, so every
  negative position that fits an \<^verbatim>\<open>int\<close> reads in front of the characters.
\<close>

theorem string_ref_negative:
  assumes "stack_at i t = Inr x" and "IS_STRING (mem_of t) x = Inr True" and "string_at (mem_of t) x = Inr s"
    and "stack_at j t = Inr (MAKE_FIXNUM (of_int n))" and "- (2 ^ 31) \<le> n" and "n < 0" and "1 \<le> str_size s"
  shows "string_ref rom t i j = Inl (Undefined ''before the string'')"
proof -
  have "sint (INT_OF (MAKE_FIXNUM (of_int n))) = n" using assms(5,6) by (intro INT_OF_MAKE_FIXNUM(2)) auto
  moreover have "IS_FIXNUM (MAKE_FIXNUM v)" for v by (simp add: is_tag_defs)
  ultimately show ?thesis using assms by (simp add: string_ref_def SAFE_ASSERT_def Let_def)
qed

definition ex_string :: block where
  "ex_string = \<lparr>hdr = \<lparr>type_id = t_string, forward = False, generation = 0, remembered = False, hsize = 24\<rparr>,
     payload = P_String \<lparr>str = 4194328, str_size = 3, allocated = True, chars = [104, 105, 0]\<rparr>\<rparr>"

text \<open>A thread with a string constant and the position -1.\<close>

theorem string_ref_negative_witness:
  "string_ref (\<lambda>_. None) (ex_thread [4194304 \<mapsto> ex_string] [MAKE_CONST_PTR 4194312, MAKE_FIXNUM (- 1)]) 0 1 =
     Inl (Undefined ''before the string'')"
proof -
  let ?t = "ex_thread [4194304 \<mapsto> ex_string] [MAKE_CONST_PTR 4194312, MAKE_FIXNUM (- 1)]"
  have m: "mem_of ?t 4194304 = Some ex_string"
    by (simp add: ex_thread_def vm_thread_init_def heap_init_eq clear_range_def overlap_def size_defs blen_def ex_string_def
        BHDR_SIZE_def)
  have p: "PTR (MAKE_CONST_PTR 4194312) = 4194312" by simp
  show ?thesis
    by (rule string_ref_negative [where x = "MAKE_CONST_PTR 4194312" and n = "- 1" and
            s = "\<lparr>str = 4194328, str_size = 3, allocated = True, chars = [104, 105, 0]\<rparr>"])
      (simp_all add: stack_at_def IS_STRING_def IS_TYPE_def string_at_def HTYPE_def BHDR_SIZE_def m p,
        simp_all add: ex_thread_def vm_thread_init_def ex_string_def is_tag_defs)
qed

section \<open>Sizes that do not fit\<close>

lemma stack_at_alloc: "stack_at k (alloc_at t tid m) = stack_at k t" "stack_at k (new_object t tid m pl) = stack_at k t"
  by (simp_all add: stack_at_def)

lemma alloc_room:
  assumes "thread_wf t" and "n < 2 ^ 31" and "round8 n + 8 \<le> free_mem (fresh (heap t))"
  shows "heap_alloc t (of_nat n) tid = Inr (alloc_at t tid (round8 n), new_addr t)"
  using alloc_fresh_wf [OF assms(1,2), of tid] assms(3) by (simp add: heap_alloc_def)

text \<open>
  C38: \<^verbatim>\<open>make-bytevector\<close> does not check the sign of its length. From -16 on the allocation succeeds in a
  fresh space with 24 free bytes, and \<^verbatim>\<open>memset\<close> gets the length as an enormous \<^verbatim>\<open>size_t\<close>.
\<close>

theorem make_bytevector_negative:
  assumes wf: "thread_wf t" and c: "stack_at i t = Inr (MAKE_FIXNUM (of_int n))" and f: "stack_at j t = Inr fl" "IS_FIXNUM fl"
    and n: "- 16 \<le> n" "n < 0" and room: "24 \<le> free_mem (fresh (heap t))"
  shows "make_bytevector t i j = Inl (Undefined ''memset'')"
proof -
  have b: "- (2 ^ 31) \<le> n" "n < 2 ^ 31" using n by auto
  note i = INT_OF_MAKE_FIXNUM [OF b]
  then have sz: "of_nat sizeof_bytevector + INT_OF (MAKE_FIXNUM (of_int n)) = (of_nat (nat (16 + n)) :: 32 word)"
    using n by (simp add: sizeof_bytevector_def of_nat_nat)
  have "round8 m \<le> 16" if "m \<le> 16" for m using that unfolding round8_def by presburger
  then have r: "round8 (nat (16 + n)) \<le> 16" using n by simp
  have "heap_alloc t (of_nat sizeof_bytevector + INT_OF (MAKE_FIXNUM (of_int n))) t_bytevector =
      Inr (alloc_at t t_bytevector (round8 (nat (16 + n))), new_addr t)"
    unfolding sz using n r room by (intro alloc_room [OF wf]) auto
  moreover have "bytevector_at (mem_of (new_object t tid k (P_Bytevector v))) (MAKE_HEAP_PTR (new_addr t)) = Inr v" for tid k v
  proof -
    note ff = fresh_facts [OF wf]
    have "PTR (MAKE_HEAP_PTR (new_addr t)) = new_addr t"
    proof (rule PTR_MAKE_simps)
      have l: "space_ok (store (heap t)) (fresh (heap t))" "layout_ok (heap t)"
        using wf by (auto simp: thread_wf_def heap_wf_def layout_ok_def)
      then have "8 dvd sp_pos (fresh (heap t))" using run_aligned by (auto simp: space_ok_def)
      then show "8 dvd new_addr t" by simp
      show "new_addr t < 2 ^ 64" using l room by (auto simp: layout_ok_def inside_def space_ok_def)
    qed
    then show ?thesis using new_object_HTYPE [of t tid k "P_Bytevector v"] by (simp add: bytevector_at_def)
  qed
  moreover have "IS_FIXNUM (MAKE_FIXNUM v)" for v by (simp add: is_tag_defs)
  ultimately show ?thesis
    using c f i n
    by (simp add: make_bytevector_def bv_new_def SAFE_ASSERT_def Let_def alloc_at_HTYPE new_object_def [symmetric]
        stack_at_alloc)
qed

lemma ex_thread_simps [simp]:
  "op_stack_size (ex_thread m xs) = 512" "op_stack_idx (ex_thread m xs) = length xs"
  "opstack (ex_thread m xs) = xs @ replicate (512 - length xs) 0"
  "heap (ex_thread m xs) = heap_init m 65536 1048576"
  by (simp_all add: ex_thread_def vm_thread_init_def sizeof_obj_def)

lemma valid_obj_none: "\<not> IS_HEAP_PTR x \<Longrightarrow> valid_obj h x"
  by (simp add: valid_obj_def)

lemma ex_thread_wf:
  assumes "\<forall>x \<in> set xs. \<not> IS_HEAP_PTR x" and "length xs \<le> 512" shows "thread_wf (ex_thread m xs)"
proof -
  note w = heap_init_wf [OF regions_example, of m]
  have "valid_root r (ex_thread m xs)" for r
    using assms by (cases r) (auto simp: valid_root_def ex_thread_def vm_thread_init_def valid_obj_none)
  moreover have "env_root_ok (ex_thread m xs)" by (simp add: env_root_ok_def ex_thread_def vm_thread_init_def)
  ultimately show ?thesis using w assms(2) by (simp add: thread_wf_def settled_def)
qed

theorem make_bytevector_negative_witness:
  "make_bytevector (ex_thread (\<lambda>_. None) [MAKE_FIXNUM (- 1), MAKE_FIXNUM 0]) 0 1 = Inl (Undefined ''memset'')"
  by (rule make_bytevector_negative [where n = "- 1" and fl = "MAKE_FIXNUM 0"], rule ex_thread_wf)
    (simp_all add: stack_at_def is_tag_defs heap_init_eq size_defs)

text \<open>
  C39: \<^verbatim>\<open>alloc-struct\<close> multiplies the count in \<^verbatim>\<open>size_t\<close> and narrows the product to \<^verbatim>\<open>int\<close>.
  With 2^29 fields the size is that of no field at all: a block of 24 bytes is allocated, and the first
  field is written behind it.
\<close>

theorem alloc_struct_narrowed:
  assumes wf: "thread_wf t" and s: "stack_at i t = Inr x" "IS_SYMBOL (mem_of t) x = Inr True"
    and c: "stack_at j t = Inr (MAKE_FIXNUM (2 ^ 29))" and f: "stack_at k t = Inr fl"
    and room: "32 \<le> free_mem (fresh (heap t))"
  shows "alloc_struct t i j k = Inl (Undefined ''field'')"
proof -
  have n: "INT_OF (MAKE_FIXNUM (2 ^ 29)) = 2 ^ 29" "sint (2 ^ 29 :: 32 word) = 2 ^ 29"
    using INT_OF_MAKE_FIXNUM [of "2 ^ 29"] by simp_all
  have sz: "(ucast (of_nat sizeof_struct + of_nat sizeof_obj * scast (2 ^ 29 :: 32 word) :: u64) :: 32 word) = of_nat 24"
    by (simp add: sizeof_struct_def sizeof_obj_def)
  have "heap_alloc t (of_nat 24) t_struct = Inr (alloc_at t t_struct 24, new_addr t)"
    using alloc_room [OF wf, of 24 t_struct] room by simp
  then have al: "allocator_alloc heap_allocator t (of_nat sizeof_struct + of_nat sizeof_obj * scast (2 ^ 29 :: 32 word)) t_struct =
      Inr (alloc_at t t_struct 24, new_addr t)"
    by (simp add: allocator_alloc_def heap_allocator_def heap_allocator_alloc_def sz [simplified])
  let ?s = "\<lparr>type_name = x, struct_size = 2 ^ 29, struct_fields = new_addr t + sizeof_struct, field_slots = []\<rparr>"
  let ?t1 = "new_object t t_struct 24 (P_Struct ?s)"
  have rm: "room (zero_block t_struct 24) sizeof_struct sizeof_obj m = 0" for m
    by (simp add: room_def sizeof_struct_def)
  have st: "struct_new heap_allocator t (stack_at i) (2 ^ 29) = Inr (?t1, new_addr t)"
    using s(1) al by (simp add: struct_new_def n alloc_at_HTYPE rm BHDR_SIZE_def finish_object stack_at_alloc)
  have "PTR (MAKE_HEAP_PTR (new_addr t)) = new_addr t"
  proof (rule PTR_MAKE_simps)
    have l: "space_ok (store (heap t)) (fresh (heap t))" "layout_ok (heap t)"
      using wf by (auto simp: thread_wf_def heap_wf_def layout_ok_def)
    then show "8 dvd new_addr t" "new_addr t < 2 ^ 64"
      using run_aligned room by (auto simp: layout_ok_def inside_def space_ok_def)
  qed
  then have "fields_at (mem_of ?t1) (new_addr t + sizeof_struct) = Inr ?s"
    using new_object_HTYPE [of t t_struct 24 "P_Struct ?s"] by (simp add: fields_at_def struct_at_def)
  then have w: "write_field ?t1 (new_addr t + sizeof_struct) (int 0) fl = Inl (Undefined ''field'')"
    by (simp add: write_field_def)
  have "stack_at k ?t1 = Inr fl" using f by (simp add: stack_at_alloc)
  moreover have "nat (2 ^ 29) = Suc (2 ^ 29 - 1)" by simp
  ultimately have "fill_loop (nat (2 ^ 29)) (\<lambda>_. stack_at k) (new_addr t + sizeof_struct) 0 ?t1 = Inl (Undefined ''field'')"
    using w by (simp only: fill_loop.simps bindE_simps)
  moreover have "IS_FIXNUM (MAKE_FIXNUM v)" for v by (simp add: is_tag_defs)
  ultimately show ?thesis
    using s c by (simp add: alloc_struct_def SAFE_ASSERT_def n [simplified] st [simplified] del: fill_loop.simps)
qed

text \<open>
  C40: \<^verbatim>\<open>bytevector-u8-set!\<close> tests that the value is greater than 0, so the byte 0 is rejected with an
  error, whatever the position; the bytevector is unchanged.
\<close>

theorem bytevector_set_rejects_zero:
  assumes "stack_at i t = Inr x" and "IS_BYTEVECTOR (mem_of t) x = Inr True" and "bytevector_at (mem_of t) x = Inr v"
    and "stack_at j t = Inr p" and "IS_FIXNUM p" and "stack_at k t = Inr (MAKE_FIXNUM 0)"
  shows "bytevector_8_set t i j k = Inr (t, RC_ERROR)"
proof -
  have "sint (INT_OF (MAKE_FIXNUM 0)) = 0" using INT_OF_MAKE_FIXNUM(2) [of 0] by simp
  then show ?thesis using assms by (simp add: bytevector_8_set_def SAFE_ASSERT_def Let_def)
qed

definition ex_symbol :: block where
  "ex_symbol = \<lparr>hdr = \<lparr>type_id = t_symbol, forward = False, generation = 0, remembered = False, hsize = 8\<rparr>,
     payload = P_Symbol [104, 105]\<rparr>"

definition ex_bytevector :: block where
  "ex_bytevector = \<lparr>hdr = \<lparr>type_id = t_bytevector, forward = False, generation = 0, remembered = False, hsize = 24\<rparr>,
     payload = P_Bytevector \<lparr>data = 4194328, bv_size = 2, bytes = [7, 9]\<rparr>\<rparr>"

lemma ex_thread_mem:
  "blen b \<le> 1024 \<Longrightarrow> mem_of (ex_thread [4194304 \<mapsto> b] xs) 4194304 = Some b"
  by (simp add: heap_init_eq clear_range_def overlap_def size_defs)

lemma ex_pointer: "PTR (MAKE_CONST_PTR 4194312) = 4194312" by simp

theorem alloc_struct_narrowed_witness:
  "alloc_struct (ex_thread [4194304 \<mapsto> ex_symbol] [MAKE_CONST_PTR 4194312, MAKE_FIXNUM (2 ^ 29), cnull]) 0 1 2 =
     Inl (Undefined ''field'')"
proof (rule alloc_struct_narrowed [where x = "MAKE_CONST_PTR 4194312" and fl = cnull])
  let ?t = "ex_thread [4194304 \<mapsto> ex_symbol] [MAKE_CONST_PTR 4194312, MAKE_FIXNUM (2 ^ 29), cnull]"
  have m: "mem_of ?t 4194304 = Some ex_symbol" by (rule ex_thread_mem) (simp add: blen_def ex_symbol_def BHDR_SIZE_def)
  show "IS_SYMBOL (mem_of ?t) (MAKE_CONST_PTR 4194312) = Inr True"
    using m by (simp add: IS_SYMBOL_def IS_TYPE_def HTYPE_def BHDR_SIZE_def ex_pointer is_tag_defs) (simp add: ex_symbol_def)
  show "thread_wf ?t" by (rule ex_thread_wf) (simp_all add: is_tag_defs tag_defs)
qed (simp_all add: stack_at_def heap_init_eq size_defs)

theorem bytevector_set_rejects_zero_witness:
  "bytevector_8_set (ex_thread [4194304 \<mapsto> ex_bytevector] [MAKE_CONST_PTR 4194312, MAKE_FIXNUM 1, MAKE_FIXNUM 0]) 0 1 2 =
     Inr (ex_thread [4194304 \<mapsto> ex_bytevector] [MAKE_CONST_PTR 4194312, MAKE_FIXNUM 1, MAKE_FIXNUM 0], RC_ERROR)"
proof (rule bytevector_set_rejects_zero [where x = "MAKE_CONST_PTR 4194312" and p = "MAKE_FIXNUM 1"
      and v = "\<lparr>data = 4194328, bv_size = 2, bytes = [7, 9]\<rparr>"])
  let ?t = "ex_thread [4194304 \<mapsto> ex_bytevector] [MAKE_CONST_PTR 4194312, MAKE_FIXNUM 1, MAKE_FIXNUM 0]"
  have m: "mem_of ?t 4194304 = Some ex_bytevector"
    by (rule ex_thread_mem) (simp add: blen_def ex_bytevector_def BHDR_SIZE_def)
  show "IS_BYTEVECTOR (mem_of ?t) (MAKE_CONST_PTR 4194312) = Inr True"
    using m by (simp add: IS_BYTEVECTOR_def IS_TYPE_def HTYPE_def BHDR_SIZE_def ex_pointer is_tag_defs)
      (simp add: ex_bytevector_def)
  show "bytevector_at (mem_of ?t) (MAKE_CONST_PTR 4194312) = Inr \<lparr>data = 4194328, bv_size = 2, bytes = [7, 9]\<rparr>"
    using m by (simp add: bytevector_at_def HTYPE_def BHDR_SIZE_def ex_pointer) (simp add: ex_bytevector_def)
qed (simp_all add: stack_at_def is_tag_defs)

end
