(* ===== verification/Vm_Lists.thy ===== *)
theory Vm_Lists
  imports Faults
begin

unbundle bit_operations_syntax

text \<open>
  Lists: what the pairs in memory stand for. A collection keeps lists, renaming their elements;
  \<^verbatim>\<open>_cons\<close>, \<^verbatim>\<open>_list\<close>, \<^verbatim>\<open>length\<close> and \<^verbatim>\<open>apply\<close> build, measure and take
  apart the lists of their arguments.
\<close>

section \<open>Lists in memory\<close>

text \<open>
  \<open>list_in m x xs\<close>: \<open>x\<close> is a proper list of \<open>xs\<close>, and every pair of it carries the flag and
  the length of the list that it starts.
\<close>

fun list_in :: "memory \<Rightarrow> obj \<Rightarrow> obj list \<Rightarrow> bool" where
  "list_in m x [] = IS_NULL x"
| "list_in m x (y # ys) =
     (\<not> IS_NULL x \<and> IS_PAIR m x = Inr True
      \<and> (case pair_at m x of Inl _ \<Rightarrow> False
         | Inr q \<Rightarrow> car q = y \<and> pair_list q = Some True \<and> pair_length q = Some (of_nat (Suc (length ys)))
             \<and> list_in m (cdr q) ys))"

lemma list_in_Cons:
  "list_in m x (y # ys) \<longleftrightarrow> \<not> IS_NULL x \<and> IS_PAIR m x = Inr True
     \<and> (\<exists>d. pair_at m x = Inr \<lparr>car = y, cdr = d, pair_list = Some True, pair_length = Some (of_nat (Suc (length ys)))\<rparr>
          \<and> list_in m d ys)"
proof (cases "pair_at m x")
  case (Inr q)
  then show ?thesis by (cases q) auto
qed simp

declare list_in.simps(2) [simp del]

text \<open>Memory that still has every block has every list.\<close>

definition keeps_blocks :: "memory \<Rightarrow> memory \<Rightarrow> bool" where
  "keeps_blocks m m' \<longleftrightarrow> (\<forall>p b. HTYPE m p = Some b \<longrightarrow> HTYPE m' p = Some b)"

lemma IS_PAIR_block:
  "IS_PAIR m x = Inr True \<longleftrightarrow> (IS_HEAP_PTR x \<or> IS_CONST_PTR x) \<and> (\<exists>b. HTYPE m (PTR x) = Some b \<and> type_id (hdr b) = t_pair)"
  by (auto simp: IS_PAIR_def IS_TYPE_def bindE_Inr_iff)

lemma pair_at_block:
  "pair_at m x = Inr q \<longleftrightarrow> (\<exists>b. HTYPE m (PTR x) = Some b \<and> payload b = P_Pair q)"
  by (cases "HTYPE m (PTR x)") (auto simp: pair_at_def bindE_Inr_iff elim: pair_of.elims)

lemma list_in_mono: "keeps_blocks m m' \<Longrightarrow> list_in m x xs \<Longrightarrow> list_in m' x xs"
proof (induction xs arbitrary: x)
  case (Cons y ys)
  then show ?case by (fastforce simp: list_in_Cons IS_PAIR_block pair_at_block keeps_blocks_def)
qed simp

text \<open>The flags that \<^verbatim>\<open>_cons\<close> computes in front of a list.\<close>

lemma cons_flags_list:
  assumes "list_in m d ys" shows "cons_flags m init d = Inr (Some True, Some (of_nat (Suc (length ys))))"
proof (cases ys)
  case Nil
  then show ?thesis using assms by (simp add: cons_flags_def)
next
  case (Cons y zs)
  then show ?thesis using assms by (auto simp: cons_flags_def list_in_Cons)
qed

section \<open>Collection\<close>

lemma collect_remote:
  assumes wf: "thread_wf t" and nf: "\<not> full_gc (heap t)" and gc: "heap_gc t = Inr t'"
  shows "away (heap t) (p - 8) (blen b) \<Longrightarrow> 8 \<le> p \<Longrightarrow> HTYPE (mem_of t) p = Some b \<Longrightarrow> HTYPE (mem_of t') p = Some b"
proof -
  from gc obtain t1 where t1: "heap_gc_main t = Inr t1" by (auto simp: heap_gc_def bindE_Inr_iff)
  have s: "gc_inv (heap t1)" using heap_gc_main_safe [OF wf nf] t1 by auto
  then have "\<not> full_gc (heap t1)" by (simp add: gc_inv_def)
  note g = heap_gc_of_main [OF gc t1 this]
  have "remote (heap t) (flip (heap t1))"
    using heap_gc_main_follows [OF t1 wf nf] by (intro remote_trans [OF gc_steps_remote flip_remote [OF s]]) simp
  then show "away (heap t) (p - 8) (blen b) \<Longrightarrow> 8 \<le> p \<Longrightarrow> HTYPE (mem_of t) p = Some b \<Longrightarrow> HTYPE (mem_of t') p = Some b"
    by (auto simp: remote_def HTYPE_def BHDR_SIZE_def g(1))
qed

text \<open>A value that the thread holds, or that something it holds leads to.\<close>

definition held :: "addr set \<Rightarrow> vm_thread \<Rightarrow> obj \<Rightarrow> bool" where
  "held C t x \<longleftrightarrow> value_ok C t x \<and> (IS_HEAP_PTR x \<longrightarrow> reaches t (PTR x))"

lemma held_root: "thread_ok C t \<Longrightarrow> x \<in> set (root_objs r t) \<Longrightarrow> held C t x"
  using root_ok_parts [of "value_ok C t" "valid_addr (heap t)" r t] thread_okE(1) [of C t r]
  by (auto simp: held_def intro: reaches.root_obj)

lemma held_slot:
  assumes ok: "thread_ok C t" and h: "held C t x" and q: "IS_PAIR (mem_of t) x = Inr True" "pair_at (mem_of t) x = Inr q"
  shows "held C t (car q)" "held C t (cdr q)"
proof -
  from h have v: "value_ok C t x" by (simp add: held_def)
  note pv = pair_ok [OF ok v q(1)]
  have vals: "value_ok C t (car q)" "value_ok C t (cdr q)" using pv q(2) by (metis Inr_inject)+
  from q obtain b where b: "HTYPE (mem_of t) (PTR x) = Some b" "payload b = P_Pair q" by (auto simp: pair_at_block)
  have "reaches t (PTR y)" if y: "y \<in> {car q, cdr q}" "IS_HEAP_PTR y" for y
  proof (cases "IS_HEAP_PTR x")
    case True
    then show ?thesis using h b y by (intro reaches.slot [of t "PTR x" b y]) (auto simp: held_def)
  next
    case False
    then have "PTR x \<in> C" using q(1) v by (auto simp: IS_PAIR_block value_ok_def refers_def)
    then show ?thesis
      using thread_okE(7) [OF ok] b y by (auto simp: heap_ok_def consts_ok_def const_block_def HTYPE_def BHDR_SIZE_def)
  qed
  with vals show "held C t (car q)" "held C t (cdr q)" by (auto simp: held_def)
qed

lemma heap_ptr_not_null: "IS_HEAP_PTR x \<or> IS_CONST_PTR x \<Longrightarrow> \<not> IS_NULL x"
  by (auto simp: IS_NULL_def is_tag_defs tag_defs)

lemma rename_tags [simp]:
  "IS_HEAP_PTR (rename_obj f x) = IS_HEAP_PTR x" "IS_CONST_PTR (rename_obj f x) = IS_CONST_PTR x"
  "IS_NULL (rename_obj f x) = IS_NULL x" "\<not> IS_HEAP_PTR x \<Longrightarrow> rename_obj f x = x"
proof -
  show "IS_NULL (rename_obj f x) = IS_NULL x" by (metis IS_HEAP_PTR_MAKE heap_ptr_not_null rename_obj_def)
qed (auto simp: rename_obj_def is_tag_defs)

lemma rename_fixnum [simp]: "rename_obj f (MAKE_FIXNUM v) = MAKE_FIXNUM v"
  by (rule rename_tags(4)) (simp add: is_tag_defs tag_defs)

text \<open>A pair of the heap after a collection.\<close>

lemma collect_pair:
  assumes f: "same_graph f t t'" "\<forall>p. reaches t p \<longrightarrow> PTR (MAKE_HEAP_PTR (f p)) = f p"
    and x: "IS_HEAP_PTR x" "reaches t (PTR x)" and q: "IS_PAIR (mem_of t) x = Inr True" "pair_at (mem_of t) x = Inr q"
  shows "IS_PAIR (mem_of t') (rename_obj f x) = Inr True"
    and "pair_at (mem_of t') (rename_obj f x) = Inr (q\<lparr>car := rename_obj f (car q), cdr := rename_obj f (cdr q)\<rparr>)"
proof -
  from q obtain b where b: "HTYPE (mem_of t) (PTR x) = Some b" "type_id (hdr b) = t_pair" "payload b = P_Pair q"
    unfolding IS_PAIR_block pair_at_block by auto
  then obtain b' where b': "HTYPE (mem_of t') (f (PTR x)) = Some b'" "type_id (hdr b') = t_pair"
      "shape (payload b') = shape (payload b)" "obj_slots (payload b') = map (rename_obj f) (obj_slots (payload b))"
    using f(1) x(2) unfolding same_graph_def by (metis option.inject)
  have "payload b' = P_Pair (q\<lparr>car := rename_obj f (car q), cdr := rename_obj f (cdr q)\<rparr>)"
    using b'(3,4) unfolding b(3) by (cases "payload b'") (auto split: if_splits intro!: pair_t.equality dest: arg_cong [where f = pair_list] arg_cong [where f = pair_length])
  moreover have "PTR (rename_obj f x) = f (PTR x)" using f(2) x by (simp add: rename_obj_def)
  ultimately show "IS_PAIR (mem_of t') (rename_obj f x) = Inr True"
    "pair_at (mem_of t') (rename_obj f x) = Inr (q\<lparr>car := rename_obj f (car q), cdr := rename_obj f (cdr q)\<rparr>)"
    using b' x(1) by (auto simp: IS_PAIR_block pair_at_block)
qed

lemma collect_list:
  assumes ok: "thread_ok C t" and nf: "\<not> full_gc (heap t)" and gc: "heap_gc t = Inr t'"
    and f: "same_graph f t t'" "\<forall>p. reaches t p \<longrightarrow> PTR (MAKE_HEAP_PTR (f p)) = f p"
  shows "held C t x \<Longrightarrow> list_in (mem_of t) x xs \<Longrightarrow> list_in (mem_of t') (rename_obj f x) (map (rename_obj f) xs)"
proof (induction xs arbitrary: x)
  case (Cons y ys)
  then obtain d where q: "\<not> IS_NULL x" "IS_PAIR (mem_of t) x = Inr True" "list_in (mem_of t) d ys"
      "pair_at (mem_of t) x = Inr \<lparr>car = y, cdr = d, pair_list = Some True, pair_length = Some (of_nat (Suc (length ys)))\<rparr>"
    by (auto simp: list_in_Cons)
  note hd = held_slot [OF ok Cons.prems(1) q(2,4), simplified]
  have tl: "list_in (mem_of t') (rename_obj f d) (map (rename_obj f) ys)" by (rule Cons.IH [OF hd(2) q(3)])
  from q obtain b where b: "HTYPE (mem_of t) (PTR x) = Some b" "type_id (hdr b) = t_pair"
      "payload b = P_Pair \<lparr>car = y, cdr = d, pair_list = Some True, pair_length = Some (of_nat (Suc (length ys)))\<rparr>"
    unfolding IS_PAIR_block pair_at_block by auto
  show ?case
  proof (cases "IS_HEAP_PTR x")
    case True
    then have "reaches t (PTR x)" using Cons.prems(1) by (simp add: held_def)
    from collect_pair [OF f True this q(2,4)] show ?thesis using q(1) tl by (auto simp: list_in_Cons)
  next
    case False
    then have c: "IS_CONST_PTR x" "PTR x \<in> C" using q(2) Cons.prems(1)
      by (auto simp: IS_PAIR_block held_def value_ok_def refers_def)
    then have cb: "8 \<le> PTR x" "away (heap t) (PTR x - 8) (blen b)" "const_block C (PTR x) b"
      using thread_okE(7) [OF ok] b(1) by (auto simp: heap_ok_def consts_ok_def HTYPE_def BHDR_SIZE_def)
    have "HTYPE (mem_of t') (PTR x) = Some b"
      by (rule collect_remote [OF thread_okE(6) [OF ok] nf gc cb(2,1) b(1)])
    moreover have "rename_obj f y = y" "rename_obj f d = d" using cb(3) b(3) by (auto simp: const_block_def)
    ultimately show ?thesis
      using q(1) b c tl False by (auto simp: list_in_Cons IS_PAIR_block pair_at_block)
  qed
qed simp

section \<open>The room after a collection\<close>

lemma gc_steps_fresh: "gc_steps h h' \<Longrightarrow> fresh h' = fresh h"
proof (induction rule: rtranclp_induct)
  case (step h1 h2)
  have "fresh h2 = fresh h1"
    using step.hyps(2)
  proof cases
    case (step_move a b bf bc q)
    then show ?thesis using move_facts(1) [OF step_move] by (simp add: ext_def)
  next
    case (step_visit a b pl)
    then show ?thesis by simp
  next
    case step_grow
    then have "ext {} h1 h2" using old_on_demand_safe [OF step_grow(1)] by simp
    then show ?thesis by (simp add: ext_def)
  next
    case step_forget
    then show ?thesis by (simp add: forget_def)
  qed
  with step.IH show ?case by simp
qed simp

lemma collect_room:
  assumes wf: "thread_wf t" and nf: "\<not> full_gc (heap t)" and gc: "heap_gc t = Inr t'"
  shows "free_mem (fresh (heap t')) = sp_size (fresh (heap t))" "sp_size (fresh (heap t')) = sp_size (fresh (heap t))"
proof -
  from gc obtain t1 where t1: "heap_gc_main t = Inr t1" by (auto simp: heap_gc_def bindE_Inr_iff)
  have s: "gc_inv (heap t1)" using heap_gc_main_safe [OF wf nf] t1 by auto
  then have nf1: "\<not> full_gc (heap t1)" by (simp add: gc_inv_def)
  from gc t1 nf1 obtain t5 where t5: "thread_after_gc (t1\<lparr>heap := flip (heap t1)\<rparr>) = Inr t5"
      "t' = t5\<lparr>heap := (schedule_full (heap t5))\<lparr>gc_count := Suc (gc_count (heap t5))\<rparr>\<rparr>"
    by (auto simp: heap_gc_def bindE_Inr_iff flip_def Let_def)
  from thread_after_gc_objects [OF t5(1)] have "fresh (heap t5) = fresh (flip (heap t1))" by auto
  then have "fresh (heap t') = (space_reset (fresh (heap t1)))\<lparr>sp_clear := True\<rparr>" by (simp add: t5(2) schedule_full_def flip_fields)
  moreover have "fresh (heap t1) = fresh (heap t)"
    using heap_gc_main_follows [OF t1 wf nf] gc_steps_fresh by blast
  ultimately show "free_mem (fresh (heap t')) = sp_size (fresh (heap t))" "sp_size (fresh (heap t')) = sp_size (fresh (heap t))"
    by simp_all
qed

section \<open>The values of a thread across a collection\<close>

text \<open>
  The operand stack keeps its values, up to a renaming of the heap pointers among them.
\<close>

definition moved_value :: "(addr \<Rightarrow> addr) \<Rightarrow> obj \<Rightarrow> obj \<Rightarrow> bool" where
  "moved_value f x y \<longleftrightarrow> y = rename_obj f x \<and> (IS_HEAP_PTR x \<longrightarrow> PTR y = f (PTR x))"

lemma moved_value_trans: "moved_value f x y \<Longrightarrow> moved_value g y z \<Longrightarrow> moved_value (g \<circ> f) x z"
  by (cases "IS_HEAP_PTR x") (auto simp: moved_value_def rename_obj_def)

definition stack_ptrs :: "vm_thread \<Rightarrow> addr set" where
  "stack_ptrs t = {PTR (opstack t ! i) |i. i < op_stack_idx t \<and> IS_HEAP_PTR (opstack t ! i)}"

text \<open>The renaming of a stack; different objects stay different.\<close>

definition stack_moved :: "(addr \<Rightarrow> addr) \<Rightarrow> vm_thread \<Rightarrow> vm_thread \<Rightarrow> bool" where
  "stack_moved f t t' \<longleftrightarrow> op_stack_idx t' = op_stack_idx t \<and> inj_on f (stack_ptrs t)
     \<and> (\<forall>i < op_stack_idx t. moved_value f (opstack t ! i) (opstack t' ! i))"

lemma rename_id [simp]: "rename_obj id x = x" "rename_obj (\<lambda>a. a) x = x"
  by (simp_all add: rename_obj_def MAKE_HEAP_PTR_PTR)

lemma stack_moved_refl: "op_stack_idx t' = op_stack_idx t \<Longrightarrow> opstack t' = opstack t \<Longrightarrow> stack_moved id t t'"
  by (simp add: stack_moved_def moved_value_def)

lemma stack_moved_trans:
  assumes f: "stack_moved f t t1" and g: "stack_moved g t1 t2" shows "stack_moved (g \<circ> f) t t2"
proof -
  have "f ` stack_ptrs t \<subseteq> stack_ptrs t1"
  proof
    fix p assume "p \<in> f ` stack_ptrs t"
    then obtain i where i: "i < op_stack_idx t" "IS_HEAP_PTR (opstack t ! i)" "p = f (PTR (opstack t ! i))"
      by (auto simp: stack_ptrs_def)
    then have "moved_value f (opstack t ! i) (opstack t1 ! i)" "i < op_stack_idx t1" using f by (simp_all add: stack_moved_def)
    then show "p \<in> stack_ptrs t1"
      using i(2,3) unfolding stack_ptrs_def moved_value_def by (auto intro!: exI [of _ i] simp:)
  qed
  then have "inj_on (g \<circ> f) (stack_ptrs t)"
    using f g by (auto simp: stack_moved_def intro!: comp_inj_on intro: inj_on_subset)
  then show ?thesis using f g by (auto simp: stack_moved_def intro: moved_value_trans)
qed

lemma collect_stack:
  assumes ok: "thread_ok C t" and f: "same_graph f t t'" "\<forall>p. reaches t p \<longrightarrow> PTR (MAKE_HEAP_PTR (f p)) = f p"
    and sh: "same_shape t t'"
  shows "stack_moved f t t'"
  unfolding stack_moved_def moved_value_def
proof (intro conjI allI impI)
  show "op_stack_idx t' = op_stack_idx t" using sh by (simp add: same_shape_def)
  have "opstack t ! i \<in> set (root_objs R_Stack t)" if "i < op_stack_idx t" for i
    using stack_values(2) [OF ok that] that by (auto simp: in_set_conv_nth intro!: exI [of _ i])
  then have "stack_ptrs t \<subseteq> {p. reaches t p}" by (auto simp: stack_ptrs_def intro!: reaches.root_obj [of _ R_Stack])
  then show "inj_on f (stack_ptrs t)" using f(1) by (auto simp: same_graph_def intro: inj_on_subset)
next
  fix i assume i: "i < op_stack_idx t"
  have l: "i < length (opstack t)" "i < length (opstack t')" using stack_values(2) [OF ok i] sh by (simp_all add: same_shape_def)
  have "root_objs R_Stack t' = map (rename_obj f) (root_objs R_Stack t)" using f(1) by (simp add: same_graph_def)
  then have "take (op_stack_idx t) (opstack t') ! i = map (rename_obj f) (take (op_stack_idx t) (opstack t)) ! i"
    using sh by (simp add: same_shape_def)
  then show r: "opstack t' ! i = rename_obj f (opstack t ! i)" using i l by simp
  have "opstack t ! i \<in> set (root_objs R_Stack t)" using i l by (auto simp: in_set_conv_nth intro!: exI [of _ i])
  note held_root [OF ok this]
  then show "PTR (opstack t' ! i) = f (PTR (opstack t ! i))" if "IS_HEAP_PTR (opstack t ! i)"
    using that f(2) unfolding r by (simp add: rename_obj_def held_def)
qed

text \<open>
  What an allocation of \<open>n\<close> bytes does to the addresses of objects: nothing when there is room for the block;
  otherwise it collects, and the addresses change as the object graph moves.
\<close>

definition alloc_renames :: "nat \<Rightarrow> vm_thread \<Rightarrow> (addr \<Rightarrow> addr) \<Rightarrow> bool" where
  "alloc_renames n t f \<longleftrightarrow> (if round8 n + 8 \<le> free_mem (fresh (heap t)) then f = id
     else \<exists>t0. heap_gc t = Inr t0 \<and> same_graph f t t0)"

text \<open>The thread that an allocation works on: the same one, or the one after a collection.\<close>

lemma source_renames:
  assumes ok: "thread_ok C t" and room: "\<not> full_gc (heap t) \<or> round8 n + 8 \<le> free_mem (fresh (heap t))"
    and gr: "grown C t t0" and src: "source t n t0"
  shows "\<exists>f. alloc_renames n t f \<and> stack_moved f t t0
    \<and> (\<forall>r. root_objs r t0 = map (rename_obj f) (root_objs r t) \<and> root_links r t0 = map f (root_links r t))
    \<and> (\<forall>x xs. held C t x \<longrightarrow> list_in (mem_of t) x xs \<longrightarrow> list_in (mem_of t0) (rename_obj f x) (map (rename_obj f) xs))"
proof (cases "round8 n + 8 \<le> free_mem (fresh (heap t))")
  case True
  then have "t0 = t" using src by (simp add: source_def)
  moreover have "map (rename_obj id) xs = xs" for xs by (induction xs) simp_all
  ultimately show ?thesis using True by (intro exI [of _ id]) (simp add: stack_moved_refl alloc_renames_def)
next
  case False
  then have gc: "heap_gc t = Inr t0" and nf: "\<not> full_gc (heap t)" using src room by (auto simp: source_def)
  have sh: "same_shape t t0" using gr by (simp add: grown_def)
  from heap_gc_renames [OF thread_okE(6) [OF ok] nf gc] obtain f where
    f: "same_graph f t t0" "\<forall>p. reaches t p \<longrightarrow> PTR (MAKE_HEAP_PTR (f p)) = f p"
    by blast
  then show ?thesis
    using collect_stack [OF ok f sh] collect_list [OF ok nf gc f] False gc
    by (intro exI [of _ f]) (simp add: alloc_renames_def, simp add: same_graph_def)
qed

section \<open>Building a list\<close>

lemma new_pair_list:
  assumes ok: "thread_ok C t" and fits: "32 \<le> free_mem (fresh (heap t))" and v: "value_ok C t xa" "value_ok C t xd"
    and fl: "cons_flags (mem_of t) (Some False, Some 0) xd = Inr (Some l, Some n)" and ls: "list_in (mem_of t) xd ys"
  shows "list_in (mem_of (new_pair t xa xd l n)) (MAKE_HEAP_PTR (new_addr t)) (xa # ys)"
    and "keeps_blocks (mem_of t) (mem_of (new_pair t xa xd l n))"
proof -
  let ?pl = "P_Pair \<lparr>car = xa, cdr = xd, pair_list = Some l, pair_length = Some n\<rparr>"
  have "links_ok (value_ok C t) (\<lambda>q. valid_addr (heap t) q \<and> hdr_type (heap t) q = Some t_env) ?pl"
    using v by (simp add: links_ok_def)
  note o = new_object_ok(4,5,6) [OF ok _ _ _ _ this, of 24 t_pair, folded new_pair_def]
  show k: "keeps_blocks (mem_of t) (mem_of (new_pair t xa xd l n))"
    unfolding keeps_blocks_def using o(3) fits by simp
  have "l" "n = of_nat (Suc (length ys))" using fl cons_flags_list [OF ls] by simp_all
  moreover have "list_in (mem_of (new_pair t xa xd l n)) xd ys" by (rule list_in_mono [OF k ls])
  moreover have "PTR (MAKE_HEAP_PTR (new_addr t)) = new_addr t"
      "HTYPE (mem_of (new_pair t xa xd l n)) (new_addr t) = Some ((zero_block t_pair 24)\<lparr>payload := ?pl\<rparr>)"
    using o(1,2) fits by simp_all
  moreover have "\<not> IS_NULL (MAKE_HEAP_PTR a)" for a by (rule heap_ptr_not_null) simp
  ultimately show "list_in (mem_of (new_pair t xa xd l n)) (MAKE_HEAP_PTR (new_addr t)) (xa # ys)"
    by (simp add: list_in_Cons IS_PAIR_block pair_at_block)
qed

text \<open>There is room for \<open>i\<close> pairs, at once or after a collection.\<close>

definition pairs_fit :: "nat \<Rightarrow> vm_thread \<Rightarrow> bool" where
  "pairs_fit i t \<longleftrightarrow> 32 * i \<le> free_mem (fresh (heap t))
     \<or> \<not> full_gc (heap t) \<and> 32 * i \<le> sp_size (fresh (heap t))"

lemma cons_fits:
  assumes ok: "thread_ok C t" and fit: "32 \<le> free_mem (fresh (heap t)) \<or> \<not> full_gc (heap t)"
    and a: "reads_value C t a" and d: "reads_value C t d"
  shows "defined (consed C t a d) (cons heap_allocator t a d)"
proof (cases "full_gc (heap t)")
  case False
  then show ?thesis by (rule cons_ok [OF ok _ a d])
next
  case True
  then have fits: "32 \<le> free_mem (fresh (heap t))" using fit by simp
  have sh: "same_shape t t" by (simp add: same_shape_def)
  from a ok sh obtain xa where xa: "value_ok C t xa" "a t = Inr xa" "\<And>tid sz. a (alloc_at t tid sz) = Inr xa"
    unfolding reads_value_def by blast
  from d ok sh obtain xd where xd: "value_ok C t xd" "d t = Inr xd" "\<And>tid sz. d (alloc_at t tid sz) = Inr xd"
    unfolding reads_value_def by blast
  from pair_built [where a = a and d = d, OF ok fits xa(1) xd(1) xa(3) [of t_pair 24] xd(3) [of t_pair 24]] obtain l n where
    f: "fill_pair a d (alloc_at t t_pair 24, new_addr t) = Inr (new_pair t xa xd l n, MAKE_HEAP_PTR (new_addr t))"
      "cons_flags (mem_of t) (Some False, Some 0) xd = Inr (Some l, Some n)"
      "thread_ok C (new_pair t xa xd l n)" "value_ok C (new_pair t xa xd l n) (MAKE_HEAP_PTR (new_addr t))"
    by metis
  have "cons heap_allocator t a d = Inr (new_pair t xa xd l n, MAKE_HEAP_PTR (new_addr t))"
    using heap_alloc_room [OF ok, of 24 t_pair] fits f(1) by (simp add: cons_fill sizeof_pair_def)
  moreover have "grown C t t" "grown C t (new_pair t xa xd l n)" using ok f(3) sh by (auto simp: grown_def)
  moreover have "source t sizeof_pair t" using fits by (simp add: source_def sizeof_pair_def)
  ultimately show ?thesis using xa xd f fits unfolding consed_def by auto
qed

lemma consedE:
  assumes "consed C t a d y"
  obtains t0 xa xd l n where "grown C t t0" "source t 24 t0" "a t0 = Inr xa" "d t0 = Inr xd"
    "value_ok C t0 xa" "value_ok C t0 xd" "cons_flags (mem_of t0) (Some False, Some 0) xd = Inr (Some l, Some n)"
    "y = (new_pair t0 xa xd l n, MAKE_HEAP_PTR (new_addr t0))" "thread_ok C (new_pair t0 xa xd l n)"
    "value_ok C (new_pair t0 xa xd l n) (MAKE_HEAP_PTR (new_addr t0))" "32 \<le> free_mem (fresh (heap t0))"
proof -
  from assms obtain t0 xa xd l n where c: "grown C t t0" "source t 24 t0" "a t0 = Inr xa" "d t0 = Inr xd"
    "value_ok C t0 xa" "value_ok C t0 xd" "cons_flags (mem_of t0) (Some False, Some 0) xd = Inr (Some l, Some n)"
    "y = (new_pair t0 xa xd l n, MAKE_HEAP_PTR (new_addr t0))" "32 \<le> free_mem (fresh (heap t0))"
    "grown C t (fst y)" "value_ok C (fst y) (snd y)"
    unfolding consed_def sizeof_pair_def by blast
  from c(10,11) have "thread_ok C (new_pair t0 xa xd l n)" "value_ok C (new_pair t0 xa xd l n) (MAKE_HEAP_PTR (new_addr t0))"
    unfolding c(8) grown_def by simp_all
  with c that show thesis by blast
qed

text \<open>One round: the list in the protected local gets another stack value in front.\<close>

lemma consed_list:
  assumes ok: "thread_ok C t" and fit: "pairs_fit (Suc i) t" and k: "k < op_stack_idx t" and l: "local_roots t = Some [l]"
    and ls: "list_in (mem_of t) l (map ((!) (opstack t)) js)" "\<forall>j \<in> set js. j < op_stack_idx t"
    and c: "consed C t (stack_at k) (get_local 0) (t1, x)"
  shows "\<exists>f. stack_moved f t t1 \<and> list_in (mem_of t1) x (map ((!) (opstack t1)) (k # js)) \<and> pairs_fit i t1"
proof -
  from consedE [OF c] obtain t0 xa xd fl n where t0: "grown C t t0" "source t 24 t0" "stack_at k t0 = Inr xa"
      "get_local 0 t0 = Inr xd" "value_ok C t0 xa" "value_ok C t0 xd"
      "cons_flags (mem_of t0) (Some False, Some 0) xd = Inr (Some fl, Some n)"
      "(t1, x) = (new_pair t0 xa xd fl n, MAKE_HEAP_PTR (new_addr t0))" "32 \<le> free_mem (fresh (heap t0))"
    by metis
  then have ok0: "thread_ok C t0" and sh: "same_shape t t0" by (auto simp: grown_def)
  have r: "t1 = new_pair t0 xa xd fl n" "x = MAKE_HEAP_PTR (new_addr t0)" using t0(8) by simp_all
  have st: "opstack t1 = opstack t0" "op_stack_idx t1 = op_stack_idx t0" by (simp_all add: r)
  have xa: "xa = opstack t0 ! k" using t0(3) by (auto simp: stack_at_def split: if_splits)
  have "\<not> full_gc (heap t) \<or> round8 24 + 8 \<le> free_mem (fresh (heap t))" using fit by (auto simp: pairs_fit_def)
  from source_renames [OF ok this t0(1,2)] obtain f where
    f: "stack_moved f t t0" "\<And>r. root_objs r t0 = map (rename_obj f) (root_objs r t)"
      "\<And>x xs. held C t x \<Longrightarrow> list_in (mem_of t) x xs \<Longrightarrow> list_in (mem_of t0) (rename_obj f x) (map (rename_obj f) xs)"
    by blast
  have "root_objs R_Locals t0 = [rename_obj f l]" by (simp add: f(2) l)
  then have xd: "xd = rename_obj f l" using t0(4) by (auto simp: get_local_def split: option.splits)
  have "held C t l" by (rule held_root [OF ok, of _ R_Locals]) (simp add: l)
  from f(3) [OF this ls(1)] have "list_in (mem_of t0) xd (map (rename_obj f) (map ((!) (opstack t)) js))" by (simp only: xd)
  moreover have "map (rename_obj f) (map ((!) (opstack t)) js) = map ((!) (opstack t0)) js"
    using f(1) ls(2) by (simp add: stack_moved_def moved_value_def)
  ultimately have l0: "list_in (mem_of t0) xd (map ((!) (opstack t0)) js)" by (simp only:)
  have room: "32 * Suc i \<le> free_mem (fresh (heap t0)) \<or> \<not> full_gc (heap t0) \<and> 32 * Suc i \<le> sp_size (fresh (heap t0))"
    using t0(2) fit collect_room(1) [OF thread_okE(6) [OF ok]] by (auto simp: source_def pairs_fit_def split: if_splits)
  from new_pair_list(1) [OF ok0 t0(9,5,6,7) l0] have "list_in (mem_of t1) x (xa # map ((!) (opstack t0)) js)"
    by (simp add: r)
  moreover have "stack_moved f t t1" using f(1) by (simp add: stack_moved_def st)
  moreover have "sp_size (fresh (heap t1)) = sp_size (fresh (heap t0))"
    by (simp add: r new_pair_def new_object_def set_object_alloc_at) (simp add: alloc_at_def Let_def)
  then have "pairs_fit i t1" using room by (auto simp: pairs_fit_def r)
  ultimately show ?thesis by (auto simp: st xa)
qed

text \<open>The whole loop, and what it returns.\<close>

definition list_made :: "addr set \<Rightarrow> vm_thread \<Rightarrow> nat list \<Rightarrow> vm_thread \<Rightarrow> obj \<Rightarrow> bool" where
  "list_made C t ks t' x \<longleftrightarrow> thread_ok C t' \<and> same_shape t t' \<and> (locals_home t \<longrightarrow> locals_home t') \<and> value_ok C t' x
     \<and> (\<exists>f. stack_moved f t t') \<and> list_in (mem_of t') x (map ((!) (opstack t')) ks)"

lemma list_loop_made:
  assumes "thread_ok C t" and "pairs_fit i t" and "a + i \<le> op_stack_idx t" and "local_roots t = Some [l]"
    and "list_in (mem_of t) l (map ((!) (opstack t)) js)" and "\<forall>j \<in> set js. j < op_stack_idx t"
  shows "defined (\<lambda>t'. \<exists>x. local_roots t' = Some [x] \<and> list_made C t ([a..<a + i] @ js) t' x)
    (list_loop i (\<lambda>j. stack_at (a + j)) t)"
  using assms
proof (induction i arbitrary: t l js)
  case 0
  have "value_ok C t l" using thread_okE(1) [OF 0(1), of R_Locals] 0(4) by simp
  then show ?case using 0 stack_moved_refl [of t t] by (auto simp: list_made_def)
next
  case (Suc i)
  have k: "a + i < op_stack_idx t" using Suc.prems(3) by simp
  note rd = reads_value_stack [OF k, of C] reads_value_local [OF Suc.prems(4), of 0 C, simplified]
  have fit: "32 \<le> free_mem (fresh (heap t)) \<or> \<not> full_gc (heap t)" using Suc.prems(2) by (auto simp: pairs_fit_def)
  show ?case
    unfolding list_loop.simps
  proof (rule defined_bind [OF cons_fits [OF Suc.prems(1) fit rd]])
    fix y assume y: "consed C t (stack_at (a + i)) (get_local 0) y"
    then obtain t1 x where r: "y = (t1, x)" "grown C t t1" "value_ok C t1 x"
      unfolding consed_def by (metis prod.collapse fst_conv snd_conv)
    from consed_list [OF Suc.prems(1,2) k Suc.prems(4,5,6) y [unfolded r(1)]] obtain f where
      f: "stack_moved f t t1" "list_in (mem_of t1) x (map ((!) (opstack t1)) ((a + i) # js))" "pairs_fit i t1"
      by blast
    let ?t2 = "set_local 0 x t1"
    have ok1: "thread_ok C t1" and sh: "same_shape t t1" and lh: "locals_home t \<longrightarrow> locals_home t1"
      using r(2) by (auto simp: grown_def)
    then obtain l1 where l1: "local_roots t1 = Some [l1]" using Suc.prems(4) by (auto simp: same_shape_def length_Suc_conv)
    then have t2: "?t2 = t1\<lparr>local_roots := Some [x]\<rparr>" by (simp add: set_local_def)
    have ok2: "thread_ok C ?t2" by (rule set_local_ok [OF ok1 r(3)])
    have idx: "op_stack_idx ?t2 = op_stack_idx t" using sh by (simp add: t2 same_shape_def)
    have "defined (\<lambda>t'. \<exists>x. local_roots t' = Some [x] \<and> list_made C ?t2 ([a..<a + i] @ (a + i) # js) t' x)
        (list_loop i (\<lambda>j. stack_at (a + j)) ?t2)"
    proof (rule Suc.IH [OF ok2])
      show "pairs_fit i ?t2" using f(3) by (simp add: pairs_fit_def t2)
      show "a + i \<le> op_stack_idx ?t2" using Suc.prems(3) idx by simp
      show "local_roots ?t2 = Some [x]" by (simp add: t2)
      show "list_in (mem_of ?t2) x (map ((!) (opstack ?t2)) ((a + i) # js))" using f(2) by (simp add: t2)
      show "\<forall>j \<in> set ((a + i) # js). j < op_stack_idx ?t2" using Suc.prems(6) k idx by simp
    qed
    moreover have "list_made C t ([a..<a + Suc i] @ js) t' z" if "list_made C ?t2 ([a..<a + i] @ (a + i) # js) t' z" for t' z
    proof -
      from that obtain g where "stack_moved g ?t2 t'" by (auto simp: list_made_def)
      then have "stack_moved g t1 t'" by (simp add: stack_moved_def stack_ptrs_def t2)
      then have "stack_moved (g \<circ> f) t t'" by (rule stack_moved_trans [OF f(1)])
      moreover have "same_shape ?t2 t' \<Longrightarrow> same_shape t t'"
        using sh l1 by (auto simp: same_shape_def t2)
      ultimately show ?thesis using that lh by (auto simp: list_made_def)
    qed
    ultimately show "defined (\<lambda>t'. \<exists>x. local_roots t' = Some [x] \<and> list_made C t ([a..<a + Suc i] @ js) t' x)
        (case y of (t1, x) \<Rightarrow> list_loop i (\<lambda>j. stack_at (a + j)) (set_local 0 x t1))"
      unfolding r(1) prod.case by (blast intro: defined_mono)
  qed
qed

lemma list_of_args_made:
  assumes ok: "thread_ok C t" and fit: "pairs_fit (nat n) t" and n: "0 \<le> n" "int a + n \<le> int (op_stack_idx t)"
  shows "defined (\<lambda>(t', x). thread_ok C t' \<and> value_ok C t' x \<and> op_stack_idx t' = op_stack_idx t
      \<and> op_stack_size t' = op_stack_size t \<and> tramp_func t' = tramp_func t
      \<and> (\<exists>f. stack_moved f t t') \<and> list_in (mem_of t') x (map ((!) (opstack t')) [a..<a + nat n]))
    (list_of_args (\<lambda>j. stack_at (a + j)) n t)"
proof -
  let ?t0 = "t\<lparr>local_roots := Some [cnull]\<rparr>"
  have t0: "set_local 0 cnull (define_locals 1 t) = ?t0" by (simp add: set_local_def define_locals_def)
  have ok0: "thread_ok C ?t0" by (rule locals_ok [OF ok]) simp
  have "defined (\<lambda>t'. \<exists>x. local_roots t' = Some [x] \<and> list_made C ?t0 ([a..<a + nat n] @ []) t' x)
      (list_loop (nat n) (\<lambda>j. stack_at (a + j)) ?t0)"
    by (rule list_loop_made [OF ok0]) (use fit n in \<open>simp_all add: pairs_fit_def IS_NULL_def\<close>)
  then show ?thesis
    unfolding list_of_args_def t0
  proof (rule defined_bind)
    fix t' assume "\<exists>x. local_roots t' = Some [x] \<and> list_made C ?t0 ([a..<a + nat n] @ []) t' x"
    then obtain x where x: "local_roots t' = Some [x]" "list_made C ?t0 [a..<a + nat n] t' x" by auto
    then obtain f where "stack_moved f ?t0 t'" by (auto simp: list_made_def)
    then have "stack_moved f t (clear_locals t')" by (simp add: stack_moved_def stack_ptrs_def clear_locals_def)
    moreover have "thread_ok C (clear_locals t')" using x(2) by (auto simp: list_made_def intro: clear_locals_ok)
    ultimately show "defined (\<lambda>(t', x). thread_ok C t' \<and> value_ok C t' x \<and> op_stack_idx t' = op_stack_idx t
      \<and> op_stack_size t' = op_stack_size t \<and> tramp_func t' = tramp_func t
      \<and> (\<exists>f. stack_moved f t t') \<and> list_in (mem_of t') x (map ((!) (opstack t')) [a..<a + nat n]))
     (bindE (get_local 0 t') (\<lambda>res. Inr (clear_locals t', res)))"
      using x by (auto simp: get_local_def clear_locals_def list_made_def same_shape_def)
  qed
qed

section \<open>The list functions\<close>


text \<open>
  C21: \<^verbatim>\<open>length\<close> of a list in memory is the number of its elements, for every list of fewer than \<open>2 ^ 31\<close> elements in
  whose pairs the lengths are stored as \<^verbatim>\<open>_cons\<close> stores them.
\<close>

theorem length_of_list:
  assumes "stack_at i t = Inr x" and "list_in (mem_of t) x xs" and "length xs < 2 ^ 31"
  shows "list_length t i = RETURN_FIXNUM t (of_nat (length xs))"
proof (cases xs)
  case Nil
  then show ?thesis using assms by (simp add: list_length_def)
next
  case (Cons y ys)
  have "unat (of_nat (length xs) :: 31 word) = length xs" using assms(3) by (simp add: unat_of_nat)
  then have "ucast (of_nat (length xs) :: 31 word) = (of_nat (length xs) :: u64)" by (metis of_nat_unat)
  then show ?thesis using assms(1,2) Cons by (auto simp: list_length_def list_in_Cons SAFE_ASSERT_def)
qed

lemma splice_Cons: "i < length st \<Longrightarrow> splice (Suc i) ys (st[i := y]) = splice i (y # ys) st"
  by (simp add: splice_def take_Suc_conv_app_nth)

lemma apply_loop_list:
  assumes "list_in (mem_of t) x xs" and "xs \<noteq> []" and "length xs \<le> n" and "op_stack_idx t + length xs < op_stack_size t"
    and "length (opstack t) = op_stack_size t"
  shows "apply_loop n t x c = Inr (t\<lparr>opstack := splice (op_stack_idx t) xs (opstack t),
    op_stack_idx := op_stack_idx t + length xs\<rparr>, c + int (length xs))"
  using assms
proof (induction xs arbitrary: n t x c)
  case (Cons y ys)
  then obtain m where n: "n = Suc m" by (cases n) auto
  from Cons.prems(1) obtain d where q: "list_in (mem_of t) d ys"
      "pair_at (mem_of t) x = Inr \<lparr>car = y, cdr = d, pair_list = Some True, pair_length = Some (of_nat (Suc (length ys)))\<rparr>"
    by (auto simp: list_in_Cons)
  let ?t1 = "t\<lparr>opstack := (opstack t)[op_stack_idx t := y], op_stack_idx := Suc (op_stack_idx t)\<rparr>"
  have push: "STACK_PUSH t y = Inr ?t1" using Cons.prems(4,5) by (simp add: STACK_PUSH_def)
  have sp: "splice (Suc (op_stack_idx t)) ys ((opstack t)[op_stack_idx t := y]) = splice (op_stack_idx t) (y # ys) (opstack t)"
    by (rule splice_Cons) (use Cons.prems(4,5) in simp)
  show ?case
  proof (cases ys)
    case Nil
    then have "d = cnull" using q(1) by (simp add: IS_NULL_def)
    then have "IS_TYPE (mem_of ?t1) d t_pair = Inr False" by (simp add: IS_TYPE_def is_tag_defs tag_defs)
    moreover have "(opstack t)[op_stack_idx t := y] = splice (op_stack_idx t) [y] (opstack t)"
      using Cons.prems(4,5) by (simp add: splice_def upd_conv_take_nth_drop)
    ultimately show ?thesis using n q(2) push by (simp add: Nil)
  next
    case (Cons z zs)
    have "IS_TYPE (mem_of ?t1) d t_pair = Inr True" using q(1) by (simp add: Cons list_in_Cons IS_PAIR_def)
    moreover have "apply_loop m ?t1 d (c + 1) = Inr (?t1\<lparr>opstack := splice (op_stack_idx ?t1) ys (opstack ?t1),
        op_stack_idx := op_stack_idx ?t1 + length ys\<rparr>, c + 1 + int (length ys))"
      by (rule Cons.IH) (use Cons.prems q(1) n Cons in simp_all)
    ultimately show ?thesis using n q(2) push sp by simp
  qed
qed simp

text \<open>
  C8: \<^verbatim>\<open>(apply f lst)\<close> spreads a list that fits, with the continuation, on the operand stack (512 cells; for a
  longer list \<^verbatim>\<open>STACK_PUSH\<close> aborts): the continuation and then the elements of the list, in
  order, are pushed on the operand stack, and the trampoline gets the function with one more than their
  number as its argument count. So applying a function to such a list is calling it with the elements.
  The empty list is refused with an error that changes nothing.
\<close>

theorem apply_spreads_list:
  assumes "stack_at argv t = Inr k" and "stack_at (argv + 1) t = Inr f" and "IS_FUNC (mem_of t) f = Inr True"
    and "stack_at (argv + 2) t = Inr l" and "list_in (mem_of t) l xs" and "argv + 1 < op_stack_idx t"
    and "op_stack_idx t + 1 + length xs < op_stack_size t" and "length (opstack t) = op_stack_size t"
  shows "apply_native t argv argc =
    (if xs = [] then Inr (t, RC_ERROR)
     else Inr (t\<lparr>opstack := splice (op_stack_idx t) (k # xs) (opstack t),
            op_stack_idx := op_stack_idx t + 1 + length xs, tramp_func := f, tramp_argc := 1 + int (length xs)\<rparr>, RC_OK))"
proof (cases xs)
  case Nil
  then have "l = cnull" using assms(5) by (simp add: IS_NULL_def)
  then have "IS_TYPE (mem_of t) l t_pair = Inr False" by (simp add: IS_TYPE_def is_tag_defs tag_defs)
  then show ?thesis using assms Nil by (simp add: apply_native_def SAFE_ASSERT_def)
next
  case (Cons y ys)
  let ?t1 = "t\<lparr>opstack := (opstack t)[op_stack_idx t := k], op_stack_idx := Suc (op_stack_idx t)\<rparr>"
  have push: "STACK_PUSH t k = Inr ?t1" using assms(7,8) by (simp add: STACK_PUSH_def)
  have sp: "splice (Suc (op_stack_idx t)) xs ((opstack t)[op_stack_idx t := k]) = splice (op_stack_idx t) (k # xs) (opstack t)"
    by (rule splice_Cons) (use assms(7,8) in simp)
  have loop: "apply_loop (Suc (op_stack_size ?t1)) ?t1 l 1 = Inr (?t1\<lparr>opstack := splice (op_stack_idx ?t1) xs (opstack ?t1),
      op_stack_idx := op_stack_idx ?t1 + length xs\<rparr>, 1 + int (length xs))"
    by (rule apply_loop_list) (use assms Cons in simp_all)
  have low: "splice (op_stack_idx t) (k # xs) (opstack t) ! (argv + 1) = opstack t ! (argv + 1)"
    using assms(6,7,8) by (simp add: splice_def nth_append)
  have len: "argv + 1 < length (splice (op_stack_idx t) (k # xs) (opstack t))" using assms(6,7,8) by (simp add: splice_def)
  have tail: "bindE (apply_loop (Suc (op_stack_size ?t1)) ?t1 l 1) (\<lambda>(t2, cargc). bindE (stack_at (argv + 1) t2) (\<lambda>f'.
        Inr (t2\<lparr>tramp_func := f', tramp_argc := cargc\<rparr>, RC_OK))) =
      Inr (t\<lparr>opstack := splice (op_stack_idx t) (k # xs) (opstack t),
            op_stack_idx := op_stack_idx t + 1 + length xs, tramp_func := f, tramp_argc := 1 + int (length xs)\<rparr>, RC_OK)"
    unfolding loop using sp low len assms(2) by (auto simp: stack_at_def split: if_splits)
  have "IS_TYPE (mem_of t) l t_pair = Inr True" using assms(5) Cons by (simp add: list_in_Cons IS_PAIR_def)
  then have "apply_native t argv argc = bindE (apply_loop (Suc (op_stack_size ?t1)) ?t1 l 1) (\<lambda>(t2, cargc).
        bindE (stack_at (argv + 1) t2) (\<lambda>f'. Inr (t2\<lparr>tramp_func := f', tramp_argc := cargc\<rparr>, RC_OK)))"
    using assms(1-4) push by (simp add: apply_native_def SAFE_ASSERT_def del: apply_loop.simps)
  then show ?thesis using Cons by (simp only: tail) simp
qed

section \<open>Collection of a list\<close>

text \<open>
  C15: A collection does not change what a list means. If a root of the thread (a stack cell, a protected
  local, the handlers, the library cache) holds a proper list, some of whose pairs may be module constants
  outside the heap, then after a minor collection the same root holds a proper list of the same length,
  whose elements are the old ones up to the renaming of heap pointers that all roots share.
\<close>

theorem collection_keeps_lists:
  assumes "thread_ok C t" and "\<not> full_gc (heap t)" and "heap_gc t = Inr t'"
  shows "\<exists>f. \<forall>r. length (root_objs r t') = length (root_objs r t)
    \<and> (\<forall>i < length (root_objs r t). \<forall>xs. list_in (mem_of t) (root_objs r t ! i) xs \<longrightarrow>
        list_in (mem_of t') (root_objs r t' ! i) (map (rename_obj f) xs))"
proof -
  from heap_gc_renames [OF thread_okE(6) [OF assms(1)] assms(2,3)] obtain f where
    f: "same_graph f t t'" "\<forall>p. reaches t p \<longrightarrow> PTR (MAKE_HEAP_PTR (f p)) = f p"
    by blast
  have r: "root_objs r t' = map (rename_obj f) (root_objs r t)" for r using f(1) by (simp add: same_graph_def)
  show ?thesis
    by (rule exI [of _ f]) (auto simp: r intro!: collect_list [OF assms f] held_root [OF assms(1) nth_mem])
qed

section \<open>The opcode\<close>

lemma new_pair_at:
  assumes ok: "thread_ok C t" and fits: "32 \<le> free_mem (fresh (heap t))" and v: "value_ok C t xa" "value_ok C t xd"
  shows "pair_at (mem_of (new_pair t xa xd l n)) (MAKE_HEAP_PTR (new_addr t)) =
    Inr \<lparr>car = xa, cdr = xd, pair_list = Some l, pair_length = Some n\<rparr>"
proof -
  let ?pl = "P_Pair \<lparr>car = xa, cdr = xd, pair_list = Some l, pair_length = Some n\<rparr>"
  have "links_ok (value_ok C t) (\<lambda>q. valid_addr (heap t) q \<and> hdr_type (heap t) q = Some t_env) ?pl"
    using v by (simp add: links_ok_def)
  note o = new_object_ok(4,5) [OF ok _ _ _ _ this, of 24 t_pair, folded new_pair_def]
  then show ?thesis using fits by (simp add: pair_at_block)
qed

text \<open>The two operands are in protected locals when the pair is allocated.\<close>

definition operands_taken :: "vm_thread \<Rightarrow> nat \<Rightarrow> vm_thread" where
  "operands_taken t k = t\<lparr>op_stack_idx := k, local_roots := Some [opstack t ! k, opstack t ! Suc k]\<rparr>"

definition pair_on_top :: "vm_thread \<Rightarrow> nat \<Rightarrow> vm_thread \<Rightarrow> bool" where
  "pair_on_top t k t' \<longleftrightarrow> op_stack_idx t' = Suc k
      \<and> (\<exists>f q. alloc_renames sizeof_pair (operands_taken t k) f \<and> pair_at (mem_of t') (opstack t' ! k) = Inr q
      \<and> car q = rename_obj f (opstack t ! k) \<and> cdr q = rename_obj f (opstack t ! Suc k)
      \<and> (\<forall>i < k. opstack t' ! i = rename_obj f (opstack t ! i))
      \<and> (\<forall>xs. list_in (mem_of t) (opstack t ! Suc k) xs \<longrightarrow>
           list_in (mem_of t') (opstack t' ! k) (map (rename_obj f) (opstack t ! k # xs))))"

lemma cons_target_pair:
  assumes "thread_ok C t" and "32 \<le> free_mem (fresh (heap t)) \<or> \<not> full_gc (heap t)" and "op_stack_idx t = Suc (Suc k)"
  shows "defined (pair_on_top t k) (cons_target t)"
proof -
  let ?a = "opstack t ! k" and ?b = "opstack t ! Suc k"
  let ?t = "t\<lparr>op_stack_idx := k, local_roots := Some [?a, ?b]\<rparr>"
  note e = thread_okE [OF assms(1)]
  have v: "value_ok C t ?a" "value_ok C t ?b" using stack_values(1) [OF assms(1)] assms(3) by auto
  have "set (take k (opstack t)) \<subseteq> set (take (op_stack_idx t) (opstack t))" by (rule set_take_subset_set_take) (simp add: assms(3))
  then have "\<forall>x \<in> set (take k (opstack t)). value_ok C t x" using e(1) [of R_Stack] by auto
  from set_stack_ok [OF assms(1) e(2) _ this] e(3) assms(3) have "thread_ok C (t\<lparr>op_stack_idx := k\<rparr>)" by simp
  from locals_ok [OF this, of "Some [?a, ?b]"] v have ok: "thread_ok C ?t" by simp
  have nf: "32 \<le> free_mem (fresh (heap ?t)) \<or> \<not> full_gc (heap ?t)" using assms(2) by simp
  have start: "cons_target t = bindE (cons heap_allocator ?t (get_local 0) (get_local 1)) (\<lambda>(t3, x).
      bindE (STACK_PUSH t3 x) (\<lambda>t4. Inr (clear_locals t4)))"
  proof -
    have l: "Suc k < length (opstack t)" using e(2,3) assms(3) by simp
    have u: "define_locals 2 t = t\<lparr>local_roots := Some [cvoid, cvoid]\<rparr>" by (simp add: define_locals_def numeral_2_eq_2)
    show ?thesis
      using l assms(3) unfolding cons_target_def u by (simp add: STACK_POP_def set_local_def)
  qed
  note rd = reads_value_local [of ?t "[?a, ?b]" 0 C] reads_value_local [of ?t "[?a, ?b]" 1 C]
  show ?thesis
    unfolding start
  proof (rule defined_bind [OF cons_fits [OF ok nf rd]])
    fix y assume "consed C ?t (get_local 0) (get_local 1) y"
    from consedE [OF this] obtain t0 xa xd l n where t0: "grown C ?t t0" "source ?t 24 t0" "get_local 0 t0 = Inr xa"
        "get_local 1 t0 = Inr xd" "value_ok C t0 xa" "value_ok C t0 xd"
        "cons_flags (mem_of t0) (Some False, Some 0) xd = Inr (Some l, Some n)"
        "y = (new_pair t0 xa xd l n, MAKE_HEAP_PTR (new_addr t0))" "thread_ok C (new_pair t0 xa xd l n)"
        "value_ok C (new_pair t0 xa xd l n) (MAKE_HEAP_PTR (new_addr t0))" "32 \<le> free_mem (fresh (heap t0))"
      by metis
    let ?t1 = "new_pair t0 xa xd l n" and ?x = "MAKE_HEAP_PTR (new_addr t0)"
    have "\<not> full_gc (heap ?t) \<or> round8 24 + 8 \<le> free_mem (fresh (heap ?t))" using nf by (auto simp: round8_def)
    from source_renames [OF ok this t0(1,2)] obtain f where
      f: "stack_moved f ?t t0" "\<And>r. root_objs r t0 = map (rename_obj f) (root_objs r ?t)" "alloc_renames 24 ?t f"
        "\<And>x xs. held C ?t x \<Longrightarrow> list_in (mem_of ?t) x xs \<Longrightarrow> list_in (mem_of t0) (rename_obj f x) (map (rename_obj f) xs)"
      by blast
    have "root_objs R_Locals t0 = [rename_obj f ?a, rename_obj f ?b]" by (simp add: f(2))
    then have x: "xa = rename_obj f ?a" "xd = rename_obj f ?b" using t0(3,4)
      by (auto simp: get_local_def split: option.splits)
    have hb: "held C ?t ?b" by (rule held_root [OF ok, of _ R_Locals]) simp
    note ok0 = t0(1) [unfolded grown_def, THEN conjunct1]
    have q: "pair_at (mem_of ?t1) ?x = Inr \<lparr>car = xa, cdr = xd, pair_list = Some l, pair_length = Some n\<rparr>"
      by (rule new_pair_at [OF ok0 t0(11,5,6)])
    have ls: "list_in (mem_of ?t1) ?x (rename_obj f ?a # map (rename_obj f) xs)" if "list_in (mem_of t) ?b xs" for xs
      using new_pair_list(1) [OF ok0 t0(11,5,6,7), of "map (rename_obj f) xs"] f(4) [OF hb] that by (simp add: x)
    have st: "opstack ?t1 = opstack t0" "op_stack_idx ?t1 = k" using f(1) by (simp_all add: stack_moved_def)
    have low: "opstack t0 ! i = rename_obj f (opstack t ! i)" if "i < k" for i
      using f(1) that by (simp add: stack_moved_def moved_value_def)
    have len: "k < length (opstack t0)" using thread_okE(2,3) [OF t0(9)] st by simp
    have "defined (pair_on_top t k)
      (bindE (STACK_PUSH ?t1 ?x) (\<lambda>t4. Inr (clear_locals t4)))"
    proof (rule defined_bind [OF push_ok [OF t0(9,10)]])
      fix t4 assume "thread_ok C t4 \<and> t4 = ?t1\<lparr>opstack := (opstack ?t1)[op_stack_idx ?t1 := ?x], op_stack_idx := Suc (op_stack_idx ?t1)\<rparr>
        \<and> Suc (op_stack_idx ?t1) < op_stack_size ?t1"
      then have t4: "op_stack_idx t4 = Suc k" "opstack t4 = (opstack t0)[k := ?x]" "mem_of t4 = mem_of ?t1" using st by auto
      show "defined (pair_on_top t k) (Inr (clear_locals t4))"
        using t4 q ls low len x f(3)
        unfolding pair_on_top_def operands_taken_def sizeof_pair_def by (simp add: clear_locals_def) (rule exI [of _ f], auto)
    qed
    then show "defined (pair_on_top t k)
      (case y of (t3, x) \<Rightarrow> bindE (STACK_PUSH t3 x) (\<lambda>t4. Inr (clear_locals t4)))"
      by (simp only: t0(8) prod.case)
  qed simp_all
qed


text \<open>
  C9: \<^verbatim>\<open>OP_CONS\<close> replaces the two values on top of the operand stack by a pair of them, whether or
  not a minor collection comes between: \<^verbatim>\<open>car\<close> and \<^verbatim>\<open>cdr\<close> of the new pair are the two operands, the
  values below stay, all up to the renaming of that collection (the identity without one, otherwise an isomorphism of the
  object graph); and a value in front of a proper list gives the
  proper list that is one longer. The only other outcome is an abort of the code itself. Not covered is the pair
  that needs a full collection.
\<close>

theorem cons_opcode_builds:
  assumes "thread_ok C t" and "32 \<le> free_mem (fresh (heap t)) \<or> \<not> full_gc (heap t)" and "op_stack_idx t = Suc (Suc k)"
  shows "defined (\<lambda>t'. op_stack_idx t' = Suc k
      \<and> (\<exists>f q. alloc_renames sizeof_pair (operands_taken t k) f \<and> pair_at (mem_of t') (opstack t' ! k) = Inr q
      \<and> car q = rename_obj f (opstack t ! k) \<and> cdr q = rename_obj f (opstack t ! Suc k)
      \<and> (\<forall>i < k. opstack t' ! i = rename_obj f (opstack t ! i))
      \<and> (\<forall>xs. list_in (mem_of t) (opstack t ! Suc k) xs \<longrightarrow>
           list_in (mem_of t') (opstack t' ! k) (map (rename_obj f) (opstack t ! k # xs)))))
    (cons_target t)"
  by (rule defined_mono [OF cons_target_pair [OF assms]]) (simp add: pair_on_top_def)

section \<open>Examples\<close>

lemma ex_thread_ok:
  assumes "\<forall>x \<in> set xs. \<not> IS_HEAP_PTR x \<and> \<not> IS_CONST_PTR x" and "length xs < 512"
  shows "thread_ok {} (ex_thread m xs)"
proof -
  let ?s = "xs @ replicate (512 - length xs) 0"
  have "thread_ok {} (vm_thread_init m 65536 1048576 ?s)"
    by (rule initial_thread_ok [OF regions_example]) (use assms(2) in \<open>simp add: sizeof_obj_def\<close>)
  from set_stack_ok [OF this, of ?s "length xs"] have
    "thread_ok {} ((vm_thread_init m 65536 1048576 ?s)\<lparr>opstack := ?s, op_stack_idx := length xs\<rparr>)"
    using assms by (simp add: vm_thread_init_def sizeof_obj_def value_ok_def valid_obj_def refers_def)
  then show ?thesis by (simp add: ex_thread_def vm_thread_init_def)
qed


text \<open>A list of one number as a module constant.\<close>

definition ex_pair :: block where
  "ex_pair = \<lparr>hdr = \<lparr>type_id = t_pair, forward = False, generation = 0, remembered = False, hsize = 24\<rparr>,
     payload = P_Pair \<lparr>car = MAKE_FIXNUM 1, cdr = cnull, pair_list = Some True, pair_length = Some 1\<rparr>\<rparr>"

lemma ex_list:
  assumes "m 4194304 = Some ex_pair" shows "list_in m (MAKE_CONST_PTR 4194312) [MAKE_FIXNUM 1]"
proof -
  have c: "IS_CONST_PTR (MAKE_CONST_PTR 4194312)" by (simp add: is_tag_defs)
  then have "\<not> IS_NULL (MAKE_CONST_PTR 4194312)" by (intro heap_ptr_not_null) simp
  note this c
  then show ?thesis
    using assms ex_pointer by (simp add: list_in_Cons IS_PAIR_block pair_at_block HTYPE_def BHDR_SIZE_def ex_pair_def IS_NULL_def)
qed

definition list_thread :: vm_thread where
  "list_thread = (ex_thread [4194304 \<mapsto> ex_pair] [])\<lparr>exception_handlers := MAKE_CONST_PTR 4194312\<rparr>"

lemma list_thread_ok: "thread_ok {4194312} list_thread" "\<not> full_gc (heap list_thread)"
proof -
  let ?m = "[4194304 \<mapsto> ex_pair]"
  let ?h = "heap_init ?m 65536 1048576"
  have t: "heap list_thread = ?h" by (simp add: list_thread_def)
  then show "\<not> full_gc (heap list_thread)" by (simp add: heap_init_eq)
  have m: "store ?h 4194304 = Some ex_pair"
    by (simp add: heap_init_eq clear_range_def overlap_def size_defs blen_def ex_pair_def BHDR_SIZE_def)
  have "\<not> heap_hdr ?h a" for a using heap_init_wf(3) [OF regions_example] by simp
  moreover have "away ?h 4194304 (blen ex_pair)"
    by (simp add: away_def heap_init_eq apart_def old_start_def old_extent_def size_defs no_space_def blen_def ex_pair_def BHDR_SIZE_def)
  moreover have "const_block {4194312} 4194312 ex_pair"
    by (simp add: const_block_def ex_pair_def typed_iff) (simp add: refers_def is_tag_defs tag_defs)
  ultimately have "heap_ok {4194312} ?h" using m
    by (simp add: heap_ok_def consts_ok_def refers_all_def homes_ok_def links_typed_def)
  moreover have "\<forall>x \<in> set (root_objs r list_thread). refers {4194312} x" for r
    using ex_pointer by (cases r) (simp_all add: list_thread_def ex_thread_def vm_thread_init_def refers_def is_tag_defs tag_defs)
  moreover have "thread_wf list_thread"
  proof -
    have "valid_root r list_thread" for r
      by (cases r) (simp_all add: list_thread_def ex_thread_def vm_thread_init_def valid_root_def)
    then show ?thesis using heap_init_wf [OF regions_example, of ?m]
      by (simp add: thread_wf_def t settled_def)
        (simp add: list_thread_def ex_thread_def vm_thread_init_def env_root_ok_def)
  qed
  ultimately show "thread_ok {4194312} list_thread"
    by (simp add: thread_ok_def t) (simp add: list_thread_def ex_thread_def vm_thread_init_def env_ok_def sizeof_obj_def)
qed

lemma list_thread_collects: "\<exists>t'. heap_gc list_thread = Inr t'"
proof -
  have "heap_gc list_thread \<noteq> Inl (Fatal ''out of memory'')"
    by (simp add: list_thread_def ex_thread_def heap_gc_def heap_gc_main_def vm_thread_init_def thread_get_roots_def mark_env_def
        heap_mark_def is_tag_defs tag_defs heap_init_eq heap_scan_old_def no_space_def
        scan_old_from.simps scan_references.simps drain.simps thread_after_gc_def
        heap_swap_survived_def reset_fresh_def space_reset0_def schedule_full_def Let_def)
  then show ?thesis
    using heap_gc_minor [OF thread_okE(6) [OF list_thread_ok(1)] list_thread_ok(2)]
    by (cases "heap_gc list_thread") (auto simp: safe_def)
qed

theorem collection_keeps_lists_witness:
  "\<exists>t'. heap_gc list_thread = Inr t' \<and> list_in (mem_of t') (exception_handlers t') [MAKE_FIXNUM 1]"
proof -
  obtain t' where gc: "heap_gc list_thread = Inr t'" using list_thread_collects by blast
  from collection_keeps_lists [OF list_thread_ok gc] obtain f where
    f: "\<forall>i < length (root_objs R_Handlers list_thread). \<forall>xs. list_in (mem_of list_thread) (root_objs R_Handlers list_thread ! i) xs \<longrightarrow>
        list_in (mem_of t') (root_objs R_Handlers t' ! i) (map (rename_obj f) xs)"
    by blast
  have m: "mem_of list_thread 4194304 = Some ex_pair"
    by (simp add: list_thread_def heap_init_eq clear_range_def overlap_def size_defs blen_def ex_pair_def BHDR_SIZE_def)
  have "exception_handlers list_thread = MAKE_CONST_PTR 4194312" by (simp add: list_thread_def)
  with f have "\<forall>xs. list_in (mem_of list_thread) (MAKE_CONST_PTR 4194312) xs \<longrightarrow>
      list_in (mem_of t') (exception_handlers t') (map (rename_obj f) xs)"
    by simp
  from this [rule_format, OF ex_list [where m = "mem_of list_thread", OF m]] show ?thesis using gc by simp
qed

theorem length_of_list_witness:
  "list_length (ex_thread [4194304 \<mapsto> ex_pair] [MAKE_CONST_PTR 4194312]) 0 =
     RETURN_FIXNUM (ex_thread [4194304 \<mapsto> ex_pair] [MAKE_CONST_PTR 4194312]) 1"
proof -
  let ?t = "ex_thread [4194304 \<mapsto> ex_pair] [MAKE_CONST_PTR 4194312]"
  have "mem_of ?t 4194304 = Some ex_pair" by (rule ex_thread_mem) (simp add: blen_def ex_pair_def BHDR_SIZE_def)
  from length_of_list [OF _ ex_list [where m = "mem_of ?t", OF this], of 0] show ?thesis by (simp add: stack_at_def)
qed

theorem apply_spreads_list_witness:
  "\<exists>t'. apply_native (ex_thread [4194304 \<mapsto> ex_pair] [MAKE_FUNC 8, MAKE_FUNC 16, MAKE_CONST_PTR 4194312]) 0 3 = Inr (t', RC_OK)
     \<and> opstack t' ! 3 = MAKE_FUNC 8 \<and> opstack t' ! 4 = MAKE_FIXNUM 1 \<and> tramp_func t' = MAKE_FUNC 16 \<and> tramp_argc t' = 2"
proof -
  let ?t = "ex_thread [4194304 \<mapsto> ex_pair] [MAKE_FUNC 8, MAKE_FUNC 16, MAKE_CONST_PTR 4194312]"
  have "mem_of ?t 4194304 = Some ex_pair" by (rule ex_thread_mem) (simp add: blen_def ex_pair_def BHDR_SIZE_def)
  note l = ex_list [where m = "mem_of ?t", OF this]
  have "IS_FUNC (mem_of ?t) (MAKE_FUNC 16) = Inr True" by (simp add: IS_FUNC_def TEST_TAG_def)
  from apply_spreads_list [OF _ _ this _ l, of 0 "MAKE_FUNC 8" 3] show ?thesis
    by (simp add: stack_at_def splice_def nth_append nth_Cons')
qed

theorem cons_opcode_builds_witness:
  "defined (\<lambda>t'. op_stack_idx t' = 1 \<and> (\<exists>q. pair_at (mem_of t') (opstack t' ! 0) = Inr q \<and> car q = MAKE_FIXNUM 1 \<and> cdr q = MAKE_FIXNUM 2))
    (cons_target (ex_thread (\<lambda>_. None) [MAKE_FIXNUM 1, MAKE_FIXNUM 2]))"
proof -
  let ?t = "ex_thread (\<lambda>_. None) [MAKE_FIXNUM 1, MAKE_FIXNUM 2]"
  have "thread_ok {} ?t" by (rule ex_thread_ok) (simp_all add: is_tag_defs tag_defs)
  note c = cons_opcode_builds [OF this, of 0]
  show ?thesis
    by (rule defined_mono [OF c]) (auto simp: heap_init_eq)
qed

end
