(* ===== verification/Vm_Control.thy ===== *)
theory Vm_Control
  imports Vm_Lists
begin

unbundle bit_operations_syntax

text \<open>
  Control: what a closure, a captured continuation and an exception do when the dispatcher meets them.
\<close>

section \<open>Made objects\<close>

lemma madeE:
  assumes "made C t n tid pl (t', p)"
  obtains t0 where "grown C t t0" "source t n t0" "t' = new_object t0 tid (round8 n) (pl t0)" "thread_ok C t'"
    "value_ok C t' (MAKE_HEAP_PTR p)" "PTR (MAKE_HEAP_PTR p) = p"
    "HTYPE (mem_of t') p = Some ((zero_block tid (round8 n))\<lparr>payload := pl t0\<rparr>)"
    "opstack t' = opstack t0" "op_stack_idx t' = op_stack_idx t0" "op_stack_idx t0 = op_stack_idx t" "th_env t' = th_env t0"
proof -
  from assms obtain t0 where t0: "grown C t t0" "source t n t0" "t' = new_object t0 tid (round8 n) (pl t0)" "grown C t t'"
    "value_ok C t' (MAKE_HEAP_PTR p)" "PTR (MAKE_HEAP_PTR p) = p"
    "HTYPE (mem_of t') p = Some ((zero_block tid (round8 n))\<lparr>payload := pl t0\<rparr>)"
    unfolding made_def fst_conv snd_conv prod.inject by blast
  moreover have "op_stack_idx t0 = op_stack_idx t" "thread_ok C t'" using t0(1,4) by (simp_all add: grown_def same_shape_def)
  moreover have "opstack t' = opstack t0" "op_stack_idx t' = op_stack_idx t0" "th_env t' = th_env t0" by (simp_all add: t0(3))
  ultimately show thesis using that by blast
qed

section \<open>Closures and continuations\<close>

text \<open>The dispatcher on an object of a known type.\<close>

lemma dispatch_closure:
  assumes "IS_HEAP_PTR x" and "HTYPE (mem_of (thread v)) (PTR x) = Some b" and "type_id (hdr b) = t_closure"
    and "payload b = P_Closure c"
  shows "dispatch_step hs v x n =
    call_ptr hs (v\<lparr>thread := (thread v)\<lparr>th_env := clo_env c, th_bindmap := None, th_closure := PTR x\<rparr>\<rparr>) (clo_func c) n"
  using assms by (simp add: dispatch_step_def Let_def is_tag_defs)

lemma dispatch_continuation:
  assumes "IS_HEAP_PTR x" and "HTYPE (mem_of (thread v)) (PTR x) = Some b" and "type_id (hdr b) = t_cont"
    and "payload b = P_Cont c"
  shows "dispatch_step hs v x n = Inr (v\<lparr>ctl := Dispatch (cont_func c) (n - 1)\<rparr>)"
proof -
  have "t_cont \<noteq> t_closure" by (simp add: type_id_defs)
  then show ?thesis using assms by (simp add: dispatch_step_def Let_def is_tag_defs)
qed


text \<open>The thread in which the object of \<^verbatim>\<open>call_cc\<close> is allocated: it has pushed the continuation.\<close>

definition continuation_pushed :: "vm_thread \<Rightarrow> nat \<Rightarrow> vm_thread" where
  "continuation_pushed t argv = t\<lparr>opstack := (opstack t)[op_stack_idx t := opstack t ! argv], op_stack_idx := Suc (op_stack_idx t)\<rparr>"

text \<open>What \<^verbatim>\<open>call_cc\<close> leaves: the function on the trampoline, the continuation and its object on the stack.\<close>

definition captured :: "vm_thread \<Rightarrow> nat \<Rightarrow> vm_thread \<times> rc \<Rightarrow> bool" where
  "captured t argv = (\<lambda>(t', r). r = RC_OK \<and> tramp_argc t' = 2 \<and> op_stack_idx t' = op_stack_idx t + 2
      \<and> (\<exists>f. alloc_renames sizeof_continuation (continuation_pushed t argv) f
          \<and> tramp_func t' = rename_obj f (opstack t ! (argv + 1))
          \<and> opstack t' ! op_stack_idx t = rename_obj f (opstack t ! argv)
          \<and> (\<forall>hs v n. mem_of (thread v) = mem_of t' \<longrightarrow>
               dispatch_step hs v (opstack t' ! (op_stack_idx t + 1)) n =
                 Inr (v\<lparr>ctl := Dispatch (rename_obj f (opstack t ! argv)) (n - 1)\<rparr>))))"

lemma call_cc_captured:
  assumes "native_pre C t argv argc" and "1 < argc" and "IS_FUNC (mem_of t) (opstack t ! (argv + 1)) = Inr True"
  shows "defined (captured t argv) (call_cc t argv argc)"
proof -
  from assms have ok: "thread_ok C t" and nf: "\<not> full_gc (heap t)" and i: "argv + 1 < op_stack_idx t"
    by (auto simp: native_pre_def)
  let ?k = "opstack t ! argv" and ?f = "opstack t ! (argv + 1)" and ?n = "op_stack_idx t"
  have l: "argv < length (opstack t)" "argv + 1 < length (opstack t)" using stack_values(2) [OF ok] i by auto
  have vk: "value_ok C t ?k" using stack_values(1) [OF ok] i by simp
  let ?rest = "\<lambda>t1. bindE (continuation_new t1 argv) (\<lambda>(t2, c). bindE (STACK_PUSH t2 c) (\<lambda>t3.
      bindE (stack_at (argv + 1) t3) (\<lambda>f'. Inr (t3\<lparr>tramp_argc := 2, tramp_func := f'\<rparr>, RC_OK))))"
  have start: "call_cc t argv argc = bindE (STACK_PUSH t ?k) ?rest"
    using l assms(3) by (simp add: call_cc_def SAFE_ASSERT_def stack_at_def)
  show ?thesis
    unfolding start
  proof (rule defined_bind [OF push_ok [OF ok vk]])
    fix t1 assume "thread_ok C t1 \<and> t1 = t\<lparr>opstack := (opstack t)[?n := ?k], op_stack_idx := Suc ?n\<rparr> \<and> Suc ?n < op_stack_size t"
    then have t1: "thread_ok C t1" "t1 = t\<lparr>opstack := (opstack t)[?n := ?k], op_stack_idx := Suc ?n\<rparr>"
        "\<not> full_gc (heap t1)" "argv < op_stack_idx t1" "?n < length (opstack t)"
      using nf i thread_okE(2,3) [OF ok] by auto
    show "defined (captured t argv) (?rest t1)"
    proof (rule defined_bind [OF continuation_ok [OF t1(1,3,4)]])
      fix y
      assume "case y of (t', x) \<Rightarrow> \<exists>p. x = MAKE_HEAP_PTR p \<and>
        made C t1 sizeof_continuation t_cont (\<lambda>t0. P_Cont \<lparr>cont_func = opstack t0 ! argv\<rparr>) (t', p)"
      then obtain t2 p where y: "y = (t2, MAKE_HEAP_PTR p)"
          "made C t1 sizeof_continuation t_cont (\<lambda>t0. P_Cont \<lparr>cont_func = opstack t0 ! argv\<rparr>) (t2, p)"
        by auto
      from madeE [OF y(2)] obtain t0 where t0: "grown C t1 t0" "source t1 sizeof_continuation t0" "opstack t2 = opstack t0"
          "op_stack_idx t2 = op_stack_idx t0" "thread_ok C t2" "value_ok C t2 (MAKE_HEAP_PTR p)"
          "PTR (MAKE_HEAP_PTR p) = p" "HTYPE (mem_of t2) p = Some ((zero_block t_cont (round8 sizeof_continuation))
             \<lparr>payload := P_Cont \<lparr>cont_func = opstack t0 ! argv\<rparr>\<rparr>)"
        by metis
      from source_renames [OF t1(1) _ t0(1,2)] t1(3) obtain f where
        f: "stack_moved f t1 t0" "alloc_renames sizeof_continuation t1 f" by blast
      have mv: "op_stack_idx t0 = Suc ?n" "\<And>j. j < Suc ?n \<Longrightarrow> opstack t0 ! j = rename_obj f (opstack t1 ! j)"
        using f(1) by (auto simp: stack_moved_def moved_value_def t1(2))
      have rn: "alloc_renames sizeof_continuation (continuation_pushed t argv) f"
        using f(2) by (simp add: continuation_pushed_def t1(2))
      have st: "opstack t0 ! argv = rename_obj f ?k" "opstack t0 ! (argv + 1) = rename_obj f ?f"
          "opstack t0 ! ?n = rename_obj f ?k"
        using mv(2) i t1(5) by (auto simp: t1(2))
      have dc: "dispatch_step hs v (MAKE_HEAP_PTR p) n = Inr (v\<lparr>ctl := Dispatch (rename_obj f ?k) (n - 1)\<rparr>)"
        if "mem_of (thread v) = mem_of t2" for hs v n
        using t0(7,8) that st(1)
        by (subst dispatch_continuation [OF IS_HEAP_PTR_MAKE, where b = "(zero_block t_cont (round8 sizeof_continuation))
            \<lparr>payload := P_Cont \<lparr>cont_func = opstack t0 ! argv\<rparr>\<rparr>" and c = "\<lparr>cont_func = rename_obj f ?k\<rparr>"])
          (simp_all add: zero_block_def)
      show "defined (captured t argv)
       (case y of (t2, c) \<Rightarrow> bindE (STACK_PUSH t2 c) (\<lambda>t3. bindE (stack_at (argv + 1) t3) (\<lambda>f'.
          Inr (t3\<lparr>tramp_argc := 2, tramp_func := f'\<rparr>, RC_OK))))"
        unfolding y(1) prod.case
      proof (rule defined_bind [OF push_ok [OF t0(5,6)]])
        fix t3 assume "thread_ok C t3 \<and> t3 = t2\<lparr>opstack := (opstack t2)[op_stack_idx t2 := MAKE_HEAP_PTR p],
          op_stack_idx := Suc (op_stack_idx t2)\<rparr> \<and> Suc (op_stack_idx t2) < op_stack_size t2"
        then have t3: "t3 = t2\<lparr>opstack := (opstack t0)[Suc ?n := MAKE_HEAP_PTR p], op_stack_idx := Suc (Suc ?n)\<rparr>"
            "Suc ?n < length (opstack t0)"
          using t0(3,4) mv(1) thread_okE(2,3) [OF t0(5)] by auto
        have "stack_at (argv + 1) t3 = Inr (rename_obj f ?f)" using t3 i st(2) by (simp add: stack_at_def)
        moreover have "opstack t3 ! ?n = rename_obj f ?k" "opstack t3 ! (?n + 1) = MAKE_HEAP_PTR p"
          using t3 st(3) by simp_all
        ultimately show "defined (captured t argv)
         (bindE (stack_at (argv + 1) t3) (\<lambda>f'. Inr (t3\<lparr>tramp_argc := 2, tramp_func := f'\<rparr>, RC_OK)))"
          unfolding captured_def using dc t3(1) rn by (auto intro!: exI [of _ f])
      qed
    qed
  qed
qed



section \<open>Exceptions\<close>

text \<open>What a handler list is good for: a pair whose first element is a function.\<close>

definition handler_set :: "vm_thread \<Rightarrow> pair_t \<Rightarrow> bool" where
  "handler_set t q \<longleftrightarrow> IS_PAIR (mem_of t) (exception_handlers t) = Inr True
     \<and> pair_at (mem_of t) (exception_handlers t) = Inr q \<and> IS_FUNC (mem_of t) (car q) = Inr True"

text \<open>
  C14: Raising an exception calls the innermost handler. With a handler list in place, room for the message
  and for three values on the stack, the machine goes on by dispatching the first handler on two
  arguments: the exit function as its continuation, below a new string with the first 255 bytes of the
  message; the handler is taken off the list, the stack below is untouched.
\<close>

theorem raise_calls_handler:
  assumes "thread_ok C (thread v)" and "raise_ready (thread v) msg" and "handler_set (thread v) q"
    and "op_stack_idx (thread v) + 3 < op_stack_size (thread v)"
  shows "\<exists>v' s. raise v msg = Inr v' \<and> ctl v' = Dispatch (car q) 2 \<and> exception_handlers (thread v') = cdr q
    \<and> op_stack_idx (thread v') = op_stack_idx (thread v) + 2
    \<and> opstack (thread v') ! op_stack_idx (thread v) = MAKE_FUNC vm_exit_nt
    \<and> string_at (mem_of (thread v')) (opstack (thread v') ! (op_stack_idx (thread v) + 1)) = Inr s
    \<and> chars s = take 255 msg @ [0]
    \<and> take (op_stack_idx (thread v)) (opstack (thread v')) = take (op_stack_idx (thread v)) (opstack (thread v))"
proof -
  let ?t = "thread v" and ?i = "op_stack_idx (thread v)"
  define bs where "bs = take 255 msg"
  define n where "n = sizeof_string + Suc (length bs)"
  let ?s = "\<lparr>str = new_addr ?t + sizeof_string, str_size = int (Suc (length bs)), allocated = True, chars = bs @ [0]\<rparr>"
  let ?t1 = "new_object ?t t_string (round8 n) (P_String ?s)" and ?x = "MAKE_HEAP_PTR (new_addr ?t)"
  have room: "round8 n + 8 \<le> free_mem (fresh (heap ?t))" using assms(2) by (simp add: raise_ready_def n_def bs_def)
  have n: "8 \<le> n" "n < 2 ^ 31" by (simp_all add: n_def bs_def sizeof_string_def)
  have st: "string_new heap_allocator ?t 0 bs True = Inr (?t1, ?x)"
    unfolding string_new_def Let_def heap_allocator_simps if_True n_def [symmetric] heap_alloc_room [OF assms(1) n(2) room]
    by (simp add: alloc_at_HTYPE finish_object BHDR_SIZE_def) (simp add: MAKE_HEAP_PTR_def)
  have sz: "8 \<le> round8 n" using round8_simps(2) [of n] n(1) by linarith
  have lk: "links_ok (value_ok C ?t) (\<lambda>q. valid_addr (heap ?t) q \<and> hdr_type (heap ?t) q = Some t_env) (P_String ?s)"
    by (simp add: links_ok_def)
  have hm: "homed (new_addr ?t) (P_String ?s)" "typed t_string (P_String ?s)" "has_env (P_String ?s)" by simp_all
  note ob = new_object_ok(4,5,6) [OF assms(1) room round8_simps(1) sz hm(2) lk hm(1,3)]
  have o: "PTR ?x = new_addr ?t" "keeps_blocks (mem_of ?t) (mem_of ?t1)"
    unfolding keeps_blocks_def using ob(1,3) by blast+
  from assms(3) have h: "IS_PAIR (mem_of ?t) (exception_handlers ?t) = Inr True"
      "pair_at (mem_of ?t) (exception_handlers ?t) = Inr q" "IS_FUNC (mem_of ?t) (car q) = Inr True"
    by (simp_all add: handler_set_def)
  then have h1: "pair_at (mem_of ?t1) (exception_handlers ?t) = Inr q"
    using o(2) by (auto simp: pair_at_block keeps_blocks_def)
  have len: "?i + 3 < length (opstack ?t)" using assms(4) thread_okE(2) [OF assms(1)] by simp
  let ?st = "(opstack ?t)[?i := MAKE_FUNC vm_exit_nt, Suc ?i := ?x, Suc (Suc ?i) := car q]"
  let ?t2 = "?t1\<lparr>opstack := ?st, op_stack_idx := Suc (Suc (Suc ?i)), exception_handlers := cdr q\<rparr>"
  have bound: "?i \<noteq> op_stack_size ?t - Suc 0" "Suc ?i \<noteq> op_stack_size ?t - Suc 0" "Suc (Suc ?i) \<noteq> op_stack_size ?t - Suc 0"
    using assms(4) by arith+
  have "push_exception_handler ?t msg = Inr (?t2, 2)"
    using h st h1 bound by (simp add: push_exception_handler_def STACK_PUSH_def Let_def flip: bs_def)
  then have r: "raise v msg = Inr (v\<lparr>thread := ?t2\<lparr>op_stack_idx := Suc (Suc ?i)\<rparr>, ctl := Dispatch (car q) 2\<rparr>)"
    using len by (simp add: raise_def STACK_POP_def)
  have "string_at (mem_of ?t1) ?x = Inr ?s" using ob(2) o(1) by (simp add: string_at_def)
  then show ?thesis using r len
    by (intro exI [of _ "v\<lparr>thread := ?t2\<lparr>op_stack_idx := Suc (Suc ?i)\<rparr>, ctl := Dispatch (car q) 2\<rparr>"]) (simp add: bs_def)
qed

text \<open>
  Without a handler, an exception ends the thread: when the handler list is not a pair, or its first
  element not a function, \<^verbatim>\<open>RAISE\<close> halts the machine and leaves everything else as it was.
\<close>

theorem raise_without_handler:
  assumes "IS_PAIR (mem_of (thread v)) (exception_handlers (thread v)) = Inr p"
    and "p \<Longrightarrow> pair_at (mem_of (thread v)) (exception_handlers (thread v)) = Inr q"
    and "p \<Longrightarrow> IS_FUNC (mem_of (thread v)) (car q) = Inr False"
  shows "raise v msg = Inr (v\<lparr>ctl := Halted\<rparr>)"
proof -
  have "push_exception_handler (thread v) msg = Inr (thread v, 0)"
    using assms by (cases p) (simp_all add: push_exception_handler_def)
  then show ?thesis by (simp add: raise_def)
qed

lemma collected_gone:
  assumes wf: "thread_wf t" and nf: "\<not> full_gc (heap t)" and gc: "heap_gc t = Inr t'"
    and fr: "from_addr (heap t) (p - 8)"
  shows "HTYPE (mem_of t') p = None"
proof -
  from gc obtain t1 where t1: "heap_gc_main t = Inr t1" by (auto simp: heap_gc_def bindE_Inr_iff)
  have s: "gc_inv (heap t1)" using heap_gc_main_safe [OF wf nf] t1 by auto
  then have nf1: "\<not> full_gc (heap t1)" by (simp add: gc_inv_def)
  note g = heap_gc_of_main [OF gc t1 nf1]
  have "stays (heap t) (heap t1)" using heap_gc_main_follows [OF t1 wf nf] gc_steps_stays by blast
  then have "from_addr (heap t1) (p - 8)" using fr by (simp add: stays_def)
  then have "store (flip (heap t1)) (p - 8) \<noteq> Some b" for b
    by (auto simp: flip_fields clear_range_Some overlap_def from_addr_def in_space_def blen_def BHDR_SIZE_def)
  then have "store (flip (heap t1)) (p - 8) = None" by auto
  then show ?thesis by (simp add: HTYPE_def BHDR_SIZE_def g(1))
qed

text \<open>
  C35: An exception raised when the fresh space has no room for its message does not find its handler, if the handler list is
  a pair in the young heap and no full collection is pending. \<^verbatim>\<open>push_exception_handler\<close> takes the address of the pair and
  then makes the message. If that does not abort, it has collected: the list of handlers is a pair at
  another address, with the handler as its first element, and at the old address, from which the code goes on to read the
  handler, there is no pair any more (the collector has cleared that memory, and the message may lie in it). In the
  model, where reading an object through such an address is undefined, \<^verbatim>\<open>push_exception_handler\<close> never returns;
  the compiled code reads whatever the bytes are.
\<close>

theorem handler_lost_by_collection:
  assumes "thread_ok C t" and "\<not> full_gc (heap t)" and "handler_set t q" and "IS_HEAP_PTR (exception_handlers t)"
    and "from_addr (heap t) (PTR (exception_handlers t) - 8)" and "\<not> raise_ready t msg"
  shows "defined (\<lambda>(t1, s). exception_handlers t1 \<noteq> exception_handlers t
      \<and> (\<exists>f. alloc_renames (sizeof_string + Suc (length (take 255 msg))) t f
          \<and> pair_at (mem_of t1) (exception_handlers t1) = Inr (q\<lparr>car := rename_obj f (car q), cdr := rename_obj f (cdr q)\<rparr>))
      \<and> (\<forall>q'. pair_at (mem_of t1) (exception_handlers t) \<noteq> Inr q'))
      (string_new heap_allocator t 0 (take 255 msg) True)
    \<and> push_exception_handler t msg \<noteq> Inr r"
proof -
  let ?eh = "exception_handlers t" and ?n = "sizeof_string + Suc (length (take 255 msg))"
  have n: "length (take 255 msg) < 2 ^ 30" by simp
  from assms(3) have h: "IS_PAIR (mem_of t) ?eh = Inr True" "pair_at (mem_of t) ?eh = Inr q" by (simp_all add: handler_set_def)
  have lost: "exception_handlers t1 \<noteq> ?eh
      \<and> (\<exists>f. alloc_renames ?n t f
          \<and> pair_at (mem_of t1) (exception_handlers t1) = Inr (q\<lparr>car := rename_obj f (car q), cdr := rename_obj f (cdr q)\<rparr>))
      \<and> (\<forall>q'. pair_at (mem_of t1) ?eh \<noteq> Inr q')"
    if mk: "made C t ?n t_string (\<lambda>t0. P_String \<lparr>str = new_addr t0 + sizeof_string,
         str_size = int (Suc (length (take 255 msg))), allocated = True, chars = take 255 msg @ [0]\<rparr>) (t1, p)" for t1 p
  proof -
    let ?s = "\<lambda>t0. P_String \<lparr>str = new_addr t0 + sizeof_string, str_size = int (Suc (length (take 255 msg))), allocated = True,
        chars = take 255 msg @ [0]\<rparr>"
    from mk obtain t0 where t0: "grown C t t0" "source t ?n t0" "t1 = new_object t0 t_string (round8 ?n) (?s t0)"
        "round8 ?n + 8 \<le> free_mem (fresh (heap t0))"
      by (auto simp: made_def)
    have gc: "heap_gc t = Inr t0" using t0(2) assms(6) by (simp add: source_def raise_ready_def)
    have gone: "HTYPE (mem_of t0) (PTR ?eh) = None" by (rule collected_gone [OF thread_okE(6) [OF assms(1)] assms(2) gc assms(5)])
    have none: "pair_at (mem_of t1) ?eh \<noteq> Inr q'" for q'
      using gone by (auto simp: t0(3) pair_at_block HTYPE_def new_object_def set_object_alloc_at split: if_splits)
    from heap_gc_renames [OF thread_okE(6) [OF assms(1)] assms(2) gc] obtain f where
      f: "same_graph f t t0" "\<forall>p. reaches t p \<longrightarrow> PTR (MAKE_HEAP_PTR (f p)) = f p" by blast
    have "root_objs R_Handlers t0 = map (rename_obj f) (root_objs R_Handlers t)" using f(1) by (simp add: same_graph_def)
    then have eh: "exception_handlers t0 = rename_obj f ?eh" by simp
    have "reaches t (PTR ?eh)" by (rule reaches.root_obj [of _ R_Handlers]) (simp_all add: assms(4))
    note cp = collect_pair(2) [OF f assms(4) this h]
    have "thread_ok C t0" using t0(1) by (simp add: grown_def)
    have sz: "8 \<le> round8 ?n" by (rule order_trans [OF _ round8_simps(2)]) (simp add: sizeof_string_def)
    have lk: "links_ok (value_ok C t0) (\<lambda>q. valid_addr (heap t0) q \<and> hdr_type (heap t0) q = Some t_env) (?s t0)"
      by (simp add: links_ok_def)
    have hm: "homed (new_addr t0) (?s t0)" "typed t_string (?s t0)" "has_env (?s t0)" by simp_all
    note ob = new_object_ok(6) [OF \<open>thread_ok C t0\<close> t0(4) round8_simps(1) sz hm(2) lk hm(1,3)]
    have "keeps_blocks (mem_of t0) (mem_of t1)" unfolding keeps_blocks_def t0(3) using ob by blast
    then have "pair_at (mem_of t1) (exception_handlers t0) = Inr (q\<lparr>car := rename_obj f (car q), cdr := rename_obj f (cdr q)\<rparr>)"
      using cp unfolding eh by (auto simp: pair_at_block keeps_blocks_def)
    moreover have "exception_handlers t1 = exception_handlers t0" by (simp add: t0(3))
    moreover have "alloc_renames ?n t f" using gc f(1) assms(6) by (simp add: alloc_renames_def raise_ready_def)
    ultimately show ?thesis using none by metis
  qed
  have d: "defined (\<lambda>(t1, s). exception_handlers t1 \<noteq> ?eh
      \<and> (\<exists>f. alloc_renames ?n t f
          \<and> pair_at (mem_of t1) (exception_handlers t1) = Inr (q\<lparr>car := rename_obj f (car q), cdr := rename_obj f (cdr q)\<rparr>))
      \<and> (\<forall>q'. pair_at (mem_of t1) ?eh \<noteq> Inr q')) (string_new heap_allocator t 0 (take 255 msg) True)"
    by (rule defined_mono [OF string_ok [OF assms(1,2) n]]) (use lost in blast)
  have "push_exception_handler t msg \<noteq> Inr r"
  proof
    assume "push_exception_handler t msg = Inr r"
    then obtain t1 ob t2 t3 q' where s: "string_new heap_allocator t 0 (take 255 msg) True = Inr (t1, ob)"
        "STACK_PUSH t1 (MAKE_FUNC vm_exit_nt) = Inr t2" "STACK_PUSH t2 ob = Inr t3" "pair_at (mem_of t3) ?eh = Inr q'"
      using assms(3) by (auto simp: push_exception_handler_def handler_set_def bindE_Inr_iff)
    have "mem_of t3 = mem_of t1" using s(2,3) by (auto simp: STACK_PUSH_def split: if_splits)
    then show False using s(1,4) d by simp
  qed
  with d show ?thesis by blast
qed

section \<open>Examples\<close>

text \<open>A thread whose environment register has an environment with one local.\<close>

definition ex_env :: env_t where
  "ex_env = \<lparr>prev = 0, env_size = 1, depth = 1, objects = 65536 + 8 + sizeof_env, env_slots = [MAKE_FIXNUM 5]\<rparr>"

definition env_thread :: "obj list \<Rightarrow> vm_thread" where
  "env_thread xs = (new_object (ex_thread (\<lambda>_. None) xs) t_env 32 (P_Env ex_env))\<lparr>th_env := 65544\<rparr>"

lemma ex_thread_fields [simp]:
  "free_mem (fresh (heap_init m 65536 1048576)) = 131072" "sp_pos (fresh (heap_init m 65536 1048576)) = 65536"
  "sp_mem (fresh (heap_init m 65536 1048576)) = 65536" "sp_size (fresh (heap_init m 65536 1048576)) = 131072"
  "full_gc (heap_init m 65536 1048576) = False"
  "op_stack_idx (ex_thread m xs) = length xs" "op_stack_size (ex_thread m xs) = 512"
  "exception_handlers (ex_thread m xs) = cnull" "opstack (ex_thread m xs) = xs @ replicate (512 - length xs) 0"
  "th_closure (ex_thread m xs) = 0" "heap_env (ex_thread m xs) = 0" "tramp_func (ex_thread m xs) = 0"
  by (simp_all add: ex_thread_def vm_thread_init_def heap_init_eq size_defs sizeof_obj_def)

lemma new_object_fresh:
  "free_mem (fresh (heap (new_object t tid sz pl))) = free_mem (fresh (heap t)) - (sz + 8)"
  "sp_pos (fresh (heap (new_object t tid sz pl))) = sp_pos (fresh (heap t)) + (sz + 8)"
  "sp_mem (fresh (heap (new_object t tid sz pl))) = sp_mem (fresh (heap t))"
  "sp_size (fresh (heap (new_object t tid sz pl))) = sp_size (fresh (heap t))"
  by (simp_all add: new_object_def set_object_alloc_at) (simp_all add: alloc_at_def Let_def BHDR_SIZE_def)

lemma env_register: "t\<lparr>th_env := e, th_closure := th_closure t, heap_env := heap_env t\<rparr> = t\<lparr>th_env := e\<rparr>"
  by (cases t) simp

lemma env_thread_ok:
  assumes "\<forall>x \<in> set xs. \<not> IS_HEAP_PTR x \<and> \<not> IS_CONST_PTR x" and "length xs < 512"
  shows "thread_ok {} (env_thread xs)" and "\<not> full_gc (heap (env_thread xs))" and "th_env (env_thread xs) = 65544"
    and "env_at (mem_of (env_thread xs)) 65544 = Inr ex_env"
    and "op_stack_idx (env_thread xs) = length xs" and "opstack (env_thread xs) = xs @ replicate (512 - length xs) 0"
proof -
  let ?t = "ex_thread (\<lambda>_. None) xs" and ?t1 = "new_object (ex_thread (\<lambda>_. None) xs) t_env 32 (P_Env ex_env)"
  have "links_ok (value_ok {} ?t) (\<lambda>q. valid_addr (heap ?t) q \<and> hdr_type (heap ?t) q = Some t_env) (P_Env ex_env)"
    by (simp add: links_ok_def ex_env_def value_ok_def valid_obj_def refers_def is_tag_defs tag_defs)
  note o = new_object_ok [OF ex_thread_ok [OF assms] _ _ _ _ this, of 32 t_env]
  have o1: "thread_ok {} ?t1" "HTYPE (mem_of ?t1) 65544 = Some ((zero_block t_env 32)\<lparr>payload := P_Env ex_env\<rparr>)"
      "value_ok {} ?t1 (MAKE_HEAP_PTR 65544)" "PTR (MAKE_HEAP_PTR 65544) = (65544 :: nat)"
    using o(1,3,4,5) by (simp_all add: ex_env_def)
  then have "valid_addr (heap ?t1) 65544" by (simp add: value_ok_def valid_obj_def)
  moreover have "hdr_type (heap ?t1) 65544 = Some t_env"
    using o1(2) by (simp add: HTYPE_def hdr_type_def BHDR_SIZE_def zero_block_def)
  ultimately have "thread_ok {} (?t1\<lparr>th_env := 65544, th_closure := th_closure ?t1, heap_env := heap_env ?t1\<rparr>)"
    by (intro env_reg_ok [OF o1(1)]) simp_all
  then show "thread_ok {} (env_thread xs)" unfolding env_register env_thread_def .
  show "env_at (mem_of (env_thread xs)) 65544 = Inr ex_env"
    using o1(2) by (simp add: env_thread_def env_at_def)
qed (simp_all add: env_thread_def)



text \<open>A handler list of one function in the young heap; the rest of the fresh space is one string.\<close>

definition handler_pair :: pair_t where
  "handler_pair = \<lparr>car = MAKE_FUNC 8, cdr = cnull, pair_list = Some True, pair_length = Some 1\<rparr>"

definition one_handler :: vm_thread where
  "one_handler = (new_object (ex_thread (\<lambda>_. None) []) t_pair 24 (P_Pair handler_pair))\<lparr>exception_handlers := MAKE_HEAP_PTR 65544\<rparr>"

definition full_heap :: vm_thread where
  "full_heap = new_object one_handler t_string 131008 (P_String \<lparr>str = 0, str_size = 1, allocated = False, chars = [0]\<rparr>)"

lemma one_handler_ok: "thread_ok {} one_handler" "handler_set one_handler handler_pair" "\<not> full_gc (heap one_handler)"
  "free_mem (fresh (heap one_handler)) = 131040" "sp_pos (fresh (heap one_handler)) = 65568"
  "PTR (MAKE_HEAP_PTR 65544) = (65544 :: nat)" "exception_handlers one_handler = MAKE_HEAP_PTR 65544"
  "op_stack_idx one_handler = 0" "op_stack_size one_handler = 512"
  "sp_mem (fresh (heap one_handler)) = 65536" "sp_size (fresh (heap one_handler)) = 131072"
proof -
  let ?t = "ex_thread (\<lambda>_. None) []" and ?t1 = "new_object (ex_thread (\<lambda>_. None) []) t_pair 24 (P_Pair handler_pair)"
  have ok: "thread_ok {} ?t" by (rule ex_thread_ok) simp_all
  have "links_ok (value_ok {} ?t) (\<lambda>q. valid_addr (heap ?t) q \<and> hdr_type (heap ?t) q = Some t_env) (P_Pair handler_pair)"
    by (simp add: links_ok_def handler_pair_def value_ok_def valid_obj_def refers_def is_tag_defs tag_defs)
  note o = new_object_ok [OF ok _ _ _ _ this, of 24 t_pair]
  have o1: "thread_ok {} ?t1" "HTYPE (mem_of ?t1) 65544 = Some ((zero_block t_pair 24)\<lparr>payload := P_Pair handler_pair\<rparr>)"
      "value_ok {} ?t1 (MAKE_HEAP_PTR 65544)" and p: "PTR (MAKE_HEAP_PTR 65544) = (65544 :: nat)"
    using o(1,3,4,5) by (simp_all add: handler_pair_def)
  show "thread_ok {} one_handler" using handlers_ok [OF o1(1,3)] by (simp add: one_handler_def)
  show "PTR (MAKE_HEAP_PTR 65544) = (65544 :: nat)" by (rule p)
  show "handler_set one_handler handler_pair"
    using o1(2) p by (simp add: handler_set_def one_handler_def IS_PAIR_block pair_at_block zero_block_def)
      (simp add: handler_pair_def IS_FUNC_def TEST_TAG_def)
qed (simp_all add: one_handler_def new_object_fresh)

lemma full_heap_ok: "thread_ok {} full_heap" "handler_set full_heap handler_pair" "\<not> full_gc (heap full_heap)"
  "HTYPE (mem_of one_handler) p = Some b \<Longrightarrow> HTYPE (mem_of full_heap) p = Some b"
  "HTYPE (mem_of full_heap) 65576 = Some ((zero_block t_string 131008)\<lparr>payload :=
     P_String \<lparr>str = 0, str_size = 1, allocated = False, chars = [0]\<rparr>\<rparr>)"
proof -
  let ?s = "P_String \<lparr>str = 0, str_size = 1, allocated = False, chars = [0]\<rparr>"
  note h = one_handler_ok
  have "links_ok (value_ok {} one_handler) (\<lambda>q. valid_addr (heap one_handler) q \<and> hdr_type (heap one_handler) q = Some t_env) ?s"
    by (simp add: links_ok_def)
  note o = new_object_ok [OF h(1) _ _ _ _ this, of 131008 t_string]
  show "thread_ok {} full_heap" unfolding full_heap_def by (rule o(1)) (simp_all add: h(4))
  show k: "HTYPE (mem_of one_handler) p = Some b \<Longrightarrow> HTYPE (mem_of full_heap) p = Some b" for p b
    unfolding full_heap_def by (rule o(6)) (simp_all add: h(4))
  show "HTYPE (mem_of full_heap) 65576 = Some ((zero_block t_string 131008)\<lparr>payload := ?s\<rparr>)"
    unfolding full_heap_def using o(5) by (simp add: h)
  have "IS_FUNC m (car handler_pair) = Inr True" for m by (simp add: handler_pair_def IS_FUNC_def TEST_TAG_def)
  moreover have "exception_handlers full_heap = exception_handlers one_handler" by (simp add: full_heap_def)
  ultimately show "handler_set full_heap handler_pair" using h(2) k unfolding handler_set_def IS_PAIR_block pair_at_block by metis
qed (simp add: full_heap_def one_handler_ok(3))

theorem raise_calls_handler_witness:
  "\<forall>v0. \<exists>v' s. raise (v0\<lparr>thread := one_handler\<rparr>) [69] = Inr v' \<and> ctl v' = Dispatch (MAKE_FUNC 8) 2
    \<and> exception_handlers (thread v') = cnull
    \<and> string_at (mem_of (thread v')) (opstack (thread v') ! 1) = Inr s \<and> chars s = [69, 0]"
proof
  fix v0 :: vm
  let ?v = "v0\<lparr>thread := one_handler\<rparr>"
  have "thread_ok {} (thread ?v)" "raise_ready (thread ?v) [69]" "handler_set (thread ?v) handler_pair"
      "op_stack_idx (thread ?v) + 3 < op_stack_size (thread ?v)"
    by (simp_all add: one_handler_ok raise_ready_def sizeof_string_def round8_def)
  from raise_calls_handler [OF this] show "\<exists>v' s. raise ?v [69] = Inr v' \<and> ctl v' = Dispatch (MAKE_FUNC 8) 2
    \<and> exception_handlers (thread v') = cnull
    \<and> string_at (mem_of (thread v')) (opstack (thread v') ! 1) = Inr s \<and> chars s = [69, 0]"
    by (auto simp: one_handler_ok handler_pair_def)
qed

theorem raise_without_handler_witness:
  "\<forall>v0. raise (v0\<lparr>thread := ex_thread (\<lambda>_. None) []\<rparr>) [69] = Inr (v0\<lparr>thread := ex_thread (\<lambda>_. None) [], ctl := Halted\<rparr>)"
proof
  fix v0 :: vm
  let ?v = "v0\<lparr>thread := ex_thread (\<lambda>_. None) []\<rparr>"
  have "IS_PAIR (mem_of (thread ?v)) (exception_handlers (thread ?v)) = Inr False"
    by (simp add: IS_PAIR_def IS_TYPE_def is_tag_defs tag_defs)
  from raise_without_handler [OF this]
  show "raise ?v [69] = Inr (v0\<lparr>thread := ex_thread (\<lambda>_. None) [], ctl := Halted\<rparr>)" by simp
qed

theorem handler_lost_by_collection_witness:
  "defined (\<lambda>(t1, s). exception_handlers t1 \<noteq> MAKE_HEAP_PTR 65544
      \<and> (\<forall>q'. pair_at (mem_of t1) (MAKE_HEAP_PTR 65544) \<noteq> Inr q'))
      (string_new heap_allocator full_heap 0 (take 255 [69]) True)"
  and "\<forall>r. push_exception_handler full_heap [69] \<noteq> Inr r"
proof -
  note h = one_handler_ok
  have x: "exception_handlers full_heap = MAKE_HEAP_PTR 65544" by (simp add: full_heap_def h(7))
  have fr: "from_addr (heap full_heap) (PTR (exception_handlers full_heap) - 8)"
    by (simp add: x h full_heap_def from_addr_def in_space_def new_object_fresh)
  have room: "\<not> raise_ready full_heap [69]"
    by (simp add: full_heap_def new_object_fresh raise_ready_def h sizeof_string_def round8_def)
  have "IS_HEAP_PTR (exception_handlers full_heap)" by (simp add: x)
  note l = handler_lost_by_collection [OF full_heap_ok(1,3,2) this fr room]
  from l [THEN conjunct1] show "defined (\<lambda>(t1, s). exception_handlers t1 \<noteq> MAKE_HEAP_PTR 65544
      \<and> (\<forall>q'. pair_at (mem_of t1) (MAKE_HEAP_PTR 65544) \<noteq> Inr q'))
      (string_new heap_allocator full_heap 0 (take 255 [69]) True)"
    unfolding x by (rule defined_mono) auto
  show "\<forall>r. push_exception_handler full_heap [69] \<noteq> Inr r" using l by blast
qed

end
