(* ===== verification/Vm_Frames.thy ===== *)
theory Vm_Frames
  imports Vm_Control
begin

unbundle bit_operations_syntax

text \<open>
  Frames: the arguments of a call become the locals of the function, and the variables of the enclosing
  functions are found by lexical addressing, through the chain of environments or the bindmap that caches it.
\<close>

section \<open>Arguments\<close>

lemma set_object_env:
  assumes "HTYPE (mem_of t) p = Some b"
  shows "env_at (mem_of (set_object t p (P_Env e))) p = Inr e"
  using assms by (auto simp: set_object_def set_store_def set_payload_def HTYPE_def env_at_def split: if_splits)

lemma env_local:
  assumes e: "env_at (mem_of t) p = Inr e" and n: "length xs \<le> length (env_slots e)"
  shows "\<exists>t'. write_slots t (p + sizeof_env) 0 xs = Inr t' \<and> th_objects t' = th_objects t \<and> th_env t' = th_env t
    \<and> (\<forall>i < length xs. read_slot (mem_of t') (p + sizeof_env) (int i) = Inr (xs ! i))"
proof -
  from e obtain b where "HTYPE (mem_of t) p = Some b" by (auto simp: env_at_def bindE_Inr_iff)
  note s = set_object_env [OF this]
  let ?t' = "set_object t p (P_Env (e\<lparr>env_slots := splice 0 xs (env_slots e)\<rparr>))"
  have "write_slots t (p + sizeof_env) 0 xs = Inr ?t'"
    using e n by (simp add: write_slots_def slots_at_def)
  moreover have "read_slot (mem_of ?t') (p + sizeof_env) (int i) = Inr (xs ! i)" if "i < length xs" for i
    using that s n by (simp add: read_slot_def slots_at_def splice_def nth_append)
  moreover have "th_objects ?t' = th_objects t" "th_env ?t' = th_env t" by (simp_all add: set_object_def set_store_def)
  ultimately show ?thesis by blast
qed

text \<open>The renaming of a call: only a new environment on the heap can move anything.\<close>

definition frame_renames :: "func_t \<Rightarrow> nat \<Rightarrow> vm_thread \<Rightarrow> (addr \<Rightarrow> addr) \<Rightarrow> bool" where
  "frame_renames func n t f \<longleftrightarrow>
     (if f_heap_env func \<noteq> 0 \<and> 0 < n then alloc_renames (sizeof_env + sizeof_obj * nat (env_sz func)) t f else f = id)"

definition locals_are :: "((addr \<Rightarrow> addr) \<Rightarrow> bool) \<Rightarrow> vm_thread \<Rightarrow> nat \<Rightarrow> nat \<Rightarrow> vm_thread \<Rightarrow> bool" where
  "locals_are R t a n t' \<longleftrightarrow> (\<exists>f. R f \<and> (\<forall>i < n. load_local t' (int i) = Inr (rename_obj f (opstack t ! (a + i)))))"

lemma place_in_env:
  assumes ok: "thread_ok C t" and nf: "\<not> full_gc (heap t)" and n: "0 < n" "a + n = op_stack_idx t"
    and sz: "int n \<le> sz" "0 \<le> sz" "sz < 2 ^ 27"
  shows "defined (locals_are (alloc_renames (sizeof_env + sizeof_obj * nat sz) t) t a n) (bindE (env_new t th_env sz dep) (\<lambda>(t1, p).
      bindE (read_stack (t1\<lparr>th_env := p, th_objects := In_Env (p + sizeof_env)\<rparr>) a n) (\<lambda>xs.
        write_slots (t1\<lparr>th_env := p, th_objects := In_Env (p + sizeof_env)\<rparr>\<lparr>op_stack_idx := 0\<rparr>) (p + sizeof_env) 0 xs)))"
proof -
  have par: "th_env t0 = 0 \<or> valid_addr (heap t0) (th_env t0) \<and> hdr_type (heap t0) (th_env t0) = Some t_env"
    if "grown C t t0" for t0
    by (rule th_env_valid(1) [of C]) (use that in \<open>simp add: grown_def\<close>)
  show ?thesis
  proof (rule defined_bind [OF env_new_ok [OF ok nf sz(2,3) par]])
    let ?pl = "\<lambda>t0. P_Env \<lparr>prev = th_env t0, env_size = sz, depth = dep, objects = new_addr t0 + sizeof_env,
        env_slots = replicate (nat sz) 0\<rparr>"
    fix y assume y: "made C t (sizeof_env + sizeof_obj * nat sz) t_env ?pl y"
    obtain t1 p where yp: "y = (t1, p)" by (cases y)
    from madeE [OF y [unfolded yp]] obtain t0 where t0: "grown C t t0" "source t (sizeof_env + sizeof_obj * nat sz) t0"
        "opstack t1 = opstack t0" "thread_ok C t1" "op_stack_idx t1 = op_stack_idx t"
        "HTYPE (mem_of t1) p = Some ((zero_block t_env (round8 (sizeof_env + sizeof_obj * nat sz)))\<lparr>payload := ?pl t0\<rparr>)"
      by metis
    then have ev: "env_at (mem_of t1) p = Inr \<lparr>prev = th_env t0, env_size = sz, depth = dep, objects = new_addr t0 + sizeof_env,
          env_slots = replicate (nat sz) 0\<rparr>"
      by (simp add: env_at_def)
    from source_renames [OF ok _ t0(1,2)] nf obtain f where
      f: "stack_moved f t t0" "alloc_renames (sizeof_env + sizeof_obj * nat sz) t f" by blast
    have mv: "opstack t0 ! (a + i) = rename_obj f (opstack t ! (a + i))" if "i < n" for i
      using f(1) that n by (simp add: stack_moved_def moved_value_def)
    let ?t2 = "t1\<lparr>th_env := p, th_objects := In_Env (p + sizeof_env)\<rparr>"
    let ?xs = "take n (drop a (opstack t1))"
    have l: "a + n \<le> length (opstack t1)" using thread_okE(2,3) [OF t0(4)] t0(5) n(2) by simp
    then have rd: "read_stack ?t2 a n = Inr ?xs" by (simp add: read_stack_def)
    have x: "?xs ! i = rename_obj f (opstack t ! (a + i))" if "i < n" for i using l mv that t0(3) by simp
    have "env_at (mem_of (?t2\<lparr>op_stack_idx := 0\<rparr>)) p = env_at (mem_of t1) p" by simp
    note env_local [OF this [unfolded ev], of ?xs]
    then obtain t' where t': "write_slots (?t2\<lparr>op_stack_idx := 0\<rparr>) (p + sizeof_env) 0 ?xs = Inr t'"
        "th_objects t' = In_Env (p + sizeof_env)" "\<forall>i < n. read_slot (mem_of t') (p + sizeof_env) (int i) = Inr (?xs ! i)"
      using sz(1) l by (auto simp: le_nat_iff)
    have "locals_are (alloc_renames (sizeof_env + sizeof_obj * nat sz) t) t a n t'"
      using t'(2,3) x f(2) by (auto simp: locals_are_def load_local_def)
    then show "defined (locals_are (alloc_renames (sizeof_env + sizeof_obj * nat sz) t) t a n) (case y of (t1, p) \<Rightarrow>
        bindE (read_stack (t1\<lparr>th_env := p, th_objects := In_Env (p + sizeof_env)\<rparr>) a n) (\<lambda>xs.
        write_slots (t1\<lparr>th_env := p, th_objects := In_Env (p + sizeof_env)\<rparr>\<lparr>op_stack_idx := 0\<rparr>) (p + sizeof_env) 0 xs))"
      using t'(1) rd by (simp add: yp)
  qed simp_all
qed


section \<open>Lexical addressing\<close>

text \<open>A finite chain of environments, from \<open>p\<close> outwards.\<close>

fun chain_in :: "memory \<Rightarrow> addr \<Rightarrow> env_t list \<Rightarrow> addr list \<Rightarrow> bool" where
  "chain_in m p [] [] = (p = 0)"
| "chain_in m p (e # es) (a # as) = (p \<noteq> 0 \<and> a = p \<and> env_at m p = Inr e \<and> chain_in m (prev e) es as)"
| "chain_in m p _ _ = False"

text \<open>
  C20: \<^verbatim>\<open>env_display\<close> returns on every finite chain of environments: with the innermost environment of
  the wanted depth, or, when the chain has none, with the code's fatal error "null env".
\<close>

theorem env_display_finds:
  assumes "chain_in m p es as" and "es \<noteq> []"
  shows "env_display m p i = Some (case List.find (\<lambda>(e, a). depth e = i) (zip es as) of
      Some (e, a) \<Rightarrow> Inr a
    | None \<Rightarrow> Inl (Fatal ''null env''))"
  using assms
proof (induction m p es as rule: chain_in.induct)
  case (2 m p e es a as)
  show ?case
  proof (cases "depth e = i")
    case True
    then show ?thesis using 2(2) by (subst env_display.simps) simp
  next
    case False
    show ?thesis
    proof (cases "prev e = 0")
      case True
      have "es = []"
      proof (cases es)
        case (Cons e' es')
        then show ?thesis using 2(2) True by (cases as) auto
      qed simp
      then show ?thesis using 2(2) True False by (subst env_display.simps) auto
    next
      case prv: False
      have "es \<noteq> []" using 2(2) prv by (cases as) auto
      then show ?thesis using 2(1,2) prv False by (subst env_display.simps) auto
    qed
  qed
qed simp_all

text \<open>The bindmap holds the environments that the display finds.\<close>

lemma bindmap_loop_cells:
  assumes "bindmap_loop ds i t = Inr t'"
  shows "mem_of t' = mem_of t \<and> th_env t' = th_env t \<and> th_bindmap t' = th_bindmap t
    \<and> (\<forall>j < i. opstack t' ! j = opstack t ! j) \<and> length (opstack t') = length (opstack t)
    \<and> (\<forall>j < length ds. i + j < length (opstack t) \<and>
        (\<exists>q. display_env (mem_of t) (th_env t) (ds ! j) = Inr q \<and> opstack t' ! (i + j) = MAKE_HEAP_PTR q))"
  using assms
proof (induction ds arbitrary: i t)
  case (Cons d ds)
  then obtain q t1 where q: "display_env (mem_of t) (th_env t) d = Inr q" "write_stack t i (MAKE_HEAP_PTR q) = Inr t1"
      "bindmap_loop ds (Suc i) t1 = Inr t'"
    by (auto simp: bindE_Inr_iff)
  then have t1: "t1 = t\<lparr>opstack := (opstack t)[i := MAKE_HEAP_PTR q]\<rparr>" "i < length (opstack t)"
    by (auto simp: write_stack_def split: if_splits)
  note ih = Cons.IH [OF q(3)]
  have first: "opstack t' ! i = MAKE_HEAP_PTR q" using ih t1 by simp
  have rest: "i + Suc j < length (opstack t) \<and> (\<exists>q. display_env (mem_of t) (th_env t) (ds ! j) = Inr q \<and> opstack t' ! (i + Suc j) = MAKE_HEAP_PTR q)"
    if "j < length ds" for j using ih that t1(1) by simp
  have "i + j < length (opstack t) \<and> (\<exists>q. display_env (mem_of t) (th_env t) ((d # ds) ! j) = Inr q \<and> opstack t' ! (i + j) = MAKE_HEAP_PTR q)"
    if "j < length (d # ds)" for j
    using that first rest [of "j - 1"] q(1) t1(2) by (cases j) auto
  then show ?case using ih t1 by auto
qed simp

text \<open>
  C13: The bindmap is a cache of the display. When the entered function has filled its bindmap,
  \<^verbatim>\<open>LOAD_BIND\<close> of a variable with coordinates (up, idx) reads slot idx of the environment that walking the
  chain finds for the depth that the compiler noted for up. It gives the same value, and the same error, as the walk
  without the cache.
\<close>

theorem bindmap_caches_display:
  assumes "thread_ok C t" and "th_env t \<noteq> 0" and "bindmap_init t bm func = Inr t'" and "th_bindmap t' = Some bm"
    and "0 \<le> i" and "nat i < length (f_bindings func)" and "f_bindings func ! nat i = b"
    and "0 \<le> b_up b" and "nat (b_up b) < bmcount func"
  shows "load_bind func i t' =
    bindE (display_env (mem_of t') (th_env t') (f_bindmap func ! nat (b_up b))) (\<lambda>p.
    bindE (env_at (mem_of t') p) (\<lambda>e.
    bindE (read_slot (mem_of t') (objects e) (b_idx b)) (STACK_PUSH t')))"
proof -
  let ?u = "nat (b_up b)"
  from assms(3) have run: "bindmap_loop (take (bmcount func) (f_bindmap func)) bm t = Inr t'"
      "bmcount func \<le> length (f_bindmap func)"
    by (auto simp: bindmap_init_def split: if_splits)
  note c = bindmap_loop_cells [OF run(1)]
  have u: "?u < length (take (bmcount func) (f_bindmap func))" using assms(9) run(2) by simp
  with c obtain q where q: "display_env (mem_of t) (th_env t) (f_bindmap func ! ?u) = Inr q"
      "opstack t' ! (bm + ?u) = MAKE_HEAP_PTR q" "bm + ?u < length (opstack t')"
    using assms(9) by auto
  have "valid_addr (heap t) q"
  proof -
    from q(1) have "env_display (mem_of t) (th_env t) (f_bindmap func ! ?u) = Some (Inr q)"
      by (auto simp: display_env_def split: option.splits)
    from env_display_valid [OF assms(1) this refl _ _ refl] th_env_valid(1) [OF assms(1)] assms(2) show ?thesis by auto
  qed
  moreover have "layout_ok (heap t)" using thread_okE(8) [OF assms(1)] by (simp add: heap_wf_def)
  ultimately have p: "PTR (MAKE_HEAP_PTR q) = q" using PTR_heap_ptr by blast
  have same: "mem_of t' = mem_of t" "th_env t' = th_env t" using c by auto
  have "nat (int bm + b_up b) = bm + ?u" using assms(8) by simp
  then have "bind_env t' func i = bindE (env_at (mem_of t') q) (\<lambda>e. Inr (e, b_idx b))"
    using assms(4-8) q(2,3) p by (simp add: bind_env_def Let_def stack_at_def)
  then show ?thesis using q(1) by (simp add: load_bind_def same) (cases "env_at (mem_of t) q"; simp)
qed

section \<open>Examples\<close>

text \<open>A function with one binding, the first slot of the environment of depth 1.\<close>

definition ex_frame :: func_t where
  "ex_frame = \<lparr>f_argc = 2, f_swallow = False, env_sz = 2, op_count = 0, f_heap_env = 1, f_depth = 2, bcount = 1, bmcount = 1,
     f_opcode = [], f_bindings = [\<lparr>b_up = 0, b_idx = 0\<rparr>], f_bindmap = [1], f_module = 1\<rparr>"


theorem env_display_finds_witness:
  "env_display (mem_of (env_thread [])) 65544 1 = Some (Inr 65544) \<and>
   env_display (mem_of (env_thread [])) 65544 7 = Some (Inl (Fatal ''null env''))"
proof -
  have e: "env_at (mem_of (env_thread [])) 65544 = Inr ex_env" by (rule env_thread_ok(4)) simp_all
  then have "chain_in (mem_of (env_thread [])) 65544 [ex_env] [65544]" by (simp add: ex_env_def)
  note env_display_finds [OF this, of 1] env_display_finds [OF this, of 7]
  then show ?thesis by (simp add: ex_env_def)
qed

theorem bindmap_caches_display_witness:
  "\<exists>t'. bindmap_init ((env_thread [])\<lparr>th_bindmap := Some 0\<rparr>) 0 ex_frame = Inr t' \<and> load_bind ex_frame 0 t' = STACK_PUSH t' (MAKE_FIXNUM 5)"
proof -
  let ?t = "(env_thread [])\<lparr>th_bindmap := Some 0\<rparr>"
  note et = env_thread_ok [of "[]", simplified]
  have ok: "thread_ok {} ?t" using et(1) by (simp only: thread_ok_regs)
  have d: "display_env (mem_of ?t) 65544 1 = Inr 65544"
    by (simp add: display_env_def) (subst env_display.simps, simp add: et ex_env_def)
  have run: "bindmap_init ?t 0 ex_frame = Inr (?t\<lparr>opstack := (opstack ?t)[0 := MAKE_HEAP_PTR 65544]\<rparr>)"
    using d by (simp add: bindmap_init_def ex_frame_def write_stack_def et)
  have "load_bind ex_frame 0 (?t\<lparr>opstack := (opstack ?t)[0 := MAKE_HEAP_PTR 65544]\<rparr>) =
    STACK_PUSH (?t\<lparr>opstack := (opstack ?t)[0 := MAKE_HEAP_PTR 65544]\<rparr>) (MAKE_FIXNUM 5)"
    using d et(4) by (subst bindmap_caches_display [OF ok _ run, where b = "\<lparr>b_up = 0, b_idx = 0\<rparr>"]) (simp_all add: ex_frame_def et ex_env_def read_slot_def slots_at_def)
  then show ?thesis using run by blast
qed

end
