(* ===== verification/Gc_Room.thy ===== *)
theory Gc_Room
  imports Vm_Frames
begin

unbundle bit_operations_syntax

text \<open>
  Liveness of allocation: a minor collection returns when what has not yet been copied fits into the spaces
  it is copied to, and after it an object of up to the size of the fresh space can be allocated.
\<close>

section \<open>Running without filling a space\<close>

text \<open>\<open>fits P m\<close>: the operation does not stop because a space is full, and if it returns then with \<open>P\<close>.\<close>

definition fits :: "('a \<Rightarrow> bool) \<Rightarrow> 'a outcome \<Rightarrow> bool" where
  "fits P m = (case m of Inr y \<Rightarrow> P y | Inl e \<Rightarrow> e \<noteq> Fatal ''out of memory'')"

lemma fits_simps [simp]: "fits P (Inr y) = P y" "fits P (Inl e) \<longleftrightarrow> e \<noteq> Fatal ''out of memory''"
  by (simp_all add: fits_def)

lemma fits_bind: "fits P m \<Longrightarrow> (\<And>y. P y \<Longrightarrow> fits Q (f y)) \<Longrightarrow> fits Q (bindE m f)"
  by (cases m) auto

lemma fits_bind_eq: "fits P m \<Longrightarrow> (\<And>y. m = Inr y \<Longrightarrow> P y \<Longrightarrow> fits Q (f y)) \<Longrightarrow> fits Q (bindE m f)"
  by (cases m) auto

lemma fits_bind_pure: "(\<And>y. m = Inr y \<Longrightarrow> fits Q (f y)) \<Longrightarrow> fits (\<lambda>_. True) m \<Longrightarrow> fits Q (bindE m f)"
  by (cases m) auto

lemma fits_deref [simp]: "fits P (deref x s) \<longleftrightarrow> (\<forall>y. x = Some y \<longrightarrow> P y)"
  by (cases x) (simp_all add: deref_def)

lemma safe_fits: "safe P m \<Longrightarrow> fits Q m \<Longrightarrow> \<exists>y. m = Inr y \<and> P y \<and> Q y"
  by (cases m) auto

locale fitting_visitor =
  fixes vs :: visitor and K :: "heap \<Rightarrow> bool"
  assumes vs_fits: "K h \<Longrightarrow> fits (\<lambda>(h', x'). K h') (vs h x)"
    and K_payload: "K h \<Longrightarrow> store h a = Some b \<Longrightarrow> K (h\<lparr>store := (store h)(a \<mapsto> b\<lparr>payload := p\<rparr>)\<rparr>)"
begin

lemma put_payload_fits: "K h \<Longrightarrow> fits K (put_payload h a upd)"
  by (cases "store h a") (auto simp: put_payload_def K_payload intro!: fits_bind [where P = "\<lambda>_. True"])

lemma visit_field_fits: "K h \<Longrightarrow> fits K (visit_field vs h a rd wr)"
  unfolding visit_field_def
  by (rule fits_bind [where P = "\<lambda>_. True"], simp, rule fits_bind [where P = "\<lambda>_. True"], simp,
      rule fits_bind [OF vs_fits], assumption) (auto intro: put_payload_fits)

lemma mark_env_fits: "K h \<Longrightarrow> fits (\<lambda>(h', q'). K h') (mark_env vs h q)"
  unfolding mark_env_def by (auto intro!: fits_bind [OF vs_fits])

lemma visit_env_field_fits: "K h \<Longrightarrow> fits K (visit_env_field vs h a rd wr)"
  unfolding visit_env_field_def
  by (rule fits_bind [where P = "\<lambda>_. True"], simp, rule fits_bind [where P = "\<lambda>_. True"], simp,
      rule fits_bind [OF mark_env_fits], assumption) (auto intro: put_payload_fits)

lemma visit_slots_fits: "K h \<Longrightarrow> fits K (visit_slots vs h a i n)"
proof (induction n arbitrary: h i)
  case (Suc n)
  show ?case using fits_bind [OF visit_field_fits [OF Suc.prems] Suc.IH] by simp
qed simp

lemmas field_fits = put_payload_fits visit_field_fits visit_env_field_fits visit_slots_fits

lemma env_visit_fits: "K h \<Longrightarrow> fits K (env_visit vs h a)"
  unfolding env_visit_def
  by (rule fits_bind [OF put_payload_fits], assumption, rule fits_bind [where P = "\<lambda>_. True"], simp,
      rule fits_bind [where P = "\<lambda>_. True"], simp, rule fits_bind [OF visit_slots_fits], assumption)
    (rule visit_env_field_fits)

lemma struct_visit_fits: "K h \<Longrightarrow> fits K (struct_visit vs h a)"
  unfolding struct_visit_def
  by (rule fits_bind [OF put_payload_fits], assumption, rule fits_bind [where P = "\<lambda>_. True"], simp,
      rule fits_bind [where P = "\<lambda>_. True"], simp, rule visit_slots_fits)

lemma call_visit_fits: "K h \<Longrightarrow> fits K (call_visit fp vs h a)"
  by (cases fp)
    (auto simp: env_visit_fits struct_visit_fits closure_visit_def pair_visit_def continuation_visit_def
      string_visit_def bv_visit_def intro: field_fits fits_bind [OF visit_field_fits])

lemma visit_hdr_fits: "K h \<Longrightarrow> fits K (visit_hdr vs h a)"
  unfolding visit_hdr_def
  by (rule fits_bind [where P = "\<lambda>_. True"], simp, rule fits_bind [where P = "\<lambda>_. True"])
    (auto simp: type_entry_def split: option.splits intro: call_visit_fits)

lemma visit_list_fits: "K h \<Longrightarrow> fits (\<lambda>(h', xs'). K h') (visit_list vs h xs)"
proof (induction xs arbitrary: h)
  case (Cons x xs)
  show ?case
    unfolding visit_list.simps
    by (rule fits_bind [OF vs_fits [OF Cons.prems]]) (auto intro!: fits_bind [OF Cons.IH])
qed simp

lemma visit_root_fits: "K (heap t) \<Longrightarrow> fits (\<lambda>t'. K (heap t')) (visit_root vs r t)"
proof (cases r)
  case R_Locals
  then show "K (heap t) \<Longrightarrow> ?thesis" by (cases "local_roots t") (auto intro!: fits_bind [OF visit_list_fits])
qed (auto intro!: fits_bind [OF mark_env_fits] fits_bind [OF visit_list_fits] fits_bind [OF vs_fits])

lemma thread_get_roots_fits: "K (heap t) \<Longrightarrow> fits (\<lambda>t'. K (heap t')) (thread_get_roots vs t)"
proof -
  have "K (heap t) \<Longrightarrow> fits (\<lambda>t'. K (heap t')) (visit_roots vs rs t)" for rs
    by (induction rs arbitrary: t) (auto intro: fits_bind [OF visit_root_fits])
  then show "K (heap t) \<Longrightarrow> ?thesis" unfolding thread_get_roots_def by blast
qed

end

section \<open>Room\<close>

text \<open>
  Where a block can be that a collection copies: its payload address passes the range check of
  \<^verbatim>\<open>heap_mark\<close> and is not in a target space. The blocks of generation 3 go to the old space, the
  others to the future survived space.
\<close>

definition sources :: "heap \<Rightarrow> addr set" where
  "sources h = {a. heap_mem h \<le> a + 8 \<and> a + 8 \<le> heap_mem h + mem_size h
     \<and> \<not> in_space (future_survived h) (a + 8) \<and> \<not> in_space (old h) (a + 8)}"

fun weight :: "bool \<Rightarrow> block option \<Rightarrow> nat" where
  "weight g None = 0"
| "weight g (Some b) = (if \<not> forward (hdr b) \<and> (generation (hdr b) = 3 \<longleftrightarrow> g) then blen b else 0)"

definition pending :: "bool \<Rightarrow> heap \<Rightarrow> nat" where
  "pending g h = (\<Sum>a \<in> sources h. weight g (store h a))"

definition old_room :: "heap \<Rightarrow> nat" where
  "old_room h = (if sp_mem (old h) = 0 then OLD_SIZE else free_mem (old h))"

definition tail_ok :: "space \<Rightarrow> bool" where
  "tail_ok sp \<longleftrightarrow> sp_mem sp \<le> sp_pos sp \<and> sp_pos sp + free_mem sp = sp_mem sp + sp_size sp"

definition roomy :: "heap \<Rightarrow> bool" where
  "roomy h \<longleftrightarrow> \<not> full_gc h \<and> old_map h = None \<and> tail_ok (future_survived h)
     \<and> (if sp_mem (old h) = 0 then sp_size (old h) = 0 else tail_ok (old h))
     \<and> (\<forall>a \<in> sources h. \<forall>b. store h a = Some b \<longrightarrow> 8 \<le> hsize (hdr b))
     \<and> pending False h \<le> free_mem (future_survived h) \<and> pending True h \<le> old_room h"

lemma finite_sources [simp]: "finite (sources h)"
  by (rule finite_subset [of _ "{..heap_mem h + mem_size h}"]) (auto simp: sources_def)

lemma weight_le_pending: "a \<in> sources h \<Longrightarrow> weight g (store h a) \<le> pending g h"
  unfolding pending_def by (rule member_le_sum) simp_all

text \<open>A step that takes one block away from what is pending.\<close>

lemma pending_drop:
  assumes sub: "sources h' \<subseteq> sources h" and a: "a \<in> sources h"
    and le: "\<And>x. x \<in> sources h' \<Longrightarrow> x \<noteq> a \<Longrightarrow> weight g (store h' x) \<le> weight g (store h x)"
    and wa: "a \<in> sources h' \<Longrightarrow> weight g (store h' a) = 0"
  shows "pending g h' + weight g (store h a) \<le> pending g h"
proof -
  have "pending g h' \<le> (\<Sum>x \<in> sources h - {a}. weight g (store h x))"
  proof -
    have "pending g h' = (\<Sum>x \<in> sources h' - {a}. weight g (store h' x))"
      unfolding pending_def using wa by (cases "a \<in> sources h'") (simp_all add: sum.remove)
    also have "\<dots> \<le> (\<Sum>x \<in> sources h' - {a}. weight g (store h x))"
      by (rule sum_mono) (use le in auto)
    also have "\<dots> \<le> (\<Sum>x \<in> sources h - {a}. weight g (store h x))"
      by (rule sum_mono2) (use sub in auto)
    finally show ?thesis .
  qed
  moreover have "pending g h = weight g (store h a) + (\<Sum>x \<in> sources h - {a}. weight g (store h x))"
    unfolding pending_def using a by (simp add: sum.remove)
  ultimately show ?thesis by simp
qed

text \<open>\<open>taken h a h'\<close>: as far as the sources go, the block at \<open>a\<close> was forwarded, others may be lost.\<close>

definition taken :: "heap \<Rightarrow> addr \<Rightarrow> heap \<Rightarrow> bool" where
  "taken h a h' \<longleftrightarrow> sources h' \<subseteq> sources h
     \<and> (\<forall>x \<in> sources h'. x \<noteq> a \<longrightarrow> store h' x = None \<or> store h' x = store h x)
     \<and> (\<forall>c. store h' a = Some c \<longrightarrow> a \<in> sources h' \<longrightarrow> forward (hdr c) \<and> 8 \<le> hsize (hdr c))"

lemma takenE:
  assumes t: "taken h a h'" and a: "a \<in> sources h" and b: "store h a = Some b" "\<not> forward (hdr b)"
    and hs: "\<forall>a \<in> sources h. \<forall>b. store h a = Some b \<longrightarrow> 8 \<le> hsize (hdr b)"
  shows "pending (generation (hdr b) = 3) h' + blen b \<le> pending (generation (hdr b) = 3) h"
    and "pending g h' \<le> pending g h"
    and "\<forall>a \<in> sources h'. \<forall>b. store h' a = Some b \<longrightarrow> 8 \<le> hsize (hdr b)"
proof -
  from t have sub: "sources h' \<subseteq> sources h"
    and oth: "\<And>x. x \<in> sources h' \<Longrightarrow> x \<noteq> a \<Longrightarrow> store h' x = None \<or> store h' x = store h x"
    and self: "\<And>c. store h' a = Some c \<Longrightarrow> a \<in> sources h' \<Longrightarrow> forward (hdr c) \<and> 8 \<le> hsize (hdr c)"
    unfolding taken_def by blast+
  have "x \<in> sources h' \<Longrightarrow> x \<noteq> a \<Longrightarrow> weight g (store h' x) \<le> weight g (store h x)" for g x
    using oth [of x] by auto
  moreover have "a \<in> sources h' \<Longrightarrow> weight g (store h' a) = 0" for g
    using self by (cases "store h' a") auto
  ultimately have drop: "pending g h' + weight g (store h a) \<le> pending g h" for g
    by (rule pending_drop [OF sub a])
  show "pending (generation (hdr b) = 3) h' + blen b \<le> pending (generation (hdr b) = 3) h"
    using drop [of "generation (hdr b) = 3"] b by simp
  show "pending g h' \<le> pending g h" using drop [of g] by simp
  show "\<forall>a \<in> sources h'. \<forall>b. store h' a = Some b \<longrightarrow> 8 \<le> hsize (hdr b)"
  proof (intro ballI allI impI)
    fix x c assume x: "x \<in> sources h'" "store h' x = Some c"
    show "8 \<le> hsize (hdr c)"
    proof (cases "x = a")
      case False
      then have "store h x = Some c" using oth [OF x(1)] x(2) by simp
      then show ?thesis using hs sub x(1) by blast
    qed (use x self in blast)
  qed
qed

text \<open>Copying to the end of a space leaves the sources alone but for the block itself.\<close>

lemma forward_to_at:
  "x \<noteq> a \<Longrightarrow> x \<noteq> q \<Longrightarrow> forward_to m a q x = m x"
  "a \<noteq> q \<Longrightarrow> forward_to m a q a = map_option (\<lambda>b. b\<lparr>hdr := (hdr b)\<lparr>forward := True\<rparr>, payload := P_Forward (q + BHDR_SIZE)\<rparr>) (m a)"
  by (auto simp: forward_to_def set_hdr_def set_payload_def split: option.splits)

lemma put_block_cases: "x \<noteq> q \<Longrightarrow> put_block m q b x = m x \<or> put_block m q b x = None"
  by (auto simp: put_block_def clear_range_def split: option.splits)

lemma copied_taken:
  assumes sub: "sources h' \<subseteq> sources h" and q: "q \<notin> sources h'"
    and m: "\<And>x. m x = store h x \<or> m x = None"
    and st: "store h' = forward_to (set_hdr (put_block m q c) a f) a q" and f: "\<And>d. hsize (f d) = hsize d"
    and b: "store h a = Some b" "8 \<le> hsize (hdr b)"
  shows "taken h a h'"
proof -
  have "store h' x = None \<or> store h' x = store h x" if "x \<in> sources h'" "x \<noteq> a" for x
  proof -
    have xq: "x \<noteq> q" using that q by auto
    have "store h' x = put_block m q c x" using that xq by (simp add: st forward_to_at set_hdr_def split: option.splits)
    then show ?thesis using put_block_cases [OF xq, of m c] m [of x] by auto
  qed
  moreover have "forward (hdr d) \<and> 8 \<le> hsize (hdr d)" if "store h' a = Some d" "a \<in> sources h'" for d
  proof -
    have aq: "a \<noteq> q" using that q by auto
    have "put_block m q c a = Some b \<or> put_block m q c a = None"
      using put_block_cases [OF aq, of m c] m [of a] b by auto
    then show ?thesis using aq b f that(1) by (auto simp: st forward_to_at set_hdr_def)
  qed
  ultimately show ?thesis using sub by (simp add: taken_def)
qed

lemma set_hdr_id: "set_hdr m a id = m"
  by (auto simp: set_hdr_def fun_eq_iff split: option.splits)

lemma survive_fits:
  assumes r: "roomy h" and a: "a \<in> sources h" and b: "store h a = Some b" "\<not> forward (hdr b)" "generation (hdr b) \<noteq> 3"
  shows "fits (\<lambda>(h', x'). roomy h') (survive h a (hsize (hdr b) + BHDR_SIZE))"
proof -
  let ?sp = "future_survived h" and ?q = "sp_pos (future_survived h)"
  have bl: "hsize (hdr b) + BHDR_SIZE = blen b" by (simp add: blen_def)
  have w: "blen b \<le> free_mem ?sp" using weight_le_pending [OF a, of False] b r by (simp add: roomy_def)
  have hs: "8 \<le> hsize (hdr b)" using r a b by (simp add: roomy_def)
  have q: "in_space ?sp (?q + 8)" using r w hs by (auto simp: roomy_def tail_ok_def in_space_def blen_def BHDR_SIZE_def)
  let ?h = "h\<lparr>store := forward_to (put_block (store h) ?q b) a ?q, future_survived := add_block ?sp (blen b)\<rparr>"
  have src: "sources ?h = sources h" by (simp add: sources_def)
  have "taken h a ?h"
    by (rule copied_taken [where q = ?q and m = "store h" and f = id and c = b])
      (use q b hs in \<open>simp_all add: src, simp_all add: sources_def set_hdr_id\<close>)
  note t = takenE [OF this a b(1,2)]
  from r have r': "pending False h \<le> free_mem ?sp" "pending True h \<le> old_room h" "tail_ok ?sp"
      "\<forall>a \<in> sources h. \<forall>b. store h a = Some b \<longrightarrow> 8 \<le> hsize (hdr b)"
    by (simp_all add: roomy_def)
  have "pending False ?h \<le> free_mem ?sp - blen b" using t(1) [OF r'(4)] r'(1) b(3) by simp
  moreover have "old_room ?h = old_room h" by (simp add: old_room_def)
  then have "pending True ?h \<le> old_room ?h" using t(2) [OF r'(4), of True] r'(2) by linarith
  moreover have "tail_ok (add_block ?sp (blen b))" using r'(3) w by (simp add: tail_ok_def add_block_def)
  ultimately have "roomy ?h"
    using t(3) [OF r'(4)] r unfolding roomy_def by (simp add: add_block_def)
  then show ?thesis using w b(1) by (simp add: survive_def space_copy_def space_put_def bl Let_def add_block_def)
qed

lemma old_on_demand_cases:
  assumes "old_on_demand h = Inr h1"
  shows "(sp_mem (old h) \<noteq> 0 \<and> h1 = h)
    \<or> (sp_mem (old h) = 0 \<and> old_base h \<noteq> 0 \<and> h1 = h\<lparr>store := clear_range (store h) (old_base h) OLD_SIZE,
         old := (old h)\<lparr>sp_size := OLD_SIZE, sp_mem := old_base h, sp_pos := old_base h, free_mem := OLD_SIZE, blocks := 0, sp_clear := True\<rparr>\<rparr>)"
  using assms by (auto simp: old_on_demand_def space_init_def space_reset0_def space_reset_def split: if_splits)

lemma promote_fits:
  assumes r: "roomy h" and a: "a \<in> sources h" and b: "store h a = Some b" "\<not> forward (hdr b)" "generation (hdr b) = 3"
  shows "fits (\<lambda>(h', x'). roomy h') (promote h a (hsize (hdr b) + BHDR_SIZE))"
  unfolding promote_def
proof (rule fits_bind_pure)
  show "fits (\<lambda>_. True) (old_on_demand h)" by (simp add: old_on_demand_def space_init_def split: prod.splits)
  fix h1 assume "old_on_demand h = Inr h1"
  note od = old_on_demand_cases [OF this]
  have o: "tail_ok (old h1)" "sp_mem (old h1) \<noteq> 0" "free_mem (old h1) = old_room h"
    using od r by (auto simp: roomy_def tail_ok_def old_room_def)
  have same: "heap_mem h1 = heap_mem h" "mem_size h1 = mem_size h" "future_survived h1 = future_survived h"
    "full_gc h1 = full_gc h" "old_map h1 = old_map h"
    using od by auto
  have m: "store h1 x = store h x \<or> store h1 x = None" for x
    using od by (auto simp: clear_range_def split: option.splits if_splits)
  have ins: "in_space (old h) x \<Longrightarrow> in_space (old h1) x" for x
    using od r by (auto simp: roomy_def in_space_def)
  let ?sp = "old h1" and ?q = "sp_pos (old h1)" and ?f = "\<lambda>d :: block_hdr. d\<lparr>remembered := False\<rparr>"
  have bl: "hsize (hdr b) + BHDR_SIZE = blen b" by (simp add: blen_def)
  have w: "blen b \<le> free_mem ?sp" using weight_le_pending [OF a, of True] b r o by (simp add: roomy_def)
  have hs: "8 \<le> hsize (hdr b)" using r a b by (simp add: roomy_def)
  have q: "in_space ?sp (?q + 8)" using o w hs by (auto simp: tail_ok_def in_space_def blen_def BHDR_SIZE_def)
  let ?h = "h1\<lparr>old := add_block ?sp (blen b), remembered_set := remembered_set h1 @ [?q],
      store := forward_to (set_hdr (put_block (store h1) ?q b) a ?f) a ?q\<rparr>"
  have "taken h a ?h"
    by (rule copied_taken [where q = ?q and m = "store h1" and f = ?f and c = b])
      (use q b m ins hs in \<open>simp_all add: sources_def same, auto\<close>)
  note t = takenE [OF this a b(1,2)]
  from r have r': "pending False h \<le> free_mem (future_survived h)" "pending True h \<le> old_room h"
      "\<forall>a \<in> sources h. \<forall>b. store h a = Some b \<longrightarrow> 8 \<le> hsize (hdr b)"
    by (simp_all add: roomy_def)
  have "pending True ?h \<le> old_room ?h" using t(1) [OF r'(3)] r'(2) b(3) o(2,3) by (simp add: old_room_def add_block_def)
  moreover have "pending False ?h \<le> free_mem (future_survived h)" using t(2) [OF r'(3), of False] r'(1) by simp
  moreover have "tail_ok (add_block ?sp (blen b))" using o(1) w by (simp add: tail_ok_def add_block_def)
  ultimately have "roomy ?h"
    using t(3) [OF r'(3)] r o(2) unfolding roomy_def by (simp add: same)
  moreover have "store h1 a = Some b \<or> store h1 a = None" using m [of a] b(1) by auto
  ultimately show "fits (\<lambda>(h', x'). roomy h') (bindE (space_copy (store h1) (old h1) a (hsize (hdr b) + BHDR_SIZE)) (\<lambda>(m, sp, new_pos).
         let h1 = heap_remember (h1\<lparr>store := m, old := sp\<rparr>) new_pos;
             m1 = set_hdr m a (\<lambda>d. d\<lparr>remembered := False\<rparr>)
         in Inr (h1\<lparr>store := forward_to m1 a new_pos\<rparr>, MAKE_HEAP_PTR (new_pos + BHDR_SIZE))))"
    using w by (auto simp: space_copy_def space_put_def bl Let_def add_block_def heap_remember_def)
qed

lemma heap_mark_fits:
  assumes r: "roomy h" shows "fits (\<lambda>(h', x'). roomy h') (heap_mark h x)"
proof -
  have nf: "\<not> full_gc h" "old_map h = None" using r by (simp_all add: roomy_def)
  let ?p = "PTR x" and ?a = "PTR x - BHDR_SIZE"
  consider "\<not> IS_HEAP_PTR x" | "IS_HEAP_PTR x" "(?p < heap_mem h \<or> ?p > heap_mem h + mem_size h) \<and> \<not> in_space (old h) ?p"
    | "IS_HEAP_PTR x" "in_space (future_survived h) ?p" | "in_space (old h) ?p"
    | "IS_HEAP_PTR x" "heap_mem h \<le> ?p" "?p \<le> heap_mem h + mem_size h" "\<not> in_space (old h) ?p" "\<not> in_space (future_survived h) ?p"
    by fastforce
  then show ?thesis
  proof cases
    case 5
    then have hm: "heap_mark h x = mark_young h x ?p" by (simp add: heap_mark_def Let_def)
    show ?thesis
    proof (cases "HTYPE (store h) ?p")
      case None
      then show ?thesis by (simp add: hm mark_young_def deref_def)
    next
      case (Some b)
      then have p: "8 \<le> ?p" "store h ?a = Some b" by (auto simp: HTYPE_def BHDR_SIZE_def split: if_splits)
      then have a: "?a \<in> sources h" using 5 by (simp add: sources_def BHDR_SIZE_def)
      show ?thesis
        using survive_fits [OF r a p(2)] promote_fits [OF r a p(2)] r nf Some
        by (auto simp: hm mark_young_def deref_def Let_def split: payload.splits)
    qed
  qed (use r nf in \<open>auto simp: heap_mark_def mark_old_def Let_def deref_def split: option.splits\<close>)
qed

lemma roomy_payload:
  assumes "roomy h" and "store h a = Some b"
  shows "roomy (h\<lparr>store := (store h)(a \<mapsto> b\<lparr>payload := p\<rparr>)\<rparr>)"
proof -
  let ?h = "h\<lparr>store := (store h)(a \<mapsto> b\<lparr>payload := p\<rparr>)\<rparr>"
  have "sources ?h = sources h" by (simp add: sources_def)
  moreover have "weight g (store ?h x) = weight g (store h x)" for g x using assms(2) by (simp add: blen_def)
  ultimately have "pending g ?h = pending g h" for g by (simp add: pending_def)
  then show ?thesis using assms \<open>sources ?h = sources h\<close> by (auto simp: roomy_def old_room_def)
qed

interpretation mark_room: fitting_visitor heap_mark roomy
  by unfold_locales (auto intro: heap_mark_fits roomy_payload)

section \<open>The collection\<close>

lemma scan_references_fits: "roomy h \<Longrightarrow> fits (\<lambda>(h', i', a'). roomy h') (scan_references h i a)"
proof (induction h i a rule: scan_references.induct)
  case (1 h i a)
  show ?case
  proof (cases "i < blocks (future_survived h)")
    case True
    have "fits (\<lambda>(h', i', a'). roomy h') (bindE (visit_hdr heap_mark h a) (\<lambda>h1.
             bindE (deref (store h1 a) ''next header'') (\<lambda>b. scan_references h1 (Suc i) (NEXT_HDR a b))))"
      by (rule fits_bind_eq [OF mark_room.visit_hdr_fits [OF 1(2)]], rule fits_bind_eq [where P = "\<lambda>_. True"])
        (auto intro: 1(1) [OF True])
    then show ?thesis using True by (subst scan_references.simps) simp
  qed (use 1(2) in \<open>subst scan_references.simps, simp\<close>)
qed

lemma scan_old_fits: "roomy h \<Longrightarrow> fits roomy (scan_old_from h i a)"
proof (induction h i a rule: scan_old_from.induct)
  case (1 h i a)
  show ?case
  proof (cases "i < blocks (old h)")
    case True
    have "fits roomy (bindE (visit_hdr heap_mark h a) (\<lambda>h1.
             bindE (deref (store h1 a) ''next header'') (\<lambda>b. scan_old_from h1 (Suc i) (NEXT_HDR a b))))"
      by (rule fits_bind_eq [OF mark_room.visit_hdr_fits [OF 1(2)]], rule fits_bind_eq [where P = "\<lambda>_. True"])
        (auto intro: 1(1) [OF True])
    then show ?thesis using True by (subst scan_old_from.simps) simp
  qed (use 1(2) in \<open>subst scan_old_from.simps, simp\<close>)
qed

lemma scan_remembered_fits: "roomy h \<Longrightarrow> fits roomy (scan_remembered_from h j)"
proof (induction h j rule: scan_remembered_from.induct)
  case (1 h j)
  show ?case
  proof (cases "j < length (remembered_set h)")
    case True
    have "fits roomy (bindE (visit_hdr heap_mark h (remembered_set h ! j)) (\<lambda>h1. scan_remembered_from h1 (Suc j)))"
      by (rule fits_bind_eq [OF mark_room.visit_hdr_fits [OF 1(2)]]) (rule 1(1) [OF True])
    then show ?thesis using True by (subst scan_remembered_from.simps) simp
  qed (use 1(2) in \<open>subst scan_remembered_from.simps, simp\<close>)
qed

lemma roomy_forget: "roomy (forget h) = roomy h"
  by (simp add: forget_def roomy_def pending_def sources_def old_room_def)

lemma drain_fits: "roomy h \<Longrightarrow> fits roomy (drain h i a)"
proof (induction h i a rule: drain.induct)
  case (1 h i a)
  show ?case
  proof (cases "remembered_set h = []")
    case False
    have rem: "fits roomy (heap_scan_remembered h)"
      unfolding heap_scan_remembered_def by (rule fits_bind [OF scan_remembered_fits [OF 1(3)]]) (simp add: roomy_forget)
    have "fits roomy (bindE (heap_scan_remembered h) (\<lambda>h1.
             if i < blocks (future_survived h1)
             then bindE (scan_references h1 i a) (\<lambda>(h2, i2, a2). drain h2 i2 a2) else drain h1 i a))"
    proof (rule fits_bind_eq [OF rem])
      fix h1 assume h1: "heap_scan_remembered h = Inr h1" "roomy h1"
      show "fits roomy (if i < blocks (future_survived h1)
             then bindE (scan_references h1 i a) (\<lambda>(h2, i2, a2). drain h2 i2 a2) else drain h1 i a)"
      proof (cases "i < blocks (future_survived h1)")
        case True
        have "fits roomy (bindE (scan_references h1 i a) (\<lambda>(h2, i2, a2). drain h2 i2 a2))"
          by (rule fits_bind_eq [OF scan_references_fits [OF h1(2)]]) (auto intro: 1(1) [OF False h1(1) True])
        then show ?thesis using True by simp
      qed (use 1(2) [OF False h1(1)] h1(2) in simp)
    qed
    then show ?thesis using False by (subst drain.simps) simp
  qed (use 1(3) in \<open>subst drain.simps, simp\<close>)
qed

lemma heap_gc_main_fits:
  assumes r: "roomy (heap t)" shows "fits (\<lambda>t'. roomy (heap t')) (heap_gc_main t)"
  unfolding heap_gc_main_def
proof (rule fits_bind [OF mark_room.thread_get_roots_fits [OF r]])
  fix t1 assume r1: "roomy (heap t1)"
  have old: "fits roomy (if full_gc (heap t1) then Inr (heap t1) else heap_scan_old (heap t1))"
    using r1 by (simp add: heap_scan_old_def scan_old_fits)
  show "fits (\<lambda>t'. roomy (heap t'))
    (bindE (if full_gc (heap t1) then Inr (heap t1) else heap_scan_old (heap t1)) (\<lambda>h1.
     bindE (scan_references h1 0 (sp_mem (future_survived h1))) (\<lambda>(h2, i, a).
     bindE (drain h2 i a) (\<lambda>h3. Inr (t1\<lparr>heap := h3\<rparr>)))))"
    by (rule fits_bind [OF old], rule fits_bind [OF scan_references_fits], assumption)
      (auto intro!: fits_bind [OF drain_fits])
qed

lemma heap_gc_fits:
  assumes r: "roomy (heap t)" shows "fits (\<lambda>_. True) (heap_gc t)"
  unfolding heap_gc_def
proof (rule fits_bind [OF heap_gc_main_fits [OF r]])
  fix t1 :: vm_thread assume "roomy (heap t1)"
  then have "\<not> full_gc (heap t1)" by (simp add: roomy_def)
  moreover have "fits (\<lambda>_. True) (thread_after_gc t)" for t
    unfolding thread_after_gc_def by (auto simp: fits_def deref_def split: option.splits sum.splits)
  ultimately show "fits (\<lambda>_. True) (bindE (if full_gc (heap t1)
            then bindE (heap_gc_old (heap t1)) (\<lambda>h.
                   bindE (heap_gc_main (t1\<lparr>heap := h\<lparr>full_gc := False\<rparr>\<rparr>)) (\<lambda>t2.
                     Inr (t2\<lparr>heap := (heap t2)\<lparr>old_map := None\<rparr>\<rparr>)))
            else Inr t1) (\<lambda>t3.
     let h4 = heap_swap_survived (reset_fresh (heap t3)) in
     bindE (thread_after_gc (t3\<lparr>heap := h4\<rparr>)) (\<lambda>t5.
       Inr (t5\<lparr>heap := (schedule_full (heap t5))\<lparr>gc_count := Suc (gc_count (heap t5))\<rparr>\<rparr>))))"
    by (auto simp: Let_def intro!: fits_bind [where P = "\<lambda>_. True"])
qed

section \<open>Counting the blocks\<close>

definition block_bytes :: "bool \<Rightarrow> memory \<Rightarrow> space \<Rightarrow> nat" where
  "block_bytes g m sp = sum_list (map (\<lambda>a. weight g (m a)) (run_addrs m (sp_mem sp) (blocks sp)))"

text \<open>
  The heap region consists of the three spaces, as \<^verbatim>\<open>heap_init\<close> lays it out, and no object
  header is in the eight bytes before it.
\<close>

definition snug :: "heap \<Rightarrow> bool" where
  "snug h \<longleftrightarrow> mem_size h = sp_size (fresh h) + sp_size (survived h) + sp_size (future_survived h)
     \<and> (\<forall>a \<in> {heap_mem h - 8 ..< heap_mem h}. store h a = None)"

lemma tiled:
  fixes a :: nat
  assumes "apart a1 n1 a2 n2" "apart a1 n1 a3 n3" "apart a2 n2 a3 n3" "b \<le> a1" "b \<le> a2" "b \<le> a3"
    and "a1 + n1 \<le> b + n" "a2 + n2 \<le> b + n" "a3 + n3 \<le> b + n" "n = n1 + n2 + n3" "b \<le> a" "a < b + n"
  shows "a1 \<le> a \<and> a < a1 + n1 \<or> a2 \<le> a \<and> a < a2 + n2 \<or> a3 \<le> a \<and> a < a3 + n3"
  using assms unfolding apart_def by linarith

lemma source_blocks:
  assumes wf: "heap_wf h" and sn: "snug h" and a: "a \<in> sources h" and b: "store h a = Some b"
  shows "(in_space (fresh h) a \<or> in_space (survived h) a) \<and> 8 \<le> hsize (hdr b)"
proof -
  from wf have l: "layout_ok h" and g: "graph_ok h" by (simp_all add: heap_wf_def)
  note lay = l [unfolded layout_ok_def inside_def apart_spaces_def]
  have "heap_mem h \<le> a"
  proof (rule ccontr)
    assume "\<not> heap_mem h \<le> a"
    then have "a \<in> {heap_mem h - 8 ..< heap_mem h}" using a by (auto simp: sources_def)
    then show False using sn b by (auto simp: snug_def)
  qed
  moreover have "a < heap_mem h + mem_size h" using a by (simp add: sources_def)
  ultimately have sp: "in_space (fresh h) a \<or> in_space (survived h) a \<or> in_space (future_survived h) a"
    unfolding in_space_def by (intro tiled [where b = "heap_mem h" and n = "mem_size h"]) (use lay sn in \<open>simp_all add: snug_def\<close>)
  then have "heap_hdr h a" using b by (auto simp: heap_hdr_def from_addr_def to_addr_def)
  then have hs: "8 \<le> hsize (hdr b)" using g b by (auto simp: graph_ok_def block_ok_def)
  have "\<not> in_space (future_survived h) a"
  proof
    assume f: "in_space (future_survived h) a"
    have "space_ok (store h) (future_survived h)" using l by (simp add: layout_ok_def)
    note space_ok_block [OF this b f]
    then have "in_space (future_survived h) (a + 8)" using hs f by (auto simp: in_space_def blen_def BHDR_SIZE_def)
    then show False using a by (simp add: sources_def)
  qed
  then show ?thesis using sp hs by blast
qed

lemma sum_set_le_list: "sum f (set xs) \<le> sum_list (map f xs)" for f :: "'a \<Rightarrow> nat"
proof (induction xs)
  case (Cons x xs)
  then show ?case by (cases "x \<in> set xs") (simp_all add: insert_absorb)
qed simp

lemma pending_bytes:
  assumes wf: "heap_wf h" and sn: "snug h"
  shows "pending g h \<le> block_bytes g (store h) (fresh h) + block_bytes g (store h) (survived h)"
proof -
  let ?F = "run_addrs (store h) (sp_mem (fresh h)) (blocks (fresh h))"
  let ?S = "run_addrs (store h) (sp_mem (survived h)) (blocks (survived h))"
  let ?w = "\<lambda>a. weight g (store h a)"
  from wf have l: "space_ok (store h) (fresh h)" "space_ok (store h) (survived h)" by (simp_all add: heap_wf_def layout_ok_def)
  have in_run: "a \<in> set ?F \<union> set ?S" if "a \<in> sources h" "store h a = Some b" for a b
    using source_blocks [OF wf sn that] space_ok_block(5) [OF l(1) that(2)] space_ok_block(5) [OF l(2) that(2)] by blast
  have "pending g h = sum ?w (sources h \<inter> (set ?F \<union> set ?S))"
    unfolding pending_def
  proof (rule sum.mono_neutral_right)
    show "\<forall>a \<in> sources h - sources h \<inter> (set ?F \<union> set ?S). ?w a = 0"
    proof
      fix a assume "a \<in> sources h - sources h \<inter> (set ?F \<union> set ?S)"
      then show "?w a = 0" using in_run [of a] by (cases "store h a") auto
    qed
  qed simp_all
  also have "\<dots> \<le> sum ?w (set ?F \<union> set ?S)" by (rule sum_mono2) simp_all
  also have "\<dots> \<le> sum ?w (set ?F) + sum ?w (set ?S)" by (simp add: sum_Un_nat)
  also have "\<dots> \<le> block_bytes g (store h) (fresh h) + block_bytes g (store h) (survived h)"
    unfolding block_bytes_def by (intro add_mono sum_set_le_list)
  finally show ?thesis .
qed

lemma roomy_start:
  assumes wf: "heap_wf h" and nf: "\<not> full_gc h" and sn: "snug h"
    and y: "block_bytes False (store h) (fresh h) + block_bytes False (store h) (survived h) \<le> free_mem (future_survived h)"
    and o: "block_bytes True (store h) (fresh h) + block_bytes True (store h) (survived h) \<le> old_room h"
  shows "roomy h"
proof -
  have l: "layout_ok h" "old_map h = None" using wf by (simp_all add: heap_wf_def)
  have tl: "space_ok m sp \<Longrightarrow> tail_ok sp" for m sp
    using run_bounds(1) by (fastforce simp: space_ok_def tail_ok_def)
  have "tail_ok (future_survived h)" "if sp_mem (old h) = 0 then sp_size (old h) = 0 else tail_ok (old h)"
    using l tl by (auto simp: layout_ok_def old_ok_def no_space_def)
  moreover have "\<forall>a \<in> sources h. \<forall>b. store h a = Some b \<longrightarrow> 8 \<le> hsize (hdr b)" using source_blocks [OF wf sn] by blast
  ultimately show ?thesis
    using nf l(2) le_trans [OF pending_bytes [OF wf sn] y] le_trans [OF pending_bytes [OF wf sn] o] unfolding roomy_def by blast
qed

text \<open>
  C3: An allocation succeeds when there is room for the survivors, as long as no full collection is pending. In a
  well-formed thread whose heap region is laid out as \<^verbatim>\<open>heap_init\<close> does it (the three spaces fill it, and no object
  header lies in the eight bytes in front), if the blocks of the fresh and the survived
  space that are younger than generation 3 fit into the free part of the future survived space, and those of
  generation 3 into the old space, then \<^verbatim>\<open>heap_alloc\<close> of fewer than \<open>2 ^ 31\<close> bytes, up to the size of the
  fresh space, header included, returns a block of the requested type, however full the fresh space is: the minor
  collection that it may have to run neither fails nor diverges. The bytes of the block are zero, because the fresh
  space has been cleared when it was reset. (A full collection, which an earlier one may have scheduled, is not covered.)
\<close>

theorem allocation_succeeds:
  assumes "thread_ok C t" and "\<not> full_gc (heap t)" and "snug (heap t)"
    and "block_bytes False (mem_of t) (fresh (heap t)) + block_bytes False (mem_of t) (survived (heap t))
      \<le> free_mem (future_survived (heap t))"
    and "block_bytes True (mem_of t) (fresh (heap t)) + block_bytes True (mem_of t) (survived (heap t)) \<le> old_room (heap t)"
    and "n < 2 ^ 31" and "round8 n + 8 \<le> sp_size (fresh (heap t))"
  shows "\<exists>t' p. heap_alloc t (of_nat n) tid = Inr (t', p) \<and> HTYPE (mem_of t') p = Some (zero_block tid (round8 n))"
proof -
  have wf: "thread_wf t" "heap_wf (heap t)" by (rule thread_okE(6) [OF assms(1)], rule thread_okE(8) [OF assms(1)])
  have r: "roomy (heap t)" by (rule roomy_start [OF wf(2) assms(2-5)])
  obtain t0 where t0: "thread_wf t0" "round8 n + 8 \<le> free_mem (fresh (heap t0))"
      "heap_alloc t (of_nat n) tid = (case alloc_fresh t0 (of_nat n) tid of Some r \<Rightarrow> Inr r | None \<Rightarrow> Inl (Fatal ''out of memory''))"
  proof (cases "round8 n + 8 \<le> free_mem (fresh (heap t))")
    case True
    then show ?thesis using that [of t] wf alloc_fresh_wf [OF wf(1) assms(6), of tid] by (simp add: heap_alloc_def)
  next
    case False
    from safe_fits [OF heap_gc_minor [OF wf(1) assms(2)] heap_gc_fits [OF r]] obtain t1 where
      t1: "heap_gc t = Inr t1" "thread_wf t1" by blast
    have "round8 n + 8 \<le> free_mem (fresh (heap t1))" using collect_room(1) [OF wf(1) assms(2) t1(1)] assms(7) by simp
    then show ?thesis using that [OF t1(2)] False t1(1) alloc_fresh_wf [OF wf(1) assms(6), of tid] by (simp add: heap_alloc_def)
  qed
  then have "heap_alloc t (of_nat n) tid = Inr (alloc_at t0 tid (round8 n), new_addr t0)"
    using alloc_fresh_wf [OF t0(1) assms(6), of tid] by simp
  moreover have "HTYPE (mem_of (alloc_at t0 tid (round8 n))) (new_addr t0) = Some (zero_block tid (round8 n))"
    by (simp add: alloc_at_HTYPE)
  ultimately show ?thesis by blast
qed

section \<open>Example\<close>

lemma new_object_store:
  "store (heap (new_object t tid sz pl)) x = (if x = sp_pos (fresh (heap t)) then Some ((zero_block tid sz)\<lparr>payload := pl\<rparr>)
     else store (heap t) x)"
  by (simp add: new_object_def set_object_alloc_at)

lemma new_object_spaces:
  "survived (heap (new_object t tid sz pl)) = survived (heap t)"
  "future_survived (heap (new_object t tid sz pl)) = future_survived (heap t)" "old (heap (new_object t tid sz pl)) = old (heap t)"
  "heap_mem (heap (new_object t tid sz pl)) = heap_mem (heap t)" "mem_size (heap (new_object t tid sz pl)) = mem_size (heap t)"
  "blocks (fresh (heap (new_object t tid sz pl))) = Suc (blocks (fresh (heap t)))"
  by (simp_all add: new_object_def set_object_alloc_at) (simp_all add: alloc_at_def Let_def)

text \<open>The fresh space has 24 bytes left; both its blocks survive into a space of the same size.\<close>

theorem allocation_succeeds_witness:
  "free_mem (fresh (heap full_heap)) = 24 \<and> (\<exists>t' p. heap_alloc full_heap 1000 t_string = Inr (t', p)
     \<and> HTYPE (mem_of t') p = Some (zero_block t_string 1000))"
proof -
  note h = one_handler_ok
  let ?h = "heap full_heap"
  have st: "store ?h 65536 = Some ((zero_block t_pair 24)\<lparr>payload := P_Pair handler_pair\<rparr>)"
      "store ?h 65568 = Some ((zero_block t_string 131008)\<lparr>payload :=
         P_String \<lparr>str = 0, str_size = 1, allocated = False, chars = [0]\<rparr>\<rparr>)"
    by (simp_all add: full_heap_def one_handler_def new_object_store new_object_fresh)
  have sp: "sp_mem (fresh ?h) = 65536" "blocks (fresh ?h) = 2" "sp_size (fresh ?h) = 131072" "free_mem (fresh ?h) = 24"
      "blocks (survived ?h) = 0" "free_mem (future_survived ?h) = 131072" "sp_mem (old ?h) = 0"
    by (simp_all add: full_heap_def one_handler_def new_object_spaces new_object_fresh heap_init_eq size_defs init_space_def no_space_def)
  have sn: "snug ?h"
    by (auto simp: snug_def full_heap_def one_handler_def new_object_spaces new_object_fresh new_object_store heap_init_eq
        size_defs init_space_def clear_range_def)
  have ra: "run_addrs (store ?h) 65536 2 = [65536, 65568]"
    using st by (simp add: numeral_2_eq_2 run_addrs.simps NEXT_HDR_blen blen_def BHDR_SIZE_def)
  have b: "block_bytes False (store ?h) (fresh ?h) = 131048" "block_bytes True (store ?h) (fresh ?h) = 0"
      "block_bytes g (store ?h) (survived ?h) = 0" for g
    using st by (simp_all add: block_bytes_def sp ra blen_def zero_block_def BHDR_SIZE_def)
  have "\<exists>t' p. heap_alloc full_heap (of_nat 1000) t_string = Inr (t', p)
     \<and> HTYPE (mem_of t') p = Some (zero_block t_string (round8 1000))"
    by (rule allocation_succeeds [OF full_heap_ok(1,3) sn]) (simp_all add: b sp old_room_def OLD_SIZE_def SURVIVED_SIZE_def round8_def)
  then show ?thesis by (simp add: sp round8_def)
qed

end
