(* ===== verification/Opcode_Tables.thy ===== *)
theory Opcode_Tables
  imports Interp
begin

unbundle bit_operations_syntax

text \<open>
  The tables that \<^verbatim>\<open>gen-headers.scm\<close> writes from its lists of opcodes, object types and type
  tests: the numbers and the printable names of \<^verbatim>\<open>opcodes.h\<close>, and the jump table of
  \<^verbatim>\<open>opcode_targets.h\<close> that \<^verbatim>\<open>eval_thread\<close> indexes with the opcode. They have to agree with
  each other and with the two ways in which \<^verbatim>\<open>vm.c\<close> can dispatch.
\<close>

section \<open>Names\<close>

text \<open>\<^verbatim>\<open>OP_CASE(code)\<close> returns the text of the macro's argument; the codes are the macros' values.\<close>

definition name_of :: "(int \<times> string) list \<Rightarrow> int \<Rightarrow> string" where
  "name_of cases n = (case map_of cases n of Some s \<Rightarrow> s | None \<Rightarrow> ''unknown'')"

definition opcode_name :: "int \<Rightarrow> string" where
  "opcode_name = name_of [
    (0, ''LOAD_FUNC''), (1, ''LOAD_CLOSURE''), (2, ''LOAD_LOCAL''), (3, ''LOAD_BIND''), (4, ''LOAD_CONST''),
    (5, ''PUSH_BOOL''), (6, ''PUSH_NULL''), (7, ''JUMP_IF_FALSE''), (8, ''JUMP_FORWARD''), (9, ''FUNC_CALL''),
    (10, ''SET_LOCAL''), (11, ''SET_BIND''), (12, ''OP_CONS''), (13, ''OP_CAR''), (14, ''OP_CDR''),
    (15, ''OP_SUB''), (16, ''OP_ADD''), (17, ''OP_MUL''), (18, ''OP_DIV''), (19, ''OP_MOD''),
    (20, ''OP_BIT_AND''), (21, ''OP_BIT_IOR''), (22, ''OP_BIT_XOR''), (23, ''OP_BIT_NOT''), (24, ''OP_LT''),
    (25, ''OP_GT''), (26, ''OP_EQ''), (27, ''OP_EQ_PTR''), (28, ''OP_NOT''), (29, ''OP_TYPE_TEST'')]"

definition object_type_name :: "int \<Rightarrow> string" where
  "object_type_name = name_of [
    (uint OT_FIXNUM, ''OT_FIXNUM''), (uint OT_CHARACTER, ''OT_CHARACTER''), (uint OT_STRING, ''OT_STRING''),
    (uint OT_SYMBOL, ''OT_SYMBOL''), (uint OT_STATIC, ''OT_STATIC''), (uint OT_PAIR_BEGIN, ''OT_PAIR_BEGIN''),
    (uint OT_PAIR_END, ''OT_PAIR_END''), (uint OT_STRUCT, ''OT_STRUCT''), (uint OT_BOOLEAN, ''OT_BOOLEAN''),
    (uint OT_NULL, ''OT_NULL'')]"

text \<open>The numbers of the type tests.\<close>

definition TT_FIXNUM :: int where "TT_FIXNUM = 0"
definition TT_NULL :: int where "TT_NULL = 1"
definition TT_LIST :: int where "TT_LIST = 2"
definition TT_PAIR :: int where "TT_PAIR = 3"
definition TT_PROCEDURE :: int where "TT_PROCEDURE = 4"
definition TT_BOOLEAN :: int where "TT_BOOLEAN = 5"
definition TT_CHAR :: int where "TT_CHAR = 6"
definition TT_SYMBOL :: int where "TT_SYMBOL = 7"
definition TT_STRUCT :: int where "TT_STRUCT = 8"
definition TT_STRING :: int where "TT_STRING = 9"
definition TT_BYTEVECTOR :: int where "TT_BYTEVECTOR = 10"
definition TT_EOF :: int where "TT_EOF = 11"

lemmas TT_defs = TT_FIXNUM_def TT_NULL_def TT_LIST_def TT_PAIR_def TT_PROCEDURE_def TT_BOOLEAN_def
  TT_CHAR_def TT_SYMBOL_def TT_STRUCT_def TT_STRING_def TT_BYTEVECTOR_def TT_EOF_def

definition type_test_name :: "int \<Rightarrow> string" where
  "type_test_name = name_of [
    (TT_FIXNUM, ''TT_FIXNUM''), (TT_NULL, ''TT_NULL''), (TT_LIST, ''TT_LIST''), (TT_PAIR, ''TT_PAIR''),
    (TT_PROCEDURE, ''TT_PROCEDURE''), (TT_BOOLEAN, ''TT_BOOLEAN''), (TT_CHAR, ''TT_CHAR''),
    (TT_SYMBOL, ''TT_SYMBOL''), (TT_STRUCT, ''TT_STRUCT''), (TT_STRING, ''TT_STRING''),
    (TT_BYTEVECTOR, ''TT_BYTEVECTOR''), (TT_EOF, ''TT_EOF'')]"

section \<open>Dispatch\<close>

text \<open>
  With computed gotos, \<^verbatim>\<open>NEXT\<close> jumps to the label at the index of the opcode, a signed 16-bit number; the
  table has no entry elsewhere. Without them, the \<^verbatim>\<open>switch\<close> has one case per opcode and no default: an
  unknown opcode is skipped.
\<close>

definition opcode_targets :: "opcode list" where
  "opcode_targets = [
    LOAD_FUNC, LOAD_CLOSURE, LOAD_LOCAL, LOAD_BIND, LOAD_CONST, PUSH_BOOL, PUSH_NULL, JUMP_IF_FALSE,
    JUMP_FORWARD, FUNC_CALL, SET_LOCAL, SET_BIND, OP_CONS, OP_CAR, OP_CDR, OP_SUB, OP_ADD, OP_MUL, OP_DIV,
    OP_MOD, OP_BIT_AND, OP_BIT_IOR, OP_BIT_XOR, OP_BIT_NOT, OP_LT, OP_GT, OP_EQ, OP_EQ_PTR, OP_NOT, OP_TYPE_TEST]"

definition NEXT_target :: "16 word \<Rightarrow> opcode outcome" where
  "NEXT_target w =
     (if 0 \<le> sint w \<and> nat (sint w) < length opcode_targets then Inr (opcode_targets ! nat (sint w))
      else Inl (Undefined ''opcode_targets''))"

text \<open>The name of a label, as \<^verbatim>\<open>TARGET(op)\<close> writes it.\<close>

primrec label_name :: "opcode \<Rightarrow> string" where
  "label_name LOAD_FUNC = ''LOAD_FUNC''"
| "label_name LOAD_CLOSURE = ''LOAD_CLOSURE''"
| "label_name LOAD_LOCAL = ''LOAD_LOCAL''"
| "label_name LOAD_BIND = ''LOAD_BIND''"
| "label_name LOAD_CONST = ''LOAD_CONST''"
| "label_name PUSH_BOOL = ''PUSH_BOOL''"
| "label_name PUSH_NULL = ''PUSH_NULL''"
| "label_name JUMP_IF_FALSE = ''JUMP_IF_FALSE''"
| "label_name JUMP_FORWARD = ''JUMP_FORWARD''"
| "label_name FUNC_CALL = ''FUNC_CALL''"
| "label_name SET_LOCAL = ''SET_LOCAL''"
| "label_name SET_BIND = ''SET_BIND''"
| "label_name OP_CONS = ''OP_CONS''"
| "label_name OP_CAR = ''OP_CAR''"
| "label_name OP_CDR = ''OP_CDR''"
| "label_name OP_SUB = ''OP_SUB''"
| "label_name OP_ADD = ''OP_ADD''"
| "label_name OP_MUL = ''OP_MUL''"
| "label_name OP_DIV = ''OP_DIV''"
| "label_name OP_MOD = ''OP_MOD''"
| "label_name OP_BIT_AND = ''OP_BIT_AND''"
| "label_name OP_BIT_IOR = ''OP_BIT_IOR''"
| "label_name OP_BIT_XOR = ''OP_BIT_XOR''"
| "label_name OP_BIT_NOT = ''OP_BIT_NOT''"
| "label_name OP_LT = ''OP_LT''"
| "label_name OP_GT = ''OP_GT''"
| "label_name OP_EQ = ''OP_EQ''"
| "label_name OP_EQ_PTR = ''OP_EQ_PTR''"
| "label_name OP_NOT = ''OP_NOT''"
| "label_name OP_TYPE_TEST = ''OP_TYPE_TEST''"

section \<open>Agreement\<close>

lemma opcode_word:
  fixes w :: "16 word"
  shows "unat w < 30 \<Longrightarrow> sint w = int (unat w)" and "30 \<le> unat w \<Longrightarrow> sint w < 0 \<or> 30 \<le> sint w"
proof -
  have s: "sint w = (uint w + 2 ^ 15) mod 2 ^ 16 - 2 ^ 15"
    by (simp add: sint_uint signed_take_bit_eq_take_bit_shift take_bit_eq_mod)
  have u: "uint w = int (unat w)" by simp
  have l: "uint w < 2 ^ 16" using uint_lt2p [of w] by simp
  have "sint w = (if uint w < 2 ^ 15 then uint w else uint w - 2 ^ 16)"
  proof (cases "uint w < 2 ^ 15")
    case True
    then have "(uint w + 2 ^ 15) mod 2 ^ 16 = uint w + 2 ^ 15" by (intro mod_pos_pos_trivial) simp_all
    then show ?thesis using True s by simp
  next
    case False
    have "(uint w + 2 ^ 15) mod 2 ^ 16 = ((uint w - 2 ^ 15) + 2 ^ 16) mod 2 ^ 16" by (simp add: add.commute)
    also have "\<dots> = (uint w - 2 ^ 15) mod 2 ^ 16" by (rule mod_add_self2)
    also have "\<dots> = uint w - 2 ^ 15" using False l by (intro mod_pos_pos_trivial) simp_all
    finally show ?thesis using False s by simp
  qed
  moreover obtain j k where jk: "uint w = j" "unat w = k" by blast
  ultimately have "sint w = (if j < 2 ^ 15 then j else j - 2 ^ 16)" "j = int k" "j < 2 ^ 16"
    using u l unfolding jk by simp_all
  then show "unat w < 30 \<Longrightarrow> sint w = int (unat w)" "30 \<le> unat w \<Longrightarrow> sint w < 0 \<or> 30 \<le> sint w"
    unfolding jk by auto
qed

lemma type_tests_not_fatal:
  "IS_PAIR mm x \<noteq> Inl (Fatal m)" "IS_FUNC mm x \<noteq> Inl (Fatal m)" "IS_LIST mm x \<noteq> Inl (Fatal m)" "IS_SYMBOL mm x \<noteq> Inl (Fatal m)"
  "IS_STRUCT mm x \<noteq> Inl (Fatal m)" "IS_STRING mm x \<noteq> Inl (Fatal m)" "IS_BYTEVECTOR mm x \<noteq> Inl (Fatal m)"
proof -
  have b: "a \<noteq> Inl (Fatal m) \<Longrightarrow> (\<And>y. f y \<noteq> Inl (Fatal m)) \<Longrightarrow> bindE a f \<noteq> Inl (Fatal m)" for a :: "'a outcome" and f :: "'a \<Rightarrow> 'b outcome"
    by (cases a) auto
  have t: "IS_TYPE mm x k \<noteq> Inl (Fatal m)" for k
    unfolding IS_TYPE_def by (auto intro!: b simp: deref_def split: option.splits)
  then show "IS_PAIR mm x \<noteq> Inl (Fatal m)" "IS_SYMBOL mm x \<noteq> Inl (Fatal m)"
    "IS_STRUCT mm x \<noteq> Inl (Fatal m)" "IS_STRING mm x \<noteq> Inl (Fatal m)" "IS_BYTEVECTOR mm x \<noteq> Inl (Fatal m)"
    by (simp_all add: IS_PAIR_def IS_SYMBOL_def IS_STRUCT_def IS_STRING_def IS_BYTEVECTOR_def)
  show "IS_FUNC mm x \<noteq> Inl (Fatal m)" unfolding IS_FUNC_def using t by (cases "IS_TYPE mm x t_closure") auto
  show "IS_LIST mm x \<noteq> Inl (Fatal m)"
    using t [of t_pair] unfolding IS_LIST_def IS_PAIR_def pair_at_def
    by (cases "IS_TYPE mm x t_pair"; cases "HTYPE mm (PTR x)") (auto simp: deref_def split: option.splits)
qed

lemma name_of_other: "n \<notin> fst ` set cases \<Longrightarrow> name_of cases n = ''unknown''"
  using map_of_eq_None_iff [of cases n] by (simp add: name_of_def)

lemma targets: "opcode_targets = opcode_list" "length opcode_list = 30"
  by (simp_all add: opcode_targets_def opcode_list_def)

lemma opcode_names:
  "opcode_name n = (if 0 \<le> n \<and> n < 30 then label_name (opcode_list ! nat n) else ''unknown'')"
proof (cases "0 \<le> n \<and> n < 30")
  case True
  have "\<forall>k \<in> {0..<30::nat}. opcode_name (int k) = label_name (opcode_list ! k)"
    by (simp add: opcode_name_def name_of_def opcode_list_def atLeastLessThan_nat_numeral)
  moreover have "nat n \<in> {0..<30}" using True by auto
  ultimately have "opcode_name (int (nat n)) = label_name (opcode_list ! nat n)" by blast
  then show ?thesis using True by simp
next
  case False
  then show ?thesis unfolding opcode_name_def by (subst name_of_other) auto
qed

text \<open>A fact about the twelve type tests, checked one by one.\<close>

lemma type_test_cases:
  assumes "list_all (\<lambda>k. P (int k)) [0..<12]" and "0 \<le> n" and "n < 12" shows "P n"
proof -
  have "nat n \<in> set [0..<12]" using assms(2,3) by auto
  then have "P (int (nat n))" using assms(1) unfolding list_all_iff by blast
  then show ?thesis using assms(2) by simp
qed

lemma type_test_names: "type_test_name n = ''unknown'' \<longleftrightarrow> n < 0 \<or> 12 \<le> n"
proof (cases "0 \<le> n \<and> n < 12")
  case True
  have "type_test_name n \<noteq> ''unknown''"
    by (rule type_test_cases) (use True in \<open>simp_all add: type_test_name_def name_of_def TT_defs upt_rec\<close>)
  then show ?thesis using True by simp
next
  case False
  then show ?thesis unfolding type_test_name_def TT_defs by (subst name_of_other) auto
qed

lemma type_test_fatal: "type_test m n x = Inl (Fatal ''invalid test'') \<longleftrightarrow> n < 0 \<or> 12 \<le> n"
proof (cases "0 \<le> n \<and> n < 12")
  case True
  have "type_test m n x \<noteq> Inl (Fatal ''invalid test'')"
    by (rule type_test_cases) (use True in \<open>simp_all add: type_test_def type_tests_not_fatal upt_rec\<close>)
  then show ?thesis using True by simp
next
  case False
  then show ?thesis by (auto simp: type_test_def)
qed

text \<open>
  C24: The generated tables agree. For every 16-bit word, the jump table reaches the same target as the case of the
  switch with that number, and none outside the thirty opcodes, where the jump reads past the table; the printable
  name is that of the target's label, or "unknown"; and the interpreter knows exactly the type tests that
  \<^verbatim>\<open>type_test_name\<close> names.
\<close>

theorem generated_tables_agree:
  "NEXT_target w = (case decode_op w of Some op \<Rightarrow> Inr op | None \<Rightarrow> Inl (Undefined ''opcode_targets''))
   \<and> opcode_name (sint w) = (case decode_op w of Some op \<Rightarrow> label_name op | None \<Rightarrow> ''unknown'')
   \<and> (type_test m n x = Inl (Fatal ''invalid test'') \<longleftrightarrow> type_test_name n = ''unknown'')"
proof (intro conjI)
  obtain k where k: "unat w = k" by blast
  note w = opcode_word [of w, unfolded k]
  show "NEXT_target w = (case decode_op w of Some op \<Rightarrow> Inr op | None \<Rightarrow> Inl (Undefined ''opcode_targets''))"
    using w by (cases "k < 30") (auto simp: k NEXT_target_def decode_op_def targets)
  show "opcode_name (sint w) = (case decode_op w of Some op \<Rightarrow> label_name op | None \<Rightarrow> ''unknown'')"
    using w by (cases "k < 30") (auto simp: k opcode_names decode_op_def targets)
  show "type_test m n x = Inl (Fatal ''invalid test'') \<longleftrightarrow> type_test_name n = ''unknown''"
    by (simp add: type_test_names type_test_fatal)
qed

end
