(* ===== verification/Debug_Symbols.thy ===== *)
theory Debug_Symbols
  imports Loader_Bytes
begin

unbundle bit_operations_syntax

text \<open>
  Debug symbols: the file that the assembler writes beside a module (\<^verbatim>\<open>write-dbg\<close> in
  \<^verbatim>\<open>fasl.scm\<close>) and the second half of \<^verbatim>\<open>module_load\<close> (\<^verbatim>\<open>module.c\<close>), which reads it into a
  table with one string per instruction.
\<close>

section \<open>Writing\<close>

text \<open>\<^verbatim>\<open>make-dbg-sym\<close>: the symbol of an instruction that has one, null-terminated.\<close>

definition make_dbg_sym :: "cstring option \<Rightarrow> u8 list" where
  "make_dbg_sym s = (case s of None \<Rightarrow> [0] | Some s \<Rightarrow> s @ [0])"

definition write_dbg :: "cstring option list \<Rightarrow> u8 list" where
  "write_dbg syms =
     (let dbg = map make_dbg_sym syms
      in number_u16 (sum_list (map length dbg)) @ concat dbg)"

text \<open>The whole file: the functions in the order of the module.\<close>

definition write_dbg_file :: "cstring option list list \<Rightarrow> u8 list" where
  "write_dbg_file funcs = concat (map write_dbg funcs)"

section \<open>Reading\<close>

text \<open>
  \<^verbatim>\<open>read(fd, ...)\<close> takes what is left of the file, up to the size asked for; its result is not looked at.
  A short read of \<^verbatim>\<open>dsize\<close> leaves its other bytes as they were, a short read of the buffer leaves the
  rest of it uninitialised.
\<close>

definition fd_read :: "u8 list \<Rightarrow> nat \<Rightarrow> u8 list \<times> u8 list" where
  "fd_read fd n = (take n fd, drop n fd)"

definition into_u16 :: "u16 \<Rightarrow> u8 list \<Rightarrow> u16" where
  "into_u16 d0 bs = of_nat (le_nat (bs @ drop (length bs) [ucast d0, ucast (drop_bit 8 d0)]))"

record dbg_t =
  dbg_symbols :: "u8 list"
  dbg_table :: "nat option list"

text \<open>One entry: searching past the bytes that were read looks at uninitialised memory.\<close>

definition next_symbol :: "bool \<Rightarrow> string_iter_t \<Rightarrow> (string_iter_t \<times> nat option) outcome" where
  "next_symbol short itr =
     (case string_iter_next itr of (itr1, res) \<Rightarrow>
        if res = None \<and> short then Inl (Undefined ''uninitialised symbols'') else Inr (itr1, res))"

primrec fill_table :: "nat \<Rightarrow> bool \<Rightarrow> string_iter_t \<Rightarrow> nat option list outcome" where
  "fill_table 0 short itr = Inr []"
| "fill_table (Suc n) short itr =
     bindE (next_symbol short itr) (\<lambda>(itr1, res).
     bindE (fill_table n short itr1) (\<lambda>rs. Inr (res # rs)))"

definition load_dbg_func :: "nat \<Rightarrow> u16 \<Rightarrow> u8 list \<Rightarrow> (u16 \<times> u8 list \<times> dbg_t) outcome" where
  "load_dbg_func op_cnt dsize0 fd =
     (let (bs, fd1) = fd_read fd 2;
          dsize = into_u16 dsize0 bs;
          (buf, fd2) = fd_read fd1 (unat dsize)
      in bindE (fill_table op_cnt (length buf < unat dsize) (string_iter_init buf)) (\<lambda>tbl.
           Inr (dsize, fd2, \<lparr>dbg_symbols = buf, dbg_table = tbl\<rparr>)))"

primrec load_dbg_funcs :: "nat list \<Rightarrow> u16 \<Rightarrow> u8 list \<Rightarrow> dbg_t list outcome" where
  "load_dbg_funcs [] dsize fd = Inr []"
| "load_dbg_funcs (n # ns) dsize fd =
     bindE (load_dbg_func n dsize fd) (\<lambda>(dsize1, fd1, d).
     bindE (load_dbg_funcs ns dsize1 fd1) (\<lambda>ds. Inr (d # ds)))"

text \<open>The symbols of a module, by the number of operations of its functions.\<close>

definition load_dbg :: "module_t \<Rightarrow> u8 list \<Rightarrow> dbg_t list outcome" where
  "load_dbg m fd = load_dbg_funcs (map op_count (take (fun_count m) (mod_functions m))) 0 fd"

section \<open>Round trip\<close>

lemma iter_skip_string:
  assumes "buf = pre @ s @ 0 # post" and "0 \<notin> set s"
  shows "iter_skip buf (length pre) (length buf) = (length pre + length s + 1, True)"
  using assms
proof (induction s arbitrary: pre)
  case Nil
  then show ?case by (subst iter_skip.simps) simp
next
  case (Cons b s)
  have "iter_skip buf (length (pre @ [b])) (length buf) = (length (pre @ [b]) + length s + 1, True)"
    by (rule Cons.IH) (use Cons.prems in auto)
  then show ?case using Cons.prems by (subst iter_skip.simps) (auto simp: nth_append)
qed

definition clean_sym :: "cstring option \<Rightarrow> bool" where
  "clean_sym s \<longleftrightarrow> (\<forall>t. s = Some t \<longrightarrow> 0 \<notin> set t)"

definition sym_text :: "cstring option \<Rightarrow> cstring" where "sym_text s = (case s of None \<Rightarrow> [] | Some t \<Rightarrow> t)"

lemma make_dbg_sym_text: "make_dbg_sym s = sym_text s @ [0]"
  by (cases s) (simp_all add: make_dbg_sym_def sym_text_def)

lemma clean_text: "clean_sym s \<Longrightarrow> 0 \<notin> set (sym_text s)"
  by (cases s) (simp_all add: clean_sym_def sym_text_def)

text \<open>Where the strings of a buffer start.\<close>

fun starts :: "nat \<Rightarrow> cstring option list \<Rightarrow> nat option list" where
  "starts i [] = []"
| "starts i (s # ss) = Some i # starts (i + length (make_dbg_sym s)) ss"

lemma fill_table_strings:
  assumes "buf = pre @ concat (map make_dbg_sym ss)" and "\<forall>s \<in> set ss. clean_sym s"
  shows "fill_table (length ss) short \<lparr>it_buf = buf, it_cur = length pre, it_end = length buf\<rparr> = Inr (starts (length pre) ss)"
  using assms
proof (induction ss arbitrary: pre)
  case (Cons s ss)
  have buf: "buf = pre @ sym_text s @ 0 # concat (map make_dbg_sym ss)" using Cons.prems(1) by (simp add: make_dbg_sym_text [of s])
  have "0 \<notin> set (sym_text s)" using Cons.prems(2) by (simp add: clean_text)
  from iter_skip_string [OF buf this] have
    nx: "next_symbol short \<lparr>it_buf = buf, it_cur = length pre, it_end = length buf\<rparr> =
      Inr (\<lparr>it_buf = buf, it_cur = length (pre @ make_dbg_sym s), it_end = length buf\<rparr>, Some (length pre))"
    by (simp add: next_symbol_def string_iter_next_def make_dbg_sym_text [of s])
  have "fill_table (length ss) short \<lparr>it_buf = buf, it_cur = length (pre @ make_dbg_sym s), it_end = length buf\<rparr> =
      Inr (starts (length (pre @ make_dbg_sym s)) ss)"
    by (rule Cons.IH) (use Cons.prems in simp_all)
  then show ?case using nx by simp
qed simp

lemma starts_strings:
  assumes "j < length ss" and "\<forall>s \<in> set ss. clean_sym s"
  shows "\<exists>k. starts (length pre) ss ! j = Some k \<and> cstring_of (drop k (pre @ concat (map make_dbg_sym ss) @ post)) = Inr (sym_text (ss ! j))"
  using assms
proof (induction ss arbitrary: j pre)
  case (Cons s ss)
  show ?case
  proof (cases j)
    case 0
    have "0 \<notin> set t \<Longrightarrow> cstring_of (t @ 0 # r) = Inr t" for t r by (induction t) auto
    then show ?thesis using 0 Cons.prems clean_text [of s] by (simp add: make_dbg_sym_text)
  next
    case (Suc i)
    from Cons.IH [of i "pre @ make_dbg_sym s"] Suc Cons.prems show ?thesis by simp
  qed
qed simp

lemma length_starts [simp]: "length (starts i ss) = length ss"
  by (induction ss arbitrary: i) auto

lemma sum_length: "sum_list (map length xss) = length (concat xss)"
  by (simp add: length_concat)

definition dbg_fits :: "cstring option list \<Rightarrow> bool" where
  "dbg_fits ss \<longleftrightarrow> (\<forall>s \<in> set ss. clean_sym s) \<and> length (concat (map make_dbg_sym ss)) < 2 ^ 16"

lemma into_u16_number:
  assumes "n < 2 ^ 16" shows "into_u16 d0 (number_u16 n) = of_nat n" and "length (number_u16 n) = 2"
proof -
  show l: "length (number_u16 n) = 2" by (simp add: number_u16_def numeral_2_eq_2)
  have "le_nat (number_u16 n) = n" unfolding number_u16_def le_nat_le_bytes using assms by simp
  then show "into_u16 d0 (number_u16 n) = of_nat n" by (simp add: into_u16_def l)
qed

lemma load_dbg_func_strings:
  assumes "dbg_fits ss"
  shows "load_dbg_func (length ss) d0 (write_dbg ss @ rest) =
    Inr (of_nat (length (concat (map make_dbg_sym ss))), rest,
      \<lparr>dbg_symbols = concat (map make_dbg_sym ss), dbg_table = starts 0 ss\<rparr>)"
proof -
  let ?b = "concat (map make_dbg_sym ss)"
  from assms have n: "length ?b < 2 ^ 16" "\<forall>s \<in> set ss. clean_sym s" by (simp_all add: dbg_fits_def)
  have w: "write_dbg ss = number_u16 (length ?b) @ ?b" by (simp add: write_dbg_def sum_length Let_def comp_def del: length_concat)
  have "unat (of_nat (length ?b) :: u16) = length ?b" using n(1) by (simp add: unat_of_nat)
  moreover have "fill_table (length ss) False (string_iter_init ?b) = Inr (starts 0 ss)"
    using fill_table_strings [of ?b "[]" ss False] n(2) by (simp add: string_iter_init_def)
  ultimately show ?thesis
    using into_u16_number [OF n(1)] by (simp add: load_dbg_func_def w fd_read_def)
qed

text \<open>
  C23: Loading debug symbols inverts writing them. For a module whose functions have as many operations as
  symbols were written for them, \<^verbatim>\<open>module_load\<close> gives every operation an entry of its function's table that
  points to its symbol, or to the empty string if it has none: provided that no symbol contains a null character and
  that the symbols of each function take less than 64 KiB, the range of the size field.
\<close>

theorem debug_symbols_roundtrip:
  assumes "\<forall>ss \<in> set syms. dbg_fits ss" and "map op_count (take (fun_count m) (mod_functions m)) = map length syms"
  shows "\<exists>ds. load_dbg m (write_dbg_file syms) = Inr ds \<and> length ds = length syms
    \<and> (\<forall>i < length syms. \<forall>j < length (syms ! i). \<exists>k. dbg_table (ds ! i) ! j = Some k
        \<and> cstring_of (drop k (dbg_symbols (ds ! i))) = Inr (sym_text (syms ! i ! j)))"
proof -
  let ?d = "\<lambda>ss. \<lparr>dbg_symbols = concat (map make_dbg_sym ss), dbg_table = starts 0 ss\<rparr>"
  have "load_dbg_funcs (map length syms) d0 (write_dbg_file syms) = Inr (map ?d syms)" for d0
    using assms(1)
  proof (induction syms arbitrary: d0)
    case (Cons ss syms)
    then show ?case using load_dbg_func_strings [of ss] by (simp add: write_dbg_file_def)
  qed (simp add: write_dbg_file_def)
  then have "load_dbg m (write_dbg_file syms) = Inr (map ?d syms)" by (simp add: load_dbg_def assms(2))
  moreover have "\<exists>k. dbg_table (map ?d syms ! i) ! j = Some k
      \<and> cstring_of (drop k (dbg_symbols (map ?d syms ! i))) = Inr (sym_text (syms ! i ! j))"
    if "i < length syms" "j < length (syms ! i)" for i j
  proof -
    have "\<forall>s \<in> set (syms ! i). clean_sym s" using assms(1) nth_mem [OF that(1)] by (simp add: dbg_fits_def)
    from starts_strings [OF that(2) this, of "[]" "[]"] show ?thesis using that(1) by simp
  qed
  ultimately show ?thesis by auto
qed

text \<open>A module of one function with two instructions, the first of them with the symbol "f".\<close>

theorem debug_symbols_roundtrip_witness:
  "\<exists>d. load_dbg \<lparr>mod_functions = [\<lparr>f_argc = 1, f_swallow = False, env_sz = 1, op_count = 2, f_heap_env = 0, f_depth = 0,
       bcount = 0, bmcount = 0, f_opcode = [], f_bindings = [], f_bindmap = [], f_module = 1\<rparr>],
       func_base = 64, entry_point = 0, fun_count = 1, mod_consts = []\<rparr> (write_dbg_file [[Some [102], None]]) = Inr [d]
     \<and> (\<exists>k. dbg_table d ! 0 = Some k \<and> cstring_of (drop k (dbg_symbols d)) = Inr [102])"
proof -
  let ?m = "\<lparr>mod_functions = [\<lparr>f_argc = 1, f_swallow = False, env_sz = 1, op_count = 2, f_heap_env = 0, f_depth = 0,
       bcount = 0, bmcount = 0, f_opcode = [], f_bindings = [], f_bindmap = [], f_module = 1\<rparr>],
       func_base = 64, entry_point = 0, fun_count = 1, mod_consts = []\<rparr>"
  have "\<forall>ss \<in> set [[Some [102], None]]. dbg_fits ss" by (simp add: dbg_fits_def clean_sym_def make_dbg_sym_def)
  moreover have "map op_count (take (fun_count ?m) (mod_functions ?m)) = map length [[Some [102 :: u8], None]]" by simp
  ultimately obtain ds where ds: "load_dbg ?m (write_dbg_file [[Some [102], None]]) = Inr ds" "length ds = 1"
      "\<exists>k. dbg_table (ds ! 0) ! 0 = Some k \<and> cstring_of (drop k (dbg_symbols (ds ! 0))) = Inr [102]"
    using debug_symbols_roundtrip [of "[[Some [102], None]]" ?m] by (force simp: sym_text_def)
  then obtain d where "ds = [d]" by (auto simp: length_Suc_conv)
  then show ?thesis using ds by auto
qed

end
