(* ===== verification/Lifecycle.thy ===== *)
theory Lifecycle
  imports Debug_Symbols "HOL-Library.Multiset"
begin

unbundle bit_operations_syntax

text \<open>
  Who owns which memory, from \<^verbatim>\<open>vm_init\<close> to \<^verbatim>\<open>vm_cleanup\<close>: a ledger of the chunks that
  \<^verbatim>\<open>malloc\<close> has handed out, of the file mappings and of the open descriptors, and the operations that take
  from it and give back to it. Freeing a pointer that is not in the ledger is undefined; freeing the null pointer does
  nothing. The contents of the chunks are the business of the other theories.
\<close>

section \<open>The ledger\<close>

record ledger =
  led_chunks :: "addr multiset"
  led_top :: addr
  led_maps :: "(addr \<times> nat) multiset"
  led_fds :: "int multiset"

text \<open>\<^verbatim>\<open>mem_alloc\<close>, \<^verbatim>\<open>mem_calloc\<close>, \<^verbatim>\<open>new0\<close>: a chunk of its own even for size zero.\<close>

definition take_chunk :: "nat \<Rightarrow> ledger \<Rightarrow> ledger \<times> addr" where
  "take_chunk n l =
     (let p = (led_top l + 15) div 16 * 16
      in (l\<lparr>led_chunks := add_mset p (led_chunks l), led_top := p + max 1 n\<rparr>, p))"

definition mem_free :: "addr \<Rightarrow> ledger \<Rightarrow> ledger outcome" where
  "mem_free p l =
     (if p = 0 then Inr l
      else if p \<in># led_chunks l then Inr (l\<lparr>led_chunks := led_chunks l - {#p#}\<rparr>)
      else Inl (Undefined ''free''))"

primrec free_each :: "addr list \<Rightarrow> ledger \<Rightarrow> ledger outcome" where
  "free_each [] l = Inr l"
| "free_each (p # ps) l = bindE (mem_free p l) (free_each ps)"

text \<open>\<open>n\<close> chunks of the given sizes, in the order taken.\<close>

primrec take_each :: "nat list \<Rightarrow> ledger \<Rightarrow> ledger \<times> addr list" where
  "take_each [] l = (l, [])"
| "take_each (n # ns) l = (let (l1, p) = take_chunk n l; (l2, ps) = take_each ns l1 in (l2, p # ps))"

section \<open>Modules\<close>

record map_t =
  map_addr :: addr
  map_size :: nat
  map_fd :: int

text \<open>\<^verbatim>\<open>mapfile\<close>: the file as the system gives it, or nothing.\<close>

definition mapfile :: "map_t option \<Rightarrow> ledger \<Rightarrow> (ledger \<times> map_t) option" where
  "mapfile file l =
     (case file of None \<Rightarrow> None
      | Some m \<Rightarrow> Some (l\<lparr>led_maps := led_maps l + {#(map_addr m, map_size m)#}, led_fds := led_fds l + {#map_fd m#}\<rparr>, m))"

definition unmapfile :: "map_t \<Rightarrow> ledger \<Rightarrow> ledger" where
  "unmapfile m l = l\<lparr>led_maps := led_maps l - {#(map_addr m, map_size m)#}, led_fds := led_fds l - {#map_fd m#}\<rparr>"

text \<open>The pointers of \<^verbatim>\<open>func_t\<close> and \<^verbatim>\<open>module_t\<close> to memory of their own.\<close>

record func_mem =
  fm_bindings :: addr
  fm_bindmap :: addr
  fm_dbg_symbols :: addr
  fm_dbg_table :: addr

record module_mem =
  mm_self :: addr
  mm_map :: map_t
  mm_functions :: addr
  mm_consts :: addr
  mm_allocator :: "addr list"
  mm_funcs :: "func_mem list"

definition sizeof_module :: nat where "sizeof_module = 72"

text \<open>What \<^verbatim>\<open>module_parse\<close> takes for a function.\<close>

definition take_func :: "func_t \<Rightarrow> ledger \<Rightarrow> ledger \<times> func_mem" where
  "take_func f l =
     (if bcount f \<noteq> 0 then
        let (l1, b) = take_chunk (bcount f * 8) l;
            (l2, m) = take_chunk (bmcount f * 2 * 4) l1
        in (l2, \<lparr>fm_bindings = b, fm_bindmap = m, fm_dbg_symbols = 0, fm_dbg_table = 0\<rparr>)
      else (l, \<lparr>fm_bindings = 0, fm_bindmap = 0, fm_dbg_symbols = 0, fm_dbg_table = 0\<rparr>))"

primrec take_funcs :: "func_t list \<Rightarrow> ledger \<Rightarrow> ledger \<times> func_mem list" where
  "take_funcs [] l = (l, [])"
| "take_funcs (f # fs) l = (let (l1, fm) = take_func f l; (l2, fms) = take_funcs fs l1 in (l2, fm # fms))"

text \<open>What \<^verbatim>\<open>module_load\<close> takes for the debug symbols, when there are any: the buffer and the table.\<close>

primrec take_dbg :: "dbg_t list \<Rightarrow> func_mem list \<Rightarrow> ledger \<Rightarrow> ledger \<times> func_mem list" where
  "take_dbg [] fms l = (l, fms)"
| "take_dbg (d # ds) fms l =
     (case fms of [] \<Rightarrow> (l, [])
      | fm # fms1 \<Rightarrow>
          let (l1, b) = take_chunk (length (dbg_symbols d)) l;
              (l2, t) = take_chunk (length (dbg_table d) * 8) l1;
              (l3, fms2) = take_dbg ds fms1 l2
          in (l3, fm\<lparr>fm_dbg_symbols := b, fm_dbg_table := t\<rparr> # fms2))"

text \<open>
  \<^verbatim>\<open>module_load\<close>, for a file that parses to the module \<open>m\<close> with constants of the sizes \<open>cs\<close> and
  has the debug symbols \<open>ds\<close>. The constant allocator puts each chunk in front of its list. The descriptor of
  the debug file is closed again at once.
\<close>

definition take_module :: "map_t option \<Rightarrow> module_t \<Rightarrow> nat list \<Rightarrow> dbg_t list \<Rightarrow> ledger \<Rightarrow> (ledger \<times> module_mem) outcome" where
  "take_module file m cs ds l =
     (let (l1, self) = take_chunk sizeof_module l
      in case mapfile file l1 of
           None \<Rightarrow> Inl (Fatal ''Failed to read module'')
         | Some (l2, mp) \<Rightarrow>
             let (l3, fp) = take_chunk (fun_count m * sizeof_func) l2;
                 (l4, cp) = take_chunk (length (mod_consts m) * sizeof_obj) l3;
                 (l5, chs) = take_each (map (\<lambda>n. sizeof_linked_mem + n) cs) l4;
                 (l6, fms) = take_funcs (mod_functions m) l5;
                 (l7, fms1) = take_dbg ds fms l6
             in Inr (l7, \<lparr>mm_self = self, mm_map = mp, mm_functions = fp, mm_consts = cp, mm_allocator = rev chs, mm_funcs = fms1\<rparr>))"

text \<open>\<^verbatim>\<open>module_free\<close>.\<close>

definition free_func :: "func_mem \<Rightarrow> ledger \<Rightarrow> ledger outcome" where
  "free_func fm l =
     bindE (if fm_bindings fm \<noteq> 0 then mem_free (fm_bindings fm) l else Inr l) (\<lambda>l1.
     bindE (if fm_bindmap fm \<noteq> 0 then mem_free (fm_bindmap fm) l1 else Inr l1) (\<lambda>l2.
       if fm_dbg_symbols fm \<noteq> 0
       then bindE (mem_free (fm_dbg_symbols fm) l2) (mem_free (fm_dbg_table fm))
       else Inr l2))"

primrec free_funcs :: "func_mem list \<Rightarrow> ledger \<Rightarrow> ledger outcome" where
  "free_funcs [] l = Inr l"
| "free_funcs (fm # fms) l = bindE (free_func fm l) (free_funcs fms)"

definition module_free :: "module_mem \<Rightarrow> ledger \<Rightarrow> ledger outcome" where
  "module_free mm l =
     bindE (free_funcs (mm_funcs mm) l) (\<lambda>l1.
     bindE (mem_free (mm_functions mm) l1) (\<lambda>l2.
     bindE (mem_free (mm_consts mm) l2) (\<lambda>l3.
     bindE (free_each (mm_allocator mm) l3) (\<lambda>l4.
       mem_free (mm_self mm) (unmapfile (mm_map mm) l4)))))"

section \<open>Ownership\<close>

text \<open>
  What an operation gives back: chunks, mappings and descriptors. It frees them from any ledger that has the
  chunks.
\<close>

definition frees :: "(ledger \<Rightarrow> ledger outcome) \<Rightarrow> addr multiset \<Rightarrow> (addr \<times> nat) multiset \<Rightarrow> int multiset \<Rightarrow> bool" where
  "frees f M A D \<longleftrightarrow> (\<forall>l. M \<subseteq># led_chunks l \<longrightarrow>
     f l = Inr (l\<lparr>led_chunks := led_chunks l - M, led_maps := led_maps l - A, led_fds := led_fds l - D\<rparr>))"

definition chunk_of :: "addr \<Rightarrow> addr multiset" where "chunk_of p = (if p = 0 then {#} else {#p#})"

definition chunks_of :: "addr list \<Rightarrow> addr multiset" where "chunks_of ps = sum_list (map chunk_of ps)"

lemma chunks_of_simps [simp]: "chunks_of [] = {#}" "chunks_of (p # ps) = chunk_of p + chunks_of ps"
  "chunks_of (ps @ qs) = chunks_of ps + chunks_of qs" "chunks_of (rev ps) = chunks_of ps"
proof -
  show "chunks_of (rev ps) = chunks_of ps" by (induction ps) (simp_all add: chunks_of_def add.commute)
qed (simp_all add: chunks_of_def)

lemma frees_mem_free: "frees (mem_free p) (chunk_of p) {#} {#}"
  by (auto simp: frees_def mem_free_def chunk_of_def split: if_splits)

lemma frees_nothing: "frees Inr {#} {#} {#}"
  by (simp add: frees_def)

lemma frees_then:
  assumes f: "frees f M A D" and g: "frees g N B E" shows "frees (\<lambda>l. bindE (f l) g) (M + N) (A + B) (D + E)"
  unfolding frees_def
proof (intro allI impI)
  fix l :: ledger assume "M + N \<subseteq># led_chunks l"
  then obtain R where "led_chunks l = M + N + R" by (auto simp: mset_subset_eq_exists_conv)
  then have "M \<subseteq># led_chunks l" "N \<subseteq># led_chunks l - M" by (simp_all add: add.assoc)
  then show "bindE (f l) g = Inr (l\<lparr>led_chunks := led_chunks l - (M + N), led_maps := led_maps l - (A + B),
      led_fds := led_fds l - (D + E)\<rparr>)"
    using f g by (simp add: frees_def)
qed

text \<open>The same, when the mappings and descriptors come from one side only.\<close>

lemma frees_seq: "frees f M {#} {#} \<Longrightarrow> frees g N A D \<Longrightarrow> frees (\<lambda>l. bindE (f l) g) (M + N) A D"
  using frees_then [of f M "{#}" "{#}" g N A D] by simp

lemma frees_each: "frees (free_each ps) (chunks_of ps) {#} {#}"
proof (induction ps)
  case Nil
  then show ?case using frees_nothing by simp
next
  case (Cons p ps)
  from frees_seq [OF frees_mem_free this] show ?case by simp
qed

text \<open>What a module owns.\<close>

definition func_chunks :: "func_mem \<Rightarrow> addr multiset" where
  "func_chunks fm = chunk_of (fm_bindings fm) + chunk_of (fm_bindmap fm)
     + (if fm_dbg_symbols fm = 0 then {#} else chunk_of (fm_dbg_symbols fm) + chunk_of (fm_dbg_table fm))"

definition module_chunks :: "module_mem \<Rightarrow> addr multiset" where
  "module_chunks mm = sum_list (map func_chunks (mm_funcs mm)) + chunk_of (mm_functions mm) + chunk_of (mm_consts mm)
     + chunks_of (mm_allocator mm) + chunk_of (mm_self mm)"

abbreviation module_maps :: "module_mem \<Rightarrow> (addr \<times> nat) multiset" where
  "module_maps mm \<equiv> {#(map_addr (mm_map mm), map_size (mm_map mm))#}"

abbreviation module_fds :: "module_mem \<Rightarrow> int multiset" where
  "module_fds mm \<equiv> {#map_fd (mm_map mm)#}"

lemma frees_guarded: "frees (\<lambda>l. if p \<noteq> 0 then mem_free p l else Inr l) (chunk_of p) {#} {#}"
  using frees_mem_free [of p] by (cases "p = 0") (simp_all add: frees_def chunk_of_def)

lemma frees_func: "frees (free_func fm) (func_chunks fm) {#} {#}"
proof -
  have "frees (\<lambda>l2. if fm_dbg_symbols fm \<noteq> 0 then bindE (mem_free (fm_dbg_symbols fm) l2) (mem_free (fm_dbg_table fm)) else Inr l2)
      (if fm_dbg_symbols fm = 0 then {#} else chunk_of (fm_dbg_symbols fm) + chunk_of (fm_dbg_table fm)) {#} {#}"
    using frees_seq [OF frees_mem_free frees_mem_free] frees_nothing by simp
  from frees_seq [OF frees_guarded frees_seq [OF frees_guarded this]] show ?thesis
    by (simp add: free_func_def [abs_def] func_chunks_def add.assoc)
qed

lemma frees_funcs: "frees (free_funcs fms) (sum_list (map func_chunks fms)) {#} {#}"
proof (induction fms)
  case Nil
  then show ?case using frees_nothing by simp
next
  case (Cons fm fms)
  from frees_seq [OF frees_func this] show ?case by simp
qed

lemma frees_unmap: "frees (\<lambda>l. Inr (unmapfile m l)) {#} {#(map_addr m, map_size m)#} {#map_fd m#}"
  by (simp add: frees_def unmapfile_def)

lemma frees_module: "frees (module_free mm) (module_chunks mm) (module_maps mm) (module_fds mm)"
proof -
  have "frees (\<lambda>l4. bindE (Inr (unmapfile (mm_map mm) l4)) (mem_free (mm_self mm))) (chunk_of (mm_self mm)) (module_maps mm) (module_fds mm)"
    using frees_then [OF frees_unmap frees_mem_free] by simp
  then have "frees (\<lambda>l4. mem_free (mm_self mm) (unmapfile (mm_map mm) l4)) (chunk_of (mm_self mm)) (module_maps mm) (module_fds mm)"
    by simp
  from frees_seq [OF frees_funcs frees_seq [OF frees_mem_free frees_seq [OF frees_mem_free frees_seq [OF frees_each this]]]]
  show ?thesis by (simp add: module_free_def [abs_def] module_chunks_def add.assoc)
qed

section \<open>Taking\<close>

text \<open>What an operation has taken, from a ledger whose addresses are not null.\<close>

definition took :: "addr multiset \<Rightarrow> (addr \<times> nat) multiset \<Rightarrow> int multiset \<Rightarrow> ledger \<Rightarrow> ledger \<Rightarrow> bool" where
  "took M A D l l' \<longleftrightarrow> 0 < led_top l' \<and> led_chunks l' = led_chunks l + M \<and> led_maps l' = led_maps l + A
     \<and> led_fds l' = led_fds l + D"

lemma took_nothing: "0 < led_top l \<Longrightarrow> took {#} {#} {#} l l"
  by (simp add: took_def)

lemma took_then: "took M A D l l1 \<Longrightarrow> took N B E l1 l2 \<Longrightarrow> took (M + N) (A + B) (D + E) l l2"
  by (simp add: took_def add.assoc)

lemma take_chunk_took:
  assumes "0 < led_top l" and "take_chunk n l = (l', p)" shows "took (chunk_of p) {#} {#} l l'" and "p \<noteq> 0"
proof -
  have p: "p = (led_top l + 15) div 16 * 16" and l': "l' = l\<lparr>led_chunks := add_mset p (led_chunks l), led_top := p + max 1 n\<rparr>"
    using assms(2) by (auto simp: take_chunk_def Let_def)
  show "p \<noteq> 0" using assms(1) unfolding p by simp
  then show "took (chunk_of p) {#} {#} l l'" by (simp add: l' took_def chunk_of_def)
qed

lemma took_seq: "took M {#} {#} l l1 \<Longrightarrow> took N A D l1 l2 \<Longrightarrow> took (M + N) A D l l2"
  using took_then [of M "{#}" "{#}" l l1 N A D l2] by simp

lemma took_top: "took M A D l l' \<Longrightarrow> 0 < led_top l'"
  by (simp add: took_def)

lemma take_each_took:
  assumes "0 < led_top l" and "take_each ns l = (l', ps)" shows "took (chunks_of ps) {#} {#} l l'"
  using assms
proof (induction ns arbitrary: l l' ps)
  case Nil
  then show ?case by (simp add: took_nothing)
next
  case (Cons n ns)
  obtain l1 p l2 qs where t: "take_chunk n l = (l1, p)" "take_each ns l1 = (l2, qs)" by fastforce
  note t1 = take_chunk_took(1) [OF Cons.prems(1) t(1)]
  from took_seq [OF t1 Cons.IH [OF took_top [OF t1] t(2)]] show ?case using Cons.prems(2) t by auto
qed

lemma take_func_took:
  assumes "0 < led_top l" and "take_func f l = (l', fm)"
  shows "took (func_chunks fm) {#} {#} l l'" and "fm_dbg_symbols fm = 0"
proof -
  have "took (func_chunks fm) {#} {#} l l' \<and> fm_dbg_symbols fm = 0"
  proof (cases "bcount f = 0")
    case True
    then show ?thesis using assms by (auto simp: take_func_def func_chunks_def chunk_of_def took_nothing)
  next
    case False
    obtain l1 b l2 m where t: "take_chunk (bcount f * 8) l = (l1, b)" "take_chunk (bmcount f * 2 * 4) l1 = (l2, m)" by fastforce
    note t1 = take_chunk_took(1) [OF assms(1) t(1)]
    from took_seq [OF t1 take_chunk_took(1) [OF took_top [OF t1] t(2)]] show ?thesis
      using False assms(2) t by (auto simp: take_func_def func_chunks_def)
  qed
  then show "took (func_chunks fm) {#} {#} l l'" "fm_dbg_symbols fm = 0" by simp_all
qed

lemma take_funcs_took:
  assumes "0 < led_top l" and "take_funcs fs l = (l', fms)"
  shows "took (sum_list (map func_chunks fms)) {#} {#} l l' \<and> (\<forall>fm \<in> set fms. fm_dbg_symbols fm = 0)"
  using assms
proof (induction fs arbitrary: l l' fms)
  case Nil
  then show ?case by (simp add: took_nothing)
next
  case (Cons f fs)
  obtain l1 fm l2 fms1 where t: "take_func f l = (l1, fm)" "take_funcs fs l1 = (l2, fms1)" by fastforce
  note t1 = take_func_took [OF Cons.prems(1) t(1)]
  note ih = Cons.IH [OF took_top [OF t1(1)] t(2)]
  from took_seq [OF t1(1) conjunct1 [OF ih]] ih t1(2) show ?case using Cons.prems(2) t by auto
qed

text \<open>The debug symbols add their chunks to what the functions own.\<close>

lemma take_dbg_took:
  assumes "0 < led_top l" and "\<forall>fm \<in> set fms. fm_dbg_symbols fm = 0" and "take_dbg ds fms l = (l', fms')"
  shows "\<exists>M. took M {#} {#} l l' \<and> sum_list (map func_chunks fms') = sum_list (map func_chunks fms) + M"
  using assms
proof (induction ds arbitrary: l l' fms fms')
  case Nil
  then show ?case using took_nothing by fastforce
next
  case (Cons d ds)
  show ?case
  proof (cases fms)
    case Nil
    then show ?thesis using Cons.prems took_nothing by fastforce
  next
    case fms: (Cons fm fms1)
    obtain l1 b l2 t l3 fms2 where t: "take_chunk (length (dbg_symbols d)) l = (l1, b)"
        "take_chunk (length (dbg_table d) * 8) l1 = (l2, t)" "take_dbg ds fms1 l2 = (l3, fms2)"
      by (metis prod.exhaust_sel)
    note t1 = take_chunk_took [OF Cons.prems(1) t(1)]
    note t2 = take_chunk_took [OF took_top [OF t1(1)] t(2)]
    have z: "\<forall>fm \<in> set fms1. fm_dbg_symbols fm = 0" "fm_dbg_symbols fm = 0" using Cons.prems(2) fms by simp_all
    from Cons.IH [OF took_top [OF t2(1)] z(1) t(3)] obtain M where
      M: "took M {#} {#} l2 l3" "sum_list (map func_chunks fms2) = sum_list (map func_chunks fms1) + M" by blast
    have r: "l' = l3" "fms' = fm\<lparr>fm_dbg_symbols := b, fm_dbg_table := t\<rparr> # fms2"
      using Cons.prems(3) t by (auto simp: fms Let_def)
    have "took (chunk_of b + (chunk_of t + M)) {#} {#} l l'"
      unfolding r(1) by (intro took_seq [OF t1(1)] took_seq [OF t2(1)] M(1))
    moreover have "sum_list (map func_chunks fms') = sum_list (map func_chunks fms) + (chunk_of b + (chunk_of t + M))"
      using z(2) t1(2) M(2) by (simp add: r(2) fms func_chunks_def ac_simps)
    ultimately show ?thesis by blast
  qed
qed

lemma take_module_found: "\<exists>l' mm. take_module (Some f) m cs ds l = Inr (l', mm)"
  by (simp add: take_module_def mapfile_def Let_def split_def)

lemma take_module_took:
  assumes "0 < led_top l" and "take_module file m cs ds l = Inr (l', mm)"
  shows "took (module_chunks mm) (module_maps mm) (module_fds mm) l l'"
proof -
  obtain l1 self where a: "take_chunk sizeof_module l = (l1, self)" by fastforce
  obtain mp where f: "file = Some mp" using assms(2) a by (auto simp: take_module_def mapfile_def split: option.splits)
  define l2 where "l2 = l1\<lparr>led_maps := led_maps l1 + {#(map_addr mp, map_size mp)#}, led_fds := led_fds l1 + {#map_fd mp#}\<rparr>"
  obtain l3 fp where b: "take_chunk (fun_count m * sizeof_func) l2 = (l3, fp)" by fastforce
  obtain l4 cp where c: "take_chunk (length (mod_consts m) * sizeof_obj) l3 = (l4, cp)" by fastforce
  obtain l5 chs where d: "take_each (map (\<lambda>n. sizeof_linked_mem + n) cs) l4 = (l5, chs)" by fastforce
  obtain l6 fms where e: "take_funcs (mod_functions m) l5 = (l6, fms)" by fastforce
  obtain l7 fms1 where g: "take_dbg ds fms l6 = (l7, fms1)" by fastforce
  have r: "l' = l7" "mm = \<lparr>mm_self = self, mm_map = mp, mm_functions = fp, mm_consts = cp, mm_allocator = rev chs, mm_funcs = fms1\<rparr>"
  proof -
    have "mapfile file l1 = Some (l2, mp)" by (simp add: f mapfile_def l2_def)
    then show "l' = l7" "mm = \<lparr>mm_self = self, mm_map = mp, mm_functions = fp, mm_consts = cp, mm_allocator = rev chs, mm_funcs = fms1\<rparr>"
      using assms(2) by (simp_all add: take_module_def a b c d e g)
  qed
  note ta = take_chunk_took(1) [OF assms(1) a]
  have tm: "took {#} {#(map_addr mp, map_size mp)#} {#map_fd mp#} l1 l2" using took_top [OF ta] by (simp add: took_def l2_def)
  note tb = take_chunk_took(1) [OF took_top [OF tm] b]
  note tc = take_chunk_took(1) [OF took_top [OF tb] c]
  note td = take_each_took [OF took_top [OF tc] d]
  note te = take_funcs_took [OF took_top [OF td] e]
  from take_dbg_took [OF took_top [OF conjunct1 [OF te]] conjunct2 [OF te] g] obtain M where
    M: "took M {#} {#} l6 l7" "sum_list (map func_chunks fms1) = sum_list (map func_chunks fms) + M" by blast
  have "took (chunk_of fp + (chunk_of cp + (chunks_of chs + (sum_list (map func_chunks fms) + M)))) {#} {#} l2 l7"
    by (intro took_seq [OF tb] took_seq [OF tc] took_seq [OF td] took_seq [OF conjunct1 [OF te]] M(1))
  from took_seq [OF ta took_then [OF tm this]] show ?thesis
    by (simp add: r module_chunks_def M(2) ac_simps)
qed

section \<open>Tables, threads and the process\<close>

text \<open>
  A hash table owns its array of chains and its nodes. \<^verbatim>\<open>hash_table_insert\<close> of a new key takes a node, and
  when \<^verbatim>\<open>hash_table_maybe_resize\<close> decides for a new size, the array is replaced.
\<close>

record table_mem =
  tm_array :: addr
  tm_nodes :: "addr list"

definition sizeof_hash_node :: nat where "sizeof_hash_node = 32"

definition take_table :: "ledger \<Rightarrow> ledger \<times> table_mem" where
  "take_table l = (let (l1, a) = take_chunk (HASH_TABLE_MIN_SIZE * 8) l in (l1, \<lparr>tm_array = a, tm_nodes = []\<rparr>))"

definition table_resize :: "nat option \<Rightarrow> table_mem \<Rightarrow> ledger \<Rightarrow> (ledger \<times> table_mem) outcome" where
  "table_resize sz tm l =
     (case sz of None \<Rightarrow> Inr (l, tm)
      | Some n \<Rightarrow> let (l1, a) = take_chunk (n * 8) l
                 in bindE (mem_free (tm_array tm) l1) (\<lambda>l2. Inr (l2, tm\<lparr>tm_array := a\<rparr>)))"

definition table_insert :: "nat option \<Rightarrow> table_mem \<Rightarrow> ledger \<Rightarrow> (ledger \<times> table_mem) outcome" where
  "table_insert sz tm l =
     (let (l1, nd) = take_chunk sizeof_hash_node l in table_resize sz (tm\<lparr>tm_nodes := nd # tm_nodes tm\<rparr>) l1)"

definition table_destroy :: "table_mem \<Rightarrow> ledger \<Rightarrow> ledger outcome" where
  "table_destroy tm l = bindE (free_each (tm_nodes tm) l) (mem_free (tm_array tm))"

definition table_chunks :: "table_mem \<Rightarrow> addr multiset" where
  "table_chunks tm = chunks_of (tm_nodes tm) + chunk_of (tm_array tm)"

text \<open>
  A thread owns the heap region, the operand stack, the old space once there is one, and the entries of the
  remembered set. Its events: \<^verbatim>\<open>heap_remember\<close>, \<^verbatim>\<open>forget\<close>, and the first promotion.
\<close>

record thread_mem =
  hm_mem :: addr
  hm_old :: addr
  hm_remembered :: "addr list"
  hm_stack :: addr

definition take_thread :: "ledger \<Rightarrow> ledger \<times> thread_mem" where
  "take_thread l =
     (let (l1, h) = take_chunk (FRESH_SIZE + SURVIVED_SIZE * 2) l;
          (l2, s) = take_chunk 4096 l1
      in (l2, \<lparr>hm_mem = h, hm_old = 0, hm_remembered = [], hm_stack = s\<rparr>))"

definition sizeof_remembered :: nat where "sizeof_remembered = 16"

definition remember :: "thread_mem \<Rightarrow> ledger \<Rightarrow> ledger \<times> thread_mem" where
  "remember th l = (let (l1, r) = take_chunk sizeof_remembered l in (l1, th\<lparr>hm_remembered := hm_remembered th @ [r]\<rparr>))"

definition forget_all :: "thread_mem \<Rightarrow> ledger \<Rightarrow> (ledger \<times> thread_mem) outcome" where
  "forget_all th l = bindE (free_each (hm_remembered th) l) (\<lambda>l1. Inr (l1, th\<lparr>hm_remembered := []\<rparr>))"

definition old_space :: "thread_mem \<Rightarrow> ledger \<Rightarrow> ledger \<times> thread_mem" where
  "old_space th l =
     (if hm_old th = 0 then let (l1, p) = take_chunk OLD_SIZE l in (l1, th\<lparr>hm_old := p\<rparr>) else (l, th))"

text \<open>\<^verbatim>\<open>heap_destroy\<close> and \<^verbatim>\<open>vm_thread_destroy\<close>.\<close>

definition heap_destroy :: "thread_mem \<Rightarrow> ledger \<Rightarrow> ledger outcome" where
  "heap_destroy th l =
     bindE (mem_free (hm_mem th) l) (\<lambda>l1.
     bindE (free_each (hm_remembered th) l1) (\<lambda>l2.
       if hm_old th \<noteq> 0 then mem_free (hm_old th) l2 else Inr l2))"

definition vm_thread_destroy :: "thread_mem \<Rightarrow> ledger \<Rightarrow> ledger outcome" where
  "vm_thread_destroy th l = bindE (heap_destroy th l) (mem_free (hm_stack th))"

definition thread_chunks :: "thread_mem \<Rightarrow> addr multiset" where
  "thread_chunks th = chunk_of (hm_mem th) + chunks_of (hm_remembered th) + chunk_of (hm_old th) + chunk_of (hm_stack th)"

text \<open>The whole process: the globals of \<^verbatim>\<open>vm.c\<close> and \<^verbatim>\<open>strings.c\<close> that own memory.\<close>

record process =
  p_led :: ledger
  p_sym :: table_mem
  p_builtin :: table_mem
  p_libs :: table_mem
  p_modules :: "module_mem list"
  p_pool :: "addr list"
  p_cache :: addr

definition sizeof_cache_path :: nat where "sizeof_cache_path = 256"

text \<open>
  \<^verbatim>\<open>vm_init\<close>; \<open>env\<close>: the environment has \<^verbatim>\<open>LGEARS_CACHE\<close>. The entries of the table of
  built-in functions follow as events.
\<close>

definition vm_init_mem :: "bool \<Rightarrow> ledger \<Rightarrow> process" where
  "vm_init_mem env l =
     (let (l1, b) = take_table l;
          (l2, s) = take_table l1;
          (l3, lb) = take_table l2;
          (l4, c) = (if env then (l3, 0) else take_chunk sizeof_cache_path l3)
      in \<lparr>p_led = l4, p_sym = s, p_builtin = b, p_libs = lb, p_modules = [], p_pool = [], p_cache = c\<rparr>)"

text \<open>
  The events of a run that touch the ledger: a new built-in function, a new symbol (its chunk in the constant pool
  and its table entry), a library that is loaded and entered, and the events of the thread.
\<close>

datatype event =
    New_Builtin "nat option"
  | New_Symbol nat "nat option"
  | New_Library "map_t option" module_t "nat list" "dbg_t list" "nat option"
  | Remember
  | Forget
  | Promote

fun step_event :: "event \<Rightarrow> process \<times> thread_mem \<Rightarrow> (process \<times> thread_mem) outcome" where
  "step_event (New_Builtin sz) (p, th) =
     bindE (table_insert sz (p_builtin p) (p_led p)) (\<lambda>(l, tm). Inr (p\<lparr>p_led := l, p_builtin := tm\<rparr>, th))"
| "step_event (New_Symbol n sz) (p, th) =
     (let (l1, c) = take_chunk (sizeof_linked_mem + n) (p_led p)
      in bindE (table_insert sz (p_sym p) l1) (\<lambda>(l2, tm).
           Inr (p\<lparr>p_led := l2, p_sym := tm, p_pool := c # p_pool p\<rparr>, th)))"
| "step_event (New_Library file m cs ds sz) (p, th) =
     bindE (take_module file m cs ds (p_led p)) (\<lambda>(l1, mm).
     bindE (table_insert sz (p_libs p) l1) (\<lambda>(l2, tm).
       Inr (p\<lparr>p_led := l2, p_libs := tm, p_modules := mm # p_modules p\<rparr>, th)))"
| "step_event Remember (p, th) = (let (l, th1) = remember th (p_led p) in Inr (p\<lparr>p_led := l\<rparr>, th1))"
| "step_event Forget (p, th) = bindE (forget_all th (p_led p)) (\<lambda>(l, th1). Inr (p\<lparr>p_led := l\<rparr>, th1))"
| "step_event Promote (p, th) = (let (l, th1) = old_space th (p_led p) in Inr (p\<lparr>p_led := l\<rparr>, th1))"

primrec run_events :: "event list \<Rightarrow> process \<times> thread_mem \<Rightarrow> (process \<times> thread_mem) outcome" where
  "run_events [] s = Inr s"
| "run_events (e # es) s = bindE (step_event e s) (run_events es)"

text \<open>
  \<^verbatim>\<open>vm_cleanup\<close>: the only cleanup among the native modules is that of the strings; the library table calls
  \<^verbatim>\<open>module_free\<close> on its values, each before its node goes.
\<close>

fun destroy_libs :: "module_mem list \<Rightarrow> addr list \<Rightarrow> ledger \<Rightarrow> ledger outcome" where
  "destroy_libs (mm # mms) (nd # nds) l =
     bindE (module_free mm l) (\<lambda>l1. bindE (mem_free nd l1) (destroy_libs mms nds))"
| "destroy_libs _ _ l = Inr l"

definition strings_cleanup :: "process \<Rightarrow> ledger \<Rightarrow> ledger outcome" where
  "strings_cleanup p l = table_destroy (p_sym p) l"

definition vm_cleanup :: "process \<Rightarrow> ledger outcome" where
  "vm_cleanup p =
     bindE (strings_cleanup p (p_led p)) (\<lambda>l1.
     bindE (table_destroy (p_builtin p) l1) (\<lambda>l2.
     bindE (destroy_libs (p_modules p) (tm_nodes (p_libs p)) l2) (\<lambda>l3.
     bindE (mem_free (tm_array (p_libs p)) l3) (\<lambda>l4.
       free_each (p_pool p) l4))))"

text \<open>
  \<^verbatim>\<open>main\<close>: the module is loaded, evaluated in a thread of its own, which is destroyed when the
  evaluation ends, and freed. The entries of the built-in functions are made by \<^verbatim>\<open>vm_init\<close>.
\<close>

definition process_main ::
  "bool \<Rightarrow> nat option list \<Rightarrow> map_t option \<Rightarrow> module_t \<Rightarrow> nat list \<Rightarrow> dbg_t list \<Rightarrow> event list \<Rightarrow> ledger \<Rightarrow> (ledger \<times> process) outcome"
where
  "process_main env szs file m cs ds es l =
     bindE (run_events (map New_Builtin szs) (vm_init_mem env l, \<lparr>hm_mem = 0, hm_old = 0, hm_remembered = [], hm_stack = 0\<rparr>)) (\<lambda>(p0, _).
     bindE (take_module file m cs ds (p_led p0)) (\<lambda>(l1, mm).
     let (l2, th) = take_thread l1 in
     bindE (run_events es (p0\<lparr>p_led := l2\<rparr>, th)) (\<lambda>(p1, th1).
     bindE (vm_thread_destroy th1 (p_led p1)) (\<lambda>l3.
     bindE (module_free mm l3) (\<lambda>l4.
     bindE (vm_cleanup (p1\<lparr>p_led := l4\<rparr>)) (\<lambda>l5. Inr (l5, p1)))))))"

section \<open>Nothing is lost\<close>

lemma frees_table: "frees (table_destroy tm) (table_chunks tm) {#} {#}"
  using frees_seq [OF frees_each frees_mem_free] by (simp add: table_destroy_def [abs_def] table_chunks_def)

lemma frees_thread: "frees (vm_thread_destroy th) (thread_chunks th) {#} {#}"
proof -
  have "frees (heap_destroy th) (chunk_of (hm_mem th) + (chunks_of (hm_remembered th) + chunk_of (hm_old th))) {#} {#}"
    unfolding heap_destroy_def [abs_def] by (intro frees_seq frees_mem_free frees_each frees_guarded)
  from frees_seq [OF this frees_mem_free] show ?thesis
    by (simp add: vm_thread_destroy_def [abs_def] thread_chunks_def add.assoc)
qed

lemma frees_libs:
  "length mms = length nds \<Longrightarrow> frees (destroy_libs mms nds) (sum_list (map module_chunks mms) + chunks_of nds)
     (sum_list (map (\<lambda>mm. module_maps mm) mms)) (sum_list (map (\<lambda>mm. module_fds mm) mms))"
proof (induction mms nds rule: list_induct2)
  case Nil
  then show ?case using frees_nothing by (simp add: destroy_libs.simps)
next
  case (Cons mm mms nd nds)
  from frees_then [OF frees_module frees_seq [OF frees_mem_free Cons.IH]] show ?case by (simp add: ac_simps)
qed

lemma freed: "frees f M A D \<Longrightarrow> led_chunks l = M + R \<Longrightarrow>
    f l = Inr (l\<lparr>led_chunks := R, led_maps := led_maps l - A, led_fds := led_fds l - D\<rparr>)"
  by (simp add: frees_def)

text \<open>The account: what the process and its thread own, and what somebody else does (\<open>E\<close>, \<open>A\<close>, \<open>D\<close>).\<close>

definition owned :: "process \<Rightarrow> thread_mem \<Rightarrow> addr multiset" where
  "owned p th = table_chunks (p_sym p) + table_chunks (p_builtin p) + table_chunks (p_libs p)
     + sum_list (map module_chunks (p_modules p)) + chunks_of (p_pool p) + chunk_of (p_cache p) + thread_chunks th"

definition accounted :: "addr multiset \<Rightarrow> (addr \<times> nat) multiset \<Rightarrow> int multiset \<Rightarrow> process \<times> thread_mem \<Rightarrow> bool" where
  "accounted E A D = (\<lambda>(p, th). 0 < led_top (p_led p) \<and> led_chunks (p_led p) = owned p th + E
     \<and> led_maps (p_led p) = sum_list (map (\<lambda>mm. module_maps mm) (p_modules p)) + A
     \<and> led_fds (p_led p) = sum_list (map (\<lambda>mm. module_fds mm) (p_modules p)) + D
     \<and> length (p_modules p) = length (tm_nodes (p_libs p)))"

lemma table_insert_account:
  assumes "0 < led_top l" and "led_chunks l = table_chunks tm + R"
  shows "\<exists>l' tm'. table_insert sz tm l = Inr (l', tm') \<and> 0 < led_top l' \<and> led_chunks l' = table_chunks tm' + R
    \<and> led_maps l' = led_maps l \<and> led_fds l' = led_fds l \<and> length (tm_nodes tm') = Suc (length (tm_nodes tm))"
proof -
  obtain l1 nd where t: "take_chunk sizeof_hash_node l = (l1, nd)" by fastforce
  note t1 = take_chunk_took(1) [OF assms(1) t, unfolded took_def]
  show ?thesis
  proof (cases sz)
    case None
    have "table_insert sz tm l = Inr (l1, tm\<lparr>tm_nodes := nd # tm_nodes tm\<rparr>)"
      by (simp add: table_insert_def table_resize_def t None)
    moreover have "led_chunks l1 = table_chunks (tm\<lparr>tm_nodes := nd # tm_nodes tm\<rparr>) + R"
      using t1 assms(2) by (simp add: table_chunks_def)
    ultimately show ?thesis using t1 by auto
  next
    case (Some n)
    obtain l2 a where u: "take_chunk (n * 8) l1 = (l2, a)" by fastforce
    note t2 = take_chunk_took(1) [OF conjunct1 [OF t1] u, unfolded took_def]
    have "led_chunks l2 = chunk_of (tm_array tm) + (chunks_of (tm_nodes tm) + chunk_of nd + chunk_of a + R)"
      using t1 t2 assms(2) by (simp add: table_chunks_def)
    note fr = freed [OF frees_mem_free this]
    have "table_insert sz tm l = Inr (l2\<lparr>led_chunks := chunks_of (tm_nodes tm) + chunk_of nd + chunk_of a + R\<rparr>,
        tm\<lparr>tm_nodes := nd # tm_nodes tm, tm_array := a\<rparr>)"
      using fr by (simp add: table_insert_def table_resize_def t u Some)
    moreover have "chunks_of (tm_nodes tm) + chunk_of nd + chunk_of a + R =
        table_chunks (tm\<lparr>tm_nodes := nd # tm_nodes tm, tm_array := a\<rparr>) + R"
      by (simp add: table_chunks_def)
    ultimately show ?thesis using t1 t2 by auto
  qed
qed

text \<open>A table of the process grows: the account moves from the table as it was to the table as it is.\<close>

lemma owned_update:
  "owned (p\<lparr>p_led := l, p_builtin := tm\<rparr>) th + table_chunks (p_builtin p) = owned p th + table_chunks tm"
  "owned (p\<lparr>p_led := l, p_sym := tm, p_pool := c # p_pool p\<rparr>) th + table_chunks (p_sym p) = owned p th + table_chunks tm + chunk_of c"
  "owned (p\<lparr>p_led := l, p_libs := tm, p_modules := mm # p_modules p\<rparr>) th + table_chunks (p_libs p)
     = owned p th + table_chunks tm + module_chunks mm"
  "owned (p\<lparr>p_led := l\<rparr>) th = owned p th"
  by (simp_all add: owned_def)

lemma owned_table:
  "\<exists>R. owned p th = table_chunks (p_builtin p) + R" "\<exists>R. owned p th = table_chunks (p_sym p) + R"
  "\<exists>R. owned p th = table_chunks (p_libs p) + R" "\<exists>R. owned p th = chunks_of (hm_remembered th) + R"
  by (simp_all add: owned_def thread_chunks_def mset_subset_eq_exists_conv [symmetric] subset_mset.add_increasing)

lemma owned_thread:
  "owned p (th\<lparr>hm_remembered := rs\<rparr>) + chunks_of (hm_remembered th) = owned p th + chunks_of rs"
  "owned p (th\<lparr>hm_old := q\<rparr>) + chunk_of (hm_old th) = owned p th + chunk_of q"
  by (simp_all add: owned_def thread_chunks_def)

definition library_found :: "event \<Rightarrow> bool" where
  "library_found e \<longleftrightarrow> (\<forall>m cs ds sz. e \<noteq> New_Library None m cs ds sz)"


text \<open>What the account says of the process \<open>p\<close> and the thread \<open>th\<close>, with a symbol of its own.\<close>

lemma accounted_pair:
  "accounted E A D (p, th) \<longleftrightarrow> 0 < led_top (p_led p) \<and> led_chunks (p_led p) = owned p th + E
     \<and> led_maps (p_led p) = sum_list (map (\<lambda>mm. module_maps mm) (p_modules p)) + A
     \<and> led_fds (p_led p) = sum_list (map (\<lambda>mm. module_fds mm) (p_modules p)) + D
     \<and> length (p_modules p) = length (tm_nodes (p_libs p))"
  by (simp add: accounted_def)

lemma swap_part: "X + (t :: 'a multiset) = (t + R) + u \<Longrightarrow> X = u + R"
  by simp

lemma builtin_account:
  assumes acc: "accounted E A D (p, th)" and i: "table_insert sz (p_builtin p) (p_led p) = Inr (l', tm)"
  shows "accounted E A D (p\<lparr>p_led := l', p_builtin := tm\<rparr>, th)"
proof -
  obtain R where R: "owned p th = table_chunks (p_builtin p) + R" using owned_table(1) by blast
  have "led_chunks (p_led p) = table_chunks (p_builtin p) + (R + E)" using acc R by (simp add: accounted_pair)
  from table_insert_account [OF _ this, of sz] i have i1: "0 < led_top l' \<and> led_chunks l' = table_chunks tm + (R + E)
      \<and> led_maps l' = led_maps (p_led p) \<and> led_fds l' = led_fds (p_led p)" using acc by (auto simp: accounted_pair)
  have "owned (p\<lparr>p_led := l', p_builtin := tm\<rparr>) th = table_chunks tm + R"
    by (rule swap_part [of _ "table_chunks (p_builtin p)"]) (simp add: owned_update R)
  then show ?thesis using acc i1 by (simp add: accounted_pair)
qed

lemma symbol_account:
  assumes acc: "accounted E A D (p, th)" and t: "take_chunk n (p_led p) = (l1, c)"
    and i: "table_insert sz (p_sym p) l1 = Inr (l', tm)"
  shows "accounted E A D (p\<lparr>p_led := l', p_sym := tm, p_pool := c # p_pool p\<rparr>, th)"
proof -
  have top: "0 < led_top (p_led p)" using acc by (simp add: accounted_pair)
  note t1 = take_chunk_took(1) [OF top t, unfolded took_def]
  obtain R where R: "owned p th = table_chunks (p_sym p) + R" using owned_table(2) by blast
  have "led_chunks l1 = table_chunks (p_sym p) + (R + E + chunk_of c)" using acc t1 R by (simp add: accounted_pair)
  from table_insert_account [OF _ this, of sz] i have i1: "0 < led_top l' \<and> led_chunks l' = table_chunks tm + (R + E + chunk_of c)
      \<and> led_maps l' = led_maps l1 \<and> led_fds l' = led_fds l1" using t1 by auto
  have "owned (p\<lparr>p_led := l', p_sym := tm, p_pool := c # p_pool p\<rparr>) th = (table_chunks tm + chunk_of c) + R"
    by (rule swap_part [of _ "table_chunks (p_sym p)"]) (simp add: owned_update R)
  then show ?thesis using acc i1 t1 by (simp add: accounted_pair)
qed

lemma library_account:
  assumes acc: "accounted E A D (p, th)" and t: "take_module file m cs ds (p_led p) = Inr (l1, mm)"
    and i: "table_insert sz (p_libs p) l1 = Inr (l', tm)"
  shows "accounted E A D (p\<lparr>p_led := l', p_libs := tm, p_modules := mm # p_modules p\<rparr>, th)"
proof -
  have top: "0 < led_top (p_led p)" using acc by (simp add: accounted_pair)
  note t1 = take_module_took [OF top t, unfolded took_def]
  obtain R where R: "owned p th = table_chunks (p_libs p) + R" using owned_table(3) by blast
  have "led_chunks l1 = table_chunks (p_libs p) + (R + E + module_chunks mm)" using acc t1 R by (simp add: accounted_pair)
  from table_insert_account [OF _ this, of sz] i have i1: "0 < led_top l' \<and> led_chunks l' = table_chunks tm + (R + E + module_chunks mm)
      \<and> led_maps l' = led_maps l1 \<and> led_fds l' = led_fds l1 \<and> length (tm_nodes tm) = Suc (length (tm_nodes (p_libs p)))"
    using t1 by auto
  have "owned (p\<lparr>p_led := l', p_libs := tm, p_modules := mm # p_modules p\<rparr>) th = (table_chunks tm + module_chunks mm) + R"
    by (rule swap_part [of _ "table_chunks (p_libs p)"]) (simp add: owned_update R)
  then show ?thesis using acc i1 t1 by (simp add: accounted_pair)
qed


lemma thread_event_account:
  assumes acc: "accounted E A D (p, th)"
  shows "remember th (p_led p) = (l1, th1) \<Longrightarrow> accounted E A D (p\<lparr>p_led := l1\<rparr>, th1)"
    and "old_space th (p_led p) = (l1, th1) \<Longrightarrow> accounted E A D (p\<lparr>p_led := l1\<rparr>, th1)"
    and "\<exists>l1 th1. forget_all th (p_led p) = Inr (l1, th1) \<and> accounted E A D (p\<lparr>p_led := l1\<rparr>, th1)"
proof -
  have top: "0 < led_top (p_led p)" using acc by (simp add: accounted_pair)
  show "accounted E A D (p\<lparr>p_led := l1\<rparr>, th1)" if r: "remember th (p_led p) = (l1, th1)"
  proof -
    obtain r where t: "take_chunk sizeof_remembered (p_led p) = (l1, r)" "th1 = th\<lparr>hm_remembered := hm_remembered th @ [r]\<rparr>"
      using r by (cases "take_chunk sizeof_remembered (p_led p)") (auto simp: remember_def)
    have "owned p th1 = chunk_of r + owned p th"
      unfolding t(2) by (rule swap_part [of _ "chunks_of (hm_remembered th)"]) (simp add: owned_thread)
    then show ?thesis using acc take_chunk_took(1) [OF top t(1), unfolded took_def] by (simp add: accounted_pair owned_update)
  qed
  show "accounted E A D (p\<lparr>p_led := l1\<rparr>, th1)" if r: "old_space th (p_led p) = (l1, th1)"
  proof (cases "hm_old th = 0")
    case True
    obtain q where t: "take_chunk OLD_SIZE (p_led p) = (l1, q)" "th1 = th\<lparr>hm_old := q\<rparr>"
      using r True by (cases "take_chunk OLD_SIZE (p_led p)") (auto simp: old_space_def)
    have "owned p th1 = chunk_of q + owned p th"
      using owned_thread(2) [of p q th] by (simp add: t(2) True chunk_of_def [of 0])
    then show ?thesis using acc take_chunk_took(1) [OF top t(1), unfolded took_def] by (simp add: accounted_pair owned_update)
  next
    case False
    then show ?thesis using acc r by (simp add: old_space_def accounted_pair owned_update)
  qed
  obtain R where R: "owned p th = chunks_of (hm_remembered th) + R" using owned_table(4) by blast
  have "led_chunks (p_led p) = chunks_of (hm_remembered th) + (R + E)" using acc R by (simp add: accounted_pair)
  note fr = freed [OF frees_each this]
  have "owned p (th\<lparr>hm_remembered := []\<rparr>) = {#} + R"
    by (rule swap_part [of _ "chunks_of (hm_remembered th)"]) (simp add: owned_thread R)
  then show "\<exists>l1 th1. forget_all th (p_led p) = Inr (l1, th1) \<and> accounted E A D (p\<lparr>p_led := l1\<rparr>, th1)"
    using acc fr top by (simp add: forget_all_def accounted_pair owned_update)
qed

lemma step_event_account:
  assumes acc: "accounted E A D (p, th)" and "library_found e"
  shows "\<exists>p' th'. step_event e (p, th) = Inr (p', th') \<and> accounted E A D (p', th') \<and> p_cache p' = p_cache p"
proof (cases e)
  case (New_Builtin sz)
  obtain R where "owned p th = table_chunks (p_builtin p) + R" using owned_table(1) by blast
  then have "led_chunks (p_led p) = table_chunks (p_builtin p) + (R + E)" using acc by (simp add: accounted_pair)
  from table_insert_account [OF _ this, of sz] obtain l' tm where i: "table_insert sz (p_builtin p) (p_led p) = Inr (l', tm)"
    using acc by (auto simp: accounted_pair)
  show ?thesis using builtin_account [OF acc i] by (simp add: New_Builtin i)
next
  case (New_Symbol n sz)
  obtain l1 c where t: "take_chunk (sizeof_linked_mem + n) (p_led p) = (l1, c)" by fastforce
  note t1 = take_chunk_took(1) [OF conjunct1 [OF acc [unfolded accounted_pair]] t, unfolded took_def]
  obtain R where "owned p th = table_chunks (p_sym p) + R" using owned_table(2) by blast
  then have "led_chunks l1 = table_chunks (p_sym p) + (R + E + chunk_of c)" using acc t1 by (simp add: accounted_pair)
  from table_insert_account [OF _ this, of sz] obtain l' tm where i: "table_insert sz (p_sym p) l1 = Inr (l', tm)" using t1 by auto
  show ?thesis using symbol_account [OF acc t i] by (simp add: New_Symbol t i)
next
  case (New_Library fl m cs ds sz)
  obtain f where "fl = Some f" using assms(2) by (cases fl) (auto simp: library_found_def New_Library)
  then obtain l1 mm where t: "take_module fl m cs ds (p_led p) = Inr (l1, mm)" using take_module_found by blast
  note t1 = take_module_took [OF conjunct1 [OF acc [unfolded accounted_pair]] t, unfolded took_def]
  obtain R where "owned p th = table_chunks (p_libs p) + R" using owned_table(3) by blast
  then have "led_chunks l1 = table_chunks (p_libs p) + (R + E + module_chunks mm)" using acc t1 by (simp add: accounted_pair)
  from table_insert_account [OF _ this, of sz] obtain l' tm where i: "table_insert sz (p_libs p) l1 = Inr (l', tm)" using t1 by auto
  show ?thesis using library_account [OF acc t i] by (simp add: New_Library t i)
next
  case Remember
  show ?thesis using thread_event_account(1) [OF acc] by (cases "remember th (p_led p)") (simp add: Remember)
next
  case Forget
  show ?thesis using thread_event_account(3) [OF acc] by (auto simp: Forget)
next
  case Promote
  show ?thesis using thread_event_account(2) [OF acc] by (cases "old_space th (p_led p)") (simp add: Promote)
qed

lemma run_events_account:
  assumes "accounted E A D (p, th)" and "\<forall>e \<in> set es. library_found e"
  shows "\<exists>p' th'. run_events es (p, th) = Inr (p', th') \<and> accounted E A D (p', th') \<and> p_cache p' = p_cache p"
  using assms
proof (induction es arbitrary: p th)
  case (Cons e es)
  then obtain p1 th1 where s1: "step_event e (p, th) = Inr (p1, th1)" "accounted E A D (p1, th1)" "p_cache p1 = p_cache p"
    using step_event_account [of E A D p th e] by auto
  from Cons.IH [OF s1(2)] Cons.prems(2) show ?case using s1 by simp
qed simp

section \<open>The whole run\<close>

lemma accounted_init:
  assumes "0 < led_top l"
  defines "th0 \<equiv> \<lparr>hm_mem = 0, hm_old = 0, hm_remembered = [], hm_stack = 0\<rparr>"
  shows "accounted (led_chunks l) (led_maps l) (led_fds l) (vm_init_mem env l, th0) \<and> (p_cache (vm_init_mem env l) = 0 \<longleftrightarrow> env)"
proof -
  obtain l1 b l2 s l3 lb l4 c where t: "take_table l = (l1, b)" "take_table l1 = (l2, s)" "take_table l2 = (l3, lb)"
      "(if env then (l3, 0) else take_chunk sizeof_cache_path l3) = (l4, c)"
    by (metis prod.exhaust_sel)
  have tt: "took (table_chunks tm) {#} {#} ll ll' \<and> tm_nodes tm = []" if "take_table ll = (ll', tm)" "0 < led_top ll" for ll ll' tm
    using that take_chunk_took(1) [OF that(2), of "HASH_TABLE_MIN_SIZE * 8"]
    by (cases "take_chunk (HASH_TABLE_MIN_SIZE * 8) ll") (auto simp: take_table_def table_chunks_def)
  note t1 = tt [OF t(1) assms(1)]
  note t2 = tt [OF t(2) took_top [OF conjunct1 [OF t1]]]
  note t3 = tt [OF t(3) took_top [OF conjunct1 [OF t2]]]
  have t4: "took (chunk_of c) {#} {#} l3 l4 \<and> (c = 0 \<longleftrightarrow> env)"
    using t(4) take_chunk_took [OF took_top [OF conjunct1 [OF t3]], of sizeof_cache_path l4 c] took_top [OF conjunct1 [OF t3]]
    by (auto simp: took_nothing chunk_of_def split: if_splits)
  have v: "vm_init_mem env l = \<lparr>p_led = l4, p_sym = s, p_builtin = b, p_libs = lb, p_modules = [], p_pool = [], p_cache = c\<rparr>"
    using t by (simp add: vm_init_mem_def)
  have "led_chunks l4 = owned (vm_init_mem env l) th0 + led_chunks l"
    using t1 t2 t3 t4 by (simp add: v th0_def owned_def took_def thread_chunks_def chunk_of_def [of 0])
  then show ?thesis using t1 t2 t3 t4 by (simp add: accounted_pair v took_def)
qed

lemma vm_cleanup_account:
  assumes l: "led_chunks (p_led p) = owned p th + E" and th: "thread_chunks th = {#}"
    and A: "led_maps (p_led p) = sum_list (map (\<lambda>mm. module_maps mm) (p_modules p)) + A"
    and D: "led_fds (p_led p) = sum_list (map (\<lambda>mm. module_fds mm) (p_modules p)) + D"
    and n: "length (p_modules p) = length (tm_nodes (p_libs p))"
  shows "\<exists>l'. vm_cleanup p = Inr l' \<and> led_chunks l' = chunk_of (p_cache p) + E \<and> led_maps l' = A \<and> led_fds l' = D"
proof -
  define M where "M = table_chunks (p_sym p) + (table_chunks (p_builtin p) + ((sum_list (map module_chunks (p_modules p)) + chunks_of (tm_nodes (p_libs p)))
    + (chunk_of (tm_array (p_libs p)) + chunks_of (p_pool p))))"
  have f: "frees (\<lambda>l. bindE (table_destroy (p_sym p) l) (\<lambda>l1. bindE (table_destroy (p_builtin p) l1) (\<lambda>l2.
      bindE (destroy_libs (p_modules p) (tm_nodes (p_libs p)) l2) (\<lambda>l3. bindE (mem_free (tm_array (p_libs p)) l3) (free_each (p_pool p))))))
      M (sum_list (map (\<lambda>mm. module_maps mm) (p_modules p))) (sum_list (map (\<lambda>mm. module_fds mm) (p_modules p)))"
    using frees_seq [OF frees_table frees_seq [OF frees_table frees_then [OF frees_libs [OF n] frees_seq [OF frees_mem_free frees_each]]]]
    by (simp add: M_def)
  have "led_chunks (p_led p) = M + (chunk_of (p_cache p) + E)"
    by (simp add: l owned_def th M_def table_chunks_def)
  from freed [OF f this] show ?thesis by (simp add: vm_cleanup_def strings_cleanup_def A D)
qed

lemma builtins_no_thread:
  "run_events (map New_Builtin szs) (p, th) = Inr (p', th') \<Longrightarrow> th' = th"
proof (induction szs arbitrary: p)
  case (Cons sz szs)
  then show ?case by (cases "table_insert sz (p_builtin p) (p_led p)") auto
qed simp

text \<open>The module and the thread of \<^verbatim>\<open>main\<close> join the account, the module as somebody else's.\<close>

lemma main_account:
  assumes acc: "accounted E A D (p, th0)" and th0: "thread_chunks th0 = {#}"
    and m: "take_module file m cs ds (p_led p) = Inr (l1, mm)" and t: "take_thread l1 = (l2, th)"
  shows "accounted (module_chunks mm + E) (module_maps mm + A) (module_fds mm + D) (p\<lparr>p_led := l2\<rparr>, th)"
proof -
  note t1 = take_module_took [OF conjunct1 [OF acc [unfolded accounted_pair]] m]
  obtain la h lb st where c: "take_chunk (FRESH_SIZE + SURVIVED_SIZE * 2) l1 = (la, h)" "take_chunk 4096 la = (lb, st)" by fastforce
  note t2 = take_chunk_took(1) [OF took_top [OF t1] c(1)]
  note t3 = take_chunk_took(1) [OF took_top [OF t2] c(2)]
  have th: "l2 = lb" "th = \<lparr>hm_mem = h, hm_old = 0, hm_remembered = [], hm_stack = st\<rparr>" using t c by (simp_all add: take_thread_def)
  have "owned (p\<lparr>p_led := l2\<rparr>) th = chunk_of h + chunk_of st + owned p th0"
    using th0 by (simp add: owned_def th thread_chunks_def chunk_of_def [of 0])
  then show ?thesis using acc t1 t2 t3 by (simp add: accounted_pair took_def th(1))
qed

lemma no_thread: "thread_chunks \<lparr>hm_mem = 0, hm_old = 0, hm_remembered = [], hm_stack = 0\<rparr> = {#}"
  by (simp add: thread_chunks_def chunk_of_def)

lemma process_end:
  assumes acc: "accounted (module_chunks mm + E) (module_maps mm + A) (module_fds mm + D) (p, th)"
  shows "\<exists>l3 l4 l5. vm_thread_destroy th (p_led p) = Inr l3 \<and> module_free mm l3 = Inr l4 \<and> vm_cleanup (p\<lparr>p_led := l4\<rparr>) = Inr l5
    \<and> led_chunks l5 = chunk_of (p_cache p) + E \<and> led_maps l5 = A \<and> led_fds l5 = D"
proof -
  define th0 where "th0 = \<lparr>hm_mem = 0, hm_old = 0, hm_remembered = [], hm_stack = 0\<rparr>"
  define O1 where "O1 = owned p th0"
  have o: "owned p th = thread_chunks th + O1" by (simp add: O1_def owned_def th0_def no_thread)
  have "led_chunks (p_led p) = thread_chunks th + (module_chunks mm + (O1 + E))" using acc by (simp add: accounted_pair o)
  note d1 = freed [OF frees_thread this]
  define l3 where "l3 = (p_led p)\<lparr>led_chunks := module_chunks mm + (O1 + E)\<rparr>"
  have l3: "vm_thread_destroy th (p_led p) = Inr l3" using d1 by (simp add: l3_def)
  have "led_chunks l3 = module_chunks mm + (O1 + E)" by (simp add: l3_def)
  note d2 = freed [OF frees_module this]
  obtain l4 where l4: "module_free mm l3 = Inr l4" "led_chunks l4 = O1 + E" "led_maps l4 = led_maps l3 - module_maps mm"
      "led_fds l4 = led_fds l3 - module_fds mm" using d2 by simp
  have "\<exists>l5. vm_cleanup (p\<lparr>p_led := l4\<rparr>) = Inr l5 \<and> led_chunks l5 = chunk_of (p_cache (p\<lparr>p_led := l4\<rparr>)) + E \<and> led_maps l5 = A \<and> led_fds l5 = D"
    by (rule vm_cleanup_account [where th = th0]) (use acc l4 in \<open>simp_all add: accounted_pair l3_def O1_def owned_update th0_def no_thread\<close>)
  then show ?thesis using l3 l4 by auto
qed

text \<open>
  C22: A run of the virtual machine gives back what it took: however many built-in functions, symbols, libraries, remembered slots,
  minor collections and promotions it goes through, the module that main loads, the thread, every library with its
  debug symbols, every table and the constant pool are freed once, no address is freed that was not handed out, and at
  exit the file mappings and descriptors are those from before. Only one chunk stays behind: the path of the cache, which is taken
  exactly when the environment does not name one.
\<close>

theorem process_returns_its_memory:
  assumes "0 < led_top l" and "file \<noteq> None" and "\<forall>e \<in> set es. library_found e"
  shows "\<exists>l' p. process_main env szs file m cs ds es l = Inr (l', p)
    \<and> led_chunks l' = chunk_of (p_cache p) + led_chunks l \<and> led_maps l' = led_maps l \<and> led_fds l' = led_fds l
    \<and> (p_cache p = 0 \<longleftrightarrow> env)"
proof -
  define th0 where "th0 = \<lparr>hm_mem = 0, hm_old = 0, hm_remembered = [], hm_stack = 0\<rparr>"
  note init = accounted_init [OF assms(1), of env, folded th0_def]
  have "\<forall>e \<in> set (map New_Builtin szs). library_found e" by (auto simp: library_found_def)
  from run_events_account [OF conjunct1 [OF init] this] obtain p0 th0' where
    r0: "run_events (map New_Builtin szs) (vm_init_mem env l, th0) = Inr (p0, th0')"
      "accounted (led_chunks l) (led_maps l) (led_fds l) (p0, th0')" "p_cache p0 = p_cache (vm_init_mem env l)" by blast
  have th0': "th0' = th0" by (rule builtins_no_thread [OF r0(1)])
  obtain f where f: "file = Some f" using assms(2) by blast
  obtain l1 mm where m: "take_module file m cs ds (p_led p0) = Inr (l1, mm)" unfolding f using take_module_found by blast
  obtain l2 th where t: "take_thread l1 = (l2, th)" by fastforce
  have "thread_chunks th0' = {#}" by (simp add: th0' th0_def no_thread)
  from run_events_account [OF main_account [OF r0(2) this m t] assms(3)] obtain p1 th1 where
    r1: "run_events es (p0\<lparr>p_led := l2\<rparr>, th) = Inr (p1, th1)"
      "accounted (module_chunks mm + led_chunks l) (module_maps mm + led_maps l) (module_fds mm + led_fds l) (p1, th1)"
      "p_cache p1 = p_cache p0" by auto
  from process_end [OF r1(2)] obtain l3 l4 l5 where e: "vm_thread_destroy th1 (p_led p1) = Inr l3" "module_free mm l3 = Inr l4"
      "vm_cleanup (p1\<lparr>p_led := l4\<rparr>) = Inr l5" "led_chunks l5 = chunk_of (p_cache p1) + led_chunks l"
      "led_maps l5 = led_maps l" "led_fds l5 = led_fds l" by blast
  have "process_main env szs file m cs ds es l = Inr (l5, p1)"
    using r0(1) m t r1(1) e(1-3) by (simp add: process_main_def th0_def)
  then show ?thesis using e(4-6) r1(3) r0(3) conjunct2 [OF init] by simp
qed

lemma process_returns_its_memory_witness:
  "\<forall>m m1. \<exists>l' p. process_main False [None, Some 64] (Some \<lparr>map_addr = 4096, map_size = 100, map_fd = 3\<rparr>) m [3] []
      [New_Symbol 3 None, New_Library (Some \<lparr>map_addr = 8192, map_size = 60, map_fd = 4\<rparr>) m1 [1, 2] [] None, Remember, Forget, Promote, Remember]
      \<lparr>led_chunks = {#}, led_top = 1, led_maps = {#}, led_fds = {#}\<rparr> = Inr (l', p)
    \<and> led_chunks l' = {#p_cache p#} \<and> led_maps l' = {#} \<and> led_fds l' = {#}"
proof (intro allI)
  fix m m1 :: module_t
  define es :: "event list" where "es = [New_Symbol 3 None, New_Library (Some \<lparr>map_addr = 8192, map_size = 60, map_fd = 4\<rparr>) m1 [1, 2] [] None,
      Remember, Forget, Promote, Remember]"
  define l0 :: ledger where "l0 = \<lparr>led_chunks = {#}, led_top = 1, led_maps = {#}, led_fds = {#}\<rparr>"
  define f0 :: map_t where "f0 = \<lparr>map_addr = 4096, map_size = 100, map_fd = 3\<rparr>"
  have es: "\<forall>e \<in> set es. library_found e" by (simp add: es_def library_found_def)
  have "0 < led_top l0" "Some f0 \<noteq> None" by (simp_all add: l0_def)
  from process_returns_its_memory [OF this es, of False "[None, Some 64]" m "[3]" "[]"]
  have "\<exists>l' p. process_main False [None, Some 64] (Some f0) m [3] [] es l0 = Inr (l', p)
      \<and> led_chunks l' = {#p_cache p#} \<and> led_maps l' = {#} \<and> led_fds l' = {#}"
    by (fastforce simp: l0_def chunk_of_def)
  then show "\<exists>l' p. process_main False [None, Some 64] (Some \<lparr>map_addr = 4096, map_size = 100, map_fd = 3\<rparr>) m [3] []
      [New_Symbol 3 None, New_Library (Some \<lparr>map_addr = 8192, map_size = 60, map_fd = 4\<rparr>) m1 [1, 2] [] None, Remember, Forget, Promote, Remember]
      \<lparr>led_chunks = {#}, led_top = 1, led_maps = {#}, led_fds = {#}\<rparr> = Inr (l', p)
    \<and> led_chunks l' = {#p_cache p#} \<and> led_maps l' = {#} \<and> led_fds l' = {#}"
    unfolding es_def l0_def f0_def .
qed

end
