(* ===== verification/Spec2Isabelle.thy ===== *)
theory Spec2Isabelle
  imports Module_Roundtrip Loader_Bounds Stack_Machine Gc_Room Opcode_Tables Lifecycle
begin

text \<open>
  A verification development for lGears, a Scheme system. Its core is a virtual machine in C, the code
  under \<^verbatim>\<open>src/vm\<close>: it loads compiled modules, runs their continuation-passing code on an operand stack
  and a generational copying heap, and offers some forty built-in functions. The compiler, the reader and
  the library are Scheme programs that run on it.

  \<^bold>\<open>How the parts interact.\<close> \<^verbatim>\<open>main\<close> (\<^verbatim>\<open>vm.c\<close>) calls \<^verbatim>\<open>vm_init\<close>, which registers the
  object types (\<^verbatim>\<open>types.c\<close>) and installs the built-in functions in a hash table (\<^verbatim>\<open>hash.c\<close>), loads a
  module (\<^verbatim>\<open>module.c\<close>), whose constants are made by the constant allocator and whose symbols are interned in
  a second hash table, and evaluates it in a thread. \<^verbatim>\<open>eval_thread\<close> fetches opcodes; calls go through
  \<^verbatim>\<open>dispatch_func\<close>, which enters interpreted functions, closures and continuations or calls a built-in
  function with the arguments on the operand stack. Objects come from \<^verbatim>\<open>heap_alloc\<close> (\<^verbatim>\<open>heap.c\<close>), which
  runs a collection when the fresh space is full; the collector calls back into the thread for its roots and into the
  type table for the pointers inside an object.

  \<^bold>\<open>The model.\<close> Machine integers are words of their width, object words included; addresses and the
  fields that describe existing memory are naturals. Memory is a map from the addresses of block headers to blocks with a
  typed payload (\<open>Memory\<close>), and a write destroys the blocks that it overlaps, so the headers left in a
  recycled space are really gone: reading an object through an address where none starts any more is
  \<open>Undefined\<close>, even where C would read bytes left in the same mapped region. A block that is allocated has contents that nobody has
  written, \<open>P_Uninit\<close>, unless the space was cleared by the \<^verbatim>\<open>memset\<close> of \<^verbatim>\<open>space_reset0\<close> (the field
  \<open>sp_clear\<close>), as the fresh space always is. Interior pointers (\<^verbatim>\<open>st->fields\<close>, \<^verbatim>\<open>str->str\<close>) are kept as
  addresses and checked on use, because the collector has to update them. An operation that may stop the
  process returns a sum (\<open>outcome\<close>, \<open>Prelude\<close>): \<open>Fatal\<close> for the code's own abort,
  \<open>Undefined\<close> for an access that C leaves undefined, \<open>Fuel\<close> for the bound of a loop. State is passed
  explicitly. Native function errors are the return code \<open>RC_ERROR\<close>, as in the code.

  \<^bold>\<open>Theories and the code they model\<close> (in the order of their imports):
  \<^item> \<open>Prelude\<close>, \<open>Objects\<close>: word types, outcomes; the tagging macros of \<^verbatim>\<open>types.h\<close>.
  \<^item> \<open>Hash_Table\<close>: \<^verbatim>\<open>hash.c\<close>, with chains as lists and the destructor calls as a sequence;
    \<open>Hash_Correct\<close>: it is a finite map. The callbacks are the locale \<open>hash_funcs\<close>, the clients'
    view is the locale \<open>map_store\<close>; both are interpreted on the code's own hash functions.
  \<^item> \<open>Memory\<close>, \<open>Types_Table\<close> (\<^verbatim>\<open>types.c\<close>), \<open>Space\<close> (\<^verbatim>\<open>space_t\<close> of
    \<^verbatim>\<open>heap.c\<close>), \<open>Heap\<close> (\<^verbatim>\<open>heap_mark\<close> and the visitors of all object types),
    \<open>Collector\<close> (the scanning loops, minor and full collections), \<open>Thread\<close> (thread state, roots,
    \<^verbatim>\<open>heap_alloc\<close>, \<^verbatim>\<open>heap_require\<close>).
  \<^item> \<open>Allocator\<close>: \<^verbatim>\<open>allocator.h\<close>, \<^verbatim>\<open>const_allocator.c\<close> and the constructors that work on
    either allocator.
  \<^item> \<open>Module_Loader\<close>: \<^verbatim>\<open>module.c\<close>, and \<^verbatim>\<open>make_symbol\<close> of \<^verbatim>\<open>strings.c\<close>;
    \<open>Assembler\<close>: the writer it reads from, \<^verbatim>\<open>scheme/compiler/fasl.scm\<close>;
    \<open>Debug_Symbols\<close>: the debug symbols, written by the same file and read by \<^verbatim>\<open>module_load\<close>.
  \<^item> \<open>Native\<close>, \<open>Primitives\<close>, \<open>Structs\<close>, \<open>Strings\<close>, \<open>Bytevectors\<close>,
    \<open>Functions\<close>, \<open>Printer\<close>: the built-in functions of \<^verbatim>\<open>native.c\<close>, \<^verbatim>\<open>primitives.c\<close>,
    \<^verbatim>\<open>struct.c\<close>, \<^verbatim>\<open>strings.c\<close> and \<^verbatim>\<open>bytevector.c\<close>, one definition each.
  \<^item> \<open>Vm\<close>, \<open>Interp\<close>: \<^verbatim>\<open>vm.c\<close>: environments, closures, entering functions, exceptions, the
    opcodes, dispatch, libraries, and the machine as a step function \<open>vm_step\<close> and step relation;
    \<open>Opcode_Tables\<close>: the names and the jump table in \<^verbatim>\<open>opcodes.h\<close> and \<^verbatim>\<open>opcode_targets.h\<close>.
  \<^item> \<open>Lifecycle\<close>: the process from \<^verbatim>\<open>vm_init\<close> to \<^verbatim>\<open>vm_cleanup\<close> as a ledger of the
    memory it takes and frees (\<^verbatim>\<open>module_load\<close>, \<^verbatim>\<open>module_free\<close>, \<^verbatim>\<open>heap_destroy\<close>,
    \<^verbatim>\<open>vm_thread_destroy\<close>, \<^verbatim>\<open>hash_table_destroy\<close>, \<^verbatim>\<open>const_allocator_clean\<close>).

  \<^bold>\<open>What the lemmas show.\<close>
  \<^item> Heap: \<open>Gc_Inv\<close> has the invariant of the heap and of its spaces, \<open>Gc_Mark\<close>, \<open>Gc_Visit\<close>,
    \<open>Gc_Scan\<close> and \<open>Gc_Minor\<close> that marking, visiting (locale \<open>safe_visitor\<close>) and scanning keep it,
    \<open>Gc_Safety\<close> that a whole minor collection does; \<open>Gc_Graph\<close> that it copies the reachable graph
    faithfully, \<open>Gc_Const\<close> that it leaves constants alone, \<open>Gc_Room\<close> (locale
    \<open>fitting_visitor\<close>) that it does not fail while the survivors fit, so that allocation succeeds; \<open>Heap_Init\<close> starts the invariant and states the
    properties; \<open>Alloc_Safety\<close> is about allocating and filling an object.
  \<^item> Loader: \<open>Loader_Bytes\<close>, \<open>Const_Area\<close>, \<open>Loader_Consts\<close> and \<open>Module_Roundtrip\<close>
    prove that loading inverts assembling; \<open>Globals_Init\<close> that the tables start well; \<open>Loader_Bounds\<close>
    treats arbitrary bytes. \<open>Debug_Symbols\<close> has the round trip of the debug file.
  \<^item> Process: \<open>Lifecycle\<close> proves that operations free exactly what they own (\<open>frees\<close>), own exactly
    what they took (\<open>took\<close>), and that a run leaves one chunk behind; \<open>Opcode_Tables\<close> that the two ways of
    dispatching agree.
  \<^item> Interpreter: \<open>Stack_Machine\<close> is a reference machine on mathematical integers, and the simulation;
    \<open>Thread_Sound\<close>, \<open>Vm_Sound\<close>, \<open>Vm_Safety\<close>, \<open>Vm_Calls\<close>, \<open>Vm_Natives\<close> (locale
    \<open>safe_native\<close>, one interpretation per built-in function) and \<open>Vm_Step\<close> prove that a step keeps the
    invariant \<open>vm_ok\<close> and never accesses memory it must not, under readiness conditions
    (\<open>step_ready\<close>: indices in range, defined arithmetic, and none of the situations that the findings name). \<open>Vm_Lists\<close> (what the list functions build),
    \<open>Vm_Control\<close> (closures, continuations, exceptions) and \<open>Vm_Frames\<close> (arguments, lexical
    addressing) show what the parts compute, also when a minor collection runs in between; then values are the same up
    to the renaming of addresses by that collection (\<open>alloc_renames\<close>), an isomorphism of the object graph.
  \<^item> \<open>Faults\<close>, and the theorems named by the findings: where the code does not do what it means to.

  \<^bold>\<open>Bounds and termination.\<close> The scanning loops of the collector are total functions: a potential
  counts the free memory of the target spaces and the headers not yet remembered (\<open>Collector\<close>). The loops of
  the loader carry a bound above the number of bytes left, and \<open>module_parse_bounded\<close> shows that it is never
  reached. Loops over lists in the store, which may be cyclic, are partial functions that return \<open>None\<close>
  or bounded by the operand stack they fill. The machine itself need not stop; \<open>run_machine\<close> has fuel, and
  the theorems are about its steps.

  \<^bold>\<open>What is not modelled, and why.\<close> Thread creation, clocks
  (\<^verbatim>\<open>gettimeofday\<close>, \<^verbatim>\<open>gc_time\<close>) and debug output are operating system calls whose results the
  program does not read back; a file is a parameter (\<open>host\<close>) that gives its bytes and the address it is mapped to.
  \<^verbatim>\<open>malloc\<close> returns fresh aligned memory and does not fail. The ledger of \<open>Lifecycle\<close> follows chunks,
  not their contents: which event comes when, and the sizes that \<^verbatim>\<open>hash_table_maybe_resize\<close> chooses, are
  arbitrary there, so its theorem covers every run that comes to its end. Wide characters are printed as tokens, not encoded. The theorems on
  collections are about minor collections, the full one is modelled and only proved total: with moved old objects it can
  forward a pointer twice (see the findings). So every theorem in which an allocation may collect, those on the interpreter
  included, assumes that no full collection is pending, and this is not kept from step to step, because a minor
  collection may schedule a full one.
\<close>

end
